(* ===== verification/Prelude.thy ===== *)
theory Prelude
  imports Main "HOL-Library.Word" "HOL-Library.Sublist"
begin

unbundle bit_operations_syntax

text \<open>
  Shared vocabulary of the development.

  The C++ sources are translated with these conventions:
  \<^item> \<^verbatim>\<open>std::uint8_t/16_t/32_t/64_t\<close> values whose wrap-around or bit pattern matters
    are words of that width (\<open>u8\<close>, \<open>u16\<close>, \<open>u32\<close>, \<open>u64\<close>);
  \<^item> \<^verbatim>\<open>std::size_t\<close> positions and counts of in-memory buffers are \<open>nat\<close>; where the
    source computes with them in a way that could wrap, the wrap-around is written out;
  \<^item> \<^verbatim>\<open>std::span\<close> and \<^verbatim>\<open>std::vector\<close> are lists, \<^verbatim>\<open>std::optional\<close> is \<open>option\<close>,
    \<^verbatim>\<open>std::string\<close> is \<open>string\<close>;
  \<^item> an index is only read behind the guard the source has.
\<close>

section \<open>Types and automation shared by the components\<close>

type_synonym u8 = "8 word"
type_synonym u16 = "16 word"
type_synonym u32 = "32 word"
type_synonym u64 = "64 word"
type_synonym bytes = "u8 list"

named_theorems span_simps \<open>slices and ranges of byte buffers\<close>
named_theorems field_simps_w \<open>bit fields of opcode bytes and words\<close>

section \<open>Buffers\<close>

definition slice :: "nat \<Rightarrow> nat \<Rightarrow> 'a list \<Rightarrow> 'a list" where
  "slice start len xs = take len (drop start xs)"

lemma length_slice [simp]: "start + len \<le> length xs \<Longrightarrow> length (slice start len xs) = len"
  by (simp add: slice_def)

lemma nth_slice [simp]:
  "i < len \<Longrightarrow> start + len \<le> length xs \<Longrightarrow> slice start len xs ! i = xs ! (start + i)"
  by (simp add: slice_def)

lemma slice_append_mid [span_simps]: "slice (length xs) (length ys) (xs @ ys @ zs) = ys"
  by (simp add: slice_def)

lemma slice_0 [simp]: "slice 0 n xs = take n xs"
  by (simp add: slice_def)

lemma nth_append_at [span_simps]:
  "length pre = p \<Longrightarrow> (pre @ x # post) ! p = x"
  by auto

text \<open>Two buffers agree on a window.\<close>

definition agree_on :: "nat \<Rightarrow> nat \<Rightarrow> 'a list \<Rightarrow> 'a list \<Rightarrow> bool" where
  "agree_on lo hi xs ys \<longleftrightarrow> (\<forall>i. lo \<le> i \<and> i < hi \<longrightarrow> xs ! i = ys ! i)"

section \<open>Words and natural numbers\<close>

lemma unat_u8_less: "unat (b :: u8) < 256"
proof -
  have "unat b < 2 ^ LENGTH(8)" by (rule unsigned_less)
  then show ?thesis by simp
qed

lemma unat_u16_less: "unat (b :: u16) < 65536"
proof -
  have "unat b < 2 ^ LENGTH(16)" by (rule unsigned_less)
  then show ?thesis by simp
qed

lemma unat_u32_less: "unat (b :: u32) < 4294967296"
proof -
  have "unat b < 2 ^ LENGTH(32)" by (rule unsigned_less)
  then show ?thesis by simp
qed

lemma unat_of_nat_u8 [field_simps_w]: "n < 256 \<Longrightarrow> unat (of_nat n :: u8) = n"
  by (simp add: unat_of_nat)

lemma unat_of_nat_u16 [field_simps_w]: "n < 65536 \<Longrightarrow> unat (of_nat n :: u16) = n"
  by (simp add: unat_of_nat)

lemma unat_of_nat_u32 [field_simps_w]: "n < 4294967296 \<Longrightarrow> unat (of_nat n :: u32) = n"
  by (simp add: unat_of_nat)

lemma nat_shift_or: "lo < 2 ^ n \<Longrightarrow> push_bit n a OR lo = a * 2 ^ n + (lo :: nat)"
proof -
  assume "lo < 2 ^ n"
  then have lo: "lo = take_bit n lo" by (simp add: take_bit_nat_eq_self)
  have "push_bit n a + lo = push_bit n a OR lo"
    by (rule disjunctive_add) (subst lo, auto simp: bit_simps)
  then show ?thesis by (simp add: push_bit_eq_mult)
qed


lemma and_F8: "h < 256 \<Longrightarrow> h AND 0xF8 = 8 * (h div 8 :: nat)"
proof -
  assume "h < 256"
  then have "h div 8 < 2 ^ 5" by simp
  then have t: "take_bit 5 (h div 8) = h div 8" by (rule take_bit_nat_eq_self)
  have "h AND push_bit 3 (mask 5) = push_bit 3 (take_bit 5 (drop_bit 3 h))"
    by (rule bit_eqI) (auto simp: bit_simps)
  with t show ?thesis by (simp add: push_bit_eq_mult drop_bit_eq_div mask_eq_exp_minus_1)
qed

lemma unat_push_bit_small: 
  "unat a * 2 ^ n < 2 ^ LENGTH('a) \<Longrightarrow> unat (push_bit n (a :: 'a :: len word)) = unat a * 2 ^ n"
  unfolding unsigned_push_bit_eq unfolding push_bit_eq_mult by (rule take_bit_nat_eq_self)

lemma unat_ucast_u8: "unat (ucast (b :: u8) :: u32) = unat b"
  unfolding unsigned_ucast_eq using unat_u8_less [of b] by (intro take_bit_nat_eq_self) simp

lemma nat_and_7: "(x :: nat) AND 7 = x mod 8"
proof -
  have "x AND mask 3 = take_bit 3 x" by (simp add: take_bit_eq_mask)
  then show ?thesis by (simp add: mask_eq_exp_minus_1 take_bit_eq_mod)
qed

lemma unat_drop_bit: "unat (drop_bit n w) = unat w div 2 ^ n"
  unfolding unat_drop_bit_eq by (rule drop_bit_eq_div)

lemma unat_eqI: "unat v = unat w \<Longrightarrow> v = w"
  by (rule unsigned_word_eqI)

text \<open>A property of all bytes is a property of 256 numerals.\<close>

lemma all_bytes_iff: "(\<forall>b :: u8. P b) \<longleftrightarrow> (\<forall>n < 256. P (of_nat n))"
proof
  assume *: "\<forall>n < 256. P (of_nat n)"
  show "\<forall>b. P b"
  proof
    fix b :: u8
    have "P (of_nat (unat b))" using * unat_u8_less by blast
    then show "P b" by simp
  qed
qed simp

lemma all_bytes_list: "(\<forall>b :: u8. P b) \<longleftrightarrow> list_all (\<lambda>n. P (of_nat n)) [0..<256]"
  unfolding all_bytes_iff by (auto simp: list_all_iff)

section \<open>Sorted sets\<close>

text \<open>Sorting and dropping repetitions gives the strictly ascending list of a set.\<close>

lemma distinct_remdups_adj_sorted: "sorted xs \<Longrightarrow> distinct (remdups_adj xs)"
  by (induction xs rule: remdups_adj.induct) (auto simp: order.antisym)

lemma strict_sorted_unique: "sorted_wrt (<) (remdups_adj (sort (xs :: 'a :: linorder list)))"
  by (simp add: strict_sorted_iff distinct_remdups_adj_sorted)

lemma card_unique: "card (set (xs :: 'a :: linorder list)) = length (remdups_adj (sort xs))"
  using strict_sorted_unique [of xs] distinct_card [of "remdups_adj (sort xs)"] by (simp add: strict_sorted_iff)

section \<open>Copies from earlier output\<close>

text \<open>
  The copy of the Lempel-Ziv formats: \<open>n\<close> bytes from distance \<open>dist\<close> repeat the last
  \<open>dist\<close> bytes of the output periodically.
\<close>

definition lz_copy :: "nat \<Rightarrow> nat \<Rightarrow> bytes \<Rightarrow> bytes" where
  "lz_copy dist n out = out @ map (\<lambda>i. out ! (length out - dist + i mod dist)) [0..<n]"

lemma length_lz_copy [simp]: "length (lz_copy dist n out) = length out + n"
  by (simp add: lz_copy_def)

lemma lz_copy_0 [simp]: "lz_copy dist 0 out = out"
  by (simp add: lz_copy_def)

text \<open>Byte by byte, each copied byte comes from what is already there.\<close>

lemma lz_copy_Suc:
  assumes "1 \<le> dist" "dist \<le> length out"
  shows "lz_copy dist (Suc n) out = lz_copy dist n out @ [lz_copy dist n out ! (length out + n - dist)]"
proof -
  have "lz_copy dist n out ! (length out + n - dist) = out ! (length out - dist + n mod dist)"
  proof (cases "n < dist")
    case True
    then have "length out + n - dist < length out" using assms by linarith
    with True show ?thesis using assms by (simp add: lz_copy_def nth_append)
  next
    case False
    then have "lz_copy dist n out ! (length out + n - dist) = out ! (length out - dist + (n - dist) mod dist)"
      using assms by (simp add: lz_copy_def nth_append)
    then show ?thesis using False by (simp add: le_mod_geq)
  qed
  then show ?thesis by (simp add: lz_copy_def)
qed

end
