(* ===== verification/Kosinski.thy ===== *)
theory Kosinski
  imports Prelude
begin

text \<open>
  The Kosinski LZ decoder of \<^verbatim>\<open>libs/core/include/segarecomp/core/kosinski.hpp\<close>, used by
  the Sega CD epoch recipe and by the static Z80 producer. The decoder's mutable locals
  (\<open>pos\<close>, \<open>bits\<close>, \<open>left\<close> and the output vector) form one record; its lambdas
  \<open>next_byte\<close>, \<open>refill\<close>, \<open>bit\<close> and \<open>copy\<close> are functions on it; the token loop is a
  recursion on the number of tokens it may still read, which the source bounds.
\<close>

section \<open>Model\<close>

datatype KosinskiError =
  KE_none | KE_source_exhausted | KE_reference_before_stream | KE_decoded_length_exceeded
| KE_token_bound_exceeded

record KosinskiResult =
  kr_error :: KosinskiError
  kr_output :: bytes
  kr_end :: nat

record kos_state =
  ks_pos :: nat
  ks_bits :: u32
  ks_left :: nat
  ks_out :: bytes

definition kKosinskiMaxTokens :: nat where
  "kKosinskiMaxTokens = 2 ^ 22"

definition kos_fail :: "KosinskiError \<Rightarrow> bytes \<Rightarrow> KosinskiResult" where
  "kos_fail e out = \<lparr>kr_error = e, kr_output = out, kr_end = 0\<rparr>"

definition kos_next_byte :: "bytes \<Rightarrow> kos_state \<Rightarrow> (u32 \<times> kos_state) option" where
  "kos_next_byte source s =
     (if ks_pos s \<ge> length source then None
      else Some (ucast (source ! ks_pos s), s\<lparr>ks_pos := ks_pos s + 1\<rparr>))"

definition kos_refill :: "bytes \<Rightarrow> kos_state \<Rightarrow> kos_state option" where
  "kos_refill source s =
     (case kos_next_byte source s of None \<Rightarrow> None
      | Some (lo, s1) \<Rightarrow>
         (case kos_next_byte source s1 of None \<Rightarrow> None
          | Some (hi, s2) \<Rightarrow> Some (s2\<lparr>ks_bits := lo OR push_bit 8 hi, ks_left := 16\<rparr>)))"

definition kos_bit :: "bytes \<Rightarrow> kos_state \<Rightarrow> (u32 \<times> kos_state) option" where
  "kos_bit source s =
     (let b = ks_bits s AND 1;
          s1 = s\<lparr>ks_bits := drop_bit 1 (ks_bits s), ks_left := (ks_left s + (2 ^ 32 - 1)) mod 2 ^ 32\<rparr>
      in if ks_left s1 = 0 then map_option (Pair b) (kos_refill source s1) else Some (b, s1))"

fun push_copies :: "nat \<Rightarrow> nat \<Rightarrow> bytes \<Rightarrow> bytes" where
  "push_copies back 0 out = out"
| "push_copies back (Suc n) out = push_copies back n (out @ [out ! (length out - back)])"

definition kos_copy :: "nat \<Rightarrow> int \<Rightarrow> nat \<Rightarrow> bytes \<Rightarrow> KosinskiError + bytes" where
  "kos_copy limit displacement count out =
     (let back = nat (- displacement)
      in if back > length out then Inl KE_reference_before_stream
         else if length out + count > limit then Inl KE_decoded_length_exceeded
         else Inr (push_copies back count out))"

datatype kos_step = KFail KosinskiError bytes | KDone kos_state | KNext kos_state

definition after_copy :: "kos_state \<Rightarrow> KosinskiError + bytes \<Rightarrow> kos_step" where
  "after_copy s r = (case r of Inl e \<Rightarrow> KFail e (ks_out s) | Inr o' \<Rightarrow> KNext (s\<lparr>ks_out := o'\<rparr>))"

definition literal_token :: "bytes \<Rightarrow> nat \<Rightarrow> kos_state \<Rightarrow> kos_step" where
  "literal_token source limit s =
     (if length (ks_out s) \<ge> limit then KFail KE_decoded_length_exceeded (ks_out s)
      else case kos_next_byte source s of None \<Rightarrow> KFail KE_source_exhausted (ks_out s)
           | Some (byte, s1) \<Rightarrow> KNext (s1\<lparr>ks_out := ks_out s1 @ [ucast byte]\<rparr>))"

definition full_token :: "bytes \<Rightarrow> nat \<Rightarrow> kos_state \<Rightarrow> kos_step" where
  "full_token source limit s =
     (case kos_next_byte source s of None \<Rightarrow> KFail KE_source_exhausted (ks_out s)
      | Some (lo, s1) \<Rightarrow>
        (case kos_next_byte source s1 of None \<Rightarrow> KFail KE_source_exhausted (ks_out s)
         | Some (hi, s2) \<Rightarrow>
           (let displacement = int (unat (0xE000 OR push_bit 5 (hi AND 0xF8) OR lo)) - 0x10000;
                count = unat (hi AND 7)
            in if count \<noteq> 0 then after_copy s2 (kos_copy limit displacement (count + 2) (ks_out s2))
               else case kos_next_byte source s2 of None \<Rightarrow> KFail KE_source_exhausted (ks_out s2)
                    | Some (extra, s3) \<Rightarrow>
                      (if extra = 0 then KDone s3
                       else if extra \<noteq> 1
                         then after_copy s3 (kos_copy limit displacement (unat extra + 1) (ks_out s3))
                       else KNext s3))))"

definition inline_token :: "bytes \<Rightarrow> nat \<Rightarrow> kos_state \<Rightarrow> kos_step" where
  "inline_token source limit s =
     (case kos_bit source s of None \<Rightarrow> KFail KE_source_exhausted (ks_out s)
      | Some (hi_bit, s1) \<Rightarrow>
        (case kos_bit source s1 of None \<Rightarrow> KFail KE_source_exhausted (ks_out s)
         | Some (lo_bit, s2) \<Rightarrow>
           (case kos_next_byte source s2 of None \<Rightarrow> KFail KE_source_exhausted (ks_out s)
            | Some (disp, s3) \<Rightarrow>
                after_copy s3 (kos_copy limit (int (unat disp) - 256)
                                 (unat (push_bit 1 hi_bit OR lo_bit) + 2) (ks_out s3)))))"

definition kos_token :: "bytes \<Rightarrow> nat \<Rightarrow> kos_state \<Rightarrow> kos_step" where
  "kos_token source limit s =
     (case kos_bit source s of None \<Rightarrow> KFail KE_source_exhausted (ks_out s)
      | Some (b, s1) \<Rightarrow>
          if b \<noteq> 0 then literal_token source limit s1
          else (case kos_bit source s1 of None \<Rightarrow> KFail KE_source_exhausted (ks_out s)
                | Some (b', s2) \<Rightarrow>
                    if b' \<noteq> 0 then full_token source limit s2 else inline_token source limit s2))"

primrec kos_loop :: "nat \<Rightarrow> bytes \<Rightarrow> nat \<Rightarrow> kos_state \<Rightarrow> KosinskiResult" where
  "kos_loop 0 source limit s = kos_fail KE_token_bound_exceeded (ks_out s)"
| "kos_loop (Suc n) source limit s =
     (case kos_token source limit s of
        KFail e o' \<Rightarrow> kos_fail e o'
      | KDone s' \<Rightarrow> \<lparr>kr_error = KE_none, kr_output = ks_out s', kr_end = ks_pos s'\<rparr>
      | KNext s' \<Rightarrow> kos_loop n source limit s')"

definition kosinski_decode :: "bytes \<Rightarrow> nat \<Rightarrow> nat \<Rightarrow> nat \<Rightarrow> KosinskiResult" where
  "kosinski_decode source position limit max_tokens =
     (case kos_refill source \<lparr>ks_pos = position, ks_bits = 0, ks_left = 0, ks_out = []\<rparr> of
        None \<Rightarrow> kos_fail KE_source_exhausted []
      | Some s \<Rightarrow> kos_loop max_tokens source limit s)"


section \<open>Bounds\<close>

named_theorems kos_defs \<open>one token of the decoder, unfolded\<close>

lemmas [kos_defs] = literal_token_def full_token_def inline_token_def after_copy_def kos_token_def

lemma kos_next_byte_SomeD:
  "kos_next_byte source s = Some (b, s') \<Longrightarrow>
     ks_out s' = ks_out s \<and> ks_pos s' = Suc (ks_pos s) \<and> ks_pos s' \<le> length source"
  by (auto simp: kos_next_byte_def split: if_splits)

lemma kos_refill_SomeD:
  "kos_refill source s = Some s' \<Longrightarrow>
     ks_out s' = ks_out s \<and> ks_pos s' = ks_pos s + 2 \<and> ks_pos s' \<le> length source"
  by (auto simp: kos_refill_def split: option.splits prod.splits dest!: kos_next_byte_SomeD)

lemma kos_bit_SomeD:
  assumes "kos_bit source s = Some (b, s')"
  shows "ks_out s' = ks_out s \<and> ks_pos s \<le> ks_pos s' \<and>
    (ks_pos s \<le> length source \<longrightarrow> ks_pos s' \<le> length source)"
  using assms
  by (auto simp: kos_bit_def Let_def split: if_splits dest!: kos_refill_SomeD)

lemma length_push_copies [simp]: "length (push_copies back n out) = length out + n"
  by (induction n arbitrary: out) auto

lemma prefix_push_copies: "prefix out (push_copies back n out)"
proof (induction n arbitrary: out)
  case (Suc n)
  have "prefix out (out @ [out ! (length out - back)])" by simp
  also have "prefix \<dots> (push_copies back n (out @ [out ! (length out - back)]))" by (rule Suc)
  finally show ?case by simp
qed simp

lemma kos_copy_InrD:
  "kos_copy limit d n out = Inr out' \<Longrightarrow>
     out' = push_copies (nat (- d)) n out \<and> nat (- d) \<le> length out \<and> length out + n \<le> limit"
  by (auto simp: kos_copy_def Let_def split: if_splits)

definition within :: "bytes \<Rightarrow> nat \<Rightarrow> kos_state \<Rightarrow> bool" where
  "within source limit s \<longleftrightarrow> length (ks_out s) \<le> limit \<and> ks_pos s \<le> length source"

text \<open>What one token does to the output, by the way it ends.\<close>

definition step_ok :: "bytes \<Rightarrow> nat \<Rightarrow> kos_state \<Rightarrow> kos_step \<Rightarrow> bool" where
  "step_ok source limit s r =
     (case r of
        KFail e o' \<Rightarrow> e \<noteq> KE_none \<and> o' = ks_out s
      | KDone s' \<Rightarrow> within source limit s' \<and> ks_pos s < ks_pos s' \<and> ks_out s' = ks_out s
      | KNext s' \<Rightarrow> within source limit s' \<and> ks_pos s \<le> ks_pos s' \<and> prefix (ks_out s) (ks_out s'))"

lemma kos_copy_InlD: "kos_copy limit d n out = Inl e \<Longrightarrow> e \<noteq> KE_none"
  by (auto simp: kos_copy_def Let_def split: if_splits)

lemma literal_token_ok: "within source limit s \<Longrightarrow> step_ok source limit s (literal_token source limit s)"
  by (auto simp: step_ok_def literal_token_def within_def
      split: option.splits dest!: kos_next_byte_SomeD)

lemma after_copy_ok:
  "within source limit s \<Longrightarrow> step_ok source limit s (after_copy s (kos_copy limit d n (ks_out s)))"
  by (auto simp: step_ok_def after_copy_def within_def prefix_push_copies
      split: sum.splits dest!: kos_copy_InrD dest: kos_copy_InlD)

lemma step_ok_earlier:
  "step_ok source limit s' r \<Longrightarrow> ks_out s' = ks_out s \<Longrightarrow> ks_pos s \<le> ks_pos s' \<Longrightarrow> step_ok source limit s r"
  by (auto simp: step_ok_def split: kos_step.splits)

lemma after_copy_ok_earlier:
  "within source limit s' \<Longrightarrow> ks_out s' = ks_out s \<Longrightarrow> ks_pos s \<le> ks_pos s' \<Longrightarrow>
     step_ok source limit s (after_copy s' (kos_copy limit d n (ks_out s)))"
  using step_ok_earlier [OF after_copy_ok, of source limit s' s d n] by simp

lemma step_ok_exhausted: "step_ok source limit s (KFail KE_source_exhausted (ks_out s))"
  by (simp add: step_ok_def)

lemma full_token_ok:
  assumes "within source limit s"
  shows "step_ok source limit s (full_token source limit s)"
proof (cases "kos_next_byte source s")
  case None
  then show ?thesis by (simp add: full_token_def step_ok_exhausted)
next
  case (Some p)
  then obtain lo s1 where 1: "kos_next_byte source s = Some (lo, s1)" by (cases p) auto
  show ?thesis
  proof (cases "kos_next_byte source s1")
    case None
    with 1 show ?thesis by (simp add: full_token_def step_ok_exhausted)
  next
    case (Some p)
    then obtain hi s2 where 2: "kos_next_byte source s1 = Some (hi, s2)" by (cases p) auto
    from 1 2 assms have w2: "within source limit s2" "ks_out s2 = ks_out s" "ks_pos s \<le> ks_pos s2"
      by (auto simp: within_def dest!: kos_next_byte_SomeD)
    show ?thesis
    proof (cases "kos_next_byte source s2")
      case None
      with 1 2 w2 show ?thesis
        by (auto simp: full_token_def Let_def step_ok_exhausted
            intro!: after_copy_ok_earlier)
    next
      case (Some p)
      then obtain ex s3 where 3: "kos_next_byte source s2 = Some (ex, s3)" by (cases p) auto
      from 3 w2 have w3: "within source limit s3" "ks_out s3 = ks_out s" "ks_pos s < ks_pos s3"
        by (auto simp: within_def dest!: kos_next_byte_SomeD)
      with 1 2 3 w2 show ?thesis
        by (auto simp: full_token_def Let_def step_ok_def [of _ _ _ "KDone s3"]
            step_ok_def [of _ _ _ "KNext s3"] intro!: after_copy_ok_earlier)
    qed
  qed
qed

lemma inline_token_ok:
  assumes "within source limit s"
  shows "step_ok source limit s (inline_token source limit s)"
proof (cases "kos_bit source s")
  case None
  then show ?thesis by (simp add: inline_token_def step_ok_exhausted)
next
  case (Some p)
  then obtain hb s1 where 1: "kos_bit source s = Some (hb, s1)" by (cases p) auto
  show ?thesis
  proof (cases "kos_bit source s1")
    case None
    with 1 show ?thesis by (simp add: inline_token_def step_ok_exhausted)
  next
    case (Some p)
    then obtain lb s2 where 2: "kos_bit source s1 = Some (lb, s2)" by (cases p) auto
    from 1 2 assms have w2: "within source limit s2" "ks_out s2 = ks_out s" "ks_pos s \<le> ks_pos s2"
      by (auto simp: within_def dest!: kos_bit_SomeD)
    with 1 2 show ?thesis
      by (auto simp: inline_token_def step_ok_exhausted within_def split: option.splits
          dest!: kos_next_byte_SomeD intro!: after_copy_ok_earlier)
  qed
qed

lemma kos_token_ok:
  assumes "within source limit s"
  shows "step_ok source limit s (kos_token source limit s)"
proof (cases "kos_bit source s")
  case None
  then show ?thesis by (simp add: kos_token_def step_ok_exhausted)
next
  case (Some p)
  then obtain b s1 where 1: "kos_bit source s = Some (b, s1)" by (cases p) auto
  then have w1: "within source limit s1" "ks_out s1 = ks_out s" "ks_pos s \<le> ks_pos s1"
    using assms by (auto simp: within_def dest!: kos_bit_SomeD)
  show ?thesis
  proof (cases "kos_bit source s1")
    case None
    with 1 w1 show ?thesis
      by (auto simp: kos_token_def step_ok_exhausted intro: step_ok_earlier [OF literal_token_ok])
  next
    case (Some p)
    then obtain b' s2 where 2: "kos_bit source s1 = Some (b', s2)" by (cases p) auto
    then have w2: "within source limit s2" "ks_out s2 = ks_out s" "ks_pos s \<le> ks_pos s2"
      using w1 by (auto simp: within_def dest!: kos_bit_SomeD)
    with 1 2 w1 show ?thesis
      by (auto simp: kos_token_def intro: step_ok_earlier [OF literal_token_ok]
          step_ok_earlier [OF full_token_ok] step_ok_earlier [OF inline_token_ok])
  qed
qed

lemma kos_loop_bounds:
  "within source limit s \<Longrightarrow>
     length (kr_output (kos_loop n source limit s)) \<le> limit \<and>
     (kr_error (kos_loop n source limit s) = KE_none \<longrightarrow>
        ks_pos s < kr_end (kos_loop n source limit s) \<and>
        kr_end (kos_loop n source limit s) \<le> length source)"
proof (induction n arbitrary: s)
  case 0
  then show ?case by (simp add: kos_fail_def within_def)
next
  case (Suc n)
  from kos_token_ok [OF Suc.prems] show ?case
  proof (cases "kos_token source limit s")
    case (KNext s')
    with kos_token_ok [OF Suc.prems] have "within source limit s'" "ks_pos s \<le> ks_pos s'"
      by (auto simp: step_ok_def)
    with Suc.IH [of s'] KNext show ?thesis by auto
  qed (use Suc.prems in \<open>auto simp: step_ok_def kos_fail_def within_def\<close>)
qed

section \<open>Displacements\<close>

lemma kos_full_word:
  fixes hi lo :: u8
  shows "unat (0xE000 OR push_bit 5 (ucast hi AND 0xF8) OR ucast lo :: u32)
    = 0xE000 + (unat hi div 8) * 256 + unat lo"
proof -
  have h: "unat (ucast hi AND 0xF8 :: u32) = 8 * (unat hi div 8)"
    by (simp add: unsigned_and_eq unat_ucast_u8 and_F8 [OF unat_u8_less])
  have "unat hi div 8 < 32" using unat_u8_less [of hi] by linarith
  then have p: "unat (push_bit 5 (ucast hi AND 0xF8 :: u32)) = push_bit 8 (unat hi div 8)"
    by (subst unat_push_bit_small) (auto simp: h push_bit_eq_mult)
  have lt: "(unat hi div 8) * 256 + unat lo < 2 ^ 13"
    using \<open>unat hi div 8 < 32\<close> unat_u8_less [of lo] by simp
  have "unat (0xE000 OR push_bit 5 (ucast hi AND 0xF8) OR ucast lo :: u32)
      = push_bit 13 7 OR (push_bit 8 (unat hi div 8) OR unat lo)"
    unfolding unsigned_or_eq p unat_ucast_u8 by (simp add: push_bit_eq_mult)
  also have "push_bit 8 (unat hi div 8) OR unat lo = (unat hi div 8) * 256 + unat lo"
    using nat_shift_or [of "unat lo" 8 "unat hi div 8"] unat_u8_less [of lo] by simp
  also have "push_bit 13 7 OR ((unat hi div 8) * 256 + unat lo) = 7 * 2 ^ 13 + ((unat hi div 8) * 256 + unat lo)"
    by (rule nat_shift_or [OF lt])
  finally show ?thesis by simp
qed

section \<open>Reference encoder\<close>

text \<open>
  The stream grammar of the header's comment, as an encoder. A stream interleaves descriptor
  bits with raw bytes; sixteen bits at a time are gathered in a descriptor word, which the
  decoder reads as soon as the previous one is used up.
\<close>

datatype kos_op =
  Lit u8
| Full nat nat    \<comment> \<open>distance, count 3..9\<close>
| Long nat nat    \<comment> \<open>distance, extra byte 2..255: count is extra + 1\<close>
| Skip nat        \<comment> \<open>a full copy with extra byte 1: no effect\<close>
| Short nat nat   \<comment> \<open>distance, count 2..5\<close>

datatype kos_item = Bit bool | Raw u8

definition full_lo :: "nat \<Rightarrow> u8" where
  "full_lo dist = of_nat ((8192 - dist) mod 256)"

definition full_hi :: "nat \<Rightarrow> nat \<Rightarrow> u8" where
  "full_hi dist c = of_nat ((8192 - dist) div 256 * 8 + c)"

fun items_of :: "kos_op \<Rightarrow> kos_item list" where
  "items_of (Lit b) = [Bit True, Raw b]"
| "items_of (Full dist n) = [Bit False, Bit True, Raw (full_lo dist), Raw (full_hi dist (n - 2))]"
| "items_of (Long dist e) =
     [Bit False, Bit True, Raw (full_lo dist), Raw (full_hi dist 0), Raw (of_nat e)]"
| "items_of (Skip dist) = [Bit False, Bit True, Raw (full_lo dist), Raw (full_hi dist 0), Raw 1]"
| "items_of (Short dist n) =
     [Bit False, Bit False, Bit (2 \<le> n - 2), Bit (odd (n - 2)), Raw (of_nat (256 - dist))]"

definition terminator :: "kos_item list" where
  "terminator = [Bit False, Bit True, Raw 0, Raw 0xF0, Raw 0]"

fun bits_of :: "kos_item list \<Rightarrow> bool list" where
  "bits_of [] = []"
| "bits_of (Bit b # its) = b # bits_of its"
| "bits_of (Raw _ # its) = bits_of its"

definition descriptor :: "bool list \<Rightarrow> bytes" where
  "descriptor bs = [horner_sum of_bool 2 (take 8 bs), horner_sum of_bool 2 (take 8 (drop 8 bs))]"

fun emit :: "nat \<Rightarrow> kos_item list \<Rightarrow> bytes" where
  "emit left [] = []"
| "emit left (Raw b # its) = b # emit left its"
| "emit left (Bit b # its) =
     (if left = 1 then descriptor (bits_of its) @ emit 16 its else emit (left - 1) its)"

definition kos_encode :: "kos_op list \<Rightarrow> bytes" where
  "kos_encode ops =
     (let its = concat (map items_of ops) @ terminator in descriptor (bits_of its) @ emit 16 its)"

fun expand_op :: "bytes \<Rightarrow> kos_op \<Rightarrow> bytes" where
  "expand_op out (Lit b) = out @ [b]"
| "expand_op out (Full dist n) = lz_copy dist n out"
| "expand_op out (Long dist e) = lz_copy dist (e + 1) out"
| "expand_op out (Skip _) = out"
| "expand_op out (Short dist n) = lz_copy dist n out"

fun op_ok :: "bytes \<Rightarrow> kos_op \<Rightarrow> bool" where
  "op_ok out (Lit _) = True"
| "op_ok out (Full dist n) \<longleftrightarrow> 1 \<le> dist \<and> dist \<le> 8192 \<and> dist \<le> length out \<and> 3 \<le> n \<and> n \<le> 9"
| "op_ok out (Long dist e) \<longleftrightarrow> 1 \<le> dist \<and> dist \<le> 8192 \<and> dist \<le> length out \<and> 2 \<le> e \<and> e \<le> 255"
| "op_ok out (Skip dist) \<longleftrightarrow> 1 \<le> dist \<and> dist \<le> 8192"
| "op_ok out (Short dist n) \<longleftrightarrow> 1 \<le> dist \<and> dist \<le> 256 \<and> dist \<le> length out \<and> 2 \<le> n \<and> n \<le> 5"

fun ops_ok :: "bytes \<Rightarrow> kos_op list \<Rightarrow> bool" where
  "ops_ok out [] = True"
| "ops_ok out (t # ts) \<longleftrightarrow> op_ok out t \<and> ops_ok (expand_op out t) ts"

definition expand :: "kos_op list \<Rightarrow> bytes" where
  "expand ops = foldl expand_op [] ops"

section \<open>The decoder inverts the encoder\<close>

lemma push_copies_snoc:
  "push_copies dist (Suc n) out =
     push_copies dist n out @ [push_copies dist n out ! (length out + n - dist)]"
proof (induction n arbitrary: out)
  case (Suc n)
  have "push_copies dist (Suc (Suc n)) out = push_copies dist (Suc n) (out @ [out ! (length out - dist)])"
    by (rule push_copies.simps)
  also have "\<dots> = push_copies dist n (out @ [out ! (length out - dist)]) @
      [push_copies dist n (out @ [out ! (length out - dist)]) ! (length out + Suc n - dist)]"
    by (subst Suc.IH) simp
  finally show ?case by (simp only: push_copies.simps)
qed simp

lemma push_copies_lz:
  assumes "1 \<le> dist" "dist \<le> length out"
  shows "push_copies dist n out = lz_copy dist n out"
proof (induction n)
  case (Suc n)
  then show ?case unfolding push_copies_snoc Suc by (simp add: lz_copy_Suc [OF assms])
qed (simp add: lz_copy_def)

lemma kos_copy_ok:
  assumes "1 \<le> dist" "dist \<le> length out" "length out + n \<le> limit"
  shows "kos_copy limit (- int dist) n out = Inr (lz_copy dist n out)"
  using assms by (simp add: kos_copy_def push_copies_lz)

text \<open>The decoder stands before the items \<open>its\<close>, followed by \<open>rest\<close>.\<close>

definition ready :: "bytes \<Rightarrow> kos_state \<Rightarrow> kos_item list \<Rightarrow> bytes \<Rightarrow> bool" where
  "ready source s its rest \<longleftrightarrow>
     1 \<le> ks_left s \<and> ks_left s \<le> 16 \<and> ks_pos s \<le> length source \<and>
     drop (ks_pos s) source = emit (ks_left s) its @ rest \<and>
     (\<forall>i < ks_left s. bit (ks_bits s) i \<longleftrightarrow> i < length (bits_of its) \<and> bits_of its ! i)"

lemma drop_ConsD:
  "p \<le> length xs \<Longrightarrow> drop p xs = y # ys \<Longrightarrow> p < length xs \<and> xs ! p = y \<and> drop (Suc p) xs = ys"
  by (metis Cons_nth_drop_Suc drop_eq_Nil le_neq_implies_less list.distinct(1) list.inject order_refl)

lemma ready_Raw:
  assumes "ready source s (Raw b # its) rest"
  shows "kos_next_byte source s = Some (ucast b, s\<lparr>ks_pos := Suc (ks_pos s)\<rparr>)"
    and "ready source (s\<lparr>ks_pos := Suc (ks_pos s)\<rparr>) its rest"
proof -
  from assms have "ks_pos s \<le> length source"
    "drop (ks_pos s) source = b # emit (ks_left s) its @ rest"
    by (auto simp: ready_def)
  from drop_ConsD [OF this] assms
  show "kos_next_byte source s = Some (ucast b, s\<lparr>ks_pos := Suc (ks_pos s)\<rparr>)"
    and "ready source (s\<lparr>ks_pos := Suc (ks_pos s)\<rparr>) its rest"
    by (auto simp: kos_next_byte_def ready_def)
qed

lemma bit_descriptor:
  fixes w :: u32
  assumes "w = ucast (horner_sum of_bool 2 (take 8 bs) :: u8) OR
                push_bit 8 (ucast (horner_sum of_bool 2 (take 8 (drop 8 bs)) :: u8))" "i < 16"
  shows "bit w i \<longleftrightarrow> i < length bs \<and> bs ! i"
proof (cases "i < 8")
  case True
  with assms(2) show ?thesis unfolding assms(1) by (auto simp: bit_simps)
next
  case False
  then have "8 + (i - 8) = i" by simp
  with False assms(2) show ?thesis unfolding assms(1) by (auto simp: bit_simps)
qed

lemma ready_refill:
  assumes "ks_pos s \<le> length source"
    and "drop (ks_pos s) source = descriptor (bits_of its) @ emit 16 its @ rest"
  shows "\<exists>s'. kos_refill source s = Some s' \<and> ready source s' its rest \<and> ks_out s' = ks_out s"
proof -
  let ?lo = "horner_sum of_bool 2 (take 8 (bits_of its)) :: u8"
  let ?hi = "horner_sum of_bool 2 (take 8 (drop 8 (bits_of its))) :: u8"
  from assms(2) have d: "drop (ks_pos s) source = ?lo # ?hi # emit 16 its @ rest"
    by (simp add: descriptor_def)
  from drop_ConsD [OF assms(1) d] have 1: "ks_pos s < length source" "source ! ks_pos s = ?lo"
    "drop (Suc (ks_pos s)) source = ?hi # emit 16 its @ rest" by auto
  then have p: "Suc (ks_pos s) \<le> length source" by simp
  from drop_ConsD [OF p 1(3)] have 2: "Suc (ks_pos s) < length source"
    "source ! Suc (ks_pos s) = ?hi" "drop (Suc (Suc (ks_pos s))) source = emit 16 its @ rest" by auto
  let ?s = "s\<lparr>ks_pos := Suc (Suc (ks_pos s)), ks_bits := ucast ?lo OR push_bit 8 (ucast ?hi),
              ks_left := 16\<rparr>"
  have "kos_refill source s = Some ?s" using 1 2 by (simp add: kos_refill_def kos_next_byte_def)
  moreover have "ready source ?s its rest"
    using 2 bit_descriptor [OF refl, of _ "bits_of its"] by (simp add: ready_def)
  ultimately show ?thesis by (intro exI [of _ ?s]) simp
qed

lemma ready_Bit:
  assumes "ready source s (Bit b # its) rest"
  shows "\<exists>s'. kos_bit source s = Some (of_bool b, s') \<and> ready source s' its rest \<and> ks_out s' = ks_out s"
proof -
  let ?s1 = "s\<lparr>ks_bits := drop_bit 1 (ks_bits s), ks_left := ks_left s - 1\<rparr>"
  from assms have r: "1 \<le> ks_left s" "ks_left s \<le> 16" "ks_pos s \<le> length source"
    "drop (ks_pos s) source = emit (ks_left s) (Bit b # its) @ rest"
    "\<And>i. i < ks_left s \<Longrightarrow>
        bit (ks_bits s) i \<longleftrightarrow> i < length (bits_of (Bit b # its)) \<and> bits_of (Bit b # its) ! i"
    by (auto simp: ready_def)
  from r(5) [of 0] r(1) have "bit (ks_bits s) 0 = b" by simp
  then have b: "ks_bits s AND 1 = of_bool b" by (simp add: and_one_eq mod_2_eq_odd bit_0)
  have l: "(ks_left s + (2 ^ 32 - 1)) mod 2 ^ 32 = ks_left s - 1"
  proof -
    have "ks_left s + (2 ^ 32 - 1) = (ks_left s - 1) + 2 ^ 32" using r(1) by simp
    then show ?thesis using r(2) by (simp only: mod_add_self2) simp
  qed
  have k: "kos_bit source s =
      (if ks_left s - 1 = 0 then map_option (Pair (of_bool b)) (kos_refill source ?s1)
       else Some (of_bool b, ?s1))"
    unfolding kos_bit_def Let_def l b by simp
  show ?thesis
  proof (cases "ks_left s = 1")
    case True
    with r have "drop (ks_pos ?s1) source = descriptor (bits_of its) @ emit 16 its @ rest" by simp
    with r ready_refill [of ?s1 source its rest] True show ?thesis unfolding k by auto
  next
    case False
    have "bit (drop_bit 1 (ks_bits s)) i \<longleftrightarrow> i < length (bits_of its) \<and> bits_of its ! i"
      if "i < ks_left s - 1" for i
      using r(5) [of "Suc i"] that by (simp add: bit_simps)
    moreover have "1 \<le> ks_left s - 1" "ks_left s - 1 \<le> 16" using False r(1,2) by linarith+
    ultimately have "ready source ?s1 its rest" using False r by (simp add: ready_def)
    with False r show ?thesis unfolding k by auto
  qed
qed

lemma unat_full_lo: "unat (full_lo dist) = (8192 - dist) mod 256"
  unfolding full_lo_def by (rule unat_of_nat_u8) simp

lemma unat_full_hi:
  assumes "1 \<le> dist" "c < 8"
  shows "unat (full_hi dist c) = (8192 - dist) div 256 * 8 + c"
proof -
  have "(8192 - dist) div 256 < 32" using assms by (simp add: div_less_iff_less_mult)
  then show ?thesis unfolding full_hi_def using assms by (intro unat_of_nat_u8) linarith
qed

lemma full_displacement:
  assumes "1 \<le> dist" "dist \<le> 8192" "c < 8"
  shows "int (unat (0xE000 OR push_bit 5 (ucast (full_hi dist c) AND 0xF8) OR
            ucast (full_lo dist) :: u32)) - 0x10000 = - int dist"
    and "unat (ucast (full_hi dist c) AND 7 :: u32) = c"
proof -
  have h: "unat (full_hi dist c) div 8 = (8192 - dist) div 256"
    unfolding unat_full_hi [OF assms(1,3)] using assms(3) by simp
  have "(8192 - dist) div 256 * 256 + (8192 - dist) mod 256 = 8192 - dist" by simp
  then have "unat (0xE000 OR push_bit 5 (ucast (full_hi dist c) AND 0xF8) OR
      ucast (full_lo dist) :: u32) = 0xE000 + (8192 - dist)"
    unfolding kos_full_word h unat_full_lo by linarith
  then show "int (unat (0xE000 OR push_bit 5 (ucast (full_hi dist c) AND 0xF8) OR
            ucast (full_lo dist) :: u32)) - 0x10000 = - int dist"
    using assms by linarith
  have "unat (ucast (full_hi dist c) AND 7 :: u32) = unat (full_hi dist c) AND 7"
    by (simp add: unsigned_and_eq unat_ucast_u8)
  then show "unat (ucast (full_hi dist c) AND 7 :: u32) = c"
    unfolding nat_and_7 unat_full_hi [OF assms(1,3)] using assms(3) by simp
qed

lemma short_count:
  assumes "2 \<le> n" "n \<le> 5"
  shows "unat (push_bit 1 (of_bool (2 \<le> n - 2)) OR of_bool (odd (n - 2)) :: u32) + 2 = n"
proof -
  from assms have "n = 2 \<or> n = 3 \<or> n = 4 \<or> n = 5" by linarith
  then show ?thesis by (elim disjE) simp_all
qed

lemma short_displacement:
  assumes "1 \<le> dist" "dist \<le> 256"
  shows "int (unat (ucast (of_nat (256 - dist) :: u8) :: u32)) - 256 = - int dist"
  unfolding unat_ucast_u8 using assms by (subst unat_of_nat_u8) auto

lemma ready_prefix:
  assumes "ready source s (Bit False # Bit True # Raw lo # Raw hi # its) rest"
  shows "\<exists>s'. kos_token source limit s = full_token source limit s' \<and>
    ready source s' (Raw lo # Raw hi # its) rest \<and> ks_out s' = ks_out s"
proof -
  from ready_Bit [OF assms] obtain s1 where 1: "kos_bit source s = Some (0, s1)"
    "ready source s1 (Bit True # Raw lo # Raw hi # its) rest" "ks_out s1 = ks_out s" by auto
  from ready_Bit [OF 1(2)] obtain s2 where 2: "kos_bit source s1 = Some (1, s2)"
    "ready source s2 (Raw lo # Raw hi # its) rest" "ks_out s2 = ks_out s" using 1(3) by auto
  from 1 2 show ?thesis by (intro exI [of _ s2]) (simp add: kos_token_def)
qed

lemma ready_full:
  assumes r: "ready source s (Bit False # Bit True # Raw (full_lo dist) # Raw (full_hi dist c) # its) rest"
    and b: "1 \<le> dist" "dist \<le> 8192" "c < 8"
  shows "\<exists>s'. ready source s' its rest \<and> ks_out s' = ks_out s \<and>
    kos_token source limit s =
      (if c \<noteq> 0 then after_copy s' (kos_copy limit (- int dist) (c + 2) (ks_out s))
       else case kos_next_byte source s' of None \<Rightarrow> KFail KE_source_exhausted (ks_out s)
            | Some (extra, s3) \<Rightarrow>
              (if extra = 0 then KDone s3
               else if extra \<noteq> 1
                 then after_copy s3 (kos_copy limit (- int dist) (unat extra + 1) (ks_out s3))
               else KNext s3))"
proof -
  from ready_prefix [OF r] obtain s1 where 1: "kos_token source limit s = full_token source limit s1"
    "ready source s1 (Raw (full_lo dist) # Raw (full_hi dist c) # its) rest" "ks_out s1 = ks_out s"
    by blast
  let ?s2 = "s1\<lparr>ks_pos := Suc (ks_pos s1)\<rparr>"
  let ?s3 = "?s2\<lparr>ks_pos := Suc (ks_pos ?s2)\<rparr>"
  note 2 = ready_Raw [OF 1(2)]
  note 3 = ready_Raw [OF 2(2)]
  show ?thesis
    unfolding 1(1) full_token_def 2(1) option.case prod.case 3(1) Let_def full_displacement [OF b]
    using 3(2) 1(3) by (intro exI [of _ ?s3]) (auto split: option.splits)
qed

lemma after_copy_lz:
  assumes "ready source s its rest" "1 \<le> dist" "dist \<le> length (ks_out s)"
    "length (ks_out s) + n \<le> limit"
  shows "\<exists>s'. after_copy s (kos_copy limit (- int dist) n (ks_out s)) = KNext s' \<and>
    ready source s' its rest \<and> ks_out s' = lz_copy dist n (ks_out s)"
  using assms by (simp add: kos_copy_ok after_copy_def ready_def)

lemma u8_of_nat_eq_iff: "a < 256 \<Longrightarrow> b < 256 \<Longrightarrow> (of_nat a :: u8) = of_nat b \<longleftrightarrow> a = b"
  using unat_of_nat_u8 [of a] unat_of_nat_u8 [of b] by metis

lemma ucast_ucast_u8 [simp]: "ucast (ucast (b :: u8) :: u32) = b"
  by (rule bit_word_eqI) (simp add: bit_simps)

lemma ready_op:
  assumes "ready source s (items_of op @ its) rest" "op_ok (ks_out s) op"
    "length (expand_op (ks_out s) op) \<le> limit"
  shows "\<exists>s'. kos_token source limit s = KNext s' \<and> ready source s' its rest \<and>
    ks_out s' = expand_op (ks_out s) op"
proof (cases op)
  case (Lit b)
  with assms(1) have "ready source s (Bit True # Raw b # its) rest" by simp
  from ready_Bit [OF this] obtain s1 where 1: "kos_bit source s = Some (1, s1)"
    "ready source s1 (Raw b # its) rest" "ks_out s1 = ks_out s" by auto
  from ready_Raw [OF 1(2)] 1 assms(3) Lit show ?thesis
    by (auto simp: kos_token_def literal_token_def ready_def)
next
  case (Full dist n)
  with assms have b: "1 \<le> dist" "dist \<le> 8192" "n - 2 < 8" and n: "3 \<le> n" "dist \<le> length (ks_out s)"
    by auto
  from assms(1) Full have "ready source s (Bit False # Bit True # Raw (full_lo dist) #
      Raw (full_hi dist (n - 2)) # its) rest" by simp
  moreover have "n - 2 + 2 = n" "n - 2 \<noteq> 0" using n(1) by simp_all
  ultimately obtain s1 where 1: "ready source s1 its rest"
    "ks_out s1 = ks_out s" "kos_token source limit s =
       after_copy s1 (kos_copy limit (- int dist) n (ks_out s1))"
    using ready_full [of source s dist "n - 2" its rest limit] b by auto
  from after_copy_lz [OF 1(1) b(1), of n limit] 1 assms(3) Full n show ?thesis by auto
next
  case (Long dist e)
  with assms have b: "1 \<le> dist" "dist \<le> 8192" "(0::nat) < 8"
    and e: "2 \<le> e" "e \<le> 255" "dist \<le> length (ks_out s)" by auto
  from assms(1) Long have "ready source s (Bit False # Bit True # Raw (full_lo dist) #
      Raw (full_hi dist 0) # Raw (of_nat e) # its) rest" by simp
  from ready_full [OF this b, of limit] obtain s1 where 1:
    "ready source s1 (Raw (of_nat e) # its) rest" "ks_out s1 = ks_out s" and
    2: "kos_token source limit s =
      (case kos_next_byte source s1 of None \<Rightarrow> KFail KE_source_exhausted (ks_out s)
       | Some (extra, s3) \<Rightarrow>
              (if extra = 0 then KDone s3
               else if extra \<noteq> 1
                 then after_copy s3 (kos_copy limit (- int dist) (unat extra + 1) (ks_out s3))
               else KNext s3))" by auto
  have ue: "unat (ucast (of_nat e :: u8) :: u32) = e"
    using e by (simp add: unat_ucast_u8 unat_of_nat_u8)
  then have ne: "(ucast (of_nat e :: u8) :: u32) \<noteq> 0" "(ucast (of_nat e :: u8) :: u32) \<noteq> 1"
    using e by force+
  note 3 = ready_Raw [OF 1(1)]
  from after_copy_lz [OF 3(2) b(1), of "e + 1" limit] 1(2) assms(3) Long e show ?thesis
    unfolding 2 3(1) by (simp add: ne ue)
next
  case (Skip dist)
  with assms have b: "1 \<le> dist" "dist \<le> 8192" "(0::nat) < 8" by auto
  from assms(1) Skip have "ready source s (Bit False # Bit True # Raw (full_lo dist) #
      Raw (full_hi dist 0) # Raw 1 # its) rest" by simp
  from ready_full [OF this b, of limit] obtain s1 where 1:
    "ready source s1 (Raw 1 # its) rest" "ks_out s1 = ks_out s" and
    2: "kos_token source limit s =
      (case kos_next_byte source s1 of None \<Rightarrow> KFail KE_source_exhausted (ks_out s)
       | Some (extra, s3) \<Rightarrow>
              (if extra = 0 then KDone s3
               else if extra \<noteq> 1
                 then after_copy s3 (kos_copy limit (- int dist) (unat extra + 1) (ks_out s3))
               else KNext s3))" by auto
  note 3 = ready_Raw [OF 1(1)]
  from 3(2) 1(2) Skip show ?thesis unfolding 2 3(1) by simp
next
  case (Short dist n)
  with assms have b: "1 \<le> dist" "dist \<le> 256" and n: "2 \<le> n" "n \<le> 5" "dist \<le> length (ks_out s)" by auto
  from assms(1) Short have "ready source s (Bit False # Bit False # Bit (2 \<le> n - 2) #
      Bit (odd (n - 2)) # Raw (of_nat (256 - dist)) # its) rest" by simp
  from ready_Bit [OF this] obtain s1 where 1: "kos_bit source s = Some (0, s1)" "ready source s1 (Bit False #
      Bit (2 \<le> n - 2) # Bit (odd (n - 2)) # Raw (of_nat (256 - dist)) # its) rest"
    "ks_out s1 = ks_out s" by auto
  from ready_Bit [OF 1(2)] obtain s2 where 2: "kos_bit source s1 = Some (0, s2)" "ready source s2
      (Bit (2 \<le> n - 2) # Bit (odd (n - 2)) # Raw (of_nat (256 - dist)) # its) rest"
    "ks_out s2 = ks_out s" using 1(3) by auto
  from ready_Bit [OF 2(2)] obtain s3 where 3: "kos_bit source s2 = Some (of_bool (2 \<le> n - 2), s3)"
    "ready source s3 (Bit (odd (n - 2)) # Raw (of_nat (256 - dist)) # its) rest"
    "ks_out s3 = ks_out s" using 2(3) by auto
  from ready_Bit [OF 3(2)] obtain s4 where 4: "kos_bit source s3 = Some (of_bool (odd (n - 2)), s4)"
    "ready source s4 (Raw (of_nat (256 - dist)) # its) rest" "ks_out s4 = ks_out s" using 3(3) by auto
  note 5 = ready_Raw [OF 4(2)]
  have "kos_token source limit s =
      after_copy (s4\<lparr>ks_pos := Suc (ks_pos s4)\<rparr>) (kos_copy limit (- int dist) n (ks_out s4))"
    using 1 2 unfolding kos_token_def inline_token_def
    by (simp add: 3(1) 4(1) 5(1) short_count [OF n(1,2), simplified] short_displacement [OF b, simplified])
  with after_copy_lz [OF 5(2) b(1), of n limit] 4(3) assms(3) Short n show ?thesis by auto
qed

lemma ready_terminator:
  assumes "ready source s terminator rest"
  shows "\<exists>s'. kos_token source limit s = KDone s' \<and> ready source s' [] rest \<and> ks_out s' = ks_out s"
proof -
  have h: "(0 :: u8) = full_lo 8192" "(0xF0 :: u8) = full_hi 512 0" "(0 :: u8) = full_lo 512"
    by (simp_all add: full_lo_def full_hi_def)
  from assms have "ready source s (Bit False # Bit True # Raw (full_lo 512) # Raw (full_hi 512 0) #
      [Raw 0]) rest" by (simp add: terminator_def h(2,3) flip: h)
  from ready_full [OF this, of limit] obtain s1 where 1:
    "ready source s1 [Raw 0] rest" "ks_out s1 = ks_out s" and
    2: "kos_token source limit s =
      (case kos_next_byte source s1 of None \<Rightarrow> KFail KE_source_exhausted (ks_out s)
       | Some (extra, s3) \<Rightarrow>
              (if extra = 0 then KDone s3
               else if extra \<noteq> 1
                 then after_copy s3 (kos_copy limit (- int 512) (unat extra + 1) (ks_out s3))
               else KNext s3))" by auto
  note 3 = ready_Raw [OF 1(1)]
  from 3(2) 1(2) show ?thesis unfolding 2 3(1) by simp
qed

lemma expand_op_mono: "length out \<le> length (expand_op out op)"
  by (cases op) auto

lemma foldl_expand_mono: "length out \<le> length (foldl expand_op out ops)"
proof (induction ops arbitrary: out)
  case (Cons op ops)
  have "length out \<le> length (expand_op out op)" by (rule expand_op_mono)
  also have "\<dots> \<le> length (foldl expand_op (expand_op out op) ops)" by (rule Cons)
  finally show ?case by simp
qed simp

lemma kos_loop_encoded:
  assumes "ready source s (concat (map items_of ops) @ terminator) rest" "ops_ok (ks_out s) ops"
    "length (foldl expand_op (ks_out s) ops) \<le> limit" "length ops < n"
  shows "kos_loop n source limit s =
    \<lparr>kr_error = KE_none, kr_output = foldl expand_op (ks_out s) ops, kr_end = length source - length rest\<rparr>"
  using assms
proof (induction ops arbitrary: s n)
  case Nil
  then obtain m where n: "n = Suc m" by (cases n) auto
  from Nil have "ready source s terminator rest" by simp
  from ready_terminator [OF this, of limit] obtain s' where
    k: "kos_token source limit s = KDone s'" "ready source s' [] rest" "ks_out s' = ks_out s" by blast
  then have "drop (ks_pos s') source = rest" "ks_pos s' \<le> length source" by (auto simp: ready_def)
  then have "ks_pos s' = length source - length rest" by auto
  with k n show ?case by simp
next
  case (Cons op ops)
  then obtain m where n: "n = Suc m" by (cases n) auto
  from Cons.prems(1) have r: "ready source s (items_of op @ concat (map items_of ops) @ terminator) rest"
    by simp
  have "length (expand_op (ks_out s) op) \<le> limit"
    using foldl_expand_mono [of "expand_op (ks_out s) op" ops] Cons.prems(3) by simp
  from ready_op [OF r _ this] Cons.prems(2) obtain s' where
    k: "kos_token source limit s = KNext s'" "ready source s' (concat (map items_of ops) @ terminator) rest"
       "ks_out s' = expand_op (ks_out s) op" by auto
  from Cons.IH [OF k(2), of m] k Cons.prems n show ?case by simp
qed

section \<open>Appending to the source\<close>

lemma kos_next_byte_append:
  "kos_next_byte source s = Some r \<Longrightarrow> kos_next_byte (source @ suffix_b) s = Some r"
  by (auto simp: kos_next_byte_def nth_append split: if_splits)

lemma kos_refill_append:
  "kos_refill source s = Some r \<Longrightarrow> kos_refill (source @ suffix_b) s = Some r"
  by (auto simp: kos_refill_def kos_next_byte_append split: option.splits prod.splits
      dest: kos_next_byte_append)

lemma kos_bit_append: "kos_bit source s = Some r \<Longrightarrow> kos_bit (source @ suffix_b) s = Some r"
  by (auto simp: kos_bit_def Let_def kos_refill_append split: if_splits)

lemma kos_copy_limit: "kos_copy l d n out = Inr r \<Longrightarrow> l \<le> l' \<Longrightarrow> kos_copy l' d n out = Inr r"
  by (auto simp: kos_copy_def Let_def split: if_splits)

lemma kos_copy_not_none [simp]: "kos_copy l d n o' \<noteq> Inl KE_none"
  using kos_copy_InlD by blast

definition advances :: "kos_step \<Rightarrow> bool" where
  "advances r = (case r of KFail _ _ \<Rightarrow> False | _ \<Rightarrow> True)"

lemma advances_simps [simp]:
  "advances (KNext s)" "advances (KDone s)" "\<not> advances (KFail e o')"
  by (simp_all add: advances_def)

lemma after_copy_append:
  "advances (after_copy s (kos_copy l d n o')) \<Longrightarrow> l \<le> l' \<Longrightarrow>
     after_copy s (kos_copy l' d n o') = after_copy s (kos_copy l d n o')"
  by (cases "kos_copy l d n o'") (auto simp: after_copy_def dest: kos_copy_limit)

lemma literal_token_append:
  "advances (literal_token source l s) \<Longrightarrow> l \<le> l' \<Longrightarrow>
     literal_token (source @ suffix_b) l' s = literal_token source l s"
  by (auto simp: literal_token_def kos_next_byte_append split: if_splits option.splits
      dest: kos_next_byte_append)

lemma full_token_append:
  assumes "advances (full_token source l s)" "l \<le> l'"
  shows "full_token (source @ suffix_b) l' s = full_token source l s"
proof -
  from assms obtain lo s1 hi s2 where
    1: "kos_next_byte source s = Some (lo, s1)" "kos_next_byte source s1 = Some (hi, s2)"
    by (auto simp: full_token_def split: option.splits)
  note ext = 1 [THEN kos_next_byte_append]
  show ?thesis
  proof (cases "unat (hi AND 7) = 0")
    case True
    with assms 1 obtain ex s3 where 2: "kos_next_byte source s2 = Some (ex, s3)"
      by (auto simp: full_token_def Let_def split: option.splits)
    from assms True 1 ext 2 kos_next_byte_append [OF 2] show ?thesis
      by (auto simp: full_token_def Let_def after_copy_append [OF _ assms(2)] split: if_splits)
  next
    case False
    with assms 1 ext show ?thesis by (auto simp: full_token_def Let_def after_copy_append [OF _ assms(2)])
  qed
qed

lemma inline_token_append:
  assumes "advances (inline_token source l s)" "l \<le> l'"
  shows "inline_token (source @ suffix_b) l' s = inline_token source l s"
proof -
  from assms obtain a s1 b s2 c s3 where
    1: "kos_bit source s = Some (a, s1)" "kos_bit source s1 = Some (b, s2)"
       "kos_next_byte source s2 = Some (c, s3)"
    by (auto simp: inline_token_def split: option.splits)
  with assms 1(1,2) [THEN kos_bit_append] kos_next_byte_append [OF 1(3)] show ?thesis
    by (simp add: inline_token_def after_copy_append [OF _ assms(2)])
qed

lemma kos_token_append:
  assumes "advances (kos_token source l s)" "l \<le> l'"
  shows "kos_token (source @ suffix_b) l' s = kos_token source l s"
proof -
  from assms obtain b s1 where 1: "kos_bit source s = Some (b, s1)"
    by (auto simp: kos_token_def split: option.splits)
  show ?thesis
  proof (cases "b = 0")
    case True
    with assms 1 obtain b' s2 where 2: "kos_bit source s1 = Some (b', s2)"
      by (auto simp: kos_token_def split: option.splits)
    with True 1 [THEN kos_bit_append] 2 [THEN kos_bit_append] 1 assms show ?thesis
      by (auto simp: kos_token_def full_token_append inline_token_append)
  next
    case False
    with 1 [THEN kos_bit_append] 1 assms show ?thesis
      by (auto simp: kos_token_def literal_token_append)
  qed
qed

lemma kos_loop_append:
  "kr_error (kos_loop n source l s) = KE_none \<Longrightarrow> l \<le> l' \<Longrightarrow> n \<le> n' \<Longrightarrow>
   kos_loop n' (source @ suffix_b) l' s = kos_loop n source l s"
proof (induction n arbitrary: s n')
  case 0
  then show ?case by (simp add: kos_fail_def)
next
  case (Suc n)
  then obtain m where m: "n' = Suc m" "n \<le> m" by (cases n') auto
  show ?case
  proof (cases "kos_token source l s")
    case (KFail e o')
    with Suc.prems(1) have "e = KE_none" by (simp add: kos_fail_def)
    moreover have "e \<noteq> KE_none"
      using KFail by (auto simp: kos_defs Let_def split: option.splits if_splits sum.splits
          dest: kos_copy_InlD)
    ultimately show ?thesis by simp
  next
    case (KDone s')
    with Suc.prems kos_token_append [of source l s l' suffix_b] m show ?thesis by simp
  next
    case (KNext s')
    with Suc kos_token_append [of source l s l' suffix_b] m show ?thesis by simp
  qed
qed

lemma kosinski_decode_encoded:
  assumes "ops_ok [] ops" "length (expand ops) \<le> limit" "length ops < max_tokens"
  shows "kosinski_decode (before @ kos_encode ops @ after) (length before) limit max_tokens =
    \<lparr>kr_error = KE_none, kr_output = expand ops, kr_end = length before + length (kos_encode ops)\<rparr>"
proof -
  let ?its = "concat (map items_of ops) @ terminator"
  let ?src = "before @ kos_encode ops @ after"
  let ?s0 = "\<lparr>ks_pos = length before, ks_bits = 0, ks_left = 0, ks_out = []\<rparr>"
  have "drop (ks_pos ?s0) ?src = descriptor (bits_of ?its) @ emit 16 ?its @ after"
    by (simp add: kos_encode_def Let_def)
  from ready_refill [OF _ this] obtain s where
    s: "kos_refill ?src ?s0 = Some s" "ready ?src s ?its after" "ks_out s = []" by auto
  from kos_loop_encoded [OF s(2), of limit max_tokens] s assms show ?thesis
    unfolding kosinski_decode_def by (simp add: expand_def)
qed

section \<open>Properties of the decoder\<close>

text \<open>
  C8. The decoder inverts the stream format: for every valid sequence of operations, decoding its
  encoding, wherever it lies in a buffer, gives exactly the bytes the operations stand for and
  the position just after the terminator, whatever follows it.
\<close>
theorem kosinski_roundtrip:
  assumes "ops_ok [] ops" "length (expand ops) \<le> limit" "length ops < max_tokens"
  shows "kosinski_decode (before @ kos_encode ops @ after) (length before) limit max_tokens =
    \<lparr>kr_error = KE_none, kr_output = expand ops, kr_end = length before + length (kos_encode ops)\<rparr>"
  using assms by (rule kosinski_decode_encoded)

theorem kosinski_roundtrip_witness:
  "kosinski_decode ([7] @ kos_encode [Lit 65, Lit 66, Short 2 5, Full 1 3] @ [9]) (length [7 :: u8]) 10 100 =
    \<lparr>kr_error = KE_none, kr_output = expand [Lit 65, Lit 66, Short 2 5, Full 1 3],
     kr_end = length [7 :: u8] + length (kos_encode [Lit 65, Lit 66, Short 2 5, Full 1 3])\<rparr> \<and>
   expand [Lit 65, Lit 66, Short 2 5, Full 1 3] = [65, 66, 65, 66, 65, 66, 65, 65, 65, 65]"
proof
  have e: "expand [Lit 65, Lit 66, Short 2 5, Full 1 3] = [65, 66, 65, 66, 65, 66, 65, 65, 65, 65]"
    by (simp add: expand_def lz_copy_def upt_rec)
  have "ops_ok [] [Lit 65, Lit 66, Short 2 5, Full 1 3]" by simp
  then show "kosinski_decode ([7] @ kos_encode [Lit 65, Lit 66, Short 2 5, Full 1 3] @ [9]) (length [7 :: u8]) 10 100 =
    \<lparr>kr_error = KE_none, kr_output = expand [Lit 65, Lit 66, Short 2 5, Full 1 3],
     kr_end = length [7 :: u8] + length (kos_encode [Lit 65, Lit 66, Short 2 5, Full 1 3])\<rparr>"
    by (rule kosinski_roundtrip) (simp_all only: e, simp_all)
  show "expand [Lit 65, Lit 66, Short 2 5, Full 1 3] = [65, 66, 65, 66, 65, 66, 65, 65, 65, 65]"
    by (rule e)
qed

text \<open>
  C9. Whatever the input, the output never exceeds the caller's limit, on failure as on success,
  and a successful decode ends inside the source after at least two consumed bytes.
\<close>
theorem kosinski_bounded:
  "length (kr_output (kosinski_decode source position limit max_tokens)) \<le> limit \<and>
   (kr_error (kosinski_decode source position limit max_tokens) = KE_none \<longrightarrow>
      position + 2 < kr_end (kosinski_decode source position limit max_tokens) \<and>
      kr_end (kosinski_decode source position limit max_tokens) \<le> length source)"
proof (cases "kos_refill source \<lparr>ks_pos = position, ks_bits = 0, ks_left = 0, ks_out = []\<rparr>")
  case None
  then show ?thesis by (simp add: kosinski_decode_def kos_fail_def)
next
  case (Some s)
  from kos_refill_SomeD [OF this] have "within source limit s" "ks_pos s = position + 2"
    by (auto simp: within_def)
  with kos_loop_bounds [of source limit s max_tokens] Some show ?thesis
    by (simp add: kosinski_decode_def)
qed

theorem kosinski_bounded_witness:
  "kr_error (kosinski_decode (kos_encode [Lit 65, Short 1 5]) 0 6 5) = KE_none \<and>
   0 + 2 < kr_end (kosinski_decode (kos_encode [Lit 65, Short 1 5]) 0 6 5) \<and>
   length (kr_output (kosinski_decode (kos_encode [Lit 65, Short 1 5]) 0 6 5)) \<le> 6"
proof -
  have "kr_error (kosinski_decode (kos_encode [Lit 65, Short 1 5]) 0 6 5) = KE_none"
    using kosinski_decode_encoded [of "[Lit 65, Short 1 5]" 6 5 "[]" "[]"]
    by (simp add: expand_def)
  then show ?thesis
    using kosinski_bounded [of "kos_encode [Lit 65, Short 1 5]" 0 6 5] by blast
qed



end
