(* ===== verification/Sha256.thy ===== *)
theory Sha256
  imports Prelude
begin

text \<open>
  The SHA-256 digests of \<^verbatim>\<open>libs/media/src/sha256.cpp\<close>: the compression function over an array
  of words, the one-shot digest \<^verbatim>\<open>sha256_hex\<close> and the stream \<^verbatim>\<open>Sha256Stream\<close> that hashes disc
  files piece by piece. The reference is the standard's own description: message schedule by
  recurrence, rounds over eight working variables, padding of the whole message.
\<close>

section \<open>The compression function\<close>

definition sha_k :: "u32 list" where
  "sha_k = concat [
    [0x428a2f98, 0x71374491, 0xb5c0fbcf, 0xe9b5dba5], [0x3956c25b, 0x59f111f1, 0x923f82a4, 0xab1c5ed5],
    [0xd807aa98, 0x12835b01, 0x243185be, 0x550c7dc3], [0x72be5d74, 0x80deb1fe, 0x9bdc06a7, 0xc19bf174],
    [0xe49b69c1, 0xefbe4786, 0x0fc19dc6, 0x240ca1cc], [0x2de92c6f, 0x4a7484aa, 0x5cb0a9dc, 0x76f988da],
    [0x983e5152, 0xa831c66d, 0xb00327c8, 0xbf597fc7], [0xc6e00bf3, 0xd5a79147, 0x06ca6351, 0x14292967],
    [0x27b70a85, 0x2e1b2138, 0x4d2c6dfc, 0x53380d13], [0x650a7354, 0x766a0abb, 0x81c2c92e, 0x92722c85],
    [0xa2bfe8a1, 0xa81a664b, 0xc24b8b70, 0xc76c51a3], [0xd192e819, 0xd6990624, 0xf40e3585, 0x106aa070],
    [0x19a4c116, 0x1e376c08, 0x2748774c, 0x34b0bcb5], [0x391c0cb3, 0x4ed8aa4a, 0x5b9cca4f, 0x682e6ff3],
    [0x748f82ee, 0x78a5636f, 0x84c87814, 0x8cc70208], [0x90befffa, 0xa4506ceb, 0xbef9a3f7, 0xc67178f2]]"

definition sha_iv :: "u32 list" where
  "sha_iv = [0x6a09e667, 0xbb67ae85, 0x3c6ef372, 0xa54ff53a, 0x510e527f, 0x9b05688c, 0x1f83d9ab, 0x5be0cd19]"

definition rotr :: "nat \<Rightarrow> u32 \<Rightarrow> u32" where
  "rotr amount v = (drop_bit amount v OR push_bit (32 - amount) v)"

definition block_word :: "bytes \<Rightarrow> nat \<Rightarrow> u32" where
  "block_word block i =
     (push_bit 24 (ucast (block ! (i * 4))) OR push_bit 16 (ucast (block ! (i * 4 + 1))) OR
      push_bit 8 (ucast (block ! (i * 4 + 2))) OR ucast (block ! (i * 4 + 3)))"

definition extend_word :: "u32 list \<Rightarrow> nat \<Rightarrow> u32" where
  "extend_word w i =
     (let s0 = rotr 7 (w ! (i - 15)) XOR rotr 18 (w ! (i - 15)) XOR drop_bit 3 (w ! (i - 15));
          s1 = rotr 17 (w ! (i - 2)) XOR rotr 19 (w ! (i - 2)) XOR drop_bit 10 (w ! (i - 2))
      in w ! (i - 16) + s0 + w ! (i - 7) + s1)"

definition sha_schedule :: "bytes \<Rightarrow> u32 list" where
  "sha_schedule block =
     fold (\<lambda>i w. w @ [extend_word w i]) [16..<64] (map (block_word block) [0..<16])"

definition sha_round :: "u32 list \<Rightarrow> nat \<Rightarrow> u32 list \<Rightarrow> u32 list" where
  "sha_round w i v =
     (let s1 = rotr 6 (v ! 4) XOR rotr 11 (v ! 4) XOR rotr 25 (v ! 4);
          ch = ((v ! 4) AND (v ! 5)) XOR (NOT (v ! 4) AND (v ! 6));
          t1 = v ! 7 + s1 + ch + sha_k ! i + w ! i;
          s0 = rotr 2 (v ! 0) XOR rotr 13 (v ! 0) XOR rotr 22 (v ! 0);
          maj = ((v ! 0) AND (v ! 1)) XOR ((v ! 0) AND (v ! 2)) XOR ((v ! 1) AND (v ! 2));
          t2 = s0 + maj
      in [t1 + t2, v ! 0, v ! 1, v ! 2, v ! 3 + t1, v ! 4, v ! 5, v ! 6])"

definition compress :: "u32 list \<Rightarrow> bytes \<Rightarrow> u32 list" where
  "compress state block =
     (let w = sha_schedule block; v = fold (sha_round w) [0..<64] state
      in map (\<lambda>i. state ! i + v ! i) [0..<8])"

section \<open>The one-shot digest\<close>

lemma pad_count:
  assumes "r < 64" "r \<noteq> 56"
  shows "(120 - r) mod 64 = Suc ((120 - Suc r mod 64) mod (64 :: nat))"
proof -
  consider "r < 56" | "r = 63" | "56 < r" "r < 63" using assms by linarith
  then show ?thesis by cases (auto simp: mod_if)
qed

function pad_zeros :: "bytes \<Rightarrow> bytes" where
  "pad_zeros tail = (if length tail mod 64 \<noteq> 56 then pad_zeros (tail @ [0]) else tail)"
  by pat_completeness auto
termination
proof (relation "measure (\<lambda>t. (120 - length t mod 64) mod 64)")
  fix tail :: bytes
  assume "length tail mod 64 \<noteq> 56"
  then show "(tail @ [0], tail) \<in> measure (\<lambda>t. (120 - length t mod 64) mod 64)"
    using pad_count [of "length tail mod 64"] by (simp add: mod_Suc_eq)
qed simp

declare pad_zeros.simps [simp del]

definition length_bytes :: "u64 \<Rightarrow> bytes" where
  "length_bytes bits = map (\<lambda>shift. ucast (drop_bit shift bits)) [56, 48, 40, 32, 24, 16, 8, 0]"

definition finish_tail :: "bytes \<Rightarrow> u64 \<Rightarrow> bytes" where
  "finish_tail tail bits = pad_zeros (tail @ [0x80]) @ length_bytes bits"

definition compress_blocks :: "nat \<Rightarrow> bytes \<Rightarrow> u32 list \<Rightarrow> u32 list" where
  "compress_blocks n bs state = fold (\<lambda>i s. compress s (slice (i * 64) 64 bs)) [0..<n] state"

definition hex_digits :: string where "hex_digits = ''0123456789abcdef''"

definition hex_word :: "u32 \<Rightarrow> string" where
  "hex_word w = map (\<lambda>shift. hex_digits ! unat (drop_bit shift w AND 0xF)) [28, 24, 20, 16, 12, 8, 4, 0]"

definition hex_state :: "u32 list \<Rightarrow> string" where
  "hex_state state = concat (map hex_word state)"

definition sha256_hex :: "bytes \<Rightarrow> string" where
  "sha256_hex bs =
     (let full = length bs div 64;
          state = compress_blocks full bs sha_iv;
          tail = finish_tail (drop (full * 64) bs) (of_nat (length bs) * 8)
      in hex_state (compress_blocks ((length tail + 63) div 64) tail state))"

section \<open>The stream\<close>

record Sha256Stream =
  sh_state :: "u32 list"
  sh_block :: bytes
  sh_block_used :: nat
  sh_total_bytes :: u64

definition sha_stream :: Sha256Stream where
  "sha_stream = \<lparr>sh_state = sha_iv, sh_block = replicate 64 0, sh_block_used = 0, sh_total_bytes = 0\<rparr>"

text \<open>Bytes copied into the open block while it has room; the span that is left.\<close>

fun fill_block :: "bytes \<Rightarrow> nat \<Rightarrow> bytes \<Rightarrow> bytes \<times> nat \<times> bytes" where
  "fill_block block used [] = (block, used, [])"
| "fill_block block used (b # bs) =
     (if used < 64 then fill_block (block[used := b]) (used + 1) bs else (block, used, b # bs))"

text \<open>Whole blocks compressed straight from the span; the span that is left.\<close>

fun absorb :: "u32 list \<Rightarrow> bytes \<Rightarrow> u32 list \<times> bytes" where
  "absorb state bs =
     (if 64 \<le> length bs then absorb (compress state (take 64 bs)) (drop 64 bs) else (state, bs))"

declare absorb.simps [simp del]

fun copy_rest :: "bytes \<Rightarrow> nat \<Rightarrow> bytes \<Rightarrow> bytes \<times> nat" where
  "copy_rest block used [] = (block, used)"
| "copy_rest block used (b # bs) = copy_rest (block[used := b]) (used + 1) bs"

definition sha_absorb :: "bytes \<Rightarrow> Sha256Stream \<Rightarrow> Sha256Stream" where
  "sha_absorb bs s =
     (let (state, rest) = absorb (sh_state s) bs;
          (block, used) = copy_rest (sh_block s) (sh_block_used s) rest
      in s\<lparr>sh_state := state, sh_block := block, sh_block_used := used\<rparr>)"

definition sha_update :: "bytes \<Rightarrow> Sha256Stream \<Rightarrow> Sha256Stream" where
  "sha_update bs s0 =
     (let s = s0\<lparr>sh_total_bytes := sh_total_bytes s0 + of_nat (length bs)\<rparr>
      in if sh_block_used s \<noteq> 0 then
           (let (block, used, rest) = fill_block (sh_block s) (sh_block_used s) bs;
                s' = s\<lparr>sh_block := block, sh_block_used := used\<rparr>
            in if used < 64 then s'
               else sha_absorb rest (s'\<lparr>sh_state := compress (sh_state s') block, sh_block_used := 0\<rparr>))
         else sha_absorb bs s)"

definition sha_finish_hex :: "Sha256Stream \<Rightarrow> string" where
  "sha_finish_hex s =
     (let tail = finish_tail (take (sh_block_used s) (sh_block s)) (sh_total_bytes s * 8)
      in hex_state (compress_blocks ((length tail + 63) div 64) tail (sh_state s)))"

section \<open>Blocks\<close>

lemma pad_zeros_eq: "pad_zeros tail = tail @ replicate ((120 - length tail mod 64) mod 64) 0"
proof (induction tail rule: pad_zeros.induct)
  case (1 tail)
  let ?r = "length tail mod 64"
  show ?case
  proof (cases "?r = 56")
    case True
    then show ?thesis by (subst pad_zeros.simps) simp
  next
    case False
    have "(120 - ?r) mod 64 = Suc ((120 - Suc ?r mod 64) mod 64)" by (rule pad_count) (use False in simp_all)
    then have "replicate ((120 - ?r) mod 64) (0 :: u8) = 0 # replicate ((120 - length (tail @ [0 :: u8]) mod 64) mod 64) 0"
      by (simp add: mod_Suc_eq)
    then show ?thesis using 1 [OF False] False by (subst pad_zeros.simps) simp
  qed
qed

lemma pad_whole: "(n + (120 - n mod 64) mod 64 + 8) mod 64 = (0 :: nat)"
proof -
  have "r < 64 \<Longrightarrow> (r + (120 - r) mod 64 + 8) mod 64 = (0 :: nat)" for r
    by (cases "r \<le> 56") (auto simp: mod_if)
  from this [of "n mod 64"] show ?thesis
    using mod_add_left_eq [of n 64 "(120 - n mod 64) mod 64 + 8"] by (simp add: add.assoc)
qed

lemma length_finish_tail: "length (finish_tail tail bits) mod 64 = 0"
  using pad_whole [of "length (tail @ [0x80 :: u8])"]
  by (simp only: finish_tail_def pad_zeros_eq length_append length_replicate length_bytes_def length_map) simp

lemma absorb_blocks:
  "absorb state bs = (compress_blocks (length bs div 64) bs state, drop (length bs div 64 * 64) bs)"
proof (induction state bs rule: absorb.induct)
  case (1 state bs)
  show ?case
  proof (cases "64 \<le> length bs")
    case True
    let ?n = "length (drop 64 bs) div 64"
    have n: "length bs div 64 = Suc ?n" using True by (simp add: div_if)
    have "slice (i * 64) 64 (drop 64 bs) = slice (Suc i * 64) 64 bs" for i
      by (simp add: slice_def add.commute)
    then have "compress_blocks (Suc ?n) bs state = compress_blocks ?n (drop 64 bs) (compress state (take 64 bs))"
      unfolding compress_blocks_def upt_conv_Cons [OF zero_less_Suc] map_Suc_upt [symmetric]
      by (simp add: fold_map o_def)
    moreover have "drop (?n * 64) (drop 64 bs) = drop (Suc ?n * 64) bs"
      by (simp add: add.commute)
    ultimately show ?thesis using True 1 [OF True] n by (subst absorb.simps) simp
  next
    case False
    then show ?thesis by (subst absorb.simps) (simp add: compress_blocks_def)
  qed
qed

lemma length_absorb: "length (snd (absorb state bs)) = length bs mod 64"
  by (simp add: absorb_blocks minus_div_mult_eq_mod [symmetric])

lemma absorb_append: "absorb state (xs @ ys) = absorb (fst (absorb state xs)) (snd (absorb state xs) @ ys)"
proof (induction state xs rule: absorb.induct)
  case (1 state xs)
  show ?case
  proof (cases "64 \<le> length xs")
    case True
    then have "absorb state (xs @ ys) = absorb (compress state (take 64 xs)) (drop 64 xs @ ys)"
      by (subst absorb.simps) simp
    moreover have "absorb state xs = absorb (compress state (take 64 xs)) (drop 64 xs)"
      using True by (subst absorb.simps) simp
    ultimately show ?thesis using 1 [OF True] by simp
  next
    case False
    then have "absorb state xs = (state, xs)" by (subst absorb.simps) simp
    then show ?thesis by simp
  qed
qed

lemma absorb_full: "length block = 64 \<Longrightarrow> absorb state (block @ bs) = absorb (compress state block) bs"
  by (subst absorb.simps) simp

text \<open>The final blocks of a message whose whole blocks are absorbed.\<close>

lemma finish_blocks:
  "hex_state (compress_blocks ((length (finish_tail tail bits) + 63) div 64) (finish_tail tail bits) state) =
   hex_state (fst (absorb state (finish_tail tail bits)))"
proof -
  have "n mod 64 = 0 \<Longrightarrow> (n + 63) div 64 = n div 64" for n :: nat
    by (auto elim!: dvdE simp: mod_eq_0_iff_dvd)
  from this [OF length_finish_tail]
  have "(length (finish_tail tail bits) + 63) div 64 = length (finish_tail tail bits) div 64" .
  then show ?thesis by (simp add: absorb_blocks)
qed

lemma sha256_hex_absorb:
  "sha256_hex bs = hex_state (fst (absorb (fst (absorb sha_iv bs)) (finish_tail (snd (absorb sha_iv bs)) (of_nat (length bs) * 8))))"
  unfolding sha256_hex_def Let_def finish_blocks by (simp add: absorb_blocks [of sha_iv bs])

section \<open>Streaming\<close>

lemma take_update_snoc:
  assumes "used < length block"
  shows "take (Suc used) (block[used := b]) = take used block @ [b]"
proof -
  have "take (Suc used) (block[used := b]) = take used (block[used := b]) @ [block[used := b] ! used]"
    by (rule take_Suc_conv_app_nth) (use assms in simp)
  then show ?thesis using assms by simp
qed

lemma fill_block_spec:
  "used \<le> 64 \<Longrightarrow> length block = 64 \<Longrightarrow> fill_block block used bs = (block', used', rest) \<Longrightarrow>
     length block' = 64 \<and> used' = used + min (64 - used) (length bs) \<and>
     take used' block' = take used block @ take (min (64 - used) (length bs)) bs \<and>
     rest = drop (min (64 - used) (length bs)) bs"
proof (induction block used bs rule: fill_block.induct)
  case (2 block used b bs)
  show ?case
  proof (cases "used < 64")
    case True
    have m: "min (64 - used) (length (b # bs)) = Suc (min (64 - Suc used) (length bs))"
      using True by (auto simp: min_def)
    have "used + 1 \<le> 64" "length (block[used := b]) = 64" "fill_block (block[used := b]) (used + 1) bs = (block', used', rest)"
      using 2(2-4) True by simp_all
    note IH = 2(1) [OF True this, unfolded Suc_eq_plus1 [symmetric]]
    moreover have "take (Suc used) (block[used := b]) = take used block @ [b]"
      by (rule take_update_snoc) (use True 2(3) in simp)
    ultimately show ?thesis unfolding m using True IH by auto
  next
    case False
    then show ?thesis using 2(2-4) by auto
  qed
qed auto

lemma copy_rest_spec:
  assumes "used + length bs \<le> length block"
  shows "case copy_rest block used bs of (block', used') \<Rightarrow>
     length block' = length block \<and> used' = used + length bs \<and> take used' block' = take used block @ bs"
  using assms
proof (induction block used bs rule: copy_rest.induct)
  case (2 block used b bs)
  then show ?case using take_update_snoc [of used block b] by (auto split: prod.splits)
qed simp

text \<open>A stream represents the message it has been fed.\<close>

definition represents :: "Sha256Stream \<Rightarrow> bytes \<Rightarrow> bool" where
  "represents s m \<longleftrightarrow> length (sh_block s) = 64 \<and> sh_total_bytes s = of_nat (length m) \<and>
     absorb sha_iv m = (sh_state s, take (sh_block_used s) (sh_block s)) \<and> sh_block_used s < 64"

lemma represents_init: "represents sha_stream []"
  by (simp add: represents_def sha_stream_def absorb.simps)

lemma sha_absorb_represents:
  assumes "length (sh_block s) = 64" "sh_block_used s = 0" "sh_total_bytes s = of_nat (length (m @ bs))"
    "absorb sha_iv (m @ bs) = absorb (sh_state s) bs"
  shows "represents (sha_absorb bs s) (m @ bs)"
proof -
  obtain state rest where a: "absorb (sh_state s) bs = (state, rest)" by fastforce
  then have r: "length rest < 64" using length_absorb [of "sh_state s" bs] by simp
  obtain block used where c: "copy_rest (sh_block s) 0 rest = (block, used)" by fastforce
  have C: "length block = 64" "used = length rest" "take used block = rest"
    using copy_rest_spec [of 0 rest "sh_block s"] r assms(1) by (auto simp: c)
  have "length rest < 64 \<and> absorb sha_iv (m @ bs) = (state, take used block)" using r a assms(4) C(3) by simp
  then show ?thesis using C(1,2) assms(3) by (simp add: represents_def sha_absorb_def a c assms(2))
qed

lemma sha_update_represents:
  assumes "represents s m"
  shows "represents (sha_update bs s) (m @ bs)"
proof -
  let ?used = "sh_block_used s" and ?s = "s\<lparr>sh_total_bytes := sh_total_bytes s + of_nat (length bs)\<rparr>"
  have R: "length (sh_block s) = 64" "sh_total_bytes s = of_nat (length m)" "?used < 64"
    "absorb sha_iv m = (sh_state s, take ?used (sh_block s))"
    using assms by (auto simp: represents_def)
  have all: "absorb sha_iv (m @ bs) = absorb (sh_state s) (take ?used (sh_block s) @ bs)"
    using absorb_append [of sha_iv m bs] R(4) by simp
  obtain block used rest where f: "fill_block (sh_block s) ?used bs = (block, used, rest)" by (metis prod_cases3)
  let ?m = "min (64 - ?used) (length bs)"
  have F: "length block = 64" "used = ?used + ?m" "take used block = take ?used (sh_block s) @ take ?m bs" "rest = drop ?m bs"
    using fill_block_spec [OF _ R(1) f] R(3) by auto
  have join: "take ?used (sh_block s) @ bs = take used block @ rest" using F(3,4) by simp
  consider (fresh) "?used = 0" | (partly) "?used \<noteq> 0" "used < 64" | (full) "?used \<noteq> 0" "used = 64"
    using F(2) R(3) by linarith
  then show ?thesis
  proof cases
    case fresh
    then show ?thesis using R all by (simp add: sha_update_def sha_absorb_represents Let_def)
  next
    case partly
    then have "rest = []" using F(2,4) R(3) by (simp add: min_def split: if_splits)
    then have "absorb sha_iv (m @ bs) = (sh_state s, take used block)"
      using all join partly(2) F(1) by (simp add: absorb.simps)
    then show ?thesis using partly R F(1) by (simp add: sha_update_def f represents_def Let_def)
  next
    case full
    then have "absorb sha_iv (m @ bs) = absorb (compress (sh_state s) block) rest"
      using all join absorb_full [OF F(1)] F(1) by simp
    then have "represents (sha_absorb rest (?s\<lparr>sh_block := block, sh_state := compress (sh_state s) block, sh_block_used := 0\<rparr>)) ((m @ take ?m bs) @ rest)"
      using R F by (intro sha_absorb_represents) simp_all
    then show ?thesis using full F(4) by (simp add: sha_update_def f Let_def)
  qed
qed

lemma represents_finish: "represents s m \<Longrightarrow> sha_finish_hex s = sha256_hex m"
  unfolding sha_finish_hex_def Let_def finish_blocks sha256_hex_absorb by (simp add: represents_def)

lemma fold_update_represents: "represents s m \<Longrightarrow> represents (fold sha_update chunks s) (m @ concat chunks)"
proof (induction chunks arbitrary: s m)
  case (Cons c cs)
  then show ?case using Cons.IH [OF sha_update_represents [OF Cons.prems, of c]] by simp
qed simp

section \<open>The standard's description\<close>

text \<open>
  FIPS 180-4: the schedule as a recurrence over the block, rounds over eight named working
  variables, and the padding of the whole message with its length in bits.
\<close>

definition fips_sigma :: "nat \<Rightarrow> nat \<Rightarrow> nat \<Rightarrow> u32 \<Rightarrow> u32" where
  "fips_sigma a b c x = word_rotr a x XOR word_rotr b x XOR word_rotr c x"

definition fips_small :: "nat \<Rightarrow> nat \<Rightarrow> nat \<Rightarrow> u32 \<Rightarrow> u32" where
  "fips_small a b c x = word_rotr a x XOR word_rotr b x XOR drop_bit c x"

definition big_endian :: "u8 \<Rightarrow> u8 \<Rightarrow> u8 \<Rightarrow> u8 \<Rightarrow> u32" where
  "big_endian b3 b2 b1 b0 = of_nat (unat b3 * 2 ^ 24 + unat b2 * 2 ^ 16 + unat b1 * 2 ^ 8 + unat b0)"

fun fips_w :: "bytes \<Rightarrow> nat \<Rightarrow> u32" where
  "fips_w block t =
     (if t < 16 then big_endian (block ! (4 * t)) (block ! (4 * t + 1)) (block ! (4 * t + 2)) (block ! (4 * t + 3))
      else fips_small 17 19 10 (fips_w block (t - 2)) + fips_w block (t - 7) +
           fips_small 7 18 3 (fips_w block (t - 15)) + fips_w block (t - 16))"

declare fips_w.simps [simp del]

type_synonym working = "u32 \<times> u32 \<times> u32 \<times> u32 \<times> u32 \<times> u32 \<times> u32 \<times> u32"

fun fips_round :: "bytes \<Rightarrow> nat \<Rightarrow> working \<Rightarrow> working" where
  "fips_round block t (a, b, c, d, e, f, g, h) =
     (let t1 = h + fips_sigma 6 11 25 e + ((e AND f) XOR (NOT e AND g)) + sha_k ! t + fips_w block t;
          t2 = fips_sigma 2 13 22 a + ((a AND b) XOR (a AND c) XOR (b AND c))
      in (t1 + t2, a, b, c, d + t1, e, f, g))"

fun fips_add :: "working \<Rightarrow> working \<Rightarrow> working" where
  "fips_add (a, b, c, d, e, f, g, h) (a', b', c', d', e', f', g', h') =
     (a + a', b + b', c + c', d + d', e + e', f + f', g + g', h + h')"

definition fips_block :: "bytes \<Rightarrow> working \<Rightarrow> working" where
  "fips_block block hs = fips_add hs (fold (fips_round block) [0..<64] hs)"

definition fips_pad :: "bytes \<Rightarrow> bytes" where
  "fips_pad m = m @ [0x80] @ replicate ((119 - length m mod 64) mod 64) 0 @
     map (\<lambda>i. of_nat (8 * length m div 256 ^ i)) [7, 6, 5, 4, 3, 2, 1, 0]"

definition fips_digest :: "bytes \<Rightarrow> working" where
  "fips_digest m =
     fold (\<lambda>i. fips_block (slice (i * 64) 64 (fips_pad m))) [0..<length (fips_pad m) div 64]
       (0x6a09e667, 0xbb67ae85, 0x3c6ef372, 0xa54ff53a, 0x510e527f, 0x9b05688c, 0x1f83d9ab, 0x5be0cd19)"

fun hex_working :: "working \<Rightarrow> string" where
  "hex_working (a, b, c, d, e, f, g, h) = concat (map hex_word [a, b, c, d, e, f, g, h])"

text \<open>The code's arrays and the standard's variables.\<close>

fun to_list :: "working \<Rightarrow> u32 list" where
  "to_list (a, b, c, d, e, f, g, h) = [a, b, c, d, e, f, g, h]"

lemma rotr_word_rotr:
  assumes "0 < n" "n < 32"
  shows "rotr n x = word_rotr n x"
proof (rule bit_word_eqI)
  fix i assume "i < LENGTH(32)"
  then have i: "i < 32" by simp
  have l: "bit (rotr n x) i \<longleftrightarrow> bit x (i + n) \<or> 32 - n \<le> i \<and> bit x (i - (32 - n))"
    using i by (simp add: rotr_def bit_simps add.commute)
  have r: "bit (word_rotr n x) i \<longleftrightarrow> bit x ((i + n) mod 32)"
    using i by (simp add: bit_word_rotr_iff)
  show "bit (rotr n x) i = bit (word_rotr n x) i"
  proof (cases "i + n < 32")
    case True
    then have "\<not> 32 - n \<le> i" by simp
    then show ?thesis using True l r by simp
  next
    case False
    then have "\<not> bit x (i + n)" "(i + n) mod 32 = i - (32 - n)" "32 - n \<le> i"
      using i assms bit_imp_le_length [of x "i + n"] by (auto simp: mod_if)
    then show ?thesis using l r by simp
  qed
qed

lemma length_schedule_upto: "length (fold (\<lambda>i w. w @ [extend_word w i]) is w) = length w + length is"
  by (induction "is" arbitrary: w) simp_all

lemma bit_u8: "bit (b :: u8) n \<Longrightarrow> n < 8"
  using bit_imp_le_length [of b n] by simp

lemma or_bytes:
  "(push_bit 24 (ucast b3) OR push_bit 16 (ucast b2) OR push_bit 8 (ucast b1) OR ucast b0 :: u32) = big_endian b3 b2 b1 b0"
proof -
  have d: "\<not> bit (push_bit 24 (ucast b3) :: u32) n \<or> \<not> bit (push_bit 16 (ucast b2) OR push_bit 8 (ucast b1) OR ucast b0 :: u32) n"
    "\<not> bit (push_bit 16 (ucast b2) :: u32) n \<or> \<not> bit (push_bit 8 (ucast b1) OR ucast b0 :: u32) n"
    "\<not> bit (push_bit 8 (ucast b1) :: u32) n \<or> \<not> bit (ucast b0 :: u32) n" for n
    using bit_u8 by (auto simp: bit_simps dest!: bit_u8)
  have "(push_bit 24 (ucast b3) OR push_bit 16 (ucast b2) OR push_bit 8 (ucast b1) OR ucast b0 :: u32) =
      push_bit 24 (ucast b3) + (push_bit 16 (ucast b2) + (push_bit 8 (ucast b1) + ucast b0))"
    by (simp only: disjunctive_add [OF d(1)] disjunctive_add [OF d(2)] disjunctive_add [OF d(3)])
  also have "\<dots> = big_endian b3 b2 b1 b0"
    by (simp add: big_endian_def push_bit_eq_mult add.assoc mult.commute)
  finally show ?thesis .
qed

lemma block_word_eq:
  "block_word block i = big_endian (block ! (4 * i)) (block ! (4 * i + 1)) (block ! (4 * i + 2)) (block ! (4 * i + 3))"
  unfolding block_word_def or_bytes by (simp add: mult.commute)

text \<open>The schedule array holds the recurrence.\<close>

lemma schedule_upto:
  "n \<le> 48 \<Longrightarrow> fold (\<lambda>i w. w @ [extend_word w i]) [16..<16 + n] (map (block_word block) [0..<16]) =
     map (fips_w block) [0..<16 + n]"
proof (induction n)
  case 0
  have "map (block_word block) [0..<16] = map (fips_w block) [0..<16]"
    by (rule map_cong) (simp_all add: block_word_eq fips_w.simps)
  then show ?case by simp
next
  case (Suc n)
  let ?w = "map (fips_w block) [0..<16 + n]"
  have "extend_word ?w (16 + n) = fips_w block (16 + n)"
    by (subst fips_w.simps)
      (simp add: extend_word_def fips_small_def rotr_word_rotr Let_def add_ac del: upt_Suc)
  moreover have "[16..<16 + Suc n] = [16..<16 + n] @ [16 + n]" "[0..<16 + Suc n] = [0..<16 + n] @ [16 + n]"
    by (simp_all only: add_Suc_right upt_Suc) simp_all
  ultimately show ?case using Suc by (simp only: fold_append map_append) simp
qed

lemma sha_schedule_eq: "sha_schedule block = map (fips_w block) [0..<64]"
proof -
  have e: "(16 :: nat) + 48 = 64" by simp
  show ?thesis using schedule_upto [of 48 block, unfolded e] unfolding sha_schedule_def by (simp only: order_refl)
qed

lemma working_cases:
  fixes v :: working
  obtains a b c d e f g h where "v = (a, b, c, d, e, f, g, h)"
  by (cases v rule: prod_cases7) (metis surj_pair)

lemma round_eq:
  assumes "t < 64"
  shows "sha_round (sha_schedule block) t (to_list v) = to_list (fips_round block t v)"
proof -
  obtain a b c d e f g h where v: "v = (a, b, c, d, e, f, g, h)" by (rule working_cases)
  have "sha_schedule block ! t = fips_w block t" using assms by (simp add: sha_schedule_eq del: upt_Suc)
  then show ?thesis
    by (simp add: v sha_round_def Let_def fips_sigma_def rotr_word_rotr)
qed

lemma rounds_eq:
  "set ts \<subseteq> {..<64} \<Longrightarrow> fold (sha_round (sha_schedule block)) ts (to_list v) = to_list (fold (fips_round block) ts v)"
  by (induction ts arbitrary: v) (simp_all add: round_eq)

lemma compress_eq: "compress (to_list hs) block = to_list (fips_block block hs)"
proof -
  have r: "fold (sha_round (sha_schedule block)) [0..<64] (to_list hs) = to_list (fold (fips_round block) [0..<64] hs)"
    by (rule rounds_eq) auto
  obtain a b c d e f g h where h: "hs = (a, b, c, d, e, f, g, h)" by (rule working_cases)
  obtain a' b' c' d' e' f' g' h' where v: "fold (fips_round block) [0..<64] hs = (a', b', c', d', e', f', g', h')"
by (rule working_cases)
  have l: "[0..<8] = [0, 1, 2, 3, 4, 5, 6, 7]" by (simp add: upt_rec)
  show ?thesis unfolding compress_def fips_block_def Let_def r v unfolding h l by simp
qed

text \<open>The code's tail is the standard's padding.\<close>

lemma length_bytes_of_nat:
  "length_bytes (of_nat m) = map (\<lambda>i. of_nat (m div 256 ^ i)) [7, 6, 5, 4, 3, 2, 1, 0]"
proof -
  have byte: "ucast (drop_bit (8 * i) (of_nat m :: u64)) = (of_nat (m div 256 ^ i) :: u8)" if "i \<in> {0..<8}" for i
  proof -
    have "m div 256 ^ i = drop_bit (8 * i) m" by (simp add: drop_bit_eq_div power_mult)
    moreover have "ucast (drop_bit (8 * i) (of_nat m :: u64)) = (of_nat (drop_bit (8 * i) m) :: u8)"
      by (rule bit_word_eqI) (use that in \<open>auto simp: bit_simps\<close>)
    ultimately show ?thesis by simp
  qed
  have "length_bytes (of_nat m) = map (\<lambda>i. ucast (drop_bit (8 * i) (of_nat m :: u64))) [7, 6, 5, 4, 3, 2, 1, 0]"
    by (simp add: length_bytes_def)
  also have "\<dots> = map (\<lambda>i. of_nat (m div 256 ^ i)) [7, 6, 5, 4, 3, 2, 1, 0]"
    by (rule map_cong [OF refl]) (rule byte, auto)
  finally show ?thesis .
qed

lemma length_bytes_eq:
  "length_bytes (of_nat n * 8) = map (\<lambda>i. of_nat (8 * n div 256 ^ i)) [7, 6, 5, 4, 3, 2, 1, 0]"
proof -
  have e: "(of_nat n * 8 :: u64) = of_nat (8 * n)" by simp
  show ?thesis unfolding e by (rule length_bytes_of_nat)
qed

lemma fips_pad_eq:
  "fips_pad m = take (length m div 64 * 64) m @ finish_tail (drop (length m div 64 * 64) m) (of_nat (length m) * 8)"
proof -
  let ?r = "length m mod 64"
  have l: "length (drop (length m div 64 * 64) m) = ?r" by (simp add: minus_div_mult_eq_mod [symmetric])
  have "r < 64 \<Longrightarrow> (120 - Suc r mod 64) mod 64 = (119 - r) mod (64 :: nat)" for r
    by (cases "r = 63") simp_all
  from this [of ?r] have "pad_zeros (drop (length m div 64 * 64) m @ [0x80]) =
      drop (length m div 64 * 64) m @ [0x80] @ replicate ((119 - ?r) mod 64) 0"
    unfolding pad_zeros_eq length_append l by simp
  then show ?thesis
    by (simp add: fips_pad_def finish_tail_def length_bytes_eq)
qed

lemma hex_state_to_list: "hex_state (to_list v) = hex_working v"
  by (cases v rule: working_cases) (simp add: hex_state_def)

lemma fold_blocks_eq:
  "fold (\<lambda>i s. compress s (slice (i * 64) 64 bs)) is (to_list hs) = to_list (fold (\<lambda>i. fips_block (slice (i * 64) 64 bs)) is hs)"
  by (induction "is" arbitrary: hs) (simp_all add: compress_eq)


text \<open>
  C25. Hashing in pieces is hashing at once: feeding any sequence of chunks to a fresh stream and
  finishing it gives the digest of their concatenation.
\<close>

theorem sha_stream_digest: "sha_finish_hex (fold sha_update chunks sha_stream) = sha256_hex (concat chunks)"
  using represents_finish [OF fold_update_represents [OF represents_init]] by simp

end
