(* ===== verification/Bps.thy ===== *)
theory Bps
  imports Prelude
begin

text \<open>
  The BPS patches of \<^verbatim>\<open>libs/media/src/patch_bps.cpp\<close>: the CRC-32 over a table, the
  variable-length numbers and \<^verbatim>\<open>apply_bps\<close> with its command loop. Positions, sizes and the two
  running offsets are \<open>nat\<close>: the guards of the source keep every intermediate value of
  \<^verbatim>\<open>read_number\<close> within 64 bits (\<open>read_number_fits\<close>). An index outside its buffer, which C++
  would leave undefined, is an outcome of its own, \<open>Out_of_bounds\<close>, and so is running out of
  the fuel of the command loop.
\<close>

section \<open>CRC-32\<close>

definition crc_bit :: "u32 \<Rightarrow> u32" where
  "crc_bit c = (if c AND 1 \<noteq> 0 then 0xEDB88320 XOR drop_bit 1 c else drop_bit 1 c)"

definition crc_table :: "u32 list" where
  "crc_table = map (\<lambda>i. (crc_bit ^^ 8) (of_nat i)) [0..<256]"

definition crc_byte :: "u8 \<Rightarrow> u32 \<Rightarrow> u32" where
  "crc_byte b c = crc_table ! unat ((c XOR ucast b) AND 0xFF) XOR drop_bit 8 c"

definition crc32 :: "bytes \<Rightarrow> u32" where
  "crc32 bs = fold crc_byte bs 0xFFFFFFFF XOR 0xFFFFFFFF"

section \<open>Results\<close>

datatype bps_failure = Refused string | Out_of_bounds | Out_of_fuel

type_synonym 'a bps = "bps_failure + 'a"

definition bps_bind :: "'a bps \<Rightarrow> ('a \<Rightarrow> 'b bps) \<Rightarrow> 'b bps" where
  "bps_bind r f = (case r of Inl e \<Rightarrow> Inl e | Inr v \<Rightarrow> f v)"

lemma bps_bind_simps [simp]: "bps_bind (Inl e) f = Inl e" "bps_bind (Inr v) f = f v"
  by (simp_all add: bps_bind_def)

lemma bps_bind_cong [fundef_cong]:
  "r = r' \<Longrightarrow> (\<And>v. r' = Inr v \<Longrightarrow> f v = f' v) \<Longrightarrow> bps_bind r f = bps_bind r' f'"
  by (cases r') simp_all

definition bps_read :: "bytes \<Rightarrow> nat \<Rightarrow> u8 bps" where
  "bps_read bs i = (if i < length bs then Inr (bs ! i) else Inl Out_of_bounds)"

definition le32 :: "bytes \<Rightarrow> nat \<Rightarrow> u32 bps" where
  "le32 b at =
     bps_bind (bps_read b at) (\<lambda>b0. bps_bind (bps_read b (at + 1)) (\<lambda>b1.
     bps_bind (bps_read b (at + 2)) (\<lambda>b2. bps_bind (bps_read b (at + 3)) (\<lambda>b3.
       Inr (ucast b0 OR push_bit 8 (ucast b1) OR push_bit 16 (ucast b2) OR push_bit 24 (ucast b3))))))"

section \<open>Numbers\<close>

definition kUint64Max :: nat where "kUint64Max = 2 ^ 64 - 1"

text \<open>The loop of \<^verbatim>\<open>read_number\<close>; \<open>None\<close> is its \<^verbatim>\<open>return false\<close>.\<close>

function read_number_from :: "bytes \<Rightarrow> nat \<Rightarrow> nat \<Rightarrow> nat \<Rightarrow> nat \<Rightarrow> (nat \<times> nat) option bps" where
  "read_number_from p at end_at data shift =
    (if end_at \<le> at then Inr None
     else bps_bind (bps_read p at) (\<lambda>x.
       let add = unat (x AND 0x7F) in
       if add \<noteq> 0 \<and> shift > (kUint64Max - data) div add then Inr None
       else let data' = data + add * shift in
         if x AND 0x80 \<noteq> 0 then Inr (Some (data', at + 1))
         else if shift > kUint64Max div 2 ^ 7 then Inr None
         else let shift' = shift * 2 ^ 7 in
           if data' > kUint64Max - shift' then Inr None
           else read_number_from p (at + 1) end_at (data' + shift') shift'))"
  by pat_completeness auto
termination
  by (relation "measure (\<lambda>(p, at, end_at, data, shift). end_at - at)") auto

declare read_number_from.simps [simp del]

definition read_number :: "bytes \<Rightarrow> nat \<Rightarrow> nat \<Rightarrow> (nat \<times> nat) option bps" where
  "read_number p at end_at = read_number_from p at end_at 0 1"

text \<open>A number that must be there.\<close>

definition need_number :: "string \<Rightarrow> bytes \<Rightarrow> nat \<Rightarrow> nat \<Rightarrow> (nat \<times> nat) bps" where
  "need_number why p at end_at =
     bps_bind (read_number p at end_at) (\<lambda>r. case r of None \<Rightarrow> Inl (Refused why) | Some v \<Rightarrow> Inr v)"

section \<open>The commands\<close>

definition kMaxPatchBytes :: nat where "kMaxPatchBytes = push_bit 20 16"
definition kMaxImageBytes :: nat where "kMaxImageBytes = push_bit 20 16"

text \<open>
  The two copy loops: from another buffer, and within the output, where a byte may have been
  written by an earlier round.
\<close>

fun copy_from :: "bytes \<Rightarrow> nat \<Rightarrow> nat \<Rightarrow> nat \<Rightarrow> bytes \<Rightarrow> bytes bps" where
  "copy_from src s d 0 out = Inr out"
| "copy_from src s d (Suc n) out =
     (if s < length src \<and> d < length out then copy_from src (s + 1) (d + 1) n (out[d := src ! s])
      else Inl Out_of_bounds)"

fun copy_within :: "nat \<Rightarrow> nat \<Rightarrow> nat \<Rightarrow> bytes \<Rightarrow> bytes bps" where
  "copy_within s d 0 out = Inr out"
| "copy_within s d (Suc n) out =
     (if s < length out \<and> d < length out then copy_within (s + 1) (d + 1) n (out[d := out ! s])
      else Inl Out_of_bounds)"

record Bps =
  bp_at :: nat
  bp_out :: bytes
  bp_out_at :: nat
  bp_source_rel :: nat
  bp_target_rel :: nat

text \<open>The signed offset added to a running one.\<close>

definition move_rel :: "nat \<Rightarrow> nat \<Rightarrow> nat bps" where
  "move_rel raw rel =
     (let magnitude = raw div 2 in
      if raw mod 2 \<noteq> 0 then
        (if magnitude > rel then Inl (Refused ''a BPS copy offset is out of range'') else Inr (rel - magnitude))
      else if magnitude > kUint64Max - rel then Inl (Refused ''a BPS copy offset is out of range'')
      else Inr (rel + magnitude))"

definition source_read :: "bytes \<Rightarrow> nat \<Rightarrow> Bps \<Rightarrow> Bps bps" where
  "source_read source n s =
     (if bp_out_at s + n > length source then Inl (Refused ''a BPS SourceRead runs past the source'')
      else bps_bind (copy_from source (bp_out_at s) (bp_out_at s) n (bp_out s)) (\<lambda>out.
        Inr (s\<lparr>bp_out := out\<rparr>)))"

definition target_read :: "bytes \<Rightarrow> nat \<Rightarrow> nat \<Rightarrow> Bps \<Rightarrow> Bps bps" where
  "target_read patch footer n s =
     (if n > footer - bp_at s then Inl (Refused ''a BPS TargetRead runs past the patch'')
      else bps_bind (copy_from patch (bp_at s) (bp_out_at s) n (bp_out s)) (\<lambda>out.
        Inr (s\<lparr>bp_out := out, bp_at := bp_at s + n\<rparr>)))"

definition source_copy :: "bytes \<Rightarrow> nat \<Rightarrow> nat \<Rightarrow> Bps \<Rightarrow> Bps bps" where
  "source_copy source raw n s =
     bps_bind (move_rel raw (bp_source_rel s)) (\<lambda>rel.
       if rel > length source \<or> n > length source - rel
       then Inl (Refused ''a BPS SourceCopy runs past the source'')
       else bps_bind (copy_from source rel (bp_out_at s) n (bp_out s)) (\<lambda>out.
         Inr (s\<lparr>bp_out := out, bp_source_rel := rel + n\<rparr>)))"

definition target_copy :: "nat \<Rightarrow> nat \<Rightarrow> Bps \<Rightarrow> Bps bps" where
  "target_copy raw n s =
     bps_bind (move_rel raw (bp_target_rel s)) (\<lambda>rel.
       if rel \<ge> bp_out_at s then Inl (Refused ''a BPS TargetCopy reads output that does not exist yet'')
       else bps_bind (copy_within rel (bp_out_at s) n (bp_out s)) (\<lambda>out.
         Inr (s\<lparr>bp_out := out, bp_target_rel := rel + n\<rparr>)))"

text \<open>One command word and its operands.\<close>

definition bps_command :: "bytes \<Rightarrow> bytes \<Rightarrow> nat \<Rightarrow> nat \<Rightarrow> nat \<Rightarrow> Bps \<Rightarrow> Bps bps" where
  "bps_command patch source footer code n s =
     (if code = 0 then source_read source n s
      else if code = 1 then target_read patch footer n s
      else bps_bind (need_number ''a BPS copy offset is truncated'' patch (bp_at s) footer) (\<lambda>(raw, at).
        let s' = s\<lparr>bp_at := at\<rparr> in
        if code = 2 then source_copy source raw n s' else target_copy raw n s'))"

definition bps_step :: "bytes \<Rightarrow> bytes \<Rightarrow> nat \<Rightarrow> Bps \<Rightarrow> Bps bps" where
  "bps_step patch source footer s =
     bps_bind
       (if bp_at s \<ge> footer then Inl (Refused ''the BPS command stream is truncated'')
        else need_number ''the BPS command stream is truncated'' patch (bp_at s) footer) (\<lambda>(word, at).
       let len = word div 4 + 1 in
       if len > length (bp_out s) - bp_out_at s then Inl (Refused ''a BPS command writes past the target size'')
       else bps_bind (bps_command patch source footer (word mod 4) len (s\<lparr>bp_at := at\<rparr>)) (\<lambda>s'.
         Inr (s'\<lparr>bp_out_at := bp_out_at s' + len\<rparr>)))"

text \<open>
  The command loop. Each command writes at least one byte, so as many rounds as the target has
  bytes are enough: \<open>fuel\<close> is the number of bytes still to write.
\<close>

fun bps_commands :: "nat \<Rightarrow> bytes \<Rightarrow> bytes \<Rightarrow> nat \<Rightarrow> Bps \<Rightarrow> Bps bps" where
  "bps_commands 0 patch source footer s = (if bp_out_at s < length (bp_out s) then Inl Out_of_fuel else Inr s)"
| "bps_commands (Suc fuel) patch source footer s =
     (if bp_out_at s < length (bp_out s)
      then bps_bind (bps_step patch source footer s) (bps_commands fuel patch source footer)
      else Inr s)"

section \<open>The patch\<close>

text \<open>The three numbers of the header and the position after the metadata.\<close>

definition bps_header :: "bytes \<Rightarrow> nat \<Rightarrow> (nat \<times> nat \<times> nat \<times> nat) bps" where
  "bps_header patch footer =
     (let why = ''the BPS header is malformed'' in
      bps_bind (need_number why patch 4 footer) (\<lambda>(source_len, at1).
      bps_bind (need_number why patch at1 footer) (\<lambda>(target_len, at2).
      bps_bind (need_number why patch at2 footer) (\<lambda>(metadata_len, at3).
        Inr (source_len, target_len, metadata_len, at3)))))"

definition bps_body :: "bytes \<Rightarrow> bytes \<Rightarrow> nat \<Rightarrow> nat \<Rightarrow> nat \<Rightarrow> bytes bps" where
  "bps_body patch source footer target_len at =
     (let s0 = \<lparr>bp_at = at, bp_out = replicate target_len 0, bp_out_at = 0, bp_source_rel = 0, bp_target_rel = 0\<rparr>
      in bps_bind (bps_commands target_len patch source footer s0) (\<lambda>s.
           if bp_at s \<noteq> footer then Inl (Refused ''the BPS command stream has trailing bytes'')
           else bps_bind (le32 patch (footer + 4)) (\<lambda>crc.
             if crc32 (bp_out s) \<noteq> crc
             then Inl (Refused ''the BPS target checksum does not match the patched image'')
             else Inr (bp_out s))))"

text \<open>The checks after the header, and the body.\<close>

fun bps_payload :: "bytes \<Rightarrow> bytes \<Rightarrow> nat \<Rightarrow> nat \<Rightarrow> nat \<times> nat \<times> nat \<times> nat \<Rightarrow> bytes bps" where
  "bps_payload patch source footer max_output (source_len, target_len, metadata_len, at) =
     (if source_len \<noteq> length source then Inl (Refused ''the BPS source size does not match the original image'')
      else if target_len > max_output then Inl (Refused ''the BPS target size exceeds the allowed output size'')
      else if metadata_len > footer - at then Inl (Refused ''the BPS metadata runs past the patch'')
      else bps_bind (le32 patch footer) (\<lambda>source_crc.
        if crc32 source \<noteq> source_crc
        then Inl (Refused ''the BPS source checksum does not match the original image'')
        else bps_body patch source footer target_len (at + metadata_len)))"

definition apply_bps :: "bytes \<Rightarrow> bytes \<Rightarrow> nat \<Rightarrow> bytes bps" where
  "apply_bps patch source max_output =
     (if length patch > kMaxPatchBytes then Inl (Refused ''the BPS payload is too large'')
      else if length patch < 4 + 3 + 12 then Inl (Refused ''the BPS payload is truncated'')
      else bps_bind (bps_read patch 0) (\<lambda>m0. bps_bind (bps_read patch 1) (\<lambda>m1.
        bps_bind (bps_read patch 2) (\<lambda>m2. bps_bind (bps_read patch 3) (\<lambda>m3.
      if m0 \<noteq> 0x42 \<or> m1 \<noteq> 0x50 \<or> m2 \<noteq> 0x53 \<or> m3 \<noteq> 0x31 then Inl (Refused ''the payload is not a BPS1 patch'')
      else let footer = length patch - 12 in
        bps_bind (le32 patch (length patch - 4)) (\<lambda>patch_crc.
        if crc32 (take (length patch - 4) patch) \<noteq> patch_crc then Inl (Refused ''the BPS patch checksum does not match'')
        else bps_bind (bps_header patch footer) (bps_payload patch source footer max_output)))))))"

section \<open>CRC-32 bit by bit\<close>

text \<open>The serial form: one register shift per message bit, least significant bit first.\<close>

definition serial_bit :: "bool \<Rightarrow> u32 \<Rightarrow> u32" where
  "serial_bit x c = (if bit c 0 \<noteq> x then 0xEDB88320 XOR drop_bit 1 c else drop_bit 1 c)"

definition byte_bits :: "u8 \<Rightarrow> bool list" where
  "byte_bits b = map (bit b) [0..<8]"

definition crc32_serial :: "bytes \<Rightarrow> u32" where
  "crc32_serial bs = fold serial_bit (concat (map byte_bits bs)) 0xFFFFFFFF XOR 0xFFFFFFFF"

lemma crc_bit_alt: "crc_bit c = (if bit c 0 then 0xEDB88320 else 0) XOR drop_bit 1 c"
  by (simp add: crc_bit_def and_one_eq odd_iff_mod_2_eq_one [symmetric] bit_0)

lemma crc_bit_xor: "crc_bit (c XOR d) = crc_bit c XOR crc_bit d"
  by (simp add: crc_bit_alt bit_xor_iff xor.assoc xor.left_commute)

lemma crc_bits_xor: "(crc_bit ^^ n) (c XOR d) = (crc_bit ^^ n) c XOR (crc_bit ^^ n) d"
  by (induction n arbitrary: c d) (simp_all add: crc_bit_xor)

lemma crc_bits_low: "(\<And>i. i < n \<Longrightarrow> \<not> bit c i) \<Longrightarrow> (crc_bit ^^ n) c = drop_bit n c"
proof (induction n)
  case (Suc n)
  then have "(crc_bit ^^ Suc n) c = crc_bit (drop_bit n c)" by simp
  also have "\<dots> = drop_bit (Suc n) c" using Suc.prems [of n] by (simp add: crc_bit_alt bit_drop_bit_eq)
  finally show ?case .
qed simp

lemma serial_bit_eq: "serial_bit x c = crc_bit (c XOR of_bool x)"
  by (simp add: serial_bit_def crc_bit_alt bit_xor_iff bit_of_bool_iff drop_bit_xor)

text \<open>After \<open>k\<close> bits of a byte the register has shifted the first \<open>k\<close> bits out.\<close>

lemma serial_bits_upto:
  "k \<le> 8 \<Longrightarrow> fold serial_bit (map (bit (b :: u8)) [0..<k]) c = (crc_bit ^^ k) (c XOR take_bit k (ucast b))"
proof (induction k)
  case (Suc k)
  let ?x = "of_bool (bit b k) :: u32"
  have s: "(crc_bit ^^ k) (push_bit k ?x) = ?x"
  proof -
    have "(crc_bit ^^ k) (push_bit k ?x) = drop_bit k (push_bit k ?x)"
      by (rule crc_bits_low) (simp add: bit_push_bit_iff)
    also have "\<dots> = ?x"
      by (rule bit_word_eqI) (use Suc.prems in \<open>auto simp: bit_simps\<close>)
    finally show ?thesis .
  qed
  have t: "take_bit (Suc k) (ucast b :: u32) = take_bit k (ucast b) XOR push_bit k ?x"
  proof (rule bit_word_eqI)
    fix i assume "i < LENGTH(32)"
    then show "bit (take_bit (Suc k) (ucast b :: u32)) i = bit (take_bit k (ucast b) XOR push_bit k ?x) i"
      by (auto simp: bit_simps less_Suc_eq)
  qed
  have "fold serial_bit (map (bit b) [0..<Suc k]) c = crc_bit ((crc_bit ^^ k) (c XOR take_bit k (ucast b)) XOR ?x)"
    using Suc.IH Suc.prems by (simp add: serial_bit_eq [of "bit b k"])
  also have "\<dots> = (crc_bit ^^ Suc k) (c XOR take_bit (Suc k) (ucast b))"
  proof -
    have "(crc_bit ^^ Suc k) (c XOR take_bit (Suc k) (ucast b)) =
        crc_bit ((crc_bit ^^ k) ((c XOR take_bit k (ucast b)) XOR push_bit k ?x))"
      unfolding t by (simp add: xor.assoc)
    then show ?thesis unfolding crc_bits_xor s by simp
  qed
  finally show ?case .
qed simp

lemma crc_byte_eq: "crc_byte b c = fold serial_bit (byte_bits b) c"
proof -
  let ?v = "c XOR ucast b"
  have t: "crc_table ! unat (?v AND 0xFF) = (crc_bit ^^ 8) (?v AND 0xFF)"
  proof -
    have "?v AND 0xFF \<le> (0xFF :: u32)" by (rule word_and_le1)
    then have "unat (?v AND 0xFF) < 256" by (simp add: word_le_nat_alt)
    then show ?thesis by (simp add: crc_table_def)
  qed
  have m: "(0xFF :: u32) = mask 8" by (simp add: mask_eq_exp_minus_1)
  have v: "?v = (?v AND 0xFF) XOR push_bit 8 (drop_bit 8 ?v)"
    unfolding m by (rule bit_word_eqI) (auto simp: bit_simps)
  have "(crc_bit ^^ 8) (push_bit 8 (drop_bit 8 ?v)) = drop_bit 8 (push_bit 8 (drop_bit 8 ?v))"
    by (rule crc_bits_low) (auto simp: bit_simps)
  also have "\<dots> = drop_bit 8 c"
    by (rule bit_word_eqI) (auto simp: bit_simps dest: bit_imp_le_length)
  finally have "(crc_bit ^^ 8) ?v = (crc_bit ^^ 8) (?v AND 0xFF) XOR drop_bit 8 c"
    by (subst v) (simp only: crc_bits_xor)
  moreover have "take_bit 8 (ucast b) = (ucast b :: u32)"
    by (rule bit_word_eqI) (auto simp: bit_simps dest: bit_imp_le_length)
  ultimately show ?thesis
    using serial_bits_upto [of 8 b c] by (simp only: crc_byte_def t byte_bits_def order_refl)
qed

text \<open>
  C26. The table-driven CRC-32 is the serial one: shifting the message through the reflected
  register bit by bit gives the same value for every message.
\<close>

theorem crc32_bitwise: "crc32 bs = crc32_serial bs"
proof -
  have "fold crc_byte bs c = fold serial_bit (concat (map byte_bits bs)) c" for c
    by (induction bs arbitrary: c) (simp_all add: crc_byte_eq)
  then show ?thesis by (simp add: crc32_def crc32_serial_def)
qed

section \<open>Every index is in range\<close>

text \<open>
  A small proof system for the outcomes: \<open>bps_ok r Q\<close> says that \<open>r\<close> is a refusal or a value
  with \<open>Q\<close>, never an index out of range and never a lack of fuel.
\<close>

definition bps_ok :: "'a bps \<Rightarrow> ('a \<Rightarrow> bool) \<Rightarrow> bool" where
  "bps_ok r Q \<longleftrightarrow> (case r of Inr v \<Rightarrow> Q v | Inl e \<Rightarrow> e \<noteq> Out_of_bounds \<and> e \<noteq> Out_of_fuel)"

named_theorems bps_intros \<open>rules that establish an outcome\<close>

lemma bps_ok_simps [simp]: "bps_ok (Inr v) Q = Q v" "bps_ok (Inl (Refused why)) Q"
  by (simp_all add: bps_ok_def)

lemma bps_ok_bind [bps_intros]: "bps_ok r P \<Longrightarrow> (\<And>v. P v \<Longrightarrow> bps_ok (f v) Q) \<Longrightarrow> bps_ok (bps_bind r f) Q"
  by (cases r) (simp_all add: bps_ok_def)

lemma bps_ok_mono: "bps_ok r P \<Longrightarrow> (\<And>v. P v \<Longrightarrow> Q v) \<Longrightarrow> bps_ok r Q"
  by (cases r) (simp_all add: bps_ok_def)

lemma bps_ok_if [bps_intros]: "(b \<Longrightarrow> bps_ok r Q) \<Longrightarrow> (\<not> b \<Longrightarrow> bps_ok r' Q) \<Longrightarrow> bps_ok (if b then r else r') Q"
  by simp

lemma bps_read_ok: "i < length bs \<Longrightarrow> bps_read bs i = Inr (bs ! i)"
  by (simp add: bps_read_def)

lemma le32_ok: "at + 4 \<le> length b \<Longrightarrow> le32 b at =
    Inr (ucast (b ! at) OR push_bit 8 (ucast (b ! (at + 1))) OR push_bit 16 (ucast (b ! (at + 2))) OR push_bit 24 (ucast (b ! (at + 3))))"
  by (simp add: le32_def bps_read_ok)

text \<open>The number loop stays within 64 bits and within the patch.\<close>

lemma read_number_fits:
  "at \<le> end_at \<Longrightarrow> end_at \<le> length p \<Longrightarrow> data \<le> kUint64Max \<Longrightarrow> shift \<le> kUint64Max \<Longrightarrow>
     bps_ok (read_number_from p at end_at data shift)
       (\<lambda>r. case r of None \<Rightarrow> True | Some (v, at') \<Rightarrow> at < at' \<and> at' \<le> end_at \<and> v \<le> kUint64Max)"
proof (induction p at end_at data shift rule: read_number_from.induct)
  case (1 p at end_at data shift)
  show ?case
  proof (cases "end_at \<le> at")
    case False
    let ?x = "p ! at"
    let ?add = "unat (?x AND 0x7F)"
    have x: "bps_read p at = Inr ?x" using False 1(3) by (simp add: bps_read_ok)
    show ?thesis
    proof (cases "?add \<noteq> 0 \<and> shift > (kUint64Max - data) div ?add")
      case ok: False
      have add: "data + ?add * shift \<le> kUint64Max"
      proof (cases "?add = 0")
        case a: False
        then have "shift \<le> (kUint64Max - data) div ?add" using ok by simp
        then have "?add * shift \<le> kUint64Max - data"
          using a by (simp add: less_eq_div_iff_mult_less_eq mult.commute)
        then show ?thesis using 1(4) by simp
      qed (use 1(4) in simp)
      show ?thesis
      proof (cases "?x AND 0x80 \<noteq> 0 \<or> shift > kUint64Max div 2 ^ 7 \<or> data + ?add * shift > kUint64Max - shift * 2 ^ 7")
        case True
        then show ?thesis using False ok x add by (subst read_number_from.simps) (auto simp: Let_def)
      next
        case more: False
        have s: "shift * 2 ^ 7 \<le> kUint64Max" using more less_eq_div_iff_mult_less_eq [of 128 shift kUint64Max] by simp
        then have d: "data + ?add * shift + shift * 2 ^ 7 \<le> kUint64Max" using more by auto
        have "bps_ok (read_number_from p (at + 1) end_at (data + ?add * shift + shift * 2 ^ 7) (shift * 2 ^ 7))
            (\<lambda>r. case r of None \<Rightarrow> True | Some (v, at') \<Rightarrow> at + 1 < at' \<and> at' \<le> end_at \<and> v \<le> kUint64Max)"
          using 1(1) [OF False x refl _ refl] 1(3) False ok more s d by (simp add: not_less)
        then have "bps_ok (read_number_from p (at + 1) end_at (data + ?add * shift + shift * 2 ^ 7) (shift * 2 ^ 7))
            (\<lambda>r. case r of None \<Rightarrow> True | Some (v, at') \<Rightarrow> at < at' \<and> at' \<le> end_at \<and> v \<le> kUint64Max)"
          by (rule bps_ok_mono) (auto split: option.splits)
        then show ?thesis using False ok more x by (subst read_number_from.simps) (simp add: Let_def)
      qed
    qed (use False x in \<open>subst read_number_from.simps, simp add: Let_def\<close>)
  qed (subst read_number_from.simps, simp)
qed

lemma need_number_ok:
  assumes "at \<le> end_at" "end_at \<le> length p"
  shows "bps_ok (need_number why p at end_at) (\<lambda>(v, at'). at < at' \<and> at' \<le> end_at \<and> v \<le> kUint64Max)"
proof -
  have "bps_ok (read_number p at end_at)
      (\<lambda>r. case r of None \<Rightarrow> True | Some (v, at') \<Rightarrow> at < at' \<and> at' \<le> end_at \<and> v \<le> kUint64Max)"
    unfolding read_number_def by (rule read_number_fits [OF assms]) (simp_all add: kUint64Max_def)
  then show ?thesis unfolding need_number_def
    by (rule bps_ok_bind) (auto split: option.splits)
qed

text \<open>The copy loops, in terms of the buffers.\<close>

lemma copy_from_eq:
  "s + n \<le> length src \<Longrightarrow> d + n \<le> length out \<Longrightarrow>
     copy_from src s d n out = Inr (take d out @ slice s n src @ drop (d + n) out)"
proof (induction src s d n out rule: copy_from.induct)
  case (2 src s d n out)
  have "take (d + 1) (out[d := src ! s]) = take d out @ [src ! s]" using 2(3) by (simp add: take_Suc_conv_app_nth)
  moreover have "slice s (Suc n) src = src ! s # slice (s + 1) n src"
    using 2(2) by (simp add: slice_def Cons_nth_drop_Suc [symmetric])
  ultimately show ?case using 2 by simp
qed (simp add: slice_def)

lemma copy_within_from:
  fixes out s d
  defines "L \<equiv> \<lambda>k. lz_copy (d - s) k (take d out)"
  assumes "s < d"
  shows "d + k + n \<le> length out \<Longrightarrow>
     copy_within (s + k) (d + k) n (L k @ drop (d + k) out) = Inr (L (k + n) @ drop (d + k + n) out)"
proof (induction n arbitrary: k)
  case (Suc n)
  let ?buf = "L k @ drop (d + k) out"
  have l: "length (L k) = d + k" using Suc.prems by (simp add: L_def)
  have "L (Suc k) = L k @ [L k ! (d + k - (d - s))]"
    unfolding L_def using lz_copy_Suc [of "d - s" "take d out" k] assms(2) Suc.prems by simp
  also have "L k ! (d + k - (d - s)) = ?buf ! (s + k)"
    using assms(2) l by (simp add: nth_append add.commute)
  finally have "?buf[d + k := ?buf ! (s + k)] = L (Suc k) @ drop (d + Suc k) out"
    using l Suc.prems by (simp add: list_update_append Cons_nth_drop_Suc [symmetric])
  moreover have "s + k < length ?buf" "d + k < length ?buf" using assms(2) l Suc.prems by simp_all
  ultimately show ?case using Suc.IH [of "Suc k"] Suc.prems by simp
qed (simp add: L_def)

lemma copy_within_eq:
  assumes "s < d" "d + n \<le> length out"
  shows "copy_within s d n out = Inr (lz_copy (d - s) n (take d out) @ drop (d + n) out)"
  using copy_within_from [OF assms(1), of 0 n out] assms(2) by simp

text \<open>The state of the command loop.\<close>

definition bps_inv :: "bytes \<Rightarrow> nat \<Rightarrow> nat \<Rightarrow> Bps \<Rightarrow> bool" where
  "bps_inv patch footer len s \<longleftrightarrow> bp_at s \<le> footer \<and> footer + 12 \<le> length patch \<and>
     length (bp_out s) = len \<and> bp_out_at s \<le> len"

lemma source_read_ok:
  "bps_inv patch footer len s \<Longrightarrow> bp_out_at s + n \<le> len \<Longrightarrow>
     bps_ok (source_read source n s) (\<lambda>s'. bps_inv patch footer len s' \<and> bp_out_at s' = bp_out_at s)"
  by (auto simp: source_read_def copy_from_eq bps_inv_def)

lemma target_read_ok:
  "bps_inv patch footer len s \<Longrightarrow> bp_out_at s + n \<le> len \<Longrightarrow>
     bps_ok (target_read patch footer n s) (\<lambda>s'. bps_inv patch footer len s' \<and> bp_out_at s' = bp_out_at s)"
  by (auto simp: target_read_def copy_from_eq bps_inv_def)

lemma source_copy_ok:
  assumes "bps_inv patch footer len s" "bp_out_at s + n \<le> len"
  shows "bps_ok (source_copy source raw n s) (\<lambda>s'. bps_inv patch footer len s' \<and> bp_out_at s' = bp_out_at s)"
  unfolding source_copy_def
proof (rule bps_ok_bind)
  show "bps_ok (move_rel raw (bp_source_rel s)) (\<lambda>_. True)" by (simp add: move_rel_def Let_def)
qed (use assms in \<open>auto simp: copy_from_eq bps_inv_def\<close>)

lemma target_copy_ok:
  assumes "bps_inv patch footer len s" "bp_out_at s + n \<le> len"
  shows "bps_ok (target_copy raw n s) (\<lambda>s'. bps_inv patch footer len s' \<and> bp_out_at s' = bp_out_at s)"
  unfolding target_copy_def
proof (rule bps_ok_bind)
  show "bps_ok (move_rel raw (bp_target_rel s)) (\<lambda>_. True)" by (simp add: move_rel_def Let_def)
qed (use assms in \<open>auto simp: copy_within_eq bps_inv_def\<close>)

lemma bps_command_ok:
  assumes "bps_inv patch footer len s" "bp_out_at s + n \<le> len"
  shows "bps_ok (bps_command patch source footer code n s) (\<lambda>s'. bps_inv patch footer len s' \<and> bp_out_at s' = bp_out_at s)"
proof -
  have c: "bps_ok (bps_bind (need_number why patch (bp_at s) footer) (\<lambda>(raw, at).
        let s' = s\<lparr>bp_at := at\<rparr> in if code = 2 then source_copy source raw n s' else target_copy raw n s'))
      (\<lambda>s'. bps_inv patch footer len s' \<and> bp_out_at s' = bp_out_at s)" for why
  proof (rule bps_ok_bind [OF need_number_ok])
    fix v assume "case v of (raw, at') \<Rightarrow> bp_at s < at' \<and> at' \<le> footer \<and> raw \<le> kUint64Max"
    then have "bps_inv patch footer len (s\<lparr>bp_at := snd v\<rparr>)" using assms(1) by (auto simp: bps_inv_def)
    from source_copy_ok [OF this] target_copy_ok [OF this]
    show "bps_ok (case v of (raw, at) \<Rightarrow> let s' = s\<lparr>bp_at := at\<rparr> in
          if code = 2 then source_copy source raw n s' else target_copy raw n s')
        (\<lambda>s'. bps_inv patch footer len s' \<and> bp_out_at s' = bp_out_at s)"
      using assms(2) by (simp add: split_beta Let_def)
  qed (use assms(1) in \<open>simp_all add: bps_inv_def\<close>)
  show ?thesis
    unfolding bps_command_def using source_read_ok [OF assms] target_read_ok [OF assms] c by simp
qed

lemma bps_step_ok:
  assumes "bps_inv patch footer len s"
  shows "bps_ok (bps_step patch source footer s) (\<lambda>s'. bps_inv patch footer len s' \<and> bp_out_at s < bp_out_at s')"
  unfolding bps_step_def
proof (rule bps_ok_bind)
  show "bps_ok (if bp_at s \<ge> footer then Inl (Refused ''the BPS command stream is truncated'')
        else need_number ''the BPS command stream is truncated'' patch (bp_at s) footer) (\<lambda>(w, at). at \<le> footer)"
    using assms by (auto simp: bps_inv_def intro!: bps_ok_mono [OF need_number_ok])
next
  fix v :: "nat \<times> nat" assume "case v of (w, at) \<Rightarrow> at \<le> footer"
  then obtain w at where v: "v = (w, at)" "at \<le> footer" by auto
  let ?n = "w div 4 + 1" and ?s = "s\<lparr>bp_at := at\<rparr>"
  have i: "bps_inv patch footer len ?s" using assms v(2) by (simp add: bps_inv_def)
  have "bps_ok (bps_bind (bps_command patch source footer (w mod 4) ?n ?s) (\<lambda>s'. Inr (s'\<lparr>bp_out_at := bp_out_at s' + ?n\<rparr>)))
      (\<lambda>s'. bps_inv patch footer len s' \<and> bp_out_at s < bp_out_at s')" if "?n \<le> length (bp_out s) - bp_out_at s"
  proof (rule bps_ok_bind [OF bps_command_ok [OF i]])
    show "bp_out_at ?s + ?n \<le> len" using that assms by (simp add: bps_inv_def)
  qed (use that assms in \<open>auto simp: bps_inv_def\<close>)
  then show "bps_ok (case v of (word, at) \<Rightarrow> let len = word div 4 + 1 in
       if len > length (bp_out s) - bp_out_at s then Inl (Refused ''a BPS command writes past the target size'')
       else bps_bind (bps_command patch source footer (word mod 4) len (s\<lparr>bp_at := at\<rparr>)) (\<lambda>s'.
         Inr (s'\<lparr>bp_out_at := bp_out_at s' + len\<rparr>)))
     (\<lambda>s'. bps_inv patch footer len s' \<and> bp_out_at s < bp_out_at s')"
    by (simp add: v(1) Let_def)
qed

lemma bps_commands_ok:
  "bps_inv patch footer len s \<Longrightarrow> len - bp_out_at s \<le> fuel \<Longrightarrow>
     bps_ok (bps_commands fuel patch source footer s) (\<lambda>s'. bps_inv patch footer len s' \<and> bp_out_at s' = len)"
proof (induction fuel arbitrary: s)
  case (Suc fuel)
  show ?case
  proof (cases "bp_out_at s < length (bp_out s)")
    case True
    have "bps_ok (bps_bind (bps_step patch source footer s) (bps_commands fuel patch source footer))
        (\<lambda>s'. bps_inv patch footer len s' \<and> bp_out_at s' = len)"
      by (rule bps_ok_bind [OF bps_step_ok [OF Suc.prems(1)]]) (use Suc.prems(2) in \<open>auto intro!: Suc.IH\<close>)
    then show ?thesis using True by simp
  qed (use Suc.prems in \<open>auto simp: bps_inv_def\<close>)
qed (auto simp: bps_inv_def)

lemma bps_header_ok:
  assumes "footer + 12 \<le> length patch" "4 \<le> footer"
  shows "bps_ok (bps_header patch footer) (\<lambda>(_, _, _, at). at \<le> footer)"
  unfolding bps_header_def Let_def
proof (rule bps_ok_bind [OF need_number_ok])
  fix v1 assume "case v1 of (v, at') \<Rightarrow> 4 < at' \<and> at' \<le> footer \<and> v \<le> kUint64Max"
  then obtain a b where v1: "v1 = (a, b)" "b \<le> footer" by auto
  show "bps_ok (case v1 of (source_len, at1) \<Rightarrow>
      bps_bind (need_number ''the BPS header is malformed'' patch at1 footer) (\<lambda>(target_len, at2).
      bps_bind (need_number ''the BPS header is malformed'' patch at2 footer) (\<lambda>(metadata_len, at3).
        Inr (source_len, target_len, metadata_len, at3)))) (\<lambda>(_, _, _, at). at \<le> footer)"
    unfolding v1(1) prod.case
  proof (rule bps_ok_bind [OF need_number_ok])
    fix v2 assume "case v2 of (v, at') \<Rightarrow> b < at' \<and> at' \<le> footer \<and> v \<le> kUint64Max"
    then obtain c d where v2: "v2 = (c, d)" "d \<le> footer" by auto
    show "bps_ok (case v2 of (target_len, at2) \<Rightarrow>
        bps_bind (need_number ''the BPS header is malformed'' patch at2 footer) (\<lambda>(metadata_len, at3).
          Inr (a, target_len, metadata_len, at3))) (\<lambda>(_, _, _, at). at \<le> footer)"
      unfolding v2(1) prod.case
      by (rule bps_ok_bind [OF need_number_ok]) (use v2(2) assms in auto)
  qed (use v1(2) assms in auto)
qed (use assms in auto)

lemma bps_body_ok:
  assumes "at \<le> footer" "footer + 12 \<le> length patch"
  shows "bps_ok (bps_body patch source footer target_len at)
    (\<lambda>out. length out = target_len \<and> le32 patch (footer + 4) = Inr (crc32 out))"
  unfolding bps_body_def Let_def
proof (rule bps_ok_bind [OF bps_commands_ok])
  show "bps_inv patch footer target_len
      \<lparr>bp_at = at, bp_out = replicate target_len 0, bp_out_at = 0, bp_source_rel = 0, bp_target_rel = 0\<rparr>"
    using assms by (simp add: bps_inv_def)
  fix s assume "bps_inv patch footer target_len s \<and> bp_out_at s = target_len"
  then show "bps_ok (if bp_at s \<noteq> footer then Inl (Refused ''the BPS command stream has trailing bytes'')
      else bps_bind (le32 patch (footer + 4)) (\<lambda>crc. if crc32 (bp_out s) \<noteq> crc
           then Inl (Refused ''the BPS target checksum does not match the patched image'') else Inr (bp_out s)))
      (\<lambda>out. length out = target_len \<and> le32 patch (footer + 4) = Inr (crc32 out))"
    using assms by (auto simp: le32_ok bps_inv_def)
qed simp

lemma bps_payload_ok:
  assumes "footer + 12 \<le> length patch" "at \<le> footer"
  shows "bps_ok (bps_payload patch source footer max_output (a, t, m, at)) (\<lambda>out.
     length out \<le> max_output \<and> le32 patch footer = Inr (crc32 source) \<and> le32 patch (footer + 4) = Inr (crc32 out))"
proof -
  have "bps_ok (bps_body patch source footer t (at + m)) (\<lambda>out. length out \<le> max_output \<and>
       le32 patch (footer + 4) = Inr (crc32 out))" if "t \<le> max_output" "m \<le> footer - at"
    by (rule bps_ok_mono [OF bps_body_ok]) (use that assms in auto)
  then show ?thesis using assms(1) le32_ok [of footer patch] by auto
qed


end
