(* ===== verification/Bps_Format.thy ===== *)
theory Bps_Format
  imports Bps
begin

text \<open>
  The BPS format seen from the writer: patches as operations over the source and the output so
  far, their encoding with relative copy offsets, and the round trip through \<^verbatim>\<open>apply_bps\<close>
  (\<^verbatim>\<open>libs/media/src/patch_bps.cpp\<close>).
\<close>

section \<open>Writing patches\<close>

fun bps_number :: "nat \<Rightarrow> bytes" where
  "bps_number n = (if n < 128 then [of_nat (128 + n)] else of_nat (n mod 128) # bps_number (n div 128 - 1))"

declare bps_number.simps [simp del]

datatype bps_op = Source_Read nat | Target_Read bytes | Source_Copy nat nat | Target_Copy nat nat

fun op_length :: "bps_op \<Rightarrow> nat" where
  "op_length (Source_Read n) = n"
| "op_length (Target_Read bs) = length bs"
| "op_length (Source_Copy off n) = n"
| "op_length (Target_Copy off n) = n"

text \<open>The output after an operation; a target copy may overlap what it writes.\<close>

fun bps_expand_op :: "bytes \<Rightarrow> bytes \<Rightarrow> bps_op \<Rightarrow> bytes" where
  "bps_expand_op source out (Source_Read n) = out @ slice (length out) n source"
| "bps_expand_op source out (Target_Read bs) = out @ bs"
| "bps_expand_op source out (Source_Copy off n) = out @ slice off n source"
| "bps_expand_op source out (Target_Copy off n) = lz_copy (length out - off) n out"

fun bps_op_ok :: "bytes \<Rightarrow> bytes \<Rightarrow> bps_op \<Rightarrow> bool" where
  "bps_op_ok source out (Source_Read n) \<longleftrightarrow> 1 \<le> n \<and> length out + n \<le> length source"
| "bps_op_ok source out (Target_Read bs) \<longleftrightarrow> bs \<noteq> []"
| "bps_op_ok source out (Source_Copy off n) \<longleftrightarrow> 1 \<le> n \<and> off + n \<le> length source"
| "bps_op_ok source out (Target_Copy off n) \<longleftrightarrow> 1 \<le> n \<and> off < length out"

fun bps_ops_ok :: "bytes \<Rightarrow> bytes \<Rightarrow> bps_op list \<Rightarrow> bool" where
  "bps_ops_ok source out [] = True"
| "bps_ops_ok source out (t # ts) \<longleftrightarrow> bps_op_ok source out t \<and> bps_ops_ok source (bps_expand_op source out t) ts"

definition bps_expand :: "bytes \<Rightarrow> bps_op list \<Rightarrow> bytes" where
  "bps_expand source ops = foldl (bps_expand_op source) [] ops"

text \<open>The distance from the running offset, the sign in the lowest bit.\<close>

definition signed_offset :: "nat \<Rightarrow> nat \<Rightarrow> nat" where
  "signed_offset rel off = (if rel \<le> off then 2 * (off - rel) else 2 * (rel - off) + 1)"

fun encode_op :: "nat \<Rightarrow> nat \<Rightarrow> bps_op \<Rightarrow> bytes" where
  "encode_op sr tr (Source_Read n) = bps_number (4 * (n - 1))"
| "encode_op sr tr (Target_Read bs) = bps_number (4 * (length bs - 1) + 1) @ bs"
| "encode_op sr tr (Source_Copy off n) = bps_number (4 * (n - 1) + 2) @ bps_number (signed_offset sr off)"
| "encode_op sr tr (Target_Copy off n) = bps_number (4 * (n - 1) + 3) @ bps_number (signed_offset tr off)"

fun next_rel :: "nat \<times> nat \<Rightarrow> bps_op \<Rightarrow> nat \<times> nat" where
  "next_rel (sr, tr) (Source_Copy off n) = (off + n, tr)"
| "next_rel (sr, tr) (Target_Copy off n) = (sr, off + n)"
| "next_rel (sr, tr) _ = (sr, tr)"

fun encode_ops :: "nat \<times> nat \<Rightarrow> bps_op list \<Rightarrow> bytes" where
  "encode_ops rels [] = []"
| "encode_ops rels (t # ts) = encode_op (fst rels) (snd rels) t @ encode_ops (next_rel rels t) ts"

definition le32_bytes :: "u32 \<Rightarrow> bytes" where
  "le32_bytes w = [ucast w, ucast (drop_bit 8 w), ucast (drop_bit 16 w), ucast (drop_bit 24 w)]"

definition bps_unsigned :: "bytes \<Rightarrow> bytes \<Rightarrow> bps_op list \<Rightarrow> bytes" where
  "bps_unsigned source meta ops =
     [0x42, 0x50, 0x53, 0x31] @ bps_number (length source) @ bps_number (length (bps_expand source ops)) @
     bps_number (length meta) @ meta @ encode_ops (0, 0) ops @
     le32_bytes (crc32 source) @ le32_bytes (crc32 (bps_expand source ops))"

definition bps_encode :: "bytes \<Rightarrow> bytes \<Rightarrow> bps_op list \<Rightarrow> bytes" where
  "bps_encode source meta ops = bps_unsigned source meta ops @ le32_bytes (crc32 (bps_unsigned source meta ops))"

section \<open>Numbers and checksums read back\<close>

lemma bps_number_not_Nil [simp]: "bps_number n \<noteq> []"
  by (subst bps_number.simps) simp

lemma bps_number_small: "n < 128 \<Longrightarrow> bps_number n = [of_nat (128 + n)]"
  by (subst bps_number.simps) simp

lemma number_byte:
  "n < 128 \<Longrightarrow> unat ((of_nat (128 + n) :: u8) AND 0x7F) = n" "n < 128 \<Longrightarrow> (of_nat (128 + n) :: u8) AND 0x80 \<noteq> 0"
  "n < 128 \<Longrightarrow> unat ((of_nat n :: u8) AND 0x7F) = n" "n < 128 \<Longrightarrow> (of_nat n :: u8) AND 0x80 = 0"
proof -
  have 7: "(0x7F :: u8) = mask 7" by (simp add: mask_eq_exp_minus_1)
  have 8: "(0x80 :: u8) = 2 ^ 7" by simp
  assume n: "n < 128"
  have u: "unat (of_nat (128 + n) :: u8) = 128 + n" "unat (of_nat n :: u8) = n" using n by (simp_all only: unat_of_nat_u8)
  show "unat ((of_nat (128 + n) :: u8) AND 0x7F) = n" "unat ((of_nat n :: u8) AND 0x7F) = n"
    using n unfolding 7 take_bit_eq_mask [symmetric] unsigned_take_bit_eq u by (simp_all add: take_bit_eq_mod)
  have b: "bit (of_nat m :: u8) 7 \<longleftrightarrow> odd (m div 128)" for m
  proof -
    have "bit (of_nat m :: u8) 7 \<longleftrightarrow> bit m 7" by (simp add: bit_simps)
    then show ?thesis using bit_iff_odd [of m 7] by simp
  qed
  have z: "w AND 0x80 = 0 \<longleftrightarrow> \<not> bit w 7" for w :: u8
    unfolding 8 by (simp only: and_exp_eq_0_iff_not_bit)
  show "(of_nat (128 + n) :: u8) AND 0x80 \<noteq> 0" "(of_nat n :: u8) AND 0x80 = 0"
    unfolding z b using n div_nat_eqI [of 128 1 "128 + n"] by simp_all
qed


lemma read_number_last:
  assumes "at < end_at" "bps_read p at = Inr x" "x AND 0x80 \<noteq> 0" "unat (x AND 0x7F) = add"
    "data + add * shift \<le> kUint64Max"
  shows "read_number_from p at end_at data shift = Inr (Some (data + add * shift, at + 1))"
proof -
  have "shift \<le> (kUint64Max - data) div add" if "add \<noteq> 0"
    using that assms(5) by (simp add: less_eq_div_iff_mult_less_eq mult.commute)
  then show ?thesis using assms(1-4) by (subst read_number_from.simps) (auto simp: Let_def not_less)
qed

lemma read_number_more:
  assumes "at < end_at" "bps_read p at = Inr x" "x AND 0x80 = 0" "unat (x AND 0x7F) = add"
    "data + add * shift + shift * 2 ^ 7 \<le> kUint64Max"
  shows "read_number_from p at end_at data shift =
    read_number_from p (at + 1) end_at (data + add * shift + shift * 2 ^ 7) (shift * 2 ^ 7)"
proof -
  have g: "shift \<le> (kUint64Max - data) div add" if "add \<noteq> 0"
    using that assms(5) by (simp add: less_eq_div_iff_mult_less_eq mult.commute)
  have "shift \<le> kUint64Max div 2 ^ 7" "data + add * shift \<le> kUint64Max - shift * 2 ^ 7"
    using assms(5) less_eq_div_iff_mult_less_eq [of "2 ^ 7" shift kUint64Max] by simp_all
  then show ?thesis using g assms(1-4) by (subst read_number_from.simps) (auto simp: Let_def not_less)
qed

lemma read_bps_number:
  "length pre + length (bps_number n) \<le> end_at \<Longrightarrow> data + n * shift \<le> kUint64Max \<Longrightarrow>
     read_number_from (pre @ bps_number n @ post) (length pre) end_at data shift =
       Inr (Some (data + n * shift, length pre + length (bps_number n)))"
proof (induction n arbitrary: pre data shift rule: bps_number.induct)
  case (1 n)
  show ?case
  proof (cases "n < 128")
    case True
    let ?b = "of_nat (128 + n) :: u8"
    have n: "bps_number n = [?b]" using True by (subst bps_number.simps) simp
    have r: "bps_read (pre @ [?b] @ post) (length pre) = Inr ?b" by (simp add: bps_read_def)
    show ?thesis unfolding n
      by (rule trans [OF read_number_last [OF _ r number_byte(2,1) [OF True] 1(3)]]) (use 1(2) n in simp_all)
  next
    case False
    let ?m = "n mod 128" and ?q = "n div 128 - 1"
    let ?b = "of_nat ?m :: u8" and ?data = "data + n mod 128 * shift + shift * 2 ^ 7"
    have n: "bps_number n = ?b # bps_number ?q" using False by (subst bps_number.simps) simp
    have r: "bps_read (pre @ (?b # bps_number ?q) @ post) (length pre) = Inr ?b" by (simp add: bps_read_def)
    have q: "n = ?m + 128 * (?q + 1)" using False by simp
    have split: "n * shift = ?m * shift + shift * 2 ^ 7 + ?q * (shift * 2 ^ 7)"
      by (subst q) (simp add: algebra_simps)
    have m: "?m < 128" by simp
    have "read_number_from (pre @ (?b # bps_number ?q) @ post) (length pre) end_at data shift =
        read_number_from (pre @ (?b # bps_number ?q) @ post) (length pre + 1) end_at ?data (shift * 2 ^ 7)"
      by (rule read_number_more [OF _ r number_byte(4,3) [OF m]]) (use 1(2,3) n split in simp_all)
    also have "\<dots> = read_number_from ((pre @ [?b]) @ bps_number ?q @ post) (length (pre @ [?b])) end_at ?data (shift * 2 ^ 7)"
      by simp
    also have "\<dots> = Inr (Some (?data + ?q * (shift * 2 ^ 7), length (pre @ [?b]) + length (bps_number ?q)))"
      by (rule 1(1) [OF False]) (use 1(2,3) n split in simp_all)
    finally show ?thesis unfolding n using split by simp
  qed
qed

lemma need_bps_number:
  assumes "p = pre @ bps_number n @ post" "length pre + length (bps_number n) \<le> end_at" "n \<le> kUint64Max"
  shows "need_number why p (length pre) end_at = Inr (n, length pre + length (bps_number n))"
  using read_bps_number [of pre n end_at 0 1 post] assms by (simp add: need_number_def read_number_def)

lemma need_bps_number_at:
  "p = pre @ bps_number n @ post \<Longrightarrow> at = length pre \<Longrightarrow> at + length (bps_number n) \<le> end_at \<Longrightarrow> n \<le> kUint64Max \<Longrightarrow>
     need_number why p at end_at = Inr (n, at + length (bps_number n))"
  using need_bps_number by simp

lemma le32_bytes_read:
  assumes "p = pre @ le32_bytes w @ post"
  shows "le32 p (length pre) = Inr w"
proof -
  have "(ucast (ucast w :: u8) OR push_bit 8 (ucast (ucast (drop_bit 8 w) :: u8)) OR
      push_bit 16 (ucast (ucast (drop_bit 16 w) :: u8)) OR push_bit 24 (ucast (ucast (drop_bit 24 w) :: u8)) :: u32) = w"
  proof (rule bit_word_eqI)
    fix i assume "i < LENGTH(32)"
    then have "i < 8 \<or> 8 \<le> i \<and> i < 16 \<or> 16 \<le> i \<and> i < 24 \<or> 24 \<le> i \<and> i < 32" by auto
    then show "bit (ucast (ucast w :: u8) OR push_bit 8 (ucast (ucast (drop_bit 8 w) :: u8)) OR
      push_bit 16 (ucast (ucast (drop_bit 16 w) :: u8)) OR push_bit 24 (ucast (ucast (drop_bit 24 w) :: u8)) :: u32) i = bit w i"
      by (elim disjE) (auto simp: bit_simps)
  qed
  then show ?thesis using le32_ok [of "length pre" p] unfolding assms by (simp add: le32_bytes_def nth_append)
qed

lemma le32_bytes_at: "p = pre @ le32_bytes w @ post \<Longrightarrow> at = length pre \<Longrightarrow> le32 p at = Inr w"
  using le32_bytes_read by simp

lemma length_le32_bytes [simp]: "length (le32_bytes w) = 4"
  by (simp add: le32_bytes_def)


section \<open>Commands read back\<close>

lemma move_signed_offset: "off \<le> kUint64Max \<Longrightarrow> move_rel (signed_offset rel off) rel = Inr off"
  by (auto simp: move_rel_def signed_offset_def Let_def)

definition kBpsMax :: nat where "kBpsMax = 2 ^ 62"

lemma signed_offset_bound: "rel \<le> kBpsMax \<Longrightarrow> off \<le> kBpsMax \<Longrightarrow> signed_offset rel off \<le> kUint64Max"
  by (auto simp: signed_offset_def kBpsMax_def kUint64Max_def)

lemma word_bound: "1 \<le> n \<Longrightarrow> n \<le> kBpsMax \<Longrightarrow> c < 4 \<Longrightarrow> 4 * (n - 1) + c \<le> kUint64Max"
  by (auto simp: kBpsMax_def kUint64Max_def)

lemma length_bps_expand_op [simp]: "bps_op_ok source out t \<Longrightarrow> length (bps_expand_op source out t) = length out + op_length t"
  by (cases t) simp_all

text \<open>The state before an operation: the output so far, then bytes still to be written.\<close>

definition bps_at :: "nat \<Rightarrow> bytes \<Rightarrow> bytes \<Rightarrow> nat \<times> nat \<Rightarrow> Bps" where
  "bps_at at out zs rels =
     \<lparr>bp_at = at, bp_out = out @ zs, bp_out_at = length out, bp_source_rel = fst rels, bp_target_rel = snd rels\<rparr>"

lemma bps_command_encoded:
  assumes ok: "bps_op_ok source out t" and fits: "op_length t \<le> length zs"
    and max: "length source \<le> kBpsMax" "length (out @ zs) \<le> kBpsMax" "fst rels \<le> kBpsMax" "snd rels \<le> kBpsMax"
    and patch: "patch = pre @ encode_op (fst rels) (snd rels) t @ post"
    and footer: "length pre + length (encode_op (fst rels) (snd rels) t) \<le> footer"
    and code: "code = (case t of Source_Read _ \<Rightarrow> 0 | Target_Read _ \<Rightarrow> 1 | Source_Copy _ _ \<Rightarrow> 2 | Target_Copy _ _ \<Rightarrow> 3)"
    and at: "at = length pre + length (bps_number (4 * (op_length t - 1) + code))"
  shows "bps_command patch source footer code (op_length t) (bps_at at out zs rels) =
    Inr ((bps_at (length pre + length (encode_op (fst rels) (snd rels) t)) (bps_expand_op source out t)
            (drop (op_length t) zs) (next_rel rels t))\<lparr>bp_out_at := length out\<rparr>)"
proof (cases t)
  case (Source_Read n)
  have "copy_from source (length out) (length out) n (out @ zs) = Inr (out @ slice (length out) n source @ drop n zs)"
    using copy_from_eq [of "length out" n source "length out" "out @ zs"] ok fits by (simp add: Source_Read)
  then show ?thesis
    using ok at code by (cases rels) (simp add: Source_Read bps_command_def source_read_def bps_at_def)
next
  case (Target_Read bs)
  let ?w = "bps_number (4 * (length bs - 1) + 1)"
  have s: "slice at (length bs) patch = bs"
    using at code patch slice_append_mid [of "pre @ ?w" bs post] by (simp add: Target_Read)
  have "at + length bs \<le> length patch" using at code patch by (simp add: Target_Read)
  then have "copy_from patch at (length out) (length bs) (out @ zs) = Inr (out @ bs @ drop (length bs) zs)"
    using copy_from_eq [of at "length bs" patch "length out" "out @ zs"] fits s by (simp add: Target_Read)
  then show ?thesis
    using at code footer by (cases rels) (simp add: Target_Read bps_command_def target_read_def bps_at_def)
next
  case (Source_Copy off n)
  let ?w = "bps_number (4 * (n - 1) + 2)" and ?o = "signed_offset (fst rels) off"
  have off: "off \<le> kBpsMax" using ok max(1) by (simp add: Source_Copy)
  have l: "length (pre @ ?w) = at" using at code by (simp add: Source_Copy)
  have num: "need_number why patch at footer = Inr (?o, length pre + length (encode_op (fst rels) (snd rels) t))" for why
    using need_bps_number [of patch "pre @ ?w" ?o post footer why] patch footer signed_offset_bound [OF max(3) off]
    by (simp add: Source_Copy l [symmetric])
  have mv: "move_rel ?o (fst rels) = Inr off"
    using off by (intro move_signed_offset) (simp add: kBpsMax_def kUint64Max_def)
  have "copy_from source off (length out) n (out @ zs) = Inr (out @ slice off n source @ drop n zs)"
    using copy_from_eq [of off n source "length out" "out @ zs"] ok fits by (simp add: Source_Copy)
  moreover have "\<not> length source < off" "\<not> length source - off < n" using ok by (auto simp: Source_Copy)
  ultimately show ?thesis
    using code num mv by (cases rels) (simp add: Source_Copy bps_command_def source_copy_def bps_at_def Let_def)
next
  case (Target_Copy off n)
  let ?w = "bps_number (4 * (n - 1) + 3)" and ?o = "signed_offset (snd rels) off"
  have off: "off \<le> kBpsMax" using ok max(2) by (simp add: Target_Copy)
  have l: "length (pre @ ?w) = at" using at code by (simp add: Target_Copy)
  have num: "need_number why patch at footer = Inr (?o, length pre + length (encode_op (fst rels) (snd rels) t))" for why
    using need_bps_number [of patch "pre @ ?w" ?o post footer why] patch footer signed_offset_bound [OF max(4) off]
    by (simp add: Target_Copy l [symmetric])
  have mv: "move_rel ?o (snd rels) = Inr off"
    using off by (intro move_signed_offset) (simp add: kBpsMax_def kUint64Max_def)
  have "copy_within off (length out) n (out @ zs) = Inr (lz_copy (length out - off) n out @ drop n zs)"
    using copy_within_eq [of off "length out" n "out @ zs"] ok fits by (simp add: Target_Copy)
  then show ?thesis
    using ok code num mv by (cases rels) (simp add: Target_Copy bps_command_def target_copy_def bps_at_def Let_def)
qed


lemma bps_step_encoded:
  assumes ok: "bps_op_ok source out t" and fits: "op_length t \<le> length zs"
    and max: "length source \<le> kBpsMax" "length (out @ zs) \<le> kBpsMax" "fst rels \<le> kBpsMax" "snd rels \<le> kBpsMax"
    and patch: "patch = pre @ encode_op (fst rels) (snd rels) t @ post"
    and footer: "length pre + length (encode_op (fst rels) (snd rels) t) \<le> footer"
  shows "bps_step patch source footer (bps_at (length pre) out zs rels) =
    Inr (bps_at (length pre + length (encode_op (fst rels) (snd rels) t)) (bps_expand_op source out t)
            (drop (op_length t) zs) (next_rel rels t))"
proof -
  define code :: nat where "code = (case t of Source_Read _ \<Rightarrow> 0 | Target_Read _ \<Rightarrow> 1 | Source_Copy _ _ \<Rightarrow> 2 | Target_Copy _ _ \<Rightarrow> 3)"
  let ?w = "4 * (op_length t - 1) + code"
  let ?at = "length pre + length (bps_number ?w)"
  have n: "1 \<le> op_length t" using ok by (cases t) (auto simp: Suc_le_eq)
  have c: "code < 4" by (simp add: code_def split: bps_op.split)
  obtain more where more: "encode_op (fst rels) (snd rels) t = bps_number ?w @ more"
    by (cases t) (simp_all add: code_def)
  have w: "?w \<le> kUint64Max" by (rule word_bound) (use n c fits max(2) in simp_all)
  have r: "need_number why patch (length pre) footer = Inr (?w, ?at)" for why
    using need_bps_number [of patch pre ?w "more @ post" footer why] patch footer w by (simp add: more)
  have "0 < length (bps_number ?w)" by simp
  then have lt: "\<not> footer \<le> length pre" using footer unfolding more length_append by linarith
  have div: "code div 4 = 0" "code mod 4 = code" "Suc (op_length t - Suc 0) = op_length t" using n c by simp_all
  have at: "(bps_at (length pre) out zs rels)\<lparr>bp_at := ?at\<rparr> = bps_at ?at out zs rels" by (simp add: bps_at_def)
  note cmd = bps_command_encoded [OF ok fits max patch footer code_def refl]
  have "bps_step patch source footer (bps_at (length pre) out zs rels) =
      bps_bind (bps_command patch source footer code (op_length t) (bps_at ?at out zs rels))
        (\<lambda>s'. Inr (s'\<lparr>bp_out_at := bp_out_at s' + op_length t\<rparr>))"
    using lt fits by (simp add: bps_step_def r div at Let_def bps_at_def)
  also have "\<dots> = Inr (bps_at (length pre + length (encode_op (fst rels) (snd rels) t)) (bps_expand_op source out t)
            (drop (op_length t) zs) (next_rel rels t))"
    unfolding cmd using ok by (simp add: bps_at_def)
  finally show ?thesis .
qed

lemma next_rel_bound:
  "bps_op_ok source out t \<Longrightarrow> length source \<le> kBpsMax \<Longrightarrow> 2 * length (bps_expand_op source out t) \<le> kBpsMax \<Longrightarrow>
     fst rels \<le> kBpsMax \<Longrightarrow> snd rels \<le> kBpsMax \<Longrightarrow> fst (next_rel rels t) \<le> kBpsMax \<and> snd (next_rel rels t) \<le> kBpsMax"
  by (cases t; cases rels) auto

lemma foldl_expand_length:
  "bps_ops_ok source out ops \<Longrightarrow> length out \<le> length (foldl (bps_expand_op source) out ops)"
proof (induction ops arbitrary: out)
  case (Cons t ts)
  have ok: "bps_op_ok source out t" "bps_ops_ok source (bps_expand_op source out t) ts" using Cons.prems by simp_all
  from Cons.IH [OF ok(2)] ok(1) show ?case by simp
qed simp

lemma bps_commands_encoded:
  assumes "bps_ops_ok source out ops" "patch = pre @ encode_ops rels ops @ foot"
    "footer = length pre + length (encode_ops rels ops)"
    "length (out @ zs) = length (foldl (bps_expand_op source) out ops)"
    "length source \<le> kBpsMax" "2 * length (out @ zs) \<le> kBpsMax" "fst rels \<le> kBpsMax" "snd rels \<le> kBpsMax"
    "length zs \<le> fuel"
  shows "\<exists>rels'. bps_commands fuel patch source footer (bps_at (length pre) out zs rels) =
    Inr (bps_at footer (foldl (bps_expand_op source) out ops) [] rels')"
  using assms
proof (induction ops arbitrary: out zs pre rels fuel)
  case Nil
  then show ?case by (cases fuel) (auto simp: bps_at_def)
next
  case (Cons t ts)
  let ?e = "encode_op (fst rels) (snd rels) t" and ?out = "bps_expand_op source out t"
  let ?zs = "drop (op_length t) zs" and ?rels = "next_rel rels t"
  have ok: "bps_op_ok source out t" "bps_ops_ok source ?out ts" using Cons.prems(1) by simp_all
  have n: "1 \<le> op_length t" using ok(1) by (cases t) (auto simp: Suc_le_eq)
  have len: "length ?out \<le> length (out @ zs)" using foldl_expand_length [OF ok(2)] Cons.prems(4) by simp
  then have fits: "op_length t \<le> length zs" using ok(1) by simp
  then obtain f where f: "fuel = Suc f" using n Cons.prems(9) by (cases fuel) simp_all
  have step: "bps_step patch source footer (bps_at (length pre) out zs rels) = Inr (bps_at (length pre + length ?e) ?out ?zs ?rels)"
    by (rule bps_step_encoded [OF ok(1) fits]) (use Cons.prems in simp_all)
  have rel: "fst ?rels \<le> kBpsMax \<and> snd ?rels \<le> kBpsMax"
    by (rule next_rel_bound [OF ok(1)]) (use Cons.prems len in simp_all)
  have "\<exists>rels'. bps_commands f patch source footer (bps_at (length (pre @ ?e)) ?out ?zs ?rels) =
      Inr (bps_at footer (foldl (bps_expand_op source) ?out ts) [] rels')"
    by (rule Cons.IH) (use Cons.prems ok rel fits n f in simp_all)
  moreover have "bp_out_at (bps_at (length pre) out zs rels) < length (bp_out (bps_at (length pre) out zs rels))"
    using fits n by (cases zs) (simp_all add: bps_at_def)
  ultimately show ?case by (simp add: f step)
qed

text \<open>
  C28. Patches round-trip: for every valid list of operations over a source, applying the encoded
  patch, with any metadata, returns exactly the bytes the operations describe, provided the patch
  is within the payload limit and the target within the caller's.
\<close>

theorem bps_roundtrip:
  assumes "bps_ops_ok source [] ops" "length (bps_encode source meta ops) \<le> kMaxPatchBytes"
    "length (bps_expand source ops) \<le> max_output" "max_output \<le> kMaxImageBytes" "length source \<le> kMaxImageBytes"
  shows "apply_bps (bps_encode source meta ops) source max_output = Inr (bps_expand source ops)"
proof -
  let ?t = "bps_expand source ops" and ?u = "bps_unsigned source meta ops" and ?patch = "bps_encode source meta ops"
  let ?head = "[0x42, 0x50, 0x53, 0x31] :: bytes"
  let ?n1 = "bps_number (length source)" and ?n2 = "bps_number (length ?t)" and ?n3 = "bps_number (length meta)"
  let ?pre = "?head @ ?n1 @ ?n2 @ ?n3 @ meta" and ?ops = "encode_ops (0, 0) ops"
  let ?foot = "le32_bytes (crc32 source) @ le32_bytes (crc32 ?t) @ le32_bytes (crc32 ?u)"
  let ?footer = "length ?patch - 12"
  have p: "?patch = ?pre @ ?ops @ ?foot" by (simp add: bps_encode_def bps_unsigned_def)
  have footer: "?footer = length ?pre + length ?ops" unfolding p by simp
  have small: "kMaxImageBytes \<le> kUint64Max" "2 * kMaxImageBytes \<le> kBpsMax" "kMaxPatchBytes \<le> kUint64Max"
    by (simp_all add: kMaxImageBytes_def kMaxPatchBytes_def kUint64Max_def kBpsMax_def push_bit_eq_mult)
  have "length meta \<le> length ?patch" unfolding p by simp
  then have fits: "length source \<le> kUint64Max" "length ?t \<le> kUint64Max" "length meta \<le> kUint64Max"
    using assms(2-5) small by linarith+
  have n1: "need_number why ?patch 4 ?footer = Inr (length source, 4 + length ?n1)" for why
    by (rule need_bps_number_at [of _ ?head _ "?n2 @ ?n3 @ meta @ ?ops @ ?foot"]) (use p footer fits in simp_all)
  have n2: "need_number why ?patch (4 + length ?n1) ?footer = Inr (length ?t, 4 + length ?n1 + length ?n2)" for why
    by (rule need_bps_number_at [of _ "?head @ ?n1" _ "?n3 @ meta @ ?ops @ ?foot"]) (use p footer fits in simp_all)
  have n3: "need_number why ?patch (4 + length ?n1 + length ?n2) ?footer = Inr (length meta, 4 + length ?n1 + length ?n2 + length ?n3)" for why
    by (rule need_bps_number_at [of _ "?head @ ?n1 @ ?n2" _ "meta @ ?ops @ ?foot"]) (use p footer fits in simp_all)
  have header: "bps_header ?patch ?footer = Inr (length source, length ?t, length meta, 4 + length ?n1 + length ?n2 + length ?n3)"
    unfolding bps_header_def Let_def by (simp only: n1 n2 n3 bps_bind_simps prod.case)
  have crc: "le32 ?patch ?footer = Inr (crc32 source)"
    by (rule le32_bytes_at [of _ "?pre @ ?ops" _ "le32_bytes (crc32 ?t) @ le32_bytes (crc32 ?u)"]) (use p footer in simp_all)
  have crc_t: "le32 ?patch (?footer + 4) = Inr (crc32 ?t)"
    by (rule le32_bytes_at [of _ "?pre @ ?ops @ le32_bytes (crc32 source)" _ "le32_bytes (crc32 ?u)"]) (use p footer in simp_all)
  have crc_u: "le32 ?patch (length ?patch - 4) = Inr (crc32 ?u)"
    by (rule le32_bytes_at [of _ ?u _ "[]"]) (simp_all add: bps_encode_def)
  have unsigned: "take (length ?patch - 4) ?patch = ?u" by (simp add: bps_encode_def)
  have "\<exists>rels'. bps_commands (length ?t) ?patch source ?footer (bps_at (length ?pre) [] (replicate (length ?t) 0) (0, 0)) =
      Inr (bps_at ?footer (foldl (bps_expand_op source) [] ops) [] rels')"
    by (rule bps_commands_encoded [OF assms(1) p footer]) (use assms(3-5) small in \<open>simp_all add: bps_expand_def\<close>)
  then have body: "bps_body ?patch source ?footer (length ?t) (length ?pre) = Inr ?t"
    using crc_t by (auto simp: bps_body_def bps_at_def Let_def bps_expand_def)
  have "1 \<le> length ?n1" "1 \<le> length ?n2" "1 \<le> length ?n3" by (simp_all add: Suc_le_eq)
  then have len: "\<not> length ?patch < 19" unfolding p by simp
  have at: "4 + length ?n1 + length ?n2 + length ?n3 + length meta = length ?pre" by simp
  have "bps_payload ?patch source ?footer max_output (length source, length ?t, length meta, 4 + length ?n1 + length ?n2 + length ?n3) = Inr ?t"
    unfolding bps_payload.simps crc bps_bind_simps at body using assms(3) footer by simp
  moreover have "bps_read ?patch 0 = Inr 0x42" "bps_read ?patch 1 = Inr 0x50" "bps_read ?patch 2 = Inr 0x53" "bps_read ?patch 3 = Inr 0x31"
    unfolding p by (simp_all add: bps_read_def)
  ultimately show ?thesis
    using assms(2) len crc_u unsigned header by (simp add: apply_bps_def Let_def)
qed

definition sample_ops :: "bps_op list" where
  "sample_ops = [Source_Read 2, Target_Read [7], Target_Copy 0 4, Source_Copy 1 1]"

lemma sample_expand: "bps_expand [1, 2] sample_ops = [1, 2, 7, 1, 2, 7, 1, 2]"
  by code_simp

lemma sample_length: "length (bps_encode [1, 2] [] sample_ops) \<le> kMaxPatchBytes"
  unfolding bps_encode_def bps_unsigned_def sample_expand
  by (simp add: sample_ops_def bps_number_small signed_offset_def kMaxPatchBytes_def push_bit_eq_mult)

theorem bps_roundtrip_witness:
  "apply_bps (bps_encode [1, 2] [] sample_ops) [1, 2] kMaxImageBytes = Inr [1, 2, 7, 1, 2, 7, 1, 2]"
proof -
  have "bps_ops_ok [1, 2] [] sample_ops" by code_simp
  moreover have "length (bps_expand [1, 2] sample_ops) \<le> kMaxImageBytes" "length [1 :: u8, 2] \<le> kMaxImageBytes"
    by (simp_all add: sample_expand kMaxImageBytes_def push_bit_eq_mult)
  ultimately show ?thesis
    using bps_roundtrip [OF _ sample_length, of kMaxImageBytes] by (simp only: sample_expand order_refl)
qed

end
