(* ===== verification/Z80_Types.thy ===== *)
theory Z80_Types
  imports Prelude
begin

text \<open>
  The vocabulary of the NMOS Z80 encoding surface, as declared in
  \<^verbatim>\<open>libs/cpu/z80/include/segarecomp/cpu/z80/forms.hpp\<close>: opcode spaces, mnemonics,
  operand classes, timing descriptors, form descriptors and byte classes. Small counts that
  the source keeps in \<^verbatim>\<open>std::uint8_t\<close> or \<^verbatim>\<open>std::uint16_t\<close> (lengths, indices,
  T-states) are \<open>nat\<close>; form ids are 16-bit words.
\<close>

section \<open>Encoding surface\<close>

datatype Space = S_base | S_cb | S_ed | S_dd | S_fd | S_ddcb | S_fdcb

datatype (plugins only: code) Mnemonic =
  M_nop | M_ld | M_inc | M_dec | M_rlca | M_rrca | M_rla | M_rra | M_ex | M_add | M_djnz | M_jr
| M_daa | M_cpl | M_scf | M_ccf | M_halt | M_adc | M_sub | M_sbc | M_and | M_xor | M_or | M_cp
| M_ret | M_pop | M_jp | M_call | M_push | M_rst | M_exx | M_out | M_in | M_di | M_ei | M_rlc
| M_rrc | M_rl | M_rr | M_sla | M_sra | M_sll | M_srl | M_bit | M_res | M_set | M_neg | M_retn
| M_reti | M_im | M_rrd | M_rld | M_ldi | M_cpi | M_ini | M_outi | M_ldd | M_cpd | M_ind | M_outd
| M_ldir | M_cpir | M_inir | M_otir | M_lddr | M_cpdr | M_indr | M_otdr

datatype (plugins only: code) Operand =
  O_none | O_a | O_r | O_rr | O_rr2 | O_rr_ind | O_hl | O_hl_ind | O_de | O_sp | O_sp_ind | O_nn
| O_n | O_e | O_p | O_cc | O_cc4 | O_bit | O_af | O_af_alt | O_i | O_r_refresh | O_im0 | O_im1
| O_im2 | O_n_port | O_c_port | O_nn_ind | O_flags_only | O_zero | O_ed_undefined | O_rr_ed | O_ix
| O_iy | O_ix_d | O_iy_d | O_ix_half | O_iy_half | O_rr_ix | O_rr_iy | O_ix_d_copy_r | O_iy_d_copy_r

datatype TimingClass = T_fixed | T_conditional | T_repeat | T_halt

record Timing =
  tm_klass :: TimingClass
  tm_primary :: nat
  tm_alternate :: nat

type_synonym FormId = u16

definition kNoForm :: FormId where "kNoForm = 0xFFFF"
definition kNoIndex :: nat where "kNoIndex = 0xFF"

record FormDescriptor =
  fd_id :: FormId
  fd_space :: Space
  fd_mnemonic :: Mnemonic
  fd_dst :: Operand
  fd_src :: Operand
  fd_documented :: bool
  fd_alias_of :: FormId
  fd_length :: nat
  fd_m1_fetches :: nat
  fd_opcode_index :: nat
  fd_displacement_index :: nat
  fd_immediate_index :: nat
  fd_immediate_size :: nat
  fd_timing :: Timing

datatype ByteClassKind =
  BK_form | BK_escape_cb | BK_escape_ed | BK_escape_dd | BK_escape_fd | BK_escape_ddcb
| BK_escape_fdcb | BK_prefix_chain | BK_prefix_ignored | BK_prefix_ignored_before_ed

record ByteClass =
  bc_kind :: ByteClassKind
  bc_form :: FormId

end
