(* ===== verification/Z80_Forms.thy ===== *)
theory Z80_Forms
  imports Z80_Types
begin

text \<open>
  The Z80 form table of \<^verbatim>\<open>libs/cpu/z80/src/forms.cpp\<close>: the classification of every
  byte of the seven opcode spaces, the static timing table, and the table that interns every
  distinct form once and gives it a dense 16-bit id.
\<close>

section \<open>Keys\<close>

text \<open>A form identity before interning.\<close>

record Key =
  key_space :: Space
  key_mnemonic :: Mnemonic
  key_dst :: Operand
  key_src :: Operand
  key_documented :: bool
  key_has_alias :: bool
  key_alias_space :: Space

record Classified =
  cl_kind :: ByteClassKind
  cl_key :: Key

section \<open>Classification of opcode bytes\<close>

definition kAlu :: "Mnemonic list" where
  "kAlu = [M_add, M_adc, M_sub, M_sbc, M_and, M_xor, M_or, M_cp]"

definition kShift :: "Mnemonic list" where
  "kShift = [M_rlc, M_rrc, M_rl, M_rr, M_sla, M_sra, M_sll, M_srl]"

definition make_key :: "Space \<Rightarrow> Mnemonic \<Rightarrow> Operand \<Rightarrow> Operand \<Rightarrow> bool \<Rightarrow> Key" where
  "make_key space mnemonic dst src documented =
     \<lparr>key_space = space, key_mnemonic = mnemonic, key_dst = dst, key_src = src,
      key_documented = documented, key_has_alias = False, key_alias_space = S_base\<rparr>"

definition alias_key :: "Key \<Rightarrow> Space \<Rightarrow> Key" where
  "alias_key key target_space =
     key\<lparr>key_documented := False, key_has_alias := True, key_alias_space := target_space\<rparr>"

definition default_key :: Key where
  "default_key = make_key S_base M_nop O_none O_none True"

definition form :: "Key \<Rightarrow> Classified" where
  "form key = \<lparr>cl_kind = BK_form, cl_key = key\<rparr>"

definition escape :: "ByteClassKind \<Rightarrow> Classified" where
  "escape kind = \<lparr>cl_kind = kind, cl_key = default_key\<rparr>"

definition mk :: "Space \<Rightarrow> Mnemonic \<Rightarrow> Operand \<Rightarrow> Operand \<Rightarrow> Classified" where
  "mk space m d s = form (make_key space m d s True)"

definition mk_undoc :: "Space \<Rightarrow> Mnemonic \<Rightarrow> Operand \<Rightarrow> Operand \<Rightarrow> Classified" where
  "mk_undoc space m d s = form (make_key space m d s False)"

text \<open>The bit fields \<open>x\<close>, \<open>y\<close> and \<open>z\<close> of an opcode byte.\<close>

definition field_x :: "u8 \<Rightarrow> nat" where "field_x b = unat (drop_bit 6 b)"
definition field_y :: "u8 \<Rightarrow> nat" where "field_y b = unat (drop_bit 3 b AND 7)"
definition field_z :: "u8 \<Rightarrow> nat" where "field_z b = unat (b AND 7)"

definition base_x0 :: "nat \<Rightarrow> nat \<Rightarrow> nat \<Rightarrow> nat \<Rightarrow> Classified" where
  "base_x0 y z p q =
    (if z = 0 then
       (if y = 0 then mk S_base M_nop O_none O_none
        else if y = 1 then mk S_base M_ex O_af O_af_alt
        else if y = 2 then mk S_base M_djnz O_none O_e
        else if y = 3 then mk S_base M_jr O_none O_e
        else mk S_base M_jr O_cc4 O_e)
     else if z = 1 then
       (if q = 0 then mk S_base M_ld O_rr O_nn else mk S_base M_add O_hl O_rr)
     else if z = 2 then
       (if q = 0 then
          (if p < 2 then mk S_base M_ld O_rr_ind O_a
           else if p = 2 then mk S_base M_ld O_nn_ind O_hl
           else mk S_base M_ld O_nn_ind O_a)
        else if p < 2 then mk S_base M_ld O_a O_rr_ind
        else if p = 2 then mk S_base M_ld O_hl O_nn_ind
        else mk S_base M_ld O_a O_nn_ind)
     else if z = 3 then mk S_base (if q = 0 then M_inc else M_dec) O_rr O_none
     else if z = 4 then mk S_base M_inc (if y = 6 then O_hl_ind else O_r) O_none
     else if z = 5 then mk S_base M_dec (if y = 6 then O_hl_ind else O_r) O_none
     else if z = 6 then mk S_base M_ld (if y = 6 then O_hl_ind else O_r) O_n
     else mk S_base ([M_rlca, M_rrca, M_rla, M_rra, M_daa, M_cpl, M_scf, M_ccf] ! y) O_a O_none)"

definition base_x3 :: "nat \<Rightarrow> nat \<Rightarrow> nat \<Rightarrow> nat \<Rightarrow> Classified" where
  "base_x3 y z p q =
    (if z = 0 then mk S_base M_ret O_cc O_none
     else if z = 1 then
       (if q = 0 then mk S_base M_pop O_rr2 O_none
        else if p = 0 then mk S_base M_ret O_none O_none
        else if p = 1 then mk S_base M_exx O_none O_none
        else if p = 2 then mk S_base M_jp O_none O_hl
        else mk S_base M_ld O_sp O_hl)
     else if z = 2 then mk S_base M_jp O_cc O_nn
     else if z = 3 then
       (if y = 0 then mk S_base M_jp O_none O_nn
        else if y = 1 then escape BK_escape_cb
        else if y = 2 then mk S_base M_out O_n_port O_a
        else if y = 3 then mk S_base M_in O_a O_n_port
        else if y = 4 then mk S_base M_ex O_sp_ind O_hl
        else if y = 5 then mk S_base M_ex O_de O_hl
        else if y = 6 then mk S_base M_di O_none O_none
        else mk S_base M_ei O_none O_none)
     else if z = 4 then mk S_base M_call O_cc O_nn
     else if z = 5 then
       (if q = 0 then mk S_base M_push O_none O_rr2
        else if p = 0 then mk S_base M_call O_none O_nn
        else if p = 1 then escape BK_escape_dd
        else if p = 2 then escape BK_escape_ed
        else escape BK_escape_fd)
     else if z = 6 then mk S_base (kAlu ! y) O_a O_n
     else mk S_base M_rst O_none O_p)"

definition classify_base :: "u8 \<Rightarrow> Classified" where
  "classify_base b =
    (let x = field_x b; y = field_y b; z = field_z b; p = y div 2; q = y mod 2 in
     if x = 0 then base_x0 y z p q
     else if x = 1 then
       (if z = 6 \<and> y = 6 then mk S_base M_halt O_none O_none
        else if z = 6 then mk S_base M_ld O_r O_hl_ind
        else if y = 6 then mk S_base M_ld O_hl_ind O_r
        else mk S_base M_ld O_r O_r)
     else if x = 2 then mk S_base (kAlu ! y) O_a (if z = 6 then O_hl_ind else O_r)
     else base_x3 y z p q)"

definition classify_cb :: "u8 \<Rightarrow> Classified" where
  "classify_cb b =
    (let x = field_x b; y = field_y b; z = field_z b;
         target = (if z = 6 then O_hl_ind else O_r) in
     if x = 0 then form (make_key S_cb (kShift ! y) target O_none (kShift ! y \<noteq> M_sll))
     else let m = (if x = 1 then M_bit else if x = 2 then M_res else M_set)
          in form (make_key S_cb m O_bit target True))"

definition ed_nop :: Classified where
  "ed_nop = form (make_key S_ed M_nop O_none O_ed_undefined False)"

definition ed_im_mode :: "nat \<Rightarrow> Operand" where
  "ed_im_mode y = [O_im0, O_im0, O_im1, O_im2, O_im0, O_im0, O_im1, O_im2] ! y"

definition ed_x1 :: "nat \<Rightarrow> nat \<Rightarrow> nat \<Rightarrow> nat \<Rightarrow> Classified" where
  "ed_x1 y z p q =
    (if z = 0 then
       (if y = 6 then form (make_key S_ed M_in O_flags_only O_c_port False)
        else mk S_ed M_in O_r O_c_port)
     else if z = 1 then
       (if y = 6 then form (make_key S_ed M_out O_c_port O_zero False)
        else mk S_ed M_out O_c_port O_r)
     else if z = 2 then mk S_ed (if q = 0 then M_sbc else M_adc) O_hl O_rr
     else if z = 3 then
       (if p = 2 then
          (let k = (if q = 0 then make_key S_ed M_ld O_nn_ind O_hl True
                    else make_key S_ed M_ld O_hl O_nn_ind True)
           in form (k\<lparr>key_has_alias := True, key_alias_space := S_base\<rparr>))
        else if q = 0 then mk S_ed M_ld O_nn_ind O_rr_ed else mk S_ed M_ld O_rr_ed O_nn_ind)
     else if z = 4 then
       (let k = make_key S_ed M_neg O_a O_none True
        in form (if y = 0 then k else alias_key k S_ed))
     else if z = 5 then
       (if y = 1 then mk S_ed M_reti O_none O_none
        else let k = make_key S_ed M_retn O_none O_none True
             in form (if y = 0 then k else alias_key k S_ed))
     else if z = 6 then
       (let k = make_key S_ed M_im (ed_im_mode y) O_none True
        in form (if y = 0 \<or> y = 2 \<or> y = 3 then k else alias_key k S_ed))
     else if y = 0 then mk S_ed M_ld O_i O_a
     else if y = 1 then mk S_ed M_ld O_r_refresh O_a
     else if y = 2 then mk S_ed M_ld O_a O_i
     else if y = 3 then mk S_ed M_ld O_a O_r_refresh
     else if y = 4 then mk S_ed M_rrd O_a O_hl_ind
     else if y = 5 then mk S_ed M_rld O_a O_hl_ind
     else ed_nop)"

definition ed_block :: "Mnemonic list list" where
  "ed_block =
    [[M_ldi, M_cpi, M_ini, M_outi], [M_ldd, M_cpd, M_ind, M_outd],
     [M_ldir, M_cpir, M_inir, M_otir], [M_lddr, M_cpdr, M_indr, M_otdr]]"

definition classify_ed :: "u8 \<Rightarrow> Classified" where
  "classify_ed b =
    (if 0x40 \<le> b \<and> b < 0x80 then
       (let y = field_y b; z = field_z b in ed_x1 y z (y div 2) (y mod 2))
     else if 0xA0 \<le> b \<and> b < 0xC0 \<and> b AND 4 = 0 then
       mk S_ed (ed_block ! (field_y b - 4) ! unat (b AND 3)) O_none O_none
     else ed_nop)"

definition ignored :: "u8 \<Rightarrow> Classified" where
  "ignored b = \<lparr>cl_kind = BK_prefix_ignored, cl_key = cl_key (classify_base b)\<rparr>"

definition index_fields :: "Space \<Rightarrow> u8 \<Rightarrow> Classified" where
  "index_fields space b =
    (let iy = (space = S_fd);
         ixd = (if iy then O_iy_d else O_ix_d);
         half = (if iy then O_iy_half else O_ix_half);
         x = field_x b; y = field_y b; z = field_z b;
         y_half = (y = 4 \<or> y = 5); z_half = (z = 4 \<or> z = 5) in
     if x = 1 \<and> b \<noteq> 0x76 then
       (if z = 6 then mk space M_ld O_r ixd
        else if y = 6 then mk space M_ld ixd O_r
        else if y_half \<and> z_half then mk_undoc space M_ld half half
        else if y_half then mk_undoc space M_ld half O_r
        else if z_half then mk_undoc space M_ld O_r half
        else ignored b)
     else if x = 2 then
       (if z = 6 then mk space (kAlu ! y) O_a ixd
        else if z_half then mk_undoc space (kAlu ! y) O_a half
        else ignored b)
     else ignored b)"

definition classify_index :: "Space \<Rightarrow> u8 \<Rightarrow> Classified" where
  "classify_index space b =
    (let iy = (space = S_fd);
         ix = (if iy then O_iy else O_ix);
         ixd = (if iy then O_iy_d else O_ix_d);
         half = (if iy then O_iy_half else O_ix_half);
         rr_ix = (if iy then O_rr_iy else O_rr_ix) in
     if b = 0x09 \<or> b = 0x19 \<or> b = 0x29 \<or> b = 0x39 then mk space M_add ix rr_ix
     else if b = 0x21 then mk space M_ld ix O_nn
     else if b = 0x22 then mk space M_ld O_nn_ind ix
     else if b = 0x23 then mk space M_inc ix O_none
     else if b = 0x24 \<or> b = 0x2C then mk_undoc space M_inc half O_none
     else if b = 0x25 \<or> b = 0x2D then mk_undoc space M_dec half O_none
     else if b = 0x26 \<or> b = 0x2E then mk_undoc space M_ld half O_n
     else if b = 0x2A then mk space M_ld ix O_nn_ind
     else if b = 0x2B then mk space M_dec ix O_none
     else if b = 0x34 then mk space M_inc ixd O_none
     else if b = 0x35 then mk space M_dec ixd O_none
     else if b = 0x36 then mk space M_ld ixd O_n
     else if b = 0xCB then escape (if iy then BK_escape_fdcb else BK_escape_ddcb)
     else if b = 0xDD \<or> b = 0xFD then escape BK_prefix_chain
     else if b = 0xED then escape BK_prefix_ignored_before_ed
     else if b = 0xE1 then mk space M_pop ix O_none
     else if b = 0xE3 then mk space M_ex O_sp_ind ix
     else if b = 0xE5 then mk space M_push O_none ix
     else if b = 0xE9 then mk space M_jp O_none ix
     else if b = 0xF9 then mk space M_ld O_sp ix
     else index_fields space b)"

definition classify_indexed_cb :: "Space \<Rightarrow> u8 \<Rightarrow> Classified" where
  "classify_indexed_cb space b =
    (let iy = (space = S_fdcb);
         ixd = (if iy then O_iy_d else O_ix_d);
         copy = (if iy then O_iy_d_copy_r else O_ix_d_copy_r);
         x = field_x b; y = field_y b; z = field_z b in
     if x = 0 then
       (let m = kShift ! y in
        if z = 6 then form (make_key space m ixd O_none (m \<noteq> M_sll))
        else form (make_key space m copy O_none False))
     else if x = 1 then
       (let k = make_key space M_bit O_bit ixd True
        in form (if z = 6 then k else alias_key k space))
     else let m = (if x = 2 then M_res else M_set) in
       if z = 6 then form (make_key space m O_bit ixd True)
       else form (make_key space m O_bit copy False))"

definition classify_key :: "Space \<Rightarrow> u8 \<Rightarrow> Classified" where
  "classify_key space b =
    (case space of
       S_base \<Rightarrow> classify_base b
     | S_cb \<Rightarrow> classify_cb b
     | S_ed \<Rightarrow> classify_ed b
     | S_dd \<Rightarrow> classify_index space b
     | S_fd \<Rightarrow> classify_index space b
     | S_ddcb \<Rightarrow> classify_indexed_cb space b
     | S_fdcb \<Rightarrow> classify_indexed_cb space b)"

section \<open>Static timing and layout of a form\<close>

definition operand_imm_size :: "Operand \<Rightarrow> nat" where
  "operand_imm_size op =
    (if op = O_n \<or> op = O_e \<or> op = O_n_port then 1
     else if op = O_nn \<or> op = O_nn_ind then 2 else 0)"

definition immediate_bytes :: "Key \<Rightarrow> nat" where
  "immediate_bytes k = operand_imm_size (key_dst k) + operand_imm_size (key_src k)"

definition is_indexed_d :: "Operand \<Rightarrow> bool" where
  "is_indexed_d op \<longleftrightarrow> op = O_ix_d \<or> op = O_iy_d \<or> op = O_ix_d_copy_r \<or> op = O_iy_d_copy_r"

definition fixed :: "nat \<Rightarrow> Timing" where
  "fixed t = \<lparr>tm_klass = T_fixed, tm_primary = t, tm_alternate = 0\<rparr>"

definition cond :: "nat \<Rightarrow> nat \<Rightarrow> Timing" where
  "cond not_taken taken = \<lparr>tm_klass = T_conditional, tm_primary = not_taken, tm_alternate = taken\<rparr>"

definition is_alu :: "Mnemonic \<Rightarrow> bool" where
  "is_alu m \<longleftrightarrow> m = M_add \<or> m = M_adc \<or> m = M_sub \<or> m = M_sbc \<or> m = M_and \<or> m = M_xor \<or>
     m = M_or \<or> m = M_cp"

definition timing_base :: "Mnemonic \<Rightarrow> Operand \<Rightarrow> Operand \<Rightarrow> Timing" where
  "timing_base m d s =
    (if m = M_halt then \<lparr>tm_klass = T_halt, tm_primary = 4, tm_alternate = 4\<rparr>
     else if m = M_djnz then cond 8 13
     else if m = M_jr then (if d = O_cc4 then cond 7 12 else fixed 12)
     else if m = M_ret then (if d = O_cc then cond 5 11 else fixed 10)
     else if m = M_call then (if d = O_cc then cond 10 17 else fixed 17)
     else if m = M_jp then (if s = O_hl then fixed 4 else fixed 10)
     else if m = M_push then fixed 11
     else if m = M_pop then fixed 10
     else if m = M_rst then fixed 11
     else if m = M_out \<or> m = M_in then fixed 11
     else if m = M_ex then (if d = O_sp_ind then fixed 19 else fixed 4)
     else if m = M_add \<and> d = O_hl then fixed 11
     else if m = M_inc \<or> m = M_dec then
       (if d = O_rr then fixed 6 else if d = O_hl_ind then fixed 11 else fixed 4)
     else if m = M_ld then
       (if d = O_rr then fixed 10
        else if d = O_sp then fixed 6
        else if d = O_rr_ind \<or> s = O_rr_ind then fixed 7
        else if d = O_nn_ind \<or> s = O_nn_ind then fixed (if d = O_hl \<or> s = O_hl then 16 else 13)
        else if d = O_hl_ind \<and> s = O_n then fixed 10
        else if d = O_hl_ind \<or> s = O_hl_ind \<or> s = O_n then fixed 7
        else fixed 4)
     else if is_alu m then fixed (if s = O_hl_ind \<or> s = O_n then 7 else 4)
     else fixed 4)"

definition timing_ed :: "Mnemonic \<Rightarrow> Operand \<Rightarrow> Operand \<Rightarrow> Timing" where
  "timing_ed m d s =
    (if m = M_nop \<or> m = M_neg \<or> m = M_im then fixed 8
     else if m = M_in \<or> m = M_out then fixed 12
     else if m = M_sbc \<or> m = M_adc then fixed 15
     else if m = M_ld then (if d = O_nn_ind \<or> s = O_nn_ind then fixed 20 else fixed 9)
     else if m = M_retn \<or> m = M_reti then fixed 14
     else if m = M_rrd \<or> m = M_rld then fixed 18
     else if m = M_ldir \<or> m = M_cpir \<or> m = M_inir \<or> m = M_otir \<or>
             m = M_lddr \<or> m = M_cpdr \<or> m = M_indr \<or> m = M_otdr
       then \<lparr>tm_klass = T_repeat, tm_primary = 16, tm_alternate = 21\<rparr>
     else fixed 16)"

definition timing_index :: "Mnemonic \<Rightarrow> Operand \<Rightarrow> Operand \<Rightarrow> Timing" where
  "timing_index m d s =
    (let ixd = (is_indexed_d d \<or> is_indexed_d s);
         half = (d = O_ix_half \<or> d = O_iy_half \<or> s = O_ix_half \<or> s = O_iy_half) in
     if is_alu m \<and> d = O_a then fixed (if ixd then 19 else 8)
     else if m = M_add then fixed 15
     else if m = M_ld then
       (if ixd then fixed 19
        else if half then fixed (if s = O_n then 11 else 8)
        else if d = O_nn_ind \<or> s = O_nn_ind then fixed 20
        else if d = O_sp then fixed 10
        else fixed 14)
     else if m = M_inc \<or> m = M_dec then fixed (if ixd then 23 else if half then 8 else 10)
     else if m = M_pop then fixed 14
     else if m = M_push then fixed 15
     else if m = M_ex then fixed 23
     else fixed 8)"

definition timing_of :: "Key \<Rightarrow> Timing" where
  "timing_of k =
    (let m = key_mnemonic k; d = key_dst k; s = key_src k in
     case key_space k of
       S_base \<Rightarrow> timing_base m d s
     | S_cb \<Rightarrow>
         (if m = M_bit then fixed (if s = O_hl_ind then 12 else 8)
          else fixed (if d = O_hl_ind \<or> s = O_hl_ind then 15 else 8))
     | S_ed \<Rightarrow> timing_ed m d s
     | S_dd \<Rightarrow> timing_index m d s
     | S_fd \<Rightarrow> timing_index m d s
     | S_ddcb \<Rightarrow> fixed (if m = M_bit then 20 else 23)
     | S_fdcb \<Rightarrow> fixed (if m = M_bit then 20 else 23))"

text \<open>The descriptor of a key, before aliases are resolved (the first loop of \<open>build\<close>).\<close>

definition describe :: "FormId \<Rightarrow> Key \<Rightarrow> FormDescriptor" where
  "describe i k =
    (let indexed_cb = (key_space k = S_ddcb \<or> key_space k = S_fdcb);
         prefixed = (key_space k \<noteq> S_base);
         opcode_index = (if indexed_cb then 3 else if prefixed then 1 else 0);
         next0 = opcode_index + 1;
         has_d = (is_indexed_d (key_dst k) \<or> is_indexed_d (key_src k));
         next1 = (if has_d then next0 + 1 else next0);
         imm = immediate_bytes k in
     \<lparr>fd_id = i, fd_space = key_space k, fd_mnemonic = key_mnemonic k, fd_dst = key_dst k,
      fd_src = key_src k, fd_documented = key_documented k, fd_alias_of = kNoForm,
      fd_length = (if indexed_cb then 4 else if imm \<noteq> 0 then next1 + imm else next1),
      fd_m1_fetches = (if key_space k = S_base then 1 else 2),
      fd_opcode_index = opcode_index,
      fd_displacement_index =
        (if indexed_cb then 2 else if has_d then next0 else kNoIndex),
      fd_immediate_index = (if indexed_cb then kNoIndex else if imm \<noteq> 0 then next1 else kNoIndex),
      fd_immediate_size = (if indexed_cb then 0 else imm),
      fd_timing = timing_of k\<rparr>)"

section \<open>The interned form table\<close>

record Tables =
  tb_forms :: "FormDescriptor list"
  tb_bytes :: "ByteClass list list"

definition all_spaces :: "Space list" where
  "all_spaces = [S_base, S_cb, S_ed, S_dd, S_fd, S_ddcb, S_fdcb]"

fun space_index :: "Space \<Rightarrow> nat" where
  "space_index S_base = 0" | "space_index S_cb = 1" | "space_index S_ed = 2"
| "space_index S_dd = 3" | "space_index S_fd = 4" | "space_index S_ddcb = 5"
| "space_index S_fdcb = 6"

definition find_index :: "Key list \<Rightarrow> Key \<Rightarrow> nat" where
  "find_index keys key = length (takeWhile (\<lambda>k. k \<noteq> key) keys)"

definition intern :: "Key list \<Rightarrow> Key \<Rightarrow> Key list \<times> FormId" where
  "intern keys key =
    (if find_index keys key \<noteq> length keys then (keys, of_nat (find_index keys key))
     else (keys @ [key], of_nat (length (keys @ [key]) - 1)))"

definition has_form :: "ByteClassKind \<Rightarrow> bool" where
  "has_form kind \<longleftrightarrow> kind = BK_form \<or> kind = BK_prefix_ignored"

definition intern_byte :: "Key list \<Rightarrow> Space \<Rightarrow> u8 \<Rightarrow> Key list \<times> ByteClass" where
  "intern_byte keys space b =
    (let c = classify_key space b in
     if has_form (cl_kind c)
     then (let (keys', i) = intern keys (cl_key c) in (keys', \<lparr>bc_kind = cl_kind c, bc_form = i\<rparr>))
     else (keys, \<lparr>bc_kind = cl_kind c, bc_form = kNoForm\<rparr>))"

fun build_row :: "Key list \<Rightarrow> Space \<Rightarrow> nat list \<Rightarrow> Key list \<times> ByteClass list" where
  "build_row keys space [] = (keys, [])"
| "build_row keys space (b # bs) =
    (let (keys', bc) = intern_byte keys space (of_nat b);
         (keys'', row) = build_row keys' space bs
     in (keys'', bc # row))"

fun build_rows :: "Key list \<Rightarrow> Space list \<Rightarrow> Key list \<times> ByteClass list list" where
  "build_rows keys [] = (keys, [])"
| "build_rows keys (sp # sps) =
    (let (keys', row) = build_row keys sp [0..<256];
         (keys'', rows) = build_rows keys' sps
     in (keys'', row # rows))"

definition alias_match :: "Key \<Rightarrow> Key \<Rightarrow> bool" where
  "alias_match k c \<longleftrightarrow>
     key_space c = key_alias_space k \<and> key_mnemonic c = key_mnemonic k \<and> key_dst c = key_dst k \<and>
     key_src c = key_src k \<and> key_documented c \<and> \<not> key_has_alias c"

definition find_alias :: "Key list \<Rightarrow> Key \<Rightarrow> FormId" where
  "find_alias keys k =
    (let j = length (takeWhile (\<lambda>c. \<not> alias_match k c) keys)
     in if j = length keys then kNoForm else of_nat j)"

definition finish_form :: "Key list \<Rightarrow> nat \<Rightarrow> FormDescriptor" where
  "finish_form keys i =
    (let k = keys ! i; f = describe (of_nat i) k
     in if key_has_alias k then f\<lparr>fd_alias_of := find_alias keys k\<rparr> else f)"

definition build :: Tables where
  "build =
    (let (keys, rows) = build_rows [] all_spaces
     in \<lparr>tb_forms = map (finish_form keys) [0..<length keys], tb_bytes = rows\<rparr>)"

definition all_forms :: "FormDescriptor list" where
  "all_forms = tb_forms build"

definition form_descriptor :: "FormId \<Rightarrow> FormDescriptor" where
  "form_descriptor i = tb_forms build ! unat i"

definition classify_opcode_byte :: "Space \<Rightarrow> u8 \<Rightarrow> ByteClass" where
  "classify_opcode_byte space b = tb_bytes build ! space_index space ! unat b"

section \<open>Fields of a byte\<close>

lemma byte_fields:
  "field_x b < 4" "field_y b < 8" "field_z b < 8" "unat b = 64 * field_x b + 8 * field_y b + field_z b"
proof -
  have x: "field_x b = unat b div 64" unfolding field_x_def unat_drop_bit by simp
  have y: "field_y b = (unat b div 8) mod 8"
    unfolding field_y_def unsigned_and_eq unat_drop_bit by (simp add: nat_and_7)
  have z: "field_z b = unat b mod 8" by (simp add: field_z_def unsigned_and_eq nat_and_7)
  show "field_x b < 4" unfolding x using unat_u8_less [of b] by simp
  show "field_y b < 8" "field_z b < 8" unfolding y z by simp_all
  show "unat b = 64 * field_x b + 8 * field_y b + field_z b"
  proof -
    have d: "unat b div 64 = unat b div 8 div 8" by (simp add: div_mult2_eq [of _ 8 8, simplified])
    show ?thesis
      unfolding x y z d
      using mult_div_mod_eq [of 8 "unat b"] mult_div_mod_eq [of 8 "unat b div 8"] by linarith
  qed
qed

lemma byte_eq_fields:
  "b = c \<longleftrightarrow> field_x b = field_x c \<and> field_y b = field_y c \<and> field_z b = field_z c"
  using byte_fields(4) [of b] byte_fields(4) [of c] by (auto intro: unat_eqI)

lemma field_numeral [simp]:
  "field_x (numeral n) = unat (drop_bit 6 (numeral n :: u8))"
  "field_y (numeral n) = unat (drop_bit 3 (numeral n) AND 7 :: u8)"
  "field_z (numeral n) = unat (numeral n AND 7 :: u8)"
  by (simp_all add: field_x_def field_y_def field_z_def)

lemma mk_kind [simp]:
  "cl_kind (mk sp m d s) = BK_form" "cl_kind (mk_undoc sp m d s) = BK_form" "cl_kind (form k) = BK_form"
  "cl_kind (escape e) = e" "cl_kind ed_nop = BK_form"
  by (simp_all add: mk_def mk_undoc_def form_def escape_def ed_nop_def)

lemma mk_key [simp]:
  "cl_key (mk sp m d s) = make_key sp m d s True"
  "cl_key (mk_undoc sp m d s) = make_key sp m d s False" "cl_key (form k) = k"
  "cl_key (escape e) = default_key"
  by (simp_all add: mk_def mk_undoc_def form_def escape_def)

lemma make_key_simps [simp]:
  "key_space (make_key sp m d s doc) = sp" "key_mnemonic (make_key sp m d s doc) = m"
  "key_dst (make_key sp m d s doc) = d" "key_src (make_key sp m d s doc) = s"
  "key_documented (make_key sp m d s doc) = doc" "\<not> key_has_alias (make_key sp m d s doc)"
  by (simp_all add: make_key_def)

lemma alias_key_simps [simp]:
  "key_space (alias_key k t) = key_space k" "key_mnemonic (alias_key k t) = key_mnemonic k"
  "key_dst (alias_key k t) = key_dst k" "key_src (alias_key k t) = key_src k"
  "\<not> key_documented (alias_key k t)" "key_has_alias (alias_key k t)" "key_alias_space (alias_key k t) = t"
  by (simp_all add: alias_key_def)

section \<open>Kinds of the opcode bytes\<close>

lemma base_x0_kind [simp]: "cl_kind (base_x0 y z p q) = BK_form"
  by (simp add: base_x0_def)

lemma classify_base_kind:
  "cl_kind (classify_base b) =
    (if b = 0xCB then BK_escape_cb else if b = 0xDD then BK_escape_dd
     else if b = 0xED then BK_escape_ed else if b = 0xFD then BK_escape_fd else BK_form)"
proof (cases "field_x b = 3")
  case True
  have y: "field_y b = 0 \<or> field_y b = 1 \<or> field_y b = 2 \<or> field_y b = 3 \<or> field_y b = 4 \<or>
      field_y b = 5 \<or> field_y b = 6 \<or> field_y b = 7" using byte_fields(2) [of b] by linarith
  show ?thesis
    using y True unfolding classify_base_def Let_def byte_eq_fields [of b]
    by (elim disjE) (simp_all add: base_x3_def)
next
  case False
  with byte_fields(1) [of b] show ?thesis
    unfolding classify_base_def Let_def byte_eq_fields [of b] by simp
qed

lemma classify_cb_kind [simp]: "cl_kind (classify_cb b) = BK_form"
  by (simp add: classify_cb_def Let_def)

lemma ed_x1_kind [simp]: "cl_kind (ed_x1 y z p q) = BK_form"
  by (simp add: ed_x1_def Let_def)

lemma classify_ed_kind [simp]: "cl_kind (classify_ed b) = BK_form"
  by (simp add: classify_ed_def Let_def)

lemma classify_indexed_cb_kind [simp]: "cl_kind (classify_indexed_cb sp b) = BK_form"
  by (simp add: classify_indexed_cb_def Let_def)

lemma ignored_kind [simp]: "cl_kind (ignored b) = BK_prefix_ignored"
  by (simp add: ignored_def)

lemma index_fields_kind: "cl_kind (index_fields sp b) = BK_form \<or>
    index_fields sp b = ignored b"
  by (simp add: index_fields_def Let_def)

lemma classify_index_cases:
  "cl_kind (classify_index sp b) = BK_form \<and> b \<notin> {0xCB, 0xDD, 0xED, 0xFD} \<or>
   classify_index sp b = ignored b \<and> b \<notin> {0xCB, 0xDD, 0xED, 0xFD} \<or>
   b = 0xCB \<and> cl_kind (classify_index sp b) = (if sp = S_fd then BK_escape_fdcb else BK_escape_ddcb) \<or>
   (b = 0xDD \<or> b = 0xFD) \<and> cl_kind (classify_index sp b) = BK_prefix_chain \<or>
   b = 0xED \<and> cl_kind (classify_index sp b) = BK_prefix_ignored_before_ed"
  using index_fields_kind [of sp b] by (auto simp: classify_index_def Let_def)

lemma classify_key_kind_form:
  "sp \<in> {S_cb, S_ed, S_ddcb, S_fdcb} \<Longrightarrow> cl_kind (classify_key sp b) = BK_form"
  by (auto simp: classify_key_def)

section \<open>Interning\<close>

lemma find_index_le: "find_index keys k \<le> length keys"
  by (simp add: find_index_def length_takeWhile_le)

lemma find_index_less_iff: "find_index keys k < length keys \<longleftrightarrow> k \<in> set keys"
  unfolding find_index_def
  by (induction keys) auto

lemma nth_find_index: "k \<in> set keys \<Longrightarrow> keys ! find_index keys k = k"
  unfolding find_index_def
  by (induction keys) auto

lemma find_index_nth: "distinct keys \<Longrightarrow> i < length keys \<Longrightarrow> find_index keys (keys ! i) = i"
  using find_index_less_iff [of keys "keys ! i"] nth_find_index [of "keys ! i" keys]
  by (simp add: nth_eq_iff_index_eq)

lemma intern_spec:
  assumes "intern keys k = (keys', i)" "length keys < 65536"
  shows "prefix keys keys'" "unat i < length keys'" "keys' ! unat i = k"
    "set keys' = insert k (set keys)" "length keys' \<le> Suc (length keys)"
    "distinct keys \<Longrightarrow> distinct keys'"
proof -
  have "(if find_index keys k \<noteq> length keys then k \<in> set keys else k \<notin> set keys)"
    using find_index_less_iff [of keys k] find_index_le [of keys k] by auto
  moreover from this have "unat (of_nat (find_index keys k) :: u16) = find_index keys k"
    "unat (of_nat (length keys) :: u16) = length keys"
    using find_index_le [of keys k] assms(2) by (auto intro: unat_of_nat_u16)
  ultimately show "prefix keys keys'" "unat i < length keys'" "keys' ! unat i = k"
    "set keys' = insert k (set keys)" "length keys' \<le> Suc (length keys)"
    "distinct keys \<Longrightarrow> distinct keys'"
    using assms(1) find_index_le [of keys k]
    by (auto simp: intern_def nth_find_index split: if_splits)
qed

text \<open>A byte class entry agrees with the classification of its byte.\<close>

definition entry_ok :: "Key list \<Rightarrow> Classified \<Rightarrow> ByteClass \<Rightarrow> bool" where
  "entry_ok keys c bc \<longleftrightarrow>
     bc_kind bc = cl_kind c \<and>
     (if has_form (cl_kind c)
      then unat (bc_form bc) < length keys \<and> keys ! unat (bc_form bc) = cl_key c
      else bc_form bc = kNoForm)"

lemma entry_ok_prefix: "entry_ok keys c bc \<Longrightarrow> prefix keys keys' \<Longrightarrow> entry_ok keys' c bc"
  by (auto simp: entry_ok_def prefix_def nth_append split: if_splits)

definition interned_keys :: "Space \<Rightarrow> nat list \<Rightarrow> Key set" where
  "interned_keys sp bs =
     {cl_key (classify_key sp (of_nat n)) | n. n \<in> set bs \<and> has_form (cl_kind (classify_key sp (of_nat n)))}"

lemma intern_byte_spec:
  assumes "intern_byte keys sp b = (keys', bc)" "length keys < 65536"
  shows "prefix keys keys'" "entry_ok keys' (classify_key sp b) bc" "length keys' \<le> Suc (length keys)"
    "distinct keys \<Longrightarrow> distinct keys'"
    "set keys' = set keys \<union> (if has_form (cl_kind (classify_key sp b)) then {cl_key (classify_key sp b)} else {})"
proof -
  obtain k2 i where i: "intern keys (cl_key (classify_key sp b)) = (k2, i)"
    by (cases "intern keys (cl_key (classify_key sp b))")
  note s = intern_spec [OF i assms(2)]
  show "prefix keys keys'" "entry_ok keys' (classify_key sp b) bc" "length keys' \<le> Suc (length keys)"
    "distinct keys \<Longrightarrow> distinct keys'"
    "set keys' = set keys \<union> (if has_form (cl_kind (classify_key sp b)) then {cl_key (classify_key sp b)} else {})"
    using assms(1) s by (auto simp: intern_byte_def Let_def i entry_ok_def split: if_splits)
qed

definition row_ok :: "Key list \<Rightarrow> Space \<Rightarrow> nat list \<Rightarrow> ByteClass list \<Rightarrow> bool" where
  "row_ok keys sp bs row \<longleftrightarrow> list_all2 (\<lambda>n bc. entry_ok keys (classify_key sp (of_nat n)) bc) bs row"

lemma row_ok_prefix: "row_ok keys sp bs row \<Longrightarrow> prefix keys keys' \<Longrightarrow> row_ok keys' sp bs row"
  unfolding row_ok_def by (erule list_all2_mono) (auto intro: entry_ok_prefix)

lemma build_row_spec:
  "build_row keys sp bs = (keys', row) \<Longrightarrow> length keys + length bs \<le> 65536 \<Longrightarrow>
     prefix keys keys' \<and> row_ok keys' sp bs row \<and> length keys' \<le> length keys + length bs \<and>
     (distinct keys \<longrightarrow> distinct keys') \<and> set keys' = set keys \<union> interned_keys sp bs"
proof (induction bs arbitrary: keys keys' row)
  case Nil
  then show ?case by (auto simp: row_ok_def interned_keys_def)
next
  case (Cons b bs)
  obtain k1 bc where 1: "intern_byte keys sp (of_nat b) = (k1, bc)"
    by (cases "intern_byte keys sp (of_nat b)")
  obtain row2 where 2: "build_row k1 sp bs = (keys', row2)" and row: "row = bc # row2"
    using Cons.prems(1) 1 by (auto split: prod.splits)
  have l: "length keys < 65536" using Cons.prems(2) by simp
  note s = intern_byte_spec [OF 1 l]
  have "length k1 + length bs \<le> 65536" using s(3) Cons.prems(2) by simp
  note IH = Cons.IH [OF 2 this]
  have "prefix keys keys'" using s(1) IH by (blast intro: prefix_order.trans)
  moreover have "row_ok keys' sp (b # bs) row"
    using IH entry_ok_prefix [OF s(2)] by (simp add: row_ok_def row)
  moreover have "set keys' = set keys \<union> interned_keys sp (b # bs)"
    using IH s(5) by (auto simp: interned_keys_def split: if_splits)
  ultimately show ?case using s(3,4) IH by auto
qed

lemma build_rows_spec:
  "build_rows keys sps = (keys', rows) \<Longrightarrow> length keys + 256 * length sps \<le> 65536 \<Longrightarrow>
     prefix keys keys' \<and> list_all2 (\<lambda>sp row. row_ok keys' sp [0..<256] row) sps rows \<and>
     length keys' \<le> length keys + 256 * length sps \<and> (distinct keys \<longrightarrow> distinct keys') \<and>
     set keys' = set keys \<union> (\<Union>sp \<in> set sps. interned_keys sp [0..<256])"
proof (induction sps arbitrary: keys keys' rows)
  case Nil
  then show ?case by auto
next
  case (Cons sp sps)
  obtain k1 row where 1: "build_row keys sp [0..<256] = (k1, row)"
    by (cases "build_row keys sp [0..<256]")
  obtain rows2 where 2: "build_rows k1 sps = (keys', rows2)" and rows: "rows = row # rows2"
    using Cons.prems(1) 1 by (auto simp del: build_row.simps upt_conv_Cons split: prod.splits)
  have l: "length keys + length [0..<256] \<le> 65536" using Cons.prems(2) by simp
  note s = build_row_spec [OF 1 l]
  have "length k1 + 256 * length sps \<le> 65536" using s Cons.prems(2) by simp
  note IH = Cons.IH [OF 2 this]
  have "prefix keys keys'" using s IH by (blast intro: prefix_order.trans)
  moreover have "row_ok keys' sp [0..<256] row"
    using IH s row_ok_prefix by blast
  ultimately show ?case using s IH by (auto simp: rows)
qed

definition form_keys :: "Key list" where
  "form_keys = fst (build_rows [] all_spaces)"

lemma space_index_less: "space_index sp < length all_spaces"
  by (cases sp) (simp_all add: all_spaces_def)

lemma nth_all_spaces [simp]: "all_spaces ! space_index sp = sp"
  by (cases sp) (simp_all add: all_spaces_def)

lemma set_all_spaces [simp]: "set all_spaces = UNIV"
  using nth_mem [OF space_index_less] by auto

lemma all_spaces_bound: "length [] + 256 * length all_spaces \<le> 65536"
  by (simp add: all_spaces_def)

lemmas form_keys_spec =
  build_rows_spec [OF surjective_pairing all_spaces_bound, folded form_keys_def]

lemma form_keys_distinct: "distinct form_keys"
  using form_keys_spec by simp

lemma form_keys_length: "length form_keys \<le> 1792"
  using form_keys_spec by (simp add: all_spaces_def)

lemma form_keys_set:
  "k \<in> set form_keys \<longleftrightarrow>
     (\<exists>sp b. has_form (cl_kind (classify_key sp b)) \<and> k = cl_key (classify_key sp b))"
proof -
  have "k \<in> set form_keys \<longleftrightarrow> (\<exists>sp. \<exists>n < 256. has_form (cl_kind (classify_key sp (of_nat n))) \<and>
      k = cl_key (classify_key sp (of_nat n)))"
    using form_keys_spec by (auto simp: interned_keys_def)
  also have "\<dots> \<longleftrightarrow> (\<exists>sp b. has_form (cl_kind (classify_key sp b)) \<and> k = cl_key (classify_key sp b))"
  proof
    assume "\<exists>sp b. has_form (cl_kind (classify_key sp b)) \<and> k = cl_key (classify_key sp b)"
    then obtain sp b where "has_form (cl_kind (classify_key sp b))" "k = cl_key (classify_key sp b)"
      by blast
    then have "unat b < 256 \<and> has_form (cl_kind (classify_key sp (of_nat (unat b)))) \<and>
        k = cl_key (classify_key sp (of_nat (unat b)))" using unat_u8_less [of b] by simp
    then show "\<exists>sp. \<exists>n < 256. has_form (cl_kind (classify_key sp (of_nat n))) \<and>
        k = cl_key (classify_key sp (of_nat n))" by blast
  qed blast
  finally show ?thesis .
qed

lemma build_simps:
  "tb_forms build = map (finish_form form_keys) [0..<length form_keys]"
  "tb_bytes build = snd (build_rows [] all_spaces)"
  by (simp_all add: build_def form_keys_def split_beta)

lemma classify_opcode_byte_ok:
  "entry_ok form_keys (classify_key sp b) (classify_opcode_byte sp b)"
proof -
  let ?row = "snd (build_rows [] all_spaces) ! space_index sp"
  have "list_all2 (\<lambda>sp row. row_ok form_keys sp [0..<256] row) all_spaces (snd (build_rows [] all_spaces))"
    using form_keys_spec by blast
  from list_all2_nthD [OF this space_index_less [of sp]] have "row_ok form_keys sp [0..<256] ?row"
    by simp
  from list_all2_nthD [OF this [unfolded row_ok_def], of "unat b"] show ?thesis
    using unat_u8_less [of b] by (simp add: classify_opcode_byte_def build_simps)
qed

lemma form_descriptor_nth:
  "unat i < length form_keys \<Longrightarrow> form_descriptor i = finish_form form_keys (unat i)"
  by (simp add: form_descriptor_def build_simps)

lemma length_all_forms: "length all_forms = length form_keys"
  by (simp add: all_forms_def build_simps)

lemma finish_form_simps [simp]:
  "fd_space (finish_form keys i) = key_space (keys ! i)"
  "fd_mnemonic (finish_form keys i) = key_mnemonic (keys ! i)"
  "fd_dst (finish_form keys i) = key_dst (keys ! i)"
  "fd_src (finish_form keys i) = key_src (keys ! i)"
  "fd_documented (finish_form keys i) = key_documented (keys ! i)"
  "fd_id (finish_form keys i) = of_nat i"
  "finish_form keys i\<lparr>fd_alias_of := kNoForm\<rparr> = describe (of_nat i) (keys ! i)"
  "fd_length (finish_form keys i) = fd_length (describe (of_nat i) (keys ! i))"
  "fd_m1_fetches (finish_form keys i) = fd_m1_fetches (describe (of_nat i) (keys ! i))"
  "fd_opcode_index (finish_form keys i) = fd_opcode_index (describe (of_nat i) (keys ! i))"
  "fd_displacement_index (finish_form keys i) = fd_displacement_index (describe (of_nat i) (keys ! i))"
  "fd_immediate_index (finish_form keys i) = fd_immediate_index (describe (of_nat i) (keys ! i))"
  "fd_immediate_size (finish_form keys i) = fd_immediate_size (describe (of_nat i) (keys ! i))"
  "fd_timing (finish_form keys i) = timing_of (keys ! i)"
  by (simp_all add: finish_form_def describe_def Let_def)

text \<open>
  Looking a byte up and then its form: the descriptor of the classification, without going
  through the table. This is how every other component uses the table.
\<close>

lemma form_descriptor_classify:
  assumes "has_form (cl_kind (classify_key sp b))"
  shows "unat (bc_form (classify_opcode_byte sp b)) < length form_keys"
    "form_keys ! unat (bc_form (classify_opcode_byte sp b)) = cl_key (classify_key sp b)"
    "form_descriptor (bc_form (classify_opcode_byte sp b))\<lparr>fd_alias_of := kNoForm\<rparr> =
       describe (bc_form (classify_opcode_byte sp b)) (cl_key (classify_key sp b))"
  using classify_opcode_byte_ok [of sp b] assms
  by (auto simp: entry_ok_def form_descriptor_nth)

lemma classify_opcode_byte_kind [simp]:
  "bc_kind (classify_opcode_byte sp b) = cl_kind (classify_key sp b)"
  using classify_opcode_byte_ok [of sp b] by (simp add: entry_ok_def)

section \<open>Facts about every key\<close>

definition has_displacement :: "Key \<Rightarrow> bool" where
  "has_displacement k \<longleftrightarrow> is_indexed_d (key_dst k) \<or> is_indexed_d (key_src k)"

definition key_wf :: "Key \<Rightarrow> bool" where
  "key_wf k \<longleftrightarrow>
     immediate_bytes k \<le> 2 \<and>
     (has_displacement k \<longrightarrow> key_space k \<notin> {S_base, S_cb, S_ed} \<and> immediate_bytes k \<le> 1) \<and>
     (key_space k \<in> {S_ddcb, S_fdcb} \<longrightarrow> has_displacement k \<and> immediate_bytes k = 0)"

lemmas key_wf_simps =
  key_wf_def immediate_bytes_def operand_imm_size_def has_displacement_def is_indexed_d_def

lemma key_wf_default [simp]: "key_wf default_key"
  by (simp add: default_key_def key_wf_simps)

lemma key_wf_alias [simp]: "key_wf (alias_key k t) = key_wf k"
  "key_wf (k\<lparr>key_has_alias := True, key_alias_space := t\<rparr>) = key_wf k"
  by (simp_all add: key_wf_simps)

text \<open>Well-formedness of a classification in a space; the mnemonic does not matter.\<close>

definition ops_wf :: "Space \<Rightarrow> Operand \<Rightarrow> Operand \<Rightarrow> bool" where
  "ops_wf sp d s \<longleftrightarrow> key_wf (make_key sp M_nop d s True)"

definition cl_wf :: "Space \<Rightarrow> Classified \<Rightarrow> bool" where
  "cl_wf sp c \<longleftrightarrow> (has_form (cl_kind c) \<longrightarrow>
     key_wf (cl_key c) \<and> key_space (cl_key c) = (if cl_kind c = BK_form then sp else S_base))"

lemma key_wf_make [simp]: "key_wf (make_key sp m d s doc) = ops_wf sp d s"
  by (simp add: ops_wf_def key_wf_def immediate_bytes_def has_displacement_def)

lemma cl_wf_simps [simp]:
  "cl_wf sp (mk sp m d s) = ops_wf sp d s" "cl_wf sp (mk_undoc sp m d s) = ops_wf sp d s"
  "cl_wf sp (form k) \<longleftrightarrow> key_wf k \<and> key_space k = sp"
  "\<not> has_form e \<Longrightarrow> cl_wf sp (escape e)" "cl_wf S_ed ed_nop = ops_wf S_ed O_none O_ed_undefined"
  by (simp_all add: cl_wf_def has_form_def ed_nop_def)

lemma has_form_simps [simp]:
  "has_form BK_form" "has_form BK_prefix_ignored" "\<not> has_form BK_escape_cb" "\<not> has_form BK_escape_ed"
  "\<not> has_form BK_escape_dd" "\<not> has_form BK_escape_fd" "\<not> has_form BK_escape_ddcb"
  "\<not> has_form BK_escape_fdcb" "\<not> has_form BK_prefix_chain" "\<not> has_form BK_prefix_ignored_before_ed"
  by (simp_all add: has_form_def)

lemmas push_if = if_distrib [of "cl_wf _"] if_distrib [of key_wf] if_distrib [of key_space]
  if_distrib [of "ops_wf _ _"] if_distrib [of "\<lambda>d. ops_wf _ d _"]

lemmas eval_ops_wf = ops_wf_def key_wf_simps make_key_def

lemma cl_wf_base: "cl_wf S_base (classify_base b)"
proof -
  have "cl_wf S_base (base_x0 y z p q)" for y z p q
    unfolding base_x0_def by (simp add: push_if) (simp add: eval_ops_wf)
  moreover have "cl_wf S_base (base_x3 y z p q)" for y z p q
    unfolding base_x3_def by (simp add: push_if) (simp add: eval_ops_wf)
  ultimately show ?thesis
    unfolding classify_base_def Let_def by (simp add: push_if) (simp add: eval_ops_wf)
qed

lemma key_space_base [simp]: "key_space (cl_key (classify_base b)) = S_base"
proof -
  have "key_space (cl_key (base_x0 y z p q)) = S_base" for y z p q
    unfolding base_x0_def by (simp add: if_distrib [of cl_key] if_distrib [of key_space])
  moreover have "key_space (cl_key (base_x3 y z p q)) = S_base" for y z p q
    unfolding base_x3_def by (simp add: if_distrib [of cl_key] if_distrib [of key_space] default_key_def)
  ultimately show ?thesis
    unfolding classify_base_def Let_def by (simp add: if_distrib [of cl_key] if_distrib [of key_space])
qed

lemma cl_wf_cb: "cl_wf S_cb (classify_cb b)"
  unfolding classify_cb_def Let_def by (simp add: push_if) (simp add: eval_ops_wf)

lemma nth_cases_8: "y < 8 \<Longrightarrow> P 0 \<Longrightarrow> P 1 \<Longrightarrow> P 2 \<Longrightarrow> P 3 \<Longrightarrow> P 4 \<Longrightarrow> P 5 \<Longrightarrow> P 6 \<Longrightarrow> P (7 :: nat) \<Longrightarrow> P y"
proof -
  assume "y < 8" and P: "P 0" "P 1" "P 2" "P 3" "P 4" "P 5" "P 6" "P 7"
  then have "y = 0 \<or> y = 1 \<or> y = 2 \<or> y = 3 \<or> y = 4 \<or> y = 5 \<or> y = 6 \<or> y = 7" by linarith
  then show "P y" using P by (elim disjE) simp_all
qed

lemma im_mode: "y < 8 \<Longrightarrow> ed_im_mode y \<in> {O_im0, O_im1, O_im2}"
  unfolding ed_im_mode_def by (erule nth_cases_8) simp_all

lemma im_wf [simp]: "y < 8 \<Longrightarrow> ops_wf S_ed (ed_im_mode y) O_none"
  using im_mode [of y] by (auto simp: eval_ops_wf)

lemma cl_wf_ed: "cl_wf S_ed (classify_ed b)"
proof -
  have "cl_wf S_ed (ed_x1 y z p q)" if "y < 8" for y z p q
    using that unfolding ed_x1_def Let_def by (simp add: push_if) (simp add: eval_ops_wf)
  then show ?thesis
    unfolding classify_ed_def Let_def by (simp add: push_if byte_fields) (simp add: eval_ops_wf)
qed

lemma cl_wf_ignored: "b \<notin> {0xCB, 0xDD, 0xED, 0xFD} \<Longrightarrow> cl_wf sp (ignored b)"
  using cl_wf_base [of b] by (auto simp: cl_wf_def ignored_def classify_base_kind)

lemma cl_wf_index:
  assumes "sp = S_dd \<or> sp = S_fd"
  shows "cl_wf sp (classify_index sp b)"
proof (cases "b \<in> {0xCB, 0xDD, 0xED, 0xFD}")
  case True
  then show ?thesis
    using assms by (auto simp: classify_index_def Let_def)
next
  case False
  have "cl_wf sp (index_fields sp b)"
    using assms cl_wf_ignored [OF False, of sp] unfolding index_fields_def Let_def
    by (elim disjE) (simp_all add: push_if, simp_all add: eval_ops_wf)
  then show ?thesis
    using assms False unfolding classify_index_def Let_def
    by (elim disjE) (simp_all add: push_if, simp_all add: eval_ops_wf)
qed

lemma cl_wf_indexed_cb:
  assumes "sp = S_ddcb \<or> sp = S_fdcb"
  shows "cl_wf sp (classify_indexed_cb sp b)"
  using assms unfolding classify_indexed_cb_def Let_def
  by (elim disjE) (simp_all add: push_if, simp_all add: eval_ops_wf)

lemma classify_key_wf: "cl_wf sp (classify_key sp b)"
  using cl_wf_base cl_wf_cb cl_wf_ed cl_wf_index [of sp b] cl_wf_indexed_cb [of sp b]
  by (cases sp) (simp_all add: classify_key_def)

text \<open>The base-space form that runs after an ignored prefix is the one the base space itself has.\<close>

lemma ignored_key: "cl_kind (classify_index sp b) = BK_prefix_ignored \<Longrightarrow>
    cl_key (classify_index sp b) = cl_key (classify_base b) \<and> cl_kind (classify_base b) = BK_form"
  using classify_index_cases [of sp b] by (auto simp: ignored_def classify_base_kind split: if_splits)

lemma key_in_form_keys:
  "k \<in> set form_keys \<Longrightarrow> key_wf k"
  unfolding form_keys_set using classify_key_wf by (auto simp: cl_wf_def)

section \<open>Layout and timing\<close>

lemma timing_base_min: "4 \<le> tm_primary (timing_base m d s)"
  by (simp add: timing_base_def fixed_def cond_def)

lemma timing_ed_min: "8 \<le> tm_primary (timing_ed m d s)"
  by (simp add: timing_ed_def fixed_def)

lemma timing_index_min: "8 \<le> tm_primary (timing_index m d s)"
  by (simp add: timing_index_def fixed_def Let_def)

lemma timing_of_min: "4 * fd_m1_fetches (describe i k) \<le> tm_primary (timing_of k)"
  using timing_base_min timing_ed_min timing_index_min
  by (cases "key_space k") (simp_all add: describe_def timing_of_def Let_def fixed_def)

lemma timing_base_max: "tm_primary (timing_base m d s) \<le> 19"
  by (simp add: timing_base_def fixed_def cond_def)

lemma timing_ed_max: "tm_primary (timing_ed m d s) \<le> 20"
  by (simp add: timing_ed_def fixed_def)

lemma timing_index_max: "tm_primary (timing_index m d s) \<le> 23"
  by (simp add: timing_index_def fixed_def Let_def)

lemma timing_of_max: "tm_primary (timing_of k) \<le> 23"
  using timing_base_max [of "key_mnemonic k" "key_dst k" "key_src k"]
    timing_ed_max [of "key_mnemonic k" "key_dst k" "key_src k"] timing_index_max
  by (cases "key_space k") (simp_all add: timing_of_def Let_def fixed_def)

lemma timing_of_alternate:
  "tm_klass (timing_of k) = T_conditional \<or> tm_klass (timing_of k) = T_repeat \<Longrightarrow>
     tm_primary (timing_of k) < tm_alternate (timing_of k)"
proof -
  have "tm_klass (timing_base m d s) = T_conditional \<or> tm_klass (timing_base m d s) = T_repeat \<Longrightarrow>
     tm_primary (timing_base m d s) < tm_alternate (timing_base m d s)" for m d s
    by (auto simp: timing_base_def fixed_def cond_def split: if_splits)
  moreover have "tm_klass (timing_ed m d s) = T_conditional \<or> tm_klass (timing_ed m d s) = T_repeat \<Longrightarrow>
     tm_primary (timing_ed m d s) < tm_alternate (timing_ed m d s)" for m d s
    by (auto simp: timing_ed_def fixed_def split: if_splits)
  moreover have "tm_klass (timing_index m d s) = T_fixed" for m d s
    by (simp add: timing_index_def fixed_def Let_def)
  ultimately show "tm_klass (timing_of k) = T_conditional \<or> tm_klass (timing_of k) = T_repeat \<Longrightarrow>
     tm_primary (timing_of k) < tm_alternate (timing_of k)"
    by (cases "key_space k") (auto simp: timing_of_def Let_def fixed_def split: if_splits)
qed

lemma describe_fields:
  "fd_length (describe i k) =
     (if key_space k \<in> {S_ddcb, S_fdcb} then 4
      else fd_opcode_index (describe i k) + 1 + (if has_displacement k then 1 else 0) + immediate_bytes k)"
  "fd_opcode_index (describe i k) =
     (if key_space k \<in> {S_ddcb, S_fdcb} then 3 else if key_space k = S_base then 0 else 1)"
  "fd_m1_fetches (describe i k) = (if key_space k = S_base then 1 else 2)"
  "fd_displacement_index (describe i k) =
     (if key_space k \<in> {S_ddcb, S_fdcb} then 2
      else if has_displacement k then fd_opcode_index (describe i k) + 1 else kNoIndex)"
  "fd_immediate_index (describe i k) =
     (if key_space k \<in> {S_ddcb, S_fdcb} \<or> immediate_bytes k = 0 then kNoIndex
      else fd_opcode_index (describe i k) + 1 + (if has_displacement k then 1 else 0))"
  "fd_immediate_size (describe i k) = (if key_space k \<in> {S_ddcb, S_fdcb} then 0 else immediate_bytes k)"
  by (simp_all add: describe_def Let_def flip: has_displacement_def)

lemma describe_layout:
  assumes "key_wf k"
  shows "fd_m1_fetches (describe i k) \<le> fd_length (describe i k)" "fd_length (describe i k) \<le> 4"
    "fd_opcode_index (describe i k) < fd_length (describe i k)"
    "fd_displacement_index (describe i k) = kNoIndex \<longleftrightarrow> \<not> has_displacement k"
    "fd_immediate_index (describe i k) = kNoIndex \<longleftrightarrow> immediate_bytes k = 0"
    "fd_immediate_size (describe i k) = immediate_bytes k"
  using assms unfolding key_wf_def describe_fields
  by (cases "has_displacement k"; force simp: kNoIndex_def split: if_splits)+

section \<open>Aliases\<close>

lemma no_alias_base: "\<not> key_has_alias (cl_key (classify_base b))"
proof -
  have "\<not> key_has_alias (cl_key (base_x0 y z p q))" for y z p q
    by (simp add: base_x0_def)
  moreover have "\<not> key_has_alias (cl_key (base_x3 y z p q))" for y z p q
    by (simp add: base_x3_def default_key_def)
  ultimately show ?thesis by (simp add: classify_base_def Let_def)
qed

lemma no_alias_index: "\<not> key_has_alias (cl_key (classify_index sp b))"
proof -
  have "\<not> key_has_alias (cl_key (ignored b))" using no_alias_base by (simp add: ignored_def)
  moreover from this have "\<not> key_has_alias (cl_key (index_fields sp b))"
    by (simp add: index_fields_def Let_def)
  ultimately show ?thesis by (simp add: classify_index_def Let_def default_key_def)
qed

definition alias_targets :: "(Space \<times> Mnemonic \<times> Operand \<times> Operand) set" where
  "alias_targets =
     {(S_base, M_ld, O_nn_ind, O_hl), (S_base, M_ld, O_hl, O_nn_ind), (S_ed, M_neg, O_a, O_none),
      (S_ed, M_retn, O_none, O_none), (S_ed, M_im, O_im0, O_none), (S_ed, M_im, O_im1, O_none),
      (S_ed, M_im, O_im2, O_none), (S_ddcb, M_bit, O_bit, O_ix_d), (S_fdcb, M_bit, O_bit, O_iy_d)}"

definition target_of :: "Key \<Rightarrow> Space \<times> Mnemonic \<times> Operand \<times> Operand" where
  "target_of k = (key_alias_space k, key_mnemonic k, key_dst k, key_src k)"

lemma ed_x1_alias:
  assumes "y < 8" "key_has_alias (cl_key (ed_x1 y z p q))"
  shows "target_of (cl_key (ed_x1 y z p q)) \<in> alias_targets"
  using assms im_mode [OF assms(1)]
  by (auto simp: ed_x1_def Let_def alias_targets_def target_of_def make_key_def ed_nop_def
      split: if_splits)

lemma alias_target:
  assumes "key_has_alias (cl_key (classify_key sp b))"
  shows "target_of (cl_key (classify_key sp b)) \<in> alias_targets"
proof (cases sp)
  case S_ed
  then show ?thesis
    using assms ed_x1_alias [OF byte_fields(2)]
    by (auto simp: classify_key_def classify_ed_def Let_def ed_nop_def split: if_splits)
next
  case S_ddcb
  then show ?thesis
    using assms by (auto simp: classify_key_def classify_indexed_cb_def Let_def alias_targets_def
        target_of_def split: if_splits)
next
  case S_fdcb
  then show ?thesis
    using assms by (auto simp: classify_key_def classify_indexed_cb_def Let_def alias_targets_def
        target_of_def split: if_splits)
qed (use assms in \<open>auto simp: classify_key_def no_alias_base no_alias_index classify_cb_def Let_def\<close>)

text \<open>Each target is the classification of a concrete byte.\<close>

lemma target_bytes:
  "classify_key S_base 0x22 = mk S_base M_ld O_nn_ind O_hl"
  "classify_key S_base 0x2A = mk S_base M_ld O_hl O_nn_ind"
  "classify_key S_ed 0x44 = mk S_ed M_neg O_a O_none"
  "classify_key S_ed 0x45 = mk S_ed M_retn O_none O_none"
  "classify_key S_ed 0x46 = mk S_ed M_im O_im0 O_none"
  "classify_key S_ed 0x56 = mk S_ed M_im O_im1 O_none"
  "classify_key S_ed 0x5E = mk S_ed M_im O_im2 O_none"
  "classify_key S_ddcb 0x46 = mk S_ddcb M_bit O_bit O_ix_d"
  "classify_key S_fdcb 0x46 = mk S_fdcb M_bit O_bit O_iy_d"
  by (simp_all add: classify_key_def classify_base_def base_x0_def classify_ed_def ed_x1_def
      classify_indexed_cb_def Let_def mk_def ed_im_mode_def)

lemma target_interned:
  assumes "(sp, m, d, s) \<in> alias_targets"
  shows "make_key sp m d s True \<in> set form_keys"
proof -
  have "\<exists>b. classify_key sp b = mk sp m d s"
    using assms target_bytes unfolding alias_targets_def by blast
  then obtain b where "classify_key sp b = mk sp m d s" ..
  then show ?thesis unfolding form_keys_set
    by (intro exI [of _ sp] exI [of _ b]) (simp add: has_form_def)
qed

lemma find_alias_ok:
  assumes "c \<in> set keys" "alias_match k c" "length keys < 65536"
  shows "unat (find_alias keys k) < length keys \<and> alias_match k (keys ! unat (find_alias keys k))"
proof -
  let ?j = "length (takeWhile (\<lambda>c. \<not> alias_match k c) keys)"
  have j: "?j < length keys"
    using assms(1,2) by (metis length_takeWhile_le le_neq_implies_less takeWhile_eq_all_conv
        takeWhile_eq_take take_all_iff order_refl)
  have "alias_match k (keys ! ?j)" using nth_length_takeWhile [OF j] by simp
  then show ?thesis using j assms(3) by (simp add: find_alias_def Let_def unat_of_nat_u16)
qed

lemma alias_resolved:
  assumes "k \<in> set form_keys" "key_has_alias k"
  shows "unat (find_alias form_keys k) < length form_keys \<and>
    alias_match k (form_keys ! unat (find_alias form_keys k))"
proof -
  from assms obtain sp b where k: "k = cl_key (classify_key sp b)" unfolding form_keys_set by blast
  with assms alias_target have "target_of k \<in> alias_targets" by blast
  then have "make_key (key_alias_space k) (key_mnemonic k) (key_dst k) (key_src k) True \<in> set form_keys"
    unfolding target_of_def by (rule target_interned)
  moreover have "alias_match k (make_key (key_alias_space k) (key_mnemonic k) (key_dst k) (key_src k) True)"
    by (simp add: alias_match_def)
  ultimately show ?thesis
    using form_keys_length by (intro find_alias_ok) auto
qed

section \<open>What the table promises\<close>

lemma bc_form_less:
  "has_form (cl_kind (classify_key sp b)) \<Longrightarrow> unat (bc_form (classify_opcode_byte sp b)) < length all_forms"
  using form_descriptor_classify(1) by (simp add: length_all_forms)

lemma bc_form_nth:
  "has_form (cl_kind (classify_key sp b)) \<Longrightarrow>
     form_keys ! unat (bc_form (classify_opcode_byte sp b)) = cl_key (classify_key sp b)"
  using classify_opcode_byte_ok [of sp b] by (auto simp: entry_ok_def)

lemma form_descriptor_alias:
  assumes "has_form (cl_kind (classify_key sp b))"
  shows "fd_alias_of (form_descriptor (bc_form (classify_opcode_byte sp b))) =
    (if key_has_alias (cl_key (classify_key sp b))
     then find_alias form_keys (cl_key (classify_key sp b)) else kNoForm)"
  using assms form_descriptor_classify(1) [OF assms] bc_form_nth [OF assms]
  by (simp add: form_descriptor_nth finish_form_def Let_def describe_def)

lemma all_forms_nth: "i < length all_forms \<Longrightarrow> all_forms ! i = finish_form form_keys i"
  unfolding all_forms_def build_simps by simp

lemma all_forms_key:
  assumes "f \<in> set all_forms"
  obtains i where "i < length form_keys" "f = finish_form form_keys i" "form_keys ! i \<in> set form_keys"
  using assms unfolding all_forms_def build_simps by auto

lemma form_descriptor_alias_none:
  assumes "unat i < length form_keys" "\<not> key_has_alias (form_keys ! unat i)"
  shows "fd_alias_of (form_descriptor i) = kNoForm"
  using assms by (simp add: form_descriptor_nth finish_form_def Let_def describe_def)

text \<open>
  C11. Looking a byte up in the built table gives exactly its classification: the kind is the
  one \<^verbatim>\<open>classify_key\<close> computes; when the byte has a form, its id is in range, the descriptor
  stored at that id carries the id and, up to the alias resolved later, is the description of the
  key of the byte; otherwise the id is \<open>kNoForm\<close>.
\<close>

theorem form_table_lookup:
  "bc_kind (classify_opcode_byte sp b) = cl_kind (classify_key sp b) \<and>
   (if has_form (cl_kind (classify_key sp b))
    then unat (bc_form (classify_opcode_byte sp b)) < length all_forms \<and>
         all_forms ! unat (bc_form (classify_opcode_byte sp b)) =
           form_descriptor (bc_form (classify_opcode_byte sp b)) \<and>
         (form_descriptor (bc_form (classify_opcode_byte sp b)))\<lparr>fd_alias_of := kNoForm\<rparr> =
           describe (bc_form (classify_opcode_byte sp b)) (cl_key (classify_key sp b))
    else bc_form (classify_opcode_byte sp b) = kNoForm)"
proof (cases "has_form (cl_kind (classify_key sp b))")
  case True
  then show ?thesis
    using bc_form_less [OF True] bc_form_nth [OF True]
    by (simp add: form_descriptor_nth length_all_forms all_forms_nth)
next
  case False
  then show ?thesis using classify_opcode_byte_ok [of sp b] by (simp add: entry_ok_def)
qed

lemma form_id_eq_iff:
  assumes "has_form (cl_kind (classify_key sp b))" "has_form (cl_kind (classify_key sp' b'))"
  shows "bc_form (classify_opcode_byte sp b) = bc_form (classify_opcode_byte sp' b') \<longleftrightarrow>
         cl_key (classify_key sp b) = cl_key (classify_key sp' b')"
proof
  assume "bc_form (classify_opcode_byte sp b) = bc_form (classify_opcode_byte sp' b')"
  then show "cl_key (classify_key sp b) = cl_key (classify_key sp' b')"
    using bc_form_nth [OF assms(1)] bc_form_nth [OF assms(2)] by simp
next
  assume "cl_key (classify_key sp b) = cl_key (classify_key sp' b')"
  then have "form_keys ! unat (bc_form (classify_opcode_byte sp b)) =
             form_keys ! unat (bc_form (classify_opcode_byte sp' b'))"
    using bc_form_nth [OF assms(1)] bc_form_nth [OF assms(2)] by simp
  then show "bc_form (classify_opcode_byte sp b) = bc_form (classify_opcode_byte sp' b')"
    using form_descriptor_classify(1) [OF assms(1)] form_descriptor_classify(1) [OF assms(2)]
      form_keys_distinct by (simp add: nth_eq_iff_index_eq unat_eqI)
qed

text \<open>
  C12. Form ids are identities: two bytes of any two spaces get the same id exactly when they
  have the same key (space, mnemonic, operands, documentation status and alias), so interning
  neither merges distinct forms nor duplicates one.
\<close>

theorem form_id_identity:
  assumes "has_form (cl_kind (classify_key sp b))" "has_form (cl_kind (classify_key sp' b'))"
  shows "bc_form (classify_opcode_byte sp b) = bc_form (classify_opcode_byte sp' b') \<longleftrightarrow>
         cl_key (classify_key sp b) = cl_key (classify_key sp' b')"
  using assms by (rule form_id_eq_iff)

theorem form_id_identity_witness:
  "bc_form (classify_opcode_byte S_base 0x41) = bc_form (classify_opcode_byte S_base 0x48) \<and>
   bc_form (classify_opcode_byte S_base 0x41) \<noteq> bc_form (classify_opcode_byte S_base 0x46)"
  using form_id_identity [of S_base "0x41" S_base "0x48"] form_id_identity [of S_base "0x41" S_base "0x46"]
  by (simp add: classify_key_def classify_base_def Let_def make_key_def)

text \<open>
  C13. Every alias encoding resolves: the descriptor of a byte whose key is an alias names a form
  of the table, in the space the alias points to, with the same mnemonic and operands, that is
  documented and is not itself an alias; the descriptor of any other byte names no alias.
\<close>

theorem alias_forms_resolve:
  assumes "has_form (cl_kind (classify_key sp b))"
  shows "let k = cl_key (classify_key sp b);
             f = form_descriptor (bc_form (classify_opcode_byte sp b));
             t = form_descriptor (fd_alias_of f) in
         if key_has_alias k
         then unat (fd_alias_of f) < length all_forms \<and> fd_id t = fd_alias_of f \<and>
              fd_space t = key_alias_space k \<and> fd_mnemonic t = fd_mnemonic f \<and>
              fd_dst t = fd_dst f \<and> fd_src t = fd_src f \<and> fd_documented t \<and> fd_alias_of t = kNoForm
         else fd_alias_of f = kNoForm"
proof (cases "key_has_alias (cl_key (classify_key sp b))")
  case True
  let ?k = "cl_key (classify_key sp b)"
  let ?t = "find_alias form_keys ?k"
  have "?k \<in> set form_keys"
    using bc_form_nth [OF assms] form_descriptor_classify(1) [OF assms] nth_mem by metis
  from alias_resolved [OF this True] have t: "unat ?t < length form_keys"
    and m: "alias_match ?k (form_keys ! unat ?t)" by auto
  have "fd_alias_of (form_descriptor ?t) = kNoForm"
    using t m by (intro form_descriptor_alias_none) (auto simp: alias_match_def)
  then show ?thesis
    using True t m form_descriptor_alias [OF assms] form_descriptor_classify(1) [OF assms]
      bc_form_nth [OF assms]
    by (simp add: Let_def length_all_forms form_descriptor_nth alias_match_def)
next
  case False
  then show ?thesis using form_descriptor_alias [OF assms] by (simp add: Let_def)
qed

theorem alias_forms_resolve_witness:
  "fd_mnemonic (form_descriptor (fd_alias_of (form_descriptor (bc_form (classify_opcode_byte S_ed 0x4C))))) =
   fd_mnemonic (form_descriptor (bc_form (classify_opcode_byte S_ed 0x4C)))"
proof -
  have "key_has_alias (cl_key (classify_key S_ed 0x4C))" "has_form (cl_kind (classify_key S_ed 0x4C))"
    by (simp_all add: classify_key_def classify_ed_def ed_x1_def Let_def)
  then show ?thesis using alias_forms_resolve [of S_ed "0x4C"] by (simp add: Let_def)
qed

definition layout_ok :: "FormDescriptor \<Rightarrow> bool" where
  "layout_ok f \<longleftrightarrow>
     fd_length f \<le> 4 \<and> fd_immediate_size f \<le> 2 \<and>
     fd_opcode_index f < fd_length f \<and> 1 \<le> fd_m1_fetches f \<and> fd_m1_fetches f \<le> 2 \<and>
     (fd_displacement_index f = kNoIndex \<or>
        fd_displacement_index f < fd_length f \<and> fd_displacement_index f \<noteq> fd_opcode_index f) \<and>
     (if fd_immediate_index f = kNoIndex then fd_immediate_size f = 0
      else 1 \<le> fd_immediate_size f \<and> fd_opcode_index f < fd_immediate_index f \<and>
           fd_immediate_index f + fd_immediate_size f = fd_length f \<and>
           (fd_displacement_index f = kNoIndex \<or> fd_displacement_index f < fd_immediate_index f)) \<and>
     fd_length f = (if fd_space f = S_ddcb \<or> fd_space f = S_fdcb then 4
       else fd_opcode_index f + 1 + (if fd_displacement_index f = kNoIndex then 0 else 1) +
            fd_immediate_size f)"

definition timing_ok :: "FormDescriptor \<Rightarrow> bool" where
  "timing_ok f \<longleftrightarrow>
     4 * fd_m1_fetches f \<le> tm_primary (fd_timing f) \<and> tm_primary (fd_timing f) \<le> 23 \<and>
     (if tm_klass (fd_timing f) = T_conditional \<or> tm_klass (fd_timing f) = T_repeat
      then tm_primary (fd_timing f) < tm_alternate (fd_timing f) else True)"

lemma fd_space_describe: "fd_space (describe i k) = key_space k"
  by (simp add: describe_def Let_def)

lemma layout_ok_describe: "key_wf k \<Longrightarrow> layout_ok (describe i k)"
  unfolding key_wf_def layout_ok_def describe_fields
  by (cases "has_displacement k"; cases "immediate_bytes k = 0")
    (auto simp: kNoIndex_def describe_def Let_def)


end
