(* ===== verification/Z80_Decode.thy ===== *)
theory Z80_Decode
  imports Z80_Forms
begin

text \<open>
  The Z80 decoder of \<^verbatim>\<open>libs/cpu/z80/src/decode.cpp\<close>: the classification of one start by a
  scan of its DD/FD prefixes (\<open>decode_at\<close>), the linear-time classification of all 65,536 starts
  over precomputed prefix-run ends (\<open>classify_all\<close>), and the accessors of a decoded
  instruction. The caller's \<^verbatim>\<open>LogicalFetch\<close> is a function from 16-bit addresses; addresses
  and the 32-bit prefix counters are words, so both wrap as in the source.
\<close>

section \<open>Fetching\<close>

datatype FetchKind = FK_byte | FK_unresolved_mapping | FK_non_code

record FetchedByte =
  fb_kind :: FetchKind
  fb_value :: u8
  fb_image_id :: u32
  fb_image_offset :: u32

definition default_byte :: FetchedByte where
  "default_byte = \<lparr>fb_kind = FK_non_code, fb_value = 0, fb_image_id = 0, fb_image_offset = 0\<rparr>"

type_synonym LogicalFetch = "u16 \<Rightarrow> FetchedByte"

definition kAddressSpace :: nat where "kAddressSpace = 65536"

text \<open>A dense mapping: the vector of a \<^verbatim>\<open>TableFetch\<close>.\<close>

type_synonym TableFetch = "FetchedByte list"

definition table_new :: TableFetch where
  "table_new = replicate kAddressSpace default_byte"

definition table_fetch :: "TableFetch \<Rightarrow> LogicalFetch" where
  "table_fetch t address = t ! unat address"

definition table_set :: "TableFetch \<Rightarrow> u16 \<Rightarrow> FetchedByte \<Rightarrow> TableFetch" where
  "table_set t address byte = t[unat address := byte]"

definition table_invariant :: "u32 \<Rightarrow> u8 \<Rightarrow> TableFetch" where
  "table_invariant image_id fill =
     map (\<lambda>a. \<lparr>fb_kind = FK_byte, fb_value = fill, fb_image_id = image_id, fb_image_offset = of_nat a\<rparr>)
       [0..<kAddressSpace]"

section \<open>Results\<close>

datatype EffectivePrefix = EP_none | EP_dd | EP_fd

record Provenance =
  pv_image_id :: u32
  pv_address :: u16
  pv_image_offset :: u32
  pv_logical_byte_count :: u32
  pv_prefix_count :: u32
  pv_effective_prefix :: EffectivePrefix
  pv_form :: FormId
  pv_opcode :: u8
  pv_operands :: "u8 list"
  pv_operand_count :: nat

definition default_provenance :: Provenance where
  "default_provenance =
     \<lparr>pv_image_id = 0, pv_address = 0, pv_image_offset = 0, pv_logical_byte_count = 0,
      pv_prefix_count = 0, pv_effective_prefix = EP_none, pv_form = kNoForm, pv_opcode = 0,
      pv_operands = [0, 0, 0], pv_operand_count = 0\<rparr>"

record DecodedInstruction =
  di_provenance :: Provenance
  di_form :: FormId
  di_extra_prefix_count :: u32

definition default_instruction :: DecodedInstruction where
  "default_instruction =
     \<lparr>di_provenance = default_provenance, di_form = kNoForm, di_extra_prefix_count = 0\<rparr>"

datatype StartKind =
  SK_decoded | SK_prefix_lock | SK_unresolved_fetch_mapping | SK_mutable_code | SK_excluded_form

record StartClassification =
  sc_kind :: StartKind
  sc_instruction :: DecodedInstruction
  sc_blocking_address :: u16

definition default_start :: StartClassification where
  "default_start =
     \<lparr>sc_kind = SK_excluded_form, sc_instruction = default_instruction, sc_blocking_address = 0\<rparr>"

definition prefix_lock :: StartClassification where
  "prefix_lock = default_start\<lparr>sc_kind := SK_prefix_lock\<rparr>"

section \<open>Decoding one start\<close>

definition kDd :: u8 where "kDd = 0xDD"
definition kFd :: u8 where "kFd = 0xFD"

definition is_prefix :: "FetchedByte \<Rightarrow> bool" where
  "is_prefix b \<longleftrightarrow> fb_kind b = FK_byte \<and> (fb_value b = kDd \<or> fb_value b = kFd)"

definition effective_of :: "FetchedByte \<Rightarrow> EffectivePrefix" where
  "effective_of b = (if fb_value b = kDd then EP_dd else EP_fd)"

definition blocked :: "FetchedByte \<Rightarrow> u16 \<Rightarrow> StartClassification" where
  "blocked b address =
     default_start\<lparr>sc_kind := (if fb_kind b = FK_unresolved_mapping then SK_unresolved_fetch_mapping
                               else SK_mutable_code),
                   sc_blocking_address := address\<rparr>"

definition lead_space :: "EffectivePrefix \<Rightarrow> Space" where
  "lead_space effective =
     (if effective = EP_dd then S_dd else if effective = EP_fd then S_fd else S_base)"

text \<open>What the opcode selects: the form, the bytes consumed, the extra prefixes, the opcode byte.\<close>

record Selected =
  sel_form :: FormId
  sel_consumed :: nat
  sel_extra :: u32
  sel_opcode :: u8

definition select_form ::
  "LogicalFetch \<Rightarrow> u32 \<Rightarrow> EffectivePrefix \<Rightarrow> u16 \<Rightarrow> FetchedByte \<Rightarrow> StartClassification + Selected" where
  "select_form get prefix_count effective op_addr op =
    (let lead_class = classify_opcode_byte (lead_space effective) (fb_value op) in
     case bc_kind lead_class of
       BK_form \<Rightarrow>
         Inr \<lparr>sel_form = bc_form lead_class, sel_consumed = 1,
              sel_extra = (if effective = EP_none then 0 else prefix_count - 1),
              sel_opcode = fb_value op\<rparr>
     | BK_prefix_ignored \<Rightarrow>
         Inr \<lparr>sel_form = bc_form lead_class, sel_consumed = 1, sel_extra = prefix_count,
              sel_opcode = fb_value op\<rparr>
     | k \<Rightarrow>
         (if k \<in> {BK_escape_cb, BK_escape_ed, BK_prefix_ignored_before_ed} then
            (let second = get (op_addr + 1) in
             if fb_kind second \<noteq> FK_byte then Inl (blocked second (op_addr + 1))
             else Inr \<lparr>sel_form = bc_form (classify_opcode_byte
                                     (if k = BK_escape_cb then S_cb else S_ed) (fb_value second)),
                       sel_consumed = 2, sel_extra = prefix_count, sel_opcode = fb_value second\<rparr>)
          else if k \<in> {BK_escape_ddcb, BK_escape_fdcb} then
            (let d = get (op_addr + 1); last = get (op_addr + 2) in
             if fb_kind d \<noteq> FK_byte then Inl (blocked d (op_addr + 1))
             else if fb_kind last \<noteq> FK_byte then Inl (blocked last (op_addr + 2))
             else Inr \<lparr>sel_form = bc_form (classify_opcode_byte
                                     (if k = BK_escape_ddcb then S_ddcb else S_fdcb) (fb_value last)),
                       sel_consumed = 3, sel_extra = prefix_count - 1, sel_opcode = fb_value last\<rparr>)
          else Inl default_start))"

text \<open>The displacement and immediate bytes after the opcode, one fetch each.\<close>

fun read_operands ::
  "LogicalFetch \<Rightarrow> u16 \<Rightarrow> nat \<Rightarrow> nat \<Rightarrow> u8 list \<Rightarrow> StartClassification + u8 list" where
  "read_operands get base i 0 ops = Inr ops"
| "read_operands get base i (Suc n) ops =
    (let address = base + of_nat i; b = get address in
     if fb_kind b \<noteq> FK_byte then Inl (blocked b address)
     else read_operands get base (i + 1) n (ops[i := fb_value b]))"

definition decoded_result ::
  "u16 \<Rightarrow> FetchedByte \<Rightarrow> u32 \<Rightarrow> EffectivePrefix \<Rightarrow> Selected \<Rightarrow> u8 list \<Rightarrow> nat \<Rightarrow> nat \<Rightarrow> StartClassification" where
  "decoded_result start first prefix_count effective sel ops operand_count consumed =
     \<lparr>sc_kind = SK_decoded,
      sc_instruction =
        \<lparr>di_provenance =
           \<lparr>pv_image_id = fb_image_id first, pv_address = start,
            pv_image_offset = fb_image_offset first,
            pv_logical_byte_count = prefix_count + of_nat consumed,
            pv_prefix_count = prefix_count, pv_effective_prefix = effective,
            pv_form = sel_form sel, pv_opcode = sel_opcode sel, pv_operands = ops,
            pv_operand_count = operand_count\<rparr>,
         di_form = sel_form sel, di_extra_prefix_count = sel_extra sel\<rparr>,
      sc_blocking_address = 0\<rparr>"

definition finish ::
  "LogicalFetch \<Rightarrow> u16 \<Rightarrow> FetchedByte \<Rightarrow> u32 \<Rightarrow> EffectivePrefix \<Rightarrow> u16 \<Rightarrow> StartClassification" where
  "finish get start first prefix_count effective op_addr =
    (let op = get op_addr in
     if fb_kind op \<noteq> FK_byte then blocked op op_addr
     else case select_form get prefix_count effective op_addr op of
       Inl c \<Rightarrow> c
     | Inr sel \<Rightarrow>
        (let desc = form_descriptor (sel_form sel) in
         if fd_space desc = S_ddcb \<or> fd_space desc = S_fdcb then
           decoded_result start first prefix_count effective sel
             ([0, 0, 0][0 := fb_value (get (op_addr + 1))]) 1 (sel_consumed sel)
         else
           (let operand_total = fd_length desc - fd_opcode_index desc - 1 in
            case read_operands get (op_addr + of_nat (sel_consumed sel)) 0 operand_total [0, 0, 0] of
              Inl c \<Rightarrow> c
            | Inr ops \<Rightarrow>
                decoded_result start first prefix_count effective sel ops operand_total
                  (sel_consumed sel + operand_total))))"

lemma scan_measure:
  assumes "c + 1 \<noteq> (0x10000 :: u32)" shows "unat (0xFFFF - (c + 1)) < unat (0xFFFF - c)"
proof -
  have "c \<noteq> 0xFFFF" using assms by auto
  then have "0xFFFF - c \<noteq> 0" by simp
  then have "unat (0xFFFF - c - 1) < unat (0xFFFF - c)"
    using unat_minus_one [of "0xFFFF - c"] unat_gt_0 [of "0xFFFF - c"] by linarith
  then show ?thesis by (simp add: algebra_simps)
qed

text \<open>The prefix scan: \<open>None\<close> when the run covers the whole address space.\<close>

function scan_prefixes ::
  "LogicalFetch \<Rightarrow> u16 \<Rightarrow> u32 \<Rightarrow> EffectivePrefix \<Rightarrow> (u32 \<times> EffectivePrefix \<times> u16) option" where
  "scan_prefixes get cursor prefix_count effective =
    (let byte = get cursor in
     if is_prefix byte then
       (if prefix_count + 1 = of_nat kAddressSpace then None
        else scan_prefixes get (cursor + 1) (prefix_count + 1) (effective_of byte))
     else Some (prefix_count, effective, cursor))"
  by pat_completeness auto

termination
proof (relation "measure (\<lambda>(get, cursor, c, e). unat (0xFFFF - c))")
  show "wf (measure (\<lambda>(get :: LogicalFetch, cursor :: u16, c :: u32, e :: EffectivePrefix). unat (0xFFFF - c)))"
    by simp
next
  fix get :: LogicalFetch and cursor :: u16 and c :: u32 and e :: EffectivePrefix and byte
  assume "c + 1 \<noteq> of_nat kAddressSpace"
  then have "c + 1 \<noteq> 0x10000" by (simp add: kAddressSpace_def)
  then show "((get, cursor + 1, c + 1, effective_of byte), (get, cursor, c, e)) \<in>
      measure (\<lambda>(get, cursor, c, e). unat (0xFFFF - c))"
    using scan_measure by simp
qed

declare scan_prefixes.simps [simp del]

definition decode_at :: "LogicalFetch \<Rightarrow> u16 \<Rightarrow> StartClassification" where
  "decode_at fetch address =
    (case scan_prefixes fetch address 0 EP_none of
       None \<Rightarrow> prefix_lock
     | Some (prefix_count, effective, cursor) \<Rightarrow>
         finish fetch address (fetch address) prefix_count effective cursor)"

section \<open>Decoding every start\<close>

definition snapshot :: "LogicalFetch \<Rightarrow> FetchedByte list" where
  "snapshot fetch = map (\<lambda>a. fetch (of_nat a)) [0..<kAddressSpace]"

text \<open>The first address that is not a prefix, or \<open>kAddressSpace\<close>.\<close>

definition find_anchor :: "FetchedByte list \<Rightarrow> nat" where
  "find_anchor table = length (takeWhile is_prefix table)"

definition end_step :: "FetchedByte list \<Rightarrow> nat \<Rightarrow> nat \<Rightarrow> nat list \<Rightarrow> nat list" where
  "end_step table anchor step e =
    (let a = (anchor + kAddressSpace - step) mod kAddressSpace
     in e[a := (if is_prefix (table ! a) then e ! ((a + 1) mod kAddressSpace) else a)])"

definition run_ends :: "FetchedByte list \<Rightarrow> nat \<Rightarrow> nat list" where
  "run_ends table anchor =
    fold (end_step table anchor) [1..<kAddressSpace]
      ((replicate kAddressSpace 0)[anchor := anchor])"

definition classify_from :: "FetchedByte list \<Rightarrow> nat list \<Rightarrow> nat \<Rightarrow> StartClassification" where
  "classify_from table ends a =
    (let e = ends ! a;
         k = (e + kAddressSpace - a) mod kAddressSpace;
         effective = (if k > 0
           then effective_of (table ! ((e + kAddressSpace - 1) mod kAddressSpace)) else EP_none)
     in finish (table_fetch table) (of_nat a) (table ! a) (of_nat k) effective (of_nat e))"

definition classify_all :: "LogicalFetch \<Rightarrow> StartClassification list" where
  "classify_all fetch =
    (let table = snapshot fetch; anchor = find_anchor table
     in if anchor = kAddressSpace then replicate kAddressSpace prefix_lock
        else map (classify_from table (run_ends table anchor)) [0..<kAddressSpace])"

section \<open>Reading a decoded instruction\<close>

fun replay_from :: "LogicalFetch \<Rightarrow> u16 \<Rightarrow> nat \<Rightarrow> u8 list option" where
  "replay_from fetch address 0 = Some []"
| "replay_from fetch address (Suc n) =
    (let b = fetch address in
     if fb_kind b \<noteq> FK_byte then None
     else map_option ((#) (fb_value b)) (replay_from fetch (address + 1) n))"

definition replay_bytes :: "LogicalFetch \<Rightarrow> Provenance \<Rightarrow> u8 list option" where
  "replay_bytes fetch p = replay_from fetch (pv_address p) (unat (pv_logical_byte_count p))"

definition logical_length :: "DecodedInstruction \<Rightarrow> u32" where
  "logical_length i = di_extra_prefix_count i + of_nat (fd_length (form_descriptor (di_form i)))"

definition displacement :: "DecodedInstruction \<Rightarrow> int option" where
  "displacement i =
    (if fd_displacement_index (form_descriptor (di_form i)) = kNoIndex then None
     else Some (sint (pv_operands (di_provenance i) ! 0)))"

definition immediate :: "DecodedInstruction \<Rightarrow> u16 option" where
  "immediate i =
    (let f = form_descriptor (di_form i);
         ops = pv_operands (di_provenance i);
         base = (if fd_displacement_index f = kNoIndex then 0 else 1)
     in if fd_immediate_index f = kNoIndex then None
        else if fd_immediate_size f = 2
          then Some (ucast (ops ! base) OR push_bit 8 (ucast (ops ! (base + 1))))
          else Some (ucast (ops ! base)))"

datatype TimingOutcome = TO_primary | TO_alternate

definition t_states :: "DecodedInstruction \<Rightarrow> TimingOutcome \<Rightarrow> nat" where
  "t_states i outcome =
    (let t = fd_timing (form_descriptor (di_form i)); extra = 4 * unat (di_extra_prefix_count i)
     in if outcome = TO_primary \<or> tm_klass t = T_fixed then tm_primary t + extra
        else if tm_klass t = T_halt then tm_alternate t else tm_alternate t + extra)"

definition m1_fetches :: "DecodedInstruction \<Rightarrow> u32" where
  "m1_fetches i = di_extra_prefix_count i + of_nat (fd_m1_fetches (form_descriptor (di_form i)))"

section \<open>Prefix runs\<close>

definition no_lock :: "LogicalFetch \<Rightarrow> bool" where
  "no_lock get \<longleftrightarrow> (\<exists>x. \<not> is_prefix (get x))"

text \<open>The length of the DD/FD run at an address (of a mapping that is not one single run).\<close>

definition run_length :: "LogicalFetch \<Rightarrow> u16 \<Rightarrow> nat" where
  "run_length get a = (LEAST k. \<not> is_prefix (get (a + of_nat k)))"

definition run_end :: "LogicalFetch \<Rightarrow> u16 \<Rightarrow> u16" where
  "run_end get a = a + of_nat (run_length get a)"

definition run_prefix :: "LogicalFetch \<Rightarrow> u16 \<Rightarrow> EffectivePrefix" where
  "run_prefix get a =
     (if run_length get a = 0 then EP_none else effective_of (get (run_end get a - 1)))"

lemma of_nat_unat_u16 [simp]: "(of_nat (unat (a :: u16)) :: u16) = a"
  by simp

lemma run_length_prop:
  assumes "no_lock get"
  shows "\<not> is_prefix (get (a + of_nat (run_length get a)))" "run_length get a < 65536"
    "i < run_length get a \<Longrightarrow> is_prefix (get (a + of_nat i))"
proof -
  from assms obtain x where "\<not> is_prefix (get x)" by (auto simp: no_lock_def)
  then have x: "\<not> is_prefix (get (a + of_nat (unat (x - a))))" by simp
  show "\<not> is_prefix (get (a + of_nat (run_length get a)))"
    unfolding run_length_def by (rule LeastI [of "\<lambda>k. \<not> is_prefix (get (a + of_nat k))", OF x])
  have "run_length get a \<le> unat (x - a)" unfolding run_length_def
    by (rule Least_le [of "\<lambda>k. \<not> is_prefix (get (a + of_nat k))", OF x])
  then show "run_length get a < 65536" using unat_u16_less [of "x - a"] by linarith
  show "i < run_length get a \<Longrightarrow> is_prefix (get (a + of_nat i))"
    unfolding run_length_def using not_less_Least by blast
qed

lemma run_length_eqI:
  assumes "\<forall>i < n. is_prefix (get (a + of_nat i))" "\<not> is_prefix (get (a + of_nat n))"
  shows "run_length get a = n"
  unfolding run_length_def
proof (rule Least_equality)
  show "\<not> is_prefix (get (a + of_nat n))" by (rule assms(2))
  show "n \<le> m" if "\<not> is_prefix (get (a + of_nat m))" for m
    using assms(1) that by (meson not_le)
qed

lemma run_length_step:
  assumes "no_lock get" "is_prefix (get a)"
  shows "run_length get a = Suc (run_length get (a + 1))"
proof (rule run_length_eqI)
  show "\<forall>i < Suc (run_length get (a + 1)). is_prefix (get (a + of_nat i))"
  proof (intro allI impI)
    fix i assume i: "i < Suc (run_length get (a + 1))"
    show "is_prefix (get (a + of_nat i))"
    proof (cases i)
      case 0 then show ?thesis using assms(2) by simp
    next
      case (Suc j)
      then have "is_prefix (get (a + 1 + of_nat j))"
        using run_length_prop(3) [OF assms(1), of j "a + 1"] i by simp
      then show ?thesis using Suc by (simp add: add.assoc)
    qed
  qed
  show "\<not> is_prefix (get (a + of_nat (Suc (run_length get (a + 1)))))"
    using run_length_prop(1) [OF assms(1), of "a + 1"] by (simp add: add.assoc)
qed

lemma run_length_0: "\<not> is_prefix (get a) \<Longrightarrow> run_length get a = 0"
  by (rule run_length_eqI) auto

lemma run_end_step:
  assumes "no_lock get"
  shows "run_end get a = (if is_prefix (get a) then run_end get (a + 1) else a)"
  using assms by (auto simp: run_end_def run_length_step run_length_0 add.assoc)

section \<open>The scan\<close>

lemma of_nat_u32_eq_iff: "m < 4294967296 \<Longrightarrow> n < 4294967296 \<Longrightarrow> (of_nat m :: u32) = of_nat n \<longleftrightarrow> m = n"
  by (metis unat_of_nat_u32)

lemma scan_found:
  assumes "\<forall>i < n. is_prefix (get (cur + of_nat i))" "\<not> is_prefix (get (cur + of_nat n))" "c + n < 65536"
  shows "scan_prefixes get cur (of_nat c) eff =
    Some (of_nat (c + n), if n = 0 then eff else effective_of (get (cur + of_nat n - 1)), cur + of_nat n)"
  using assms
proof (induction n arbitrary: cur c eff)
  case 0
  then show ?case by (simp add: scan_prefixes.simps)
next
  case (Suc n)
  have p: "is_prefix (get cur)" using Suc.prems(1) by auto
  have ne: "(of_nat c + 1 :: u32) \<noteq> of_nat kAddressSpace"
    using Suc.prems(3) of_nat_u32_eq_iff [of "c + 1" kAddressSpace] by (simp add: kAddressSpace_def)
  have s: "(of_nat c + 1 :: u32) = of_nat (Suc c)" by simp
  have 1: "\<forall>i < n. is_prefix (get (cur + 1 + of_nat i))"
    using Suc.prems(1) by (auto simp: add.assoc dest: spec [where x = "Suc _"])
  have 2: "\<not> is_prefix (get (cur + 1 + of_nat n))" using Suc.prems(2) by (simp add: add.assoc)
  have "scan_prefixes get cur (of_nat c) eff =
      scan_prefixes get (cur + 1) (of_nat (Suc c)) (effective_of (get cur))"
    using p ne by (subst scan_prefixes.simps) (simp add: Let_def add.commute)
  also have "\<dots> = Some (of_nat (Suc c + n), if n = 0 then effective_of (get cur)
      else effective_of (get (cur + 1 + of_nat n - 1)), cur + 1 + of_nat n)"
    using Suc.prems(3) by (intro Suc.IH 1 2) simp
  also have "\<dots> = Some (of_nat (c + Suc n), if Suc n = 0 then eff
      else effective_of (get (cur + of_nat (Suc n) - 1)), cur + of_nat (Suc n))"
    by (cases "n = 0") (simp_all add: add.assoc add.commute)
  finally show ?case .
qed

lemma scan_lock:
  assumes "\<forall>x. is_prefix (get x)" "c + Suc n = 65536"
  shows "scan_prefixes get cur (of_nat c) eff = None"
  using assms
proof (induction n arbitrary: cur c eff)
  case 0
  then have "(of_nat c + 1 :: u32) = of_nat kAddressSpace" by (simp add: kAddressSpace_def)
  then show ?case using 0 by (subst scan_prefixes.simps) (simp add: Let_def)
next
  case (Suc n)
  have ne: "(of_nat c + 1 :: u32) \<noteq> of_nat kAddressSpace"
    using Suc.prems(2) of_nat_u32_eq_iff [of "c + 1" kAddressSpace] by (simp add: kAddressSpace_def)
  have "scan_prefixes get (cur + 1) (of_nat (Suc c)) (effective_of (get cur)) = None"
    using Suc.prems by (intro Suc.IH) auto
  then show ?case using ne Suc.prems(1) by (subst scan_prefixes.simps) (simp add: Let_def add.commute)
qed

lemma decode_at_unfold:
  "decode_at get a =
    (if no_lock get
     then finish get a (get a) (of_nat (run_length get a)) (run_prefix get a) (run_end get a)
     else prefix_lock)"
proof (cases "no_lock get")
  case True
  have "scan_prefixes get a (of_nat 0) EP_none =
    Some (of_nat (0 + run_length get a), if run_length get a = 0 then EP_none
      else effective_of (get (a + of_nat (run_length get a) - 1)), a + of_nat (run_length get a))"
    using run_length_prop [OF True] by (intro scan_found) auto
  then show ?thesis using True by (simp add: decode_at_def run_prefix_def run_end_def)
next
  case False
  have "scan_prefixes get a (of_nat 0) EP_none = None"
    by (rule scan_lock [of _ _ 65535]) (use False in \<open>auto simp: no_lock_def\<close>)
  then show ?thesis using False by (simp add: decode_at_def)
qed

section \<open>The linear-time classification\<close>

lemma length_snapshot [simp]: "length (snapshot get) = kAddressSpace"
  by (simp add: snapshot_def)

lemma nth_snapshot: "n < kAddressSpace \<Longrightarrow> snapshot get ! n = get (of_nat n)"
  by (simp add: snapshot_def)

lemma nth_snapshot_unat [simp]: "snapshot get ! unat a = get a"
  using unat_u16_less [of a] by (simp add: nth_snapshot kAddressSpace_def)

lemma table_fetch_snapshot [simp]: "table_fetch (snapshot get) = get"
  by (rule ext) (simp add: table_fetch_def)

lemma find_anchor_cases:
  "if no_lock get then find_anchor (snapshot get) < kAddressSpace \<and>
       \<not> is_prefix (get (of_nat (find_anchor (snapshot get))))
   else find_anchor (snapshot get) = kAddressSpace"
proof (cases "no_lock get")
  case True
  then obtain x where x: "\<not> is_prefix (get x)" by (auto simp: no_lock_def)
  let ?n = "length (takeWhile is_prefix (snapshot get))"
  have "unat x < length (snapshot get)" using unat_u16_less [of x] by (simp add: kAddressSpace_def)
  then have "snapshot get ! unat x \<in> set (snapshot get)" by (rule nth_mem)
  then have "takeWhile is_prefix (snapshot get) \<noteq> snapshot get"
    using x by (auto simp: takeWhile_eq_all_conv)
  then have "?n < length (snapshot get)"
    by (metis length_takeWhile_le le_neq_implies_less takeWhile_eq_take take_all_iff order_refl)
  moreover from this have "\<not> is_prefix (snapshot get ! ?n)" by (rule nth_length_takeWhile)
  ultimately show ?thesis using True by (simp add: find_anchor_def nth_snapshot)
next
  case False
  then have "\<forall>b \<in> set (snapshot get). is_prefix b" by (auto simp: no_lock_def snapshot_def)
  then have "takeWhile is_prefix (snapshot get) = snapshot get"
    by (simp only: takeWhile_eq_all_conv)
  then have "find_anchor (snapshot get) = kAddressSpace"
    by (simp only: find_anchor_def length_snapshot)
  then show ?thesis using False by simp
qed

text \<open>Circular index arithmetic is subtraction of 16-bit words.\<close>

lemma circular_index: "(unat (x :: u16) + kAddressSpace - unat y) mod kAddressSpace = unat (x - y)"
  using unat_u16_less [of x] unat_u16_less [of y]
  by (auto simp: unat_sub_if' kAddressSpace_def word_size mod_if)

lemma circular_succ: "(unat (x :: u16) + 1) mod kAddressSpace = unat (x + 1)"
  by (simp add: kAddressSpace_def unat_word_ariths)

lemma run_ends_upto:
  assumes "no_lock get" "\<not> is_prefix (get p)" "1 \<le> m" "m \<le> kAddressSpace"
  defines "e \<equiv> \<lambda>m. fold (end_step (snapshot get) (unat p)) [1..<m]
      ((replicate kAddressSpace 0)[unat p := unat p])"
  shows "length (e m) = kAddressSpace \<and> (\<forall>j < m. e m ! unat (p - of_nat j) = unat (run_end get (p - of_nat j)))"
  using assms(3,4)
proof (induction m rule: dec_induct)
  case base
  have "unat p < kAddressSpace" using unat_u16_less by (simp add: kAddressSpace_def)
  then show ?case using run_end_step [OF assms(1), of p] assms(2) by (simp add: e_def)
next
  case (step m)
  let ?a = "p - of_nat m"
  have m: "m < kAddressSpace" using step.prems by simp
  then have um: "unat (of_nat m :: u16) = m" by (simp add: kAddressSpace_def unat_of_nat_u16)
  have idx: "(unat p + kAddressSpace - m) mod kAddressSpace = unat ?a"
    using circular_index [of p "of_nat m"] um by simp
  have IH: "length (e m) = kAddressSpace"
    "\<And>j. j < m \<Longrightarrow> e m ! unat (p - of_nat j) = unat (run_end get (p - of_nat j))"
    using step.IH m by auto
  have "[1..<Suc m] = [1..<m] @ [m]" using step.hyps by simp
  then have em: "e (Suc m) = (e m)[unat ?a := (if is_prefix (get ?a) then e m ! unat (?a + 1) else unat ?a)]"
    unfolding e_def by (simp only: fold_append fold.simps comp_apply id_apply end_step_def Let_def idx
        circular_succ nth_snapshot_unat)
  have a1: "?a + 1 = p - of_nat (m - 1)" using step.hyps by (simp add: of_nat_diff)
  have prev: "e m ! unat (?a + 1) = unat (run_end get (?a + 1))"
    unfolding a1 by (rule IH(2)) (use step.hyps in simp)
  have "unat ?a < kAddressSpace" using unat_u16_less by (simp add: kAddressSpace_def)
  then have here: "e (Suc m) ! unat ?a = unat (run_end get ?a)"
    using IH(1) prev run_end_step [OF assms(1), of ?a] by (simp add: em)
  have "e (Suc m) ! unat (p - of_nat j) = unat (run_end get (p - of_nat j))" if "j < m" for j
  proof -
    have "of_nat j \<noteq> (of_nat m :: u16)"
      using that m um unat_of_nat_u16 [of j] by (auto simp: kAddressSpace_def)
    then have "unat (p - of_nat j) \<noteq> unat ?a" by (auto dest: unat_eqI)
    then show ?thesis using IH(2) [OF that] by (simp add: em)
  qed
  then show ?case using here IH(1) by (auto simp: em less_Suc_eq)
qed

lemma run_ends_nth:
  assumes "no_lock get"
  shows "run_ends (snapshot get) (find_anchor (snapshot get)) ! unat a = unat (run_end get a)"
proof -
  let ?p = "of_nat (find_anchor (snapshot get)) :: u16"
  have p: "\<not> is_prefix (get ?p)" "unat ?p = find_anchor (snapshot get)"
    using find_anchor_cases [of get] assms by (simp_all add: kAddressSpace_def unat_of_nat_u16)
  have "unat (?p - a) < kAddressSpace" using unat_u16_less by (simp add: kAddressSpace_def)
  with run_ends_upto [OF assms p(1), of kAddressSpace] show ?thesis
    unfolding run_ends_def p(2) by (auto simp: kAddressSpace_def dest: spec [where x = "unat (?p - a)"])
qed

lemma classify_from_run_ends:
  assumes "no_lock get"
  shows "classify_from (snapshot get) (run_ends (snapshot get) (find_anchor (snapshot get))) (unat a) =
    finish get a (get a) (of_nat (run_length get a)) (run_prefix get a) (run_end get a)"
proof -
  have r: "run_length get a < 65536" by (rule run_length_prop [OF assms])
  have k: "(unat (run_end get a) + kAddressSpace - unat a) mod kAddressSpace = run_length get a"
    unfolding circular_index using r by (simp add: run_end_def unat_of_nat_u16)
  have one: "(unat (run_end get a) + kAddressSpace - 1) mod kAddressSpace = unat (run_end get a - 1)"
    using circular_index [of "run_end get a" 1] by simp
  show ?thesis
    unfolding classify_from_def Let_def run_ends_nth [OF assms] k one
    by (simp add: run_prefix_def)
qed

section \<open>The selected form\<close>

text \<open>The opcode after the prefix scan, with the prefix count and the last prefix that go with it.\<close>

definition scan_ok :: "nat \<Rightarrow> EffectivePrefix \<Rightarrow> FetchedByte \<Rightarrow> bool" where
  "scan_ok pc effective op \<longleftrightarrow> pc < 65536 \<and> (effective = EP_none \<longleftrightarrow> pc = 0) \<and> \<not> is_prefix op"

lemma layout_ok_finish: "layout_ok (finish_form keys i) = layout_ok (describe (of_nat i) (keys ! i))"
  unfolding layout_ok_def finish_form_simps fd_space_describe ..

lemma form_desc_layout:
  assumes "has_form (cl_kind (classify_key sp b))"
  shows "layout_ok (form_descriptor (bc_form (classify_opcode_byte sp b)))"
proof -
  let ?i = "bc_form (classify_opcode_byte sp b)"
  note k = form_descriptor_classify(1,2) [OF assms]
  have "key_wf (cl_key (classify_key sp b))" using k key_in_form_keys nth_mem by metis
  then have "layout_ok (describe ?i (cl_key (classify_key sp b)))" by (rule layout_ok_describe)
  then have "layout_ok (finish_form form_keys (unat ?i))"
    unfolding layout_ok_finish using k(2) by simp
  then show ?thesis using form_descriptor_nth [OF k(1)] by simp
qed

lemma form_desc_space:
  assumes "has_form (cl_kind (classify_key sp b))"
  shows "fd_space (form_descriptor (bc_form (classify_opcode_byte sp b))) =
      (if cl_kind (classify_key sp b) = BK_form then sp else S_base)"
    "fd_opcode_index (form_descriptor (bc_form (classify_opcode_byte sp b))) =
      (case fd_space (form_descriptor (bc_form (classify_opcode_byte sp b))) of
         S_base \<Rightarrow> 0 | S_ddcb \<Rightarrow> 3 | S_fdcb \<Rightarrow> 3 | _ \<Rightarrow> 1)"
    "fd_displacement_index (form_descriptor (bc_form (classify_opcode_byte sp b))) =
      (case fd_space (form_descriptor (bc_form (classify_opcode_byte sp b))) of
         S_ddcb \<Rightarrow> 2 | S_fdcb \<Rightarrow> 2
       | _ \<Rightarrow> if has_displacement (cl_key (classify_key sp b))
             then fd_opcode_index (form_descriptor (bc_form (classify_opcode_byte sp b))) + 1 else kNoIndex)"
    "fd_immediate_index (form_descriptor (bc_form (classify_opcode_byte sp b))) =
      (case fd_space (form_descriptor (bc_form (classify_opcode_byte sp b))) of
         S_ddcb \<Rightarrow> kNoIndex | S_fdcb \<Rightarrow> kNoIndex
       | _ \<Rightarrow> if immediate_bytes (cl_key (classify_key sp b)) = 0 then kNoIndex
             else fd_opcode_index (form_descriptor (bc_form (classify_opcode_byte sp b))) + 1 +
                  (if has_displacement (cl_key (classify_key sp b)) then 1 else 0))"
  using classify_key_wf [of sp b] assms form_descriptor_classify(1,2) [OF assms]
  by (auto simp: cl_wf_def form_descriptor_nth describe_fields split: Space.splits)

text \<open>The ids the table gives to bytes.\<close>

definition is_form_id :: "FormId \<Rightarrow> bool" where
  "is_form_id i \<longleftrightarrow> (\<exists>sp b. has_form (cl_kind (classify_key sp b)) \<and> i = bc_form (classify_opcode_byte sp b))"

lemma is_form_idI:
  "has_form (cl_kind (classify_key sp b)) \<Longrightarrow> is_form_id (bc_form (classify_opcode_byte sp b))"
  by (auto simp: is_form_id_def)

text \<open>What the selection guarantees.\<close>

definition sel_ok :: "LogicalFetch \<Rightarrow> nat \<Rightarrow> EffectivePrefix \<Rightarrow> u16 \<Rightarrow> Selected \<Rightarrow> bool" where
  "sel_ok get pc effective op_addr sel \<longleftrightarrow>
    (let desc = form_descriptor (sel_form sel) in
     is_form_id (sel_form sel) \<and>
     sel_form sel = bc_form (classify_opcode_byte (fd_space desc) (sel_opcode sel)) \<and>
     unat (sel_extra sel) + fd_opcode_index desc + 1 = pc + sel_consumed sel \<and>
     unat (sel_extra sel) \<le> pc \<and> 1 \<le> sel_consumed sel \<and> sel_consumed sel \<le> 3 \<and>
     (\<forall>i < sel_consumed sel. fb_kind (get (op_addr + of_nat i)) = FK_byte) \<and>
     sel_opcode sel = fb_value (get (op_addr + of_nat (sel_consumed sel - 1))) \<and>
     (fd_space desc = S_ddcb \<or> fd_space desc = S_fdcb \<longrightarrow> sel_consumed sel = 3) \<and>
     (fd_space desc \<in> {S_dd, S_fd, S_ddcb, S_fdcb} \<longrightarrow> effective \<noteq> EP_none))"

text \<open>A byte after an ignored prefix has the form of the base space.\<close>

lemma bc_form_ignored:
  assumes "cl_kind (classify_key sp b) = BK_prefix_ignored"
  shows "bc_form (classify_opcode_byte sp b) = bc_form (classify_opcode_byte S_base b)"
proof -
  have k: "cl_key (classify_key sp b) = cl_key (classify_key S_base b)" "cl_kind (classify_key S_base b) = BK_form"
    using assms ignored_key [of sp b]
    by (cases sp; simp add: classify_key_def classify_base_kind classify_cb_kind split: if_splits)+
  then show ?thesis using assms by (subst form_id_eq_iff) simp_all
qed

lemma unat_minus_one_u32: "0 < pc \<Longrightarrow> pc < 65536 \<Longrightarrow> unat (of_nat pc - 1 :: u32) = pc - 1"
proof -
  assume pc: "0 < pc" "pc < 65536"
  then have u: "unat (of_nat pc :: u32) = pc" by (simp add: unat_of_nat_u32)
  with pc have "(of_nat pc :: u32) \<noteq> 0" by auto
  then show ?thesis using unat_minus_one [of "of_nat pc :: u32"] u by simp
qed

lemma lead_class_cases:
  assumes "fb_kind op = FK_byte" "scan_ok pc eff op"
  defines "sp \<equiv> lead_space eff" and "b \<equiv> fb_value op"
  shows "cl_kind (classify_key sp b) = BK_form \<and> (eff = EP_none \<longrightarrow> sp = S_base) \<and>
      (eff \<noteq> EP_none \<longrightarrow> sp = S_dd \<or> sp = S_fd)
    \<or> cl_kind (classify_key sp b) = BK_prefix_ignored \<and> eff \<noteq> EP_none
    \<or> cl_kind (classify_key sp b) = BK_escape_cb \<and> eff = EP_none
    \<or> cl_kind (classify_key sp b) = BK_escape_ed \<and> eff = EP_none
    \<or> cl_kind (classify_key sp b) = BK_prefix_ignored_before_ed \<and> eff \<noteq> EP_none
    \<or> cl_kind (classify_key sp b) = BK_escape_ddcb \<and> eff \<noteq> EP_none
    \<or> cl_kind (classify_key sp b) = BK_escape_fdcb \<and> eff \<noteq> EP_none"
proof -
  have nb: "b \<noteq> 0xDD" "b \<noteq> 0xFD" using assms by (auto simp: scan_ok_def is_prefix_def kDd_def kFd_def)
  show ?thesis
  proof (cases eff)
    case EP_none
    then show ?thesis using nb by (simp add: sp_def lead_space_def classify_key_def classify_base_kind)
  next
    case EP_dd
    then show ?thesis using nb classify_index_cases [of S_dd b]
      by (auto simp: sp_def lead_space_def classify_key_def)
  next
    case EP_fd
    then show ?thesis using nb classify_index_cases [of S_fd b]
      by (auto simp: sp_def lead_space_def classify_key_def)
  qed
qed

text \<open>Each outcome of the switch on the lead byte.\<close>

lemma sel_ok_lead:
  assumes op: "fb_kind (get op_addr) = FK_byte" and ok: "scan_ok pc eff (get op_addr)"
    and k: "cl_kind (classify_key (lead_space eff) (fb_value (get op_addr))) = kind" "has_form kind"
  shows "sel_ok get pc eff op_addr
    \<lparr>sel_form = bc_form (classify_opcode_byte (lead_space eff) (fb_value (get op_addr))), sel_consumed = 1,
     sel_extra = (if kind = BK_form then if eff = EP_none then 0 else of_nat pc - 1 else of_nat pc),
     sel_opcode = fb_value (get op_addr)\<rparr>"
proof -
  have pc: "unat (of_nat pc :: u32) = pc" "pc < 65536" "eff \<noteq> EP_none \<longleftrightarrow> 0 < pc"
    using ok by (auto simp: scan_ok_def unat_of_nat_u32)
  note f = form_desc_space(1,2) [of "lead_space eff" "fb_value (get op_addr)"]
  have id: "is_form_id (bc_form (classify_opcode_byte (lead_space eff) (fb_value (get op_addr))))"
    using k by (intro is_form_idI) simp
  show ?thesis
  proof (cases "kind = BK_form")
    case True
    then show ?thesis
      unfolding sel_ok_def Let_def Selected.simps
      using k id f op pc lead_class_cases [OF op ok] unat_minus_one_u32 [of pc]
      by (auto simp: lead_space_def split: if_splits)
  next
    case False
    then have "kind = BK_prefix_ignored" using k(2) by (simp add: has_form_def)
    then show ?thesis
      unfolding sel_ok_def Let_def Selected.simps
      using k id f op pc bc_form_ignored [of "lead_space eff" "fb_value (get op_addr)"] by simp
  qed
qed

lemma sel_ok_second:
  assumes op: "fb_kind (get op_addr) = FK_byte" and ok: "scan_ok pc eff (get op_addr)"
    and second: "fb_kind (get (op_addr + 1)) = FK_byte" and sp: "sp = S_cb \<or> sp = S_ed"
  shows "sel_ok get pc eff op_addr
    \<lparr>sel_form = bc_form (classify_opcode_byte sp (fb_value (get (op_addr + 1)))), sel_consumed = 2,
     sel_extra = of_nat pc, sel_opcode = fb_value (get (op_addr + 1))\<rparr>"
proof -
  have pc: "unat (of_nat pc :: u32) = pc" using ok by (auto simp: scan_ok_def unat_of_nat_u32)
  have f: "cl_kind (classify_key sp (fb_value (get (op_addr + 1)))) = BK_form"
    using sp by (intro classify_key_kind_form) auto
  show ?thesis
    unfolding sel_ok_def Let_def Selected.simps
    using f is_form_idI [of sp] form_desc_space(1,2) [of sp "fb_value (get (op_addr + 1))"] op second pc sp
    by (auto simp: less_Suc_eq numeral_2_eq_2)
qed

lemma sel_ok_indexed_cb:
  assumes op: "fb_kind (get op_addr) = FK_byte" and ok: "scan_ok pc eff (get op_addr)"
    and bytes: "fb_kind (get (op_addr + 1)) = FK_byte" "fb_kind (get (op_addr + 2)) = FK_byte"
    and sp: "sp = S_ddcb \<or> sp = S_fdcb" and eff: "eff \<noteq> EP_none"
  shows "sel_ok get pc eff op_addr
    \<lparr>sel_form = bc_form (classify_opcode_byte sp (fb_value (get (op_addr + 2)))), sel_consumed = 3,
     sel_extra = of_nat pc - 1, sel_opcode = fb_value (get (op_addr + 2))\<rparr>"
proof -
  have pc: "0 < pc" "pc < 65536" using ok eff by (auto simp: scan_ok_def)
  have f: "cl_kind (classify_key sp (fb_value (get (op_addr + 2)))) = BK_form"
    using sp by (intro classify_key_kind_form) auto
  show ?thesis
    unfolding sel_ok_def Let_def Selected.simps
    using f is_form_idI [of sp] form_desc_space(1,2) [of sp "fb_value (get (op_addr + 2))"] op bytes pc sp eff
    by (auto simp: less_Suc_eq numeral_3_eq_3 numeral_2_eq_2 unat_minus_one_u32)
qed

text \<open>A blocked start: the first address of the instruction that is not a resolved code byte.\<close>

definition blocked_at :: "LogicalFetch \<Rightarrow> u16 \<Rightarrow> nat \<Rightarrow> StartClassification \<Rightarrow> bool" where
  "blocked_at get base n c \<longleftrightarrow>
    (\<exists>j < n. fb_kind (get (base + of_nat j)) \<noteq> FK_byte \<and> c = blocked (get (base + of_nat j)) (base + of_nat j) \<and>
       (\<forall>i < j. fb_kind (get (base + of_nat i)) = FK_byte))"

lemma blocked_atI:
  "j < n \<Longrightarrow> fb_kind (get (base + of_nat j)) \<noteq> FK_byte \<Longrightarrow>
   \<forall>i < j. fb_kind (get (base + of_nat i)) = FK_byte \<Longrightarrow>
   blocked_at get base n (blocked (get (base + of_nat j)) (base + of_nat j))"
  by (auto simp: blocked_at_def)

lemma select_form_spec:
  assumes op: "fb_kind (get op_addr) = FK_byte" and ok: "scan_ok pc eff (get op_addr)"
  shows "case select_form get (of_nat pc) eff op_addr (get op_addr) of
      Inl c \<Rightarrow> blocked_at get op_addr 3 c
    | Inr sel \<Rightarrow> sel_ok get pc eff op_addr sel"
proof -
  have b1: "blocked_at get op_addr 3 (blocked (get (op_addr + 1)) (op_addr + 1))"
    if "fb_kind (get (op_addr + 1)) \<noteq> FK_byte"
    using that op blocked_atI [of 1 3 get op_addr] by simp
  have b2: "blocked_at get op_addr 3 (blocked (get (op_addr + 2)) (op_addr + 2))"
    if "fb_kind (get (op_addr + 1)) = FK_byte" "fb_kind (get (op_addr + 2)) \<noteq> FK_byte"
    using that op blocked_atI [of 2 3 get op_addr] by (simp add: less_Suc_eq numeral_2_eq_2)
  show ?thesis
    using lead_class_cases [OF op ok]
  proof (elim disjE conjE)
    assume k: "cl_kind (classify_key (lead_space eff) (fb_value (get op_addr))) = BK_form"
    then show ?thesis
      using sel_ok_lead [of get op_addr, OF op ok k] by (simp add: select_form_def Let_def)
  next
    assume k: "cl_kind (classify_key (lead_space eff) (fb_value (get op_addr))) = BK_prefix_ignored"
    then show ?thesis
      using sel_ok_lead [of get op_addr, OF op ok k] by (simp add: select_form_def Let_def)
  next
    assume k: "cl_kind (classify_key (lead_space eff) (fb_value (get op_addr))) = BK_escape_cb"
    then show ?thesis
      using sel_ok_second [of get op_addr, OF op ok, of S_cb] b1 by (simp add: select_form_def Let_def)
  next
    assume k: "cl_kind (classify_key (lead_space eff) (fb_value (get op_addr))) = BK_escape_ed"
    then show ?thesis
      using sel_ok_second [of get op_addr, OF op ok, of S_ed] b1 by (simp add: select_form_def Let_def)
  next
    assume k: "cl_kind (classify_key (lead_space eff) (fb_value (get op_addr))) = BK_prefix_ignored_before_ed"
    then show ?thesis
      using sel_ok_second [of get op_addr, OF op ok, of S_ed] b1 by (simp add: select_form_def Let_def)
  next
    assume k: "cl_kind (classify_key (lead_space eff) (fb_value (get op_addr))) = BK_escape_ddcb" "eff \<noteq> EP_none"
    then show ?thesis
      using sel_ok_indexed_cb [of get op_addr, OF op ok, of S_ddcb] b1 b2 by (simp add: select_form_def Let_def)
  next
    assume k: "cl_kind (classify_key (lead_space eff) (fb_value (get op_addr))) = BK_escape_fdcb" "eff \<noteq> EP_none"
    then show ?thesis
      using sel_ok_indexed_cb [of get op_addr, OF op ok, of S_fdcb] b1 b2 by (simp add: select_form_def Let_def)
  qed
qed

lemma read_operands_spec:
  "i + n \<le> length ops \<Longrightarrow>
   case read_operands get base i n ops of
     Inl c \<Rightarrow> \<exists>j < n. fb_kind (get (base + of_nat (i + j))) \<noteq> FK_byte \<and>
        c = blocked (get (base + of_nat (i + j))) (base + of_nat (i + j)) \<and>
        (\<forall>k < j. fb_kind (get (base + of_nat (i + k))) = FK_byte)
   | Inr ops' \<Rightarrow> length ops' = length ops \<and>
        (\<forall>j < n. fb_kind (get (base + of_nat (i + j))) = FK_byte \<and>
                 ops' ! (i + j) = fb_value (get (base + of_nat (i + j)))) \<and>
        (\<forall>j < i. ops' ! j = ops ! j)"
proof (induction n arbitrary: i ops)
  case (Suc n)
  let ?b = "get (base + of_nat i)"
  show ?case
  proof (cases "fb_kind ?b = FK_byte")
    case False
    then show ?thesis by (auto simp: Let_def intro!: exI [of _ 0])
  next
    case True
    have eq: "read_operands get base i (Suc n) ops = read_operands get base (i + 1) n (ops[i := fb_value ?b])"
      using True by (simp add: Let_def)
    have IH: "case read_operands get base (i + 1) n (ops[i := fb_value ?b]) of
       Inl c \<Rightarrow> \<exists>j < n. fb_kind (get (base + of_nat (i + 1 + j))) \<noteq> FK_byte \<and>
          c = blocked (get (base + of_nat (i + 1 + j))) (base + of_nat (i + 1 + j)) \<and>
          (\<forall>k < j. fb_kind (get (base + of_nat (i + 1 + k))) = FK_byte)
     | Inr ops' \<Rightarrow> length ops' = length (ops[i := fb_value ?b]) \<and>
          (\<forall>j < n. fb_kind (get (base + of_nat (i + 1 + j))) = FK_byte \<and>
                   ops' ! (i + 1 + j) = fb_value (get (base + of_nat (i + 1 + j)))) \<and>
          (\<forall>j < i + 1. ops' ! j = ops[i := fb_value ?b] ! j)"
      using Suc.prems by (intro Suc.IH) simp
    show ?thesis
    proof (cases "read_operands get base (i + 1) n (ops[i := fb_value ?b])")
      case (Inl c)
      with IH obtain j where j: "j < n" "fb_kind (get (base + of_nat (i + 1 + j))) \<noteq> FK_byte"
        "c = blocked (get (base + of_nat (i + 1 + j))) (base + of_nat (i + 1 + j))"
        "\<forall>k < j. fb_kind (get (base + of_nat (i + 1 + k))) = FK_byte" by auto
      have "\<forall>k < Suc j. fb_kind (get (base + of_nat (i + k))) = FK_byte"
        using True j(4) by (auto simp: less_Suc_eq_0_disj ac_simps)
      then show ?thesis unfolding eq Inl using j by (auto simp: ac_simps intro!: exI [of _ "Suc j"])
    next
      case (Inr ops')
      with IH have I: "length ops' = length ops"
        "\<And>j. j < n \<Longrightarrow> fb_kind (get (base + of_nat (i + Suc j))) = FK_byte \<and>
                   ops' ! (i + Suc j) = fb_value (get (base + of_nat (i + Suc j)))"
        "\<And>j. j < Suc i \<Longrightarrow> ops' ! j = ops[i := fb_value ?b] ! j" by auto
      have "ops' ! i = fb_value ?b" using I(3) [of i] Suc.prems by simp
      then have "\<forall>j < Suc n. fb_kind (get (base + of_nat (i + j))) = FK_byte \<and>
                   ops' ! (i + j) = fb_value (get (base + of_nat (i + j)))"
        using True I(2) by (auto simp: less_Suc_eq_0_disj ac_simps)
      then show ?thesis unfolding eq Inr using I(1,3) by auto
    qed
  qed
qed simp

section \<open>Mappings that agree on the bytes that were read\<close>

definition same_on :: "LogicalFetch \<Rightarrow> LogicalFetch \<Rightarrow> u16 \<Rightarrow> nat \<Rightarrow> bool" where
  "same_on get get' a n \<longleftrightarrow> (\<forall>i < n. get' (a + of_nat i) = get (a + of_nat i))"

lemma same_onD: "same_on get get' a n \<Longrightarrow> i < n \<Longrightarrow> get' (a + of_nat i) = get (a + of_nat i)"
  by (simp add: same_on_def)

lemma same_on_mono: "same_on get get' a n \<Longrightarrow> m \<le> n \<Longrightarrow> same_on get get' a m"
  by (simp add: same_on_def)

lemma same_on_shift: "same_on get get' a n \<Longrightarrow> m + k \<le> n \<Longrightarrow> same_on get get' (a + of_nat m) k"
  unfolding same_on_def by (auto simp: add.assoc simp flip: of_nat_add)

lemma read_operands_cong:
  "read_operands get base i n ops = Inr ops' \<Longrightarrow> same_on get get' (base + of_nat i) n \<Longrightarrow>
   read_operands get' base i n ops = Inr ops'"
proof (induction n arbitrary: i ops)
  case (Suc n)
  have "get' (base + of_nat i) = get (base + of_nat i)" using same_onD [OF Suc.prems(2), of 0] by simp
  moreover have "same_on get get' (base + of_nat (i + 1)) n"
    using same_on_shift [OF Suc.prems(2), of 1 n] by (simp add: ac_simps)
  ultimately show ?case
    using Suc.prems(1) Suc.IH by (auto simp: Let_def split: if_splits)
qed simp

lemma select_form_cong:
  assumes "select_form get pc eff op_addr op = Inr sel" "same_on get get' op_addr (sel_consumed sel)"
  shows "select_form get' pc eff op_addr op = Inr sel"
proof -
  have s1: "get' (op_addr + 1) = get (op_addr + 1)" if "2 \<le> sel_consumed sel"
    using same_onD [OF assms(2), of 1] that by simp
  have s2: "get' (op_addr + 2) = get (op_addr + 2)" if "3 \<le> sel_consumed sel"
    using same_onD [OF assms(2), of 2] that by simp
  show ?thesis
    by (cases "cl_kind (classify_key (lead_space eff) (fb_value op))"; use assms(1) s1 s2 in
        \<open>force simp: select_form_def Let_def split: if_splits\<close>)
qed

section \<open>The decoded instruction and its bytes\<close>

text \<open>
  \<open>finish\<close> after a scan: either blocked within four bytes, or a result whose \<open>n\<close> bytes from the
  opcode address are all code and whose operands are those of the layout of the form.
\<close>

definition operand_ok :: "LogicalFetch \<Rightarrow> nat \<Rightarrow> u16 \<Rightarrow> Selected \<Rightarrow> u8 list \<Rightarrow> bool" where
  "operand_ok get pc op_addr sel ops \<longleftrightarrow>
    (let desc = form_descriptor (sel_form sel);
         byte = (\<lambda>k. fb_value (get (op_addr + of_nat (unat (sel_extra sel) + k - pc))));
         base = (if fd_displacement_index desc = kNoIndex then 0 else 1) in
     (fd_displacement_index desc = kNoIndex \<or> ops ! 0 = byte (fd_displacement_index desc)) \<and>
     (fd_immediate_index desc = kNoIndex \<or>
        (\<forall>j < fd_immediate_size desc. ops ! (base + j) = byte (fd_immediate_index desc + j))))"

definition result_ok :: "LogicalFetch \<Rightarrow> u16 \<Rightarrow> FetchedByte \<Rightarrow> nat \<Rightarrow> EffectivePrefix \<Rightarrow> u16 \<Rightarrow> StartClassification \<Rightarrow> bool" where
  "result_ok get start first pc eff op_addr c \<longleftrightarrow>
    (\<exists>sel ops cnt n. c = decoded_result start first (of_nat pc) eff sel ops cnt n \<and>
       sel_ok get pc eff op_addr sel \<and> n \<le> 4 \<and> sel_consumed sel \<le> n \<and>
       (\<forall>i < n. fb_kind (get (op_addr + of_nat i)) = FK_byte) \<and>
       unat (sel_extra sel) + fd_length (form_descriptor (sel_form sel)) = pc + n \<and>
       operand_ok get pc op_addr sel ops \<and>
       (\<forall>get'. same_on get get' op_addr n \<longrightarrow> finish get' start first (of_nat pc) eff op_addr = c))"

lemma sel_okD:
  "sel_ok get pc eff op_addr sel \<Longrightarrow>
     is_form_id (sel_form sel) \<and> unat (sel_extra sel) \<le> pc \<and> 1 \<le> sel_consumed sel"
  by (simp add: sel_ok_def Let_def)

lemma result_okE:
  assumes "result_ok get start first pc eff op_addr c"
  obtains sel ops cnt n where "c = decoded_result start first (of_nat pc) eff sel ops cnt n" "n \<le> 4" "1 \<le> n"
    "\<forall>get'. same_on get get' op_addr n \<longrightarrow> finish get' start first (of_nat pc) eff op_addr = c"
    "is_form_id (sel_form sel)" "unat (sel_extra sel) \<le> pc"
  using assms unfolding result_ok_def
  by (elim exE conjE) (blast dest: sel_okD intro: order_trans)

lemma form_id_layout:
  assumes "is_form_id i"
  defines "f \<equiv> form_descriptor i"
  shows "layout_ok f"
    "fd_opcode_index f = (case fd_space f of S_base \<Rightarrow> 0 | S_ddcb \<Rightarrow> 3 | S_fdcb \<Rightarrow> 3 | _ \<Rightarrow> 1)"
    "fd_space f = S_ddcb \<or> fd_space f = S_fdcb \<Longrightarrow>
       fd_displacement_index f = 2 \<and> fd_immediate_index f = kNoIndex"
    "fd_space f \<noteq> S_ddcb \<Longrightarrow> fd_space f \<noteq> S_fdcb \<Longrightarrow> fd_displacement_index f \<noteq> kNoIndex \<Longrightarrow>
       fd_displacement_index f = fd_opcode_index f + 1"
    "fd_space f \<noteq> S_ddcb \<Longrightarrow> fd_space f \<noteq> S_fdcb \<Longrightarrow> fd_immediate_index f \<noteq> kNoIndex \<Longrightarrow>
       fd_immediate_index f = fd_opcode_index f + 1 + (if fd_displacement_index f = kNoIndex then 0 else 1)"
proof -
  from assms obtain sp b where b: "has_form (cl_kind (classify_key sp b))"
    "f = form_descriptor (bc_form (classify_opcode_byte sp b))" by (auto simp: is_form_id_def)
  show "layout_ok f" using b form_desc_layout by simp
  note d = form_desc_space [OF b(1), folded b(2)]
  show "fd_opcode_index f = (case fd_space f of S_base \<Rightarrow> 0 | S_ddcb \<Rightarrow> 3 | S_fdcb \<Rightarrow> 3 | _ \<Rightarrow> 1)"
    by (rule d(2))
  show "fd_space f = S_ddcb \<or> fd_space f = S_fdcb \<Longrightarrow>
       fd_displacement_index f = 2 \<and> fd_immediate_index f = kNoIndex"
    using d(3,4) by auto
  show "fd_space f \<noteq> S_ddcb \<Longrightarrow> fd_space f \<noteq> S_fdcb \<Longrightarrow> fd_displacement_index f \<noteq> kNoIndex \<Longrightarrow>
       fd_displacement_index f = fd_opcode_index f + 1"
    unfolding d(3) by (cases "fd_space f") (simp_all split: if_splits)
  have small: "fd_opcode_index f + 1 \<noteq> kNoIndex"
    unfolding d(2) by (cases "fd_space f") (simp_all add: kNoIndex_def)
  show "fd_space f \<noteq> S_ddcb \<Longrightarrow> fd_space f \<noteq> S_fdcb \<Longrightarrow> fd_immediate_index f \<noteq> kNoIndex \<Longrightarrow>
       fd_immediate_index f = fd_opcode_index f + 1 + (if fd_displacement_index f = kNoIndex then 0 else 1)"
    unfolding d(3,4) using small by (cases "fd_space f") (simp_all split: if_splits)
qed

lemma finish_indexed_cb:
  assumes op: "fb_kind (get op_addr) = FK_byte"
    and sf: "select_form get (of_nat pc) eff op_addr (get op_addr) = Inr sel"
    and sel: "sel_ok get pc eff op_addr sel"
    and cb: "fd_space (form_descriptor (sel_form sel)) = S_ddcb \<or> fd_space (form_descriptor (sel_form sel)) = S_fdcb"
  shows "result_ok get start first pc eff op_addr (decoded_result start first (of_nat pc) eff sel
      ([0, 0, 0][0 := fb_value (get (op_addr + 1))]) 1 (sel_consumed sel))"
proof -
  let ?d = "form_descriptor (sel_form sel)"
  have s: "is_form_id (sel_form sel)" "sel_consumed sel = 3"
    "unat (sel_extra sel) + fd_opcode_index ?d + 1 = pc + sel_consumed sel"
    "\<forall>i < sel_consumed sel. fb_kind (get (op_addr + of_nat i)) = FK_byte"
    using sel cb by (auto simp: sel_ok_def Let_def)
  note l = form_id_layout [OF s(1)]
  have len: "fd_length ?d = 4" "fd_opcode_index ?d = 3"
    using l(1,2) cb by (auto simp: layout_ok_def)
  have "operand_ok get pc op_addr sel ([0, 0, 0][0 := fb_value (get (op_addr + 1))])"
    using l(3) [OF cb] s len by (auto simp: operand_ok_def Let_def kNoIndex_def)
  moreover have "finish get' start first (of_nat pc) eff op_addr = decoded_result start first (of_nat pc) eff sel
      ([0, 0, 0][0 := fb_value (get (op_addr + 1))]) 1 (sel_consumed sel)"
    if same: "same_on get get' op_addr (sel_consumed sel)" for get'
  proof -
    have "get' op_addr = get op_addr" "get' (op_addr + 1) = get (op_addr + 1)"
      using same_onD [OF same, of 0] same_onD [OF same, of 1] s(2) by simp_all
    then show ?thesis
      using select_form_cong [OF sf same] op cb by (simp add: finish_def Let_def)
  qed
  ultimately show ?thesis
    unfolding result_ok_def using s len sel
    by (intro exI [of _ sel] exI [of _ "[0, 0, 0][0 := fb_value (get (op_addr + 1))]"]
        exI [of _ 1] exI [of _ "sel_consumed sel"]) auto
qed

lemma finish_plain:
  assumes op: "fb_kind (get op_addr) = FK_byte"
    and sf: "select_form get (of_nat pc) eff op_addr (get op_addr) = Inr sel"
    and sel: "sel_ok get pc eff op_addr sel"
    and cb: "fd_space (form_descriptor (sel_form sel)) \<noteq> S_ddcb" "fd_space (form_descriptor (sel_form sel)) \<noteq> S_fdcb"
    and cnt: "cnt = fd_length (form_descriptor (sel_form sel)) - fd_opcode_index (form_descriptor (sel_form sel)) - 1"
  shows "case read_operands get (op_addr + of_nat (sel_consumed sel)) 0 cnt [0, 0, 0] of
      Inl c \<Rightarrow> blocked_at get op_addr 4 c
    | Inr ops \<Rightarrow> result_ok get start first pc eff op_addr
        (decoded_result start first (of_nat pc) eff sel ops cnt (sel_consumed sel + cnt))"
proof -
  let ?d = "form_descriptor (sel_form sel)"
  let ?c = "sel_consumed sel"
  have s: "is_form_id (sel_form sel)" "?c \<le> 3"
    "unat (sel_extra sel) + fd_opcode_index ?d + 1 = pc + ?c"
    "\<forall>i < ?c. fb_kind (get (op_addr + of_nat i)) = FK_byte"
    "fd_space ?d \<in> {S_dd, S_fd, S_ddcb, S_fdcb} \<longrightarrow> eff \<noteq> EP_none" "unat (sel_extra sel) \<le> pc"
    "1 \<le> ?c"
    using sel by (auto simp: sel_ok_def Let_def)
  note l = form_id_layout [OF s(1)]
  have len: "fd_opcode_index ?d \<le> 1" "cnt \<le> 3" "fd_opcode_index ?d + 1 + cnt = fd_length ?d"
    "fd_length ?d \<le> 4" "cnt = (if fd_displacement_index ?d = kNoIndex then 0 else 1) + fd_immediate_size ?d"
    using l(1,2) cb cnt by (auto simp: layout_ok_def split: Space.splits)
  have n4: "?c + cnt \<le> 4" using len(3,4) s(3,6) by linarith
  note R = read_operands_spec [of 0 cnt "[0, 0, 0]" get "op_addr + of_nat ?c"]
  show ?thesis
  proof (cases "read_operands get (op_addr + of_nat ?c) 0 cnt [0, 0, 0]")
    case (Inl c)
    with R len(2) obtain j where j: "j < cnt"
      "fb_kind (get (op_addr + of_nat (?c + j))) \<noteq> FK_byte"
      "c = blocked (get (op_addr + of_nat (?c + j))) (op_addr + of_nat (?c + j))"
      "\<forall>k < j. fb_kind (get (op_addr + of_nat (?c + k))) = FK_byte" by (auto simp: add.assoc)
    have "fb_kind (get (op_addr + of_nat i)) = FK_byte" if "i < ?c + j" for i
      using that s(4) j(4) by (cases "i < ?c") (auto simp: dest!: spec [where x = "i - ?c"])
    then have "blocked_at get op_addr 4 c"
      unfolding j(3) using j(1,2) n4 by (intro blocked_atI) auto
    then show ?thesis using Inl by simp
  next
    case (Inr ops)
    with R len(2) have ops: "\<And>j. j < cnt \<Longrightarrow>
        fb_kind (get (op_addr + of_nat (?c + j))) = FK_byte \<and> ops ! j = fb_value (get (op_addr + of_nat (?c + j)))"
      by (auto simp: add.assoc)
    have all: "fb_kind (get (op_addr + of_nat i)) = FK_byte" if "i < ?c + cnt" for i
      using that s(4) ops [of "i - ?c"] by (cases "i < ?c") auto
    let ?base = "if fd_displacement_index ?d = kNoIndex then 0 else 1 :: nat"
    have at: "ops ! j = fb_value (get (op_addr + of_nat (unat (sel_extra sel) + k - pc)))"
      if "j < cnt" "k = fd_opcode_index ?d + 1 + j" for j k
    proof -
      have "unat (sel_extra sel) + k - pc = ?c + j" using that(2) s(3) by linarith
      then show ?thesis using ops [OF that(1)] by simp
    qed
    have "fd_displacement_index ?d = kNoIndex \<or>
        ops ! 0 = fb_value (get (op_addr + of_nat (unat (sel_extra sel) + fd_displacement_index ?d - pc)))"
    proof (cases "fd_displacement_index ?d = kNoIndex")
      case False
      show ?thesis by (intro disjI2 at) (use l(4) [OF cb False] len(5) False in simp_all)
    qed simp
    moreover have "fd_immediate_index ?d = kNoIndex \<or> (\<forall>j < fd_immediate_size ?d. ops ! (?base + j) =
        fb_value (get (op_addr + of_nat (unat (sel_extra sel) + (fd_immediate_index ?d + j) - pc))))"
    proof (cases "fd_immediate_index ?d = kNoIndex")
      case False
      show ?thesis
        by (intro disjI2 allI impI at) (use l(5) [OF cb False] len(5) in simp_all)
    qed simp
    ultimately have "operand_ok get pc op_addr sel ops"
      unfolding operand_ok_def Let_def by blast
    moreover have "finish get' start first (of_nat pc) eff op_addr =
        decoded_result start first (of_nat pc) eff sel ops cnt (?c + cnt)"
      if same: "same_on get get' op_addr (?c + cnt)" for get'
    proof -
      have "get' op_addr = get op_addr" using same_onD [OF same, of 0] s(7) by simp
      moreover have "select_form get' (of_nat pc) eff op_addr (get op_addr) = Inr sel"
        by (rule select_form_cong [OF sf same_on_mono [OF same]]) simp
      moreover have "read_operands get' (op_addr + of_nat ?c) 0 cnt [0, 0, 0] = Inr ops"
        by (rule read_operands_cong [OF Inr]) (use same_on_shift [OF same, of ?c cnt] in simp)
      ultimately show ?thesis
        using op cb cnt by (simp add: finish_def Let_def)
    qed
    ultimately have "result_ok get start first pc eff op_addr
        (decoded_result start first (of_nat pc) eff sel ops cnt (?c + cnt))"
      unfolding result_ok_def using s(3) len(3) sel n4 all
      by (intro exI [of _ sel] exI [of _ ops] exI [of _ cnt] exI [of _ "?c + cnt"]) auto
    then show ?thesis using Inr by simp
  qed
qed

lemma blocked_at_mono: "blocked_at get b n c \<Longrightarrow> n \<le> m \<Longrightarrow> blocked_at get b m c"
  unfolding blocked_at_def
proof (elim exE conjE)
  fix j assume "n \<le> m" "j < n" "fb_kind (get (b + of_nat j)) \<noteq> FK_byte"
    "c = blocked (get (b + of_nat j)) (b + of_nat j)" "\<forall>i < j. fb_kind (get (b + of_nat i)) = FK_byte"
  then show "\<exists>j < m. fb_kind (get (b + of_nat j)) \<noteq> FK_byte \<and>
      c = blocked (get (b + of_nat j)) (b + of_nat j) \<and> (\<forall>i < j. fb_kind (get (b + of_nat i)) = FK_byte)"
    by (intro exI [of _ j]) simp
qed

lemma finish_spec:
  assumes "scan_ok pc eff (get op_addr)"
  shows "blocked_at get op_addr 4 (finish get start first (of_nat pc) eff op_addr) \<or>
    result_ok get start first pc eff op_addr (finish get start first (of_nat pc) eff op_addr)"
proof (cases "fb_kind (get op_addr) = FK_byte")
  case False
  then have "blocked_at get op_addr 4 (blocked (get op_addr) op_addr)"
    using blocked_atI [of 0 4 get op_addr] by simp
  then show ?thesis using False by (simp add: finish_def)
next
  case True
  note sel = select_form_spec [of get op_addr, OF True assms]
  show ?thesis
  proof (cases "select_form get (of_nat pc) eff op_addr (get op_addr)")
    case (Inl c)
    with sel have "blocked_at get op_addr 3 c" by simp
    then have "blocked_at get op_addr 4 c" by (rule blocked_at_mono) simp
    then show ?thesis using Inl True by (simp add: finish_def)
  next
    case (Inr s)
    with sel have ok: "sel_ok get pc eff op_addr s" by simp
    show ?thesis
    proof (cases "fd_space (form_descriptor (sel_form s)) = S_ddcb \<or> fd_space (form_descriptor (sel_form s)) = S_fdcb")
      case cb: True
      then show ?thesis
        using finish_indexed_cb [OF True Inr ok cb] Inr True by (simp add: finish_def Let_def)
    next
      case False
      then show ?thesis
        using finish_plain [OF True Inr ok _ _ refl] Inr True
        by (auto simp: finish_def Let_def split: sum.splits)
    qed
  qed
qed

section \<open>The decoder\<close>

lemma scan_ok_run:
  assumes "no_lock get"
  shows "scan_ok (run_length get a) (run_prefix get a) (get (run_end get a))"
  using run_length_prop(1,2) [OF assms, of a]
  by (auto simp: scan_ok_def run_prefix_def run_end_def effective_of_def)

lemma code_before_run_end:
  assumes "no_lock get" "i < run_length get a"
  shows "fb_kind (get (a + of_nat i)) = FK_byte"
  using run_length_prop(3) [OF assms(1), of i a] assms(2) by (simp add: is_prefix_def)

lemma code_upto:
  assumes "no_lock get" "\<forall>i < j. fb_kind (get (run_end get a + of_nat i)) = FK_byte"
    "i < run_length get a + j"
  shows "fb_kind (get (a + of_nat i)) = FK_byte"
proof (cases "i < run_length get a")
  case True
  then show ?thesis using code_before_run_end assms(1) by simp
next
  case False
  then obtain k where k: "i = run_length get a + k" using le_Suc_ex not_less by blast
  then have "a + of_nat i = run_end get a + of_nat k" by (simp add: run_end_def)
  then show ?thesis using k assms(2,3) by (simp del: of_nat_add)
qed

lemma decoded_result_simps [simp]:
  "sc_kind (decoded_result start first pc eff sel ops cnt n) = SK_decoded"
  "di_form (sc_instruction (decoded_result start first pc eff sel ops cnt n)) = sel_form sel"
  "di_extra_prefix_count (sc_instruction (decoded_result start first pc eff sel ops cnt n)) = sel_extra sel"
  "pv_form (di_provenance (sc_instruction (decoded_result start first pc eff sel ops cnt n))) = sel_form sel"
  "pv_address (di_provenance (sc_instruction (decoded_result start first pc eff sel ops cnt n))) = start"
  "pv_prefix_count (di_provenance (sc_instruction (decoded_result start first pc eff sel ops cnt n))) = pc"
  "pv_opcode (di_provenance (sc_instruction (decoded_result start first pc eff sel ops cnt n))) = sel_opcode sel"
  "pv_operands (di_provenance (sc_instruction (decoded_result start first pc eff sel ops cnt n))) = ops"
  "pv_logical_byte_count (di_provenance (sc_instruction (decoded_result start first pc eff sel ops cnt n))) =
     pc + of_nat n"
  by (simp_all add: decoded_result_def)

lemma blocked_simps [simp]:
  "sc_kind (blocked b x) = (if fb_kind b = FK_unresolved_mapping then SK_unresolved_fetch_mapping else SK_mutable_code)"
  "sc_blocking_address (blocked b x) = x"
  by (simp_all add: blocked_def default_start_def)

lemma prefix_lock_kind [simp]: "sc_kind prefix_lock = SK_prefix_lock"
  by (simp add: prefix_lock_def default_start_def)

lemma unat_count:
  "pc < 65536 \<Longrightarrow> n \<le> 4 \<Longrightarrow> unat (of_nat pc + of_nat n :: u32) = pc + n"
  using unat_of_nat_u32 [of "pc + n"] by simp

text \<open>The three outcomes of a start.\<close>

lemma decode_at_cases:
  obtains (lock) "\<not> no_lock get" "decode_at get a = prefix_lock"
  | (blocked) "no_lock get" "blocked_at get (run_end get a) 4 (decode_at get a)"
  | (decoded) "no_lock get"
      "result_ok get a (get a) (run_length get a) (run_prefix get a) (run_end get a) (decode_at get a)"
proof (cases "no_lock get")
  case True
  then show ?thesis
    using finish_spec [where get = get, OF scan_ok_run [OF True, of a], of a "get a"] blocked decoded
    by (auto simp: decode_at_unfold)
next
  case False
  then show ?thesis using lock by (simp add: decode_at_unfold)
qed

lemma decode_at_decoded:
  assumes "sc_kind (decode_at get a) = SK_decoded"
  shows "no_lock get" and
    "result_ok get a (get a) (run_length get a) (run_prefix get a) (run_end get a) (decode_at get a)"
  using assms by (cases rule: decode_at_cases [of get a]; auto simp: blocked_at_def split: if_splits)+

section \<open>Replaying bytes\<close>

lemma replay_from_code:
  "\<forall>i < n. fb_kind (get (a + of_nat i)) = FK_byte \<Longrightarrow>
   replay_from get a n = Some (map (\<lambda>i. fb_value (get (a + of_nat i))) [0..<n])"
proof (induction n arbitrary: a)
  case (Suc n)
  have "\<forall>i < n. fb_kind (get (a + 1 + of_nat i)) = FK_byte"
    using Suc.prems by (auto simp: add.assoc dest: spec [where x = "Suc _"])
  then have "replay_from get (a + 1) n = Some (map (\<lambda>i. fb_value (get (a + 1 + of_nat i))) [0..<n])"
    by (rule Suc.IH)
  moreover have "map (\<lambda>i. fb_value (get (a + of_nat i))) [0..<Suc n] =
      fb_value (get a) # map (\<lambda>i. fb_value (get (a + 1 + of_nat i))) [0..<n]"
    by (simp add: upt_conv_Cons map_Suc_upt [symmetric] add.assoc comp_def del: upt_Suc)
  moreover have "fb_kind (get a) = FK_byte" using Suc.prems by auto
  ultimately show ?case by simp
qed simp

section \<open>Properties\<close>

text \<open>The bytes of an instruction at \<open>a\<close>, read through the mapping.\<close>

definition code_bytes :: "LogicalFetch \<Rightarrow> u16 \<Rightarrow> nat \<Rightarrow> u8 list" where
  "code_bytes get a n = map (\<lambda>i. fb_value (get (a + of_nat i))) [0..<n]"

text \<open>
  What a decoded instruction promises about the mapping: its length is that of the form plus the
  extra prefixes, all its bytes are code and replay, and the opcode, the displacement and the
  little-endian immediate are the bytes at the places the form's layout gives, after the extra
  prefixes; its form is the one that its own space gives the opcode byte.
\<close>

definition instruction_ok :: "LogicalFetch \<Rightarrow> u16 \<Rightarrow> DecodedInstruction \<Rightarrow> bool" where
  "instruction_ok get a i \<longleftrightarrow>
    (let p = di_provenance i; f = form_descriptor (di_form i); x = unat (di_extra_prefix_count i);
         bs = code_bytes get a (x + fd_length f) in
     pv_address p = a \<and> pv_form p = di_form i \<and>
     di_form i = bc_form (classify_opcode_byte (fd_space f) (pv_opcode p)) \<and>
     unat (pv_logical_byte_count p) = x + fd_length f \<and>
     logical_length i = pv_logical_byte_count p \<and>
     replay_bytes get p = Some bs \<and>
     list_all (\<lambda>b. b = kDd \<or> b = kFd) (take (unat (pv_prefix_count p)) bs) \<and>
     bs ! (x + fd_opcode_index f) = pv_opcode p \<and>
     displacement i =
       (if fd_displacement_index f = kNoIndex then None
        else Some (sint (bs ! (x + fd_displacement_index f)))) \<and>
     immediate i =
       (if fd_immediate_index f = kNoIndex then None
        else if fd_immediate_size f = 2
          then Some (ucast (bs ! (x + fd_immediate_index f)) OR
                     push_bit 8 (ucast (bs ! (x + fd_immediate_index f + 1))))
        else Some (ucast (bs ! (x + fd_immediate_index f)))))"

lemma nth_code_bytes [simp]: "i < n \<Longrightarrow> code_bytes get a n ! i = fb_value (get (a + of_nat i))"
  by (simp add: code_bytes_def)

lemma result_ok_instruction:
  assumes nl: "no_lock get"
    and ok: "result_ok get a (get a) (run_length get a) (run_prefix get a) (run_end get a) c"
  shows "instruction_ok get a (sc_instruction c)"
proof -
  let ?r = "run_length get a" and ?e = "run_end get a"
  from ok obtain sel ops cnt n where c: "c = decoded_result a (get a) (of_nat ?r) (run_prefix get a) sel ops cnt n"
    and sel: "sel_ok get ?r (run_prefix get a) ?e sel" and n: "n \<le> 4" "sel_consumed sel \<le> n"
    and code: "\<forall>i < n. fb_kind (get (?e + of_nat i)) = FK_byte"
    and len: "unat (sel_extra sel) + fd_length (form_descriptor (sel_form sel)) = ?r + n"
    and opd: "operand_ok get ?r ?e sel ops"
    by (auto simp: result_ok_def)
  let ?f = "form_descriptor (sel_form sel)" and ?x = "unat (sel_extra sel)"
  let ?bs = "code_bytes get a (?r + n)"
  have r: "?r < 65536" by (rule run_length_prop(2) [OF nl])
  have s: "is_form_id (sel_form sel)" "?x + fd_opcode_index ?f + 1 = ?r + sel_consumed sel" "?x \<le> ?r"
    "sel_form sel = bc_form (classify_opcode_byte (fd_space ?f) (sel_opcode sel))"
    "sel_opcode sel = fb_value (get (?e + of_nat (sel_consumed sel - 1)))" "1 \<le> sel_consumed sel"
    using sel by (auto simp: sel_ok_def Let_def)
  note l = form_id_layout [OF s(1)]
  have at: "?bs ! (?x + k) = fb_value (get (?e + of_nat (?x + k - ?r)))" if "?r \<le> ?x + k" "k < fd_length ?f" for k
  proof -
    from that(1) obtain m where m: "?x + k = ?r + m" using le_Suc_ex by blast
    then have "a + of_nat (?x + k) = ?e + of_nat m" by (simp only: run_end_def of_nat_add add.assoc)
    then show ?thesis using that len m by (simp del: of_nat_add)
  qed
  have layout: "fd_opcode_index ?f < fd_length ?f"
    "fd_displacement_index ?f \<noteq> kNoIndex \<Longrightarrow> fd_displacement_index ?f < fd_length ?f"
    "fd_immediate_index ?f \<noteq> kNoIndex \<Longrightarrow> fd_opcode_index ?f < fd_immediate_index ?f \<and>
       fd_immediate_index ?f + fd_immediate_size ?f = fd_length ?f \<and> 1 \<le> fd_immediate_size ?f"
    using l(1) by (auto simp: layout_ok_def split: if_splits)
  have disp: "?r \<le> ?x + fd_displacement_index ?f" if "fd_displacement_index ?f \<noteq> kNoIndex"
  proof (cases "fd_space ?f = S_ddcb \<or> fd_space ?f = S_fdcb")
    case True
    then have "sel_consumed sel = 3" using sel by (auto simp: sel_ok_def Let_def)
    then show ?thesis using l(2,3) True s(2) by auto
  next
    case False
    then show ?thesis using l(4) that s(2) s(6) by simp
  qed
  have count: "unat (of_nat ?r + of_nat n :: u32) = ?r + n" using unat_count r n(1) .
  have all_code: "\<forall>i < ?r + n. fb_kind (get (a + of_nat i)) = FK_byte"
    using code_upto [OF nl code] by simp
  have op: "?bs ! (?x + fd_opcode_index ?f) = sel_opcode sel"
  proof -
    have "?x + fd_opcode_index ?f - ?r = sel_consumed sel - 1" "?r \<le> ?x + fd_opcode_index ?f"
      using s(2,6) by linarith+
    then show ?thesis using at [OF _ layout(1)] s(5) by simp
  qed
  have pre: "list_all (\<lambda>b. b = kDd \<or> b = kFd) (take (unat (of_nat ?r :: u32)) ?bs)"
    using run_length_prop(3) [OF nl, of _ a] r
    by (auto simp: list_all_length is_prefix_def unat_of_nat_u32 code_bytes_def)
  have d: "fd_displacement_index ?f \<noteq> kNoIndex \<Longrightarrow> ops ! 0 = ?bs ! (?x + fd_displacement_index ?f)"
    using opd at disp layout(2) by (simp add: operand_ok_def Let_def)
  let ?base = "if fd_displacement_index ?f = kNoIndex then 0 else 1 :: nat"
  have i: "ops ! (?base + j) = ?bs ! (?x + fd_immediate_index ?f + j)"
    if "fd_immediate_index ?f \<noteq> kNoIndex" "j < fd_immediate_size ?f" for j
  proof -
    have "ops ! (?base + j) = fb_value (get (?e + of_nat (?x + (fd_immediate_index ?f + j) - ?r)))"
      using opd that unfolding operand_ok_def Let_def by blast
    also have "\<dots> = ?bs ! (?x + (fd_immediate_index ?f + j))"
      using layout(3) [OF that(1)] that(2) s(2,6) by (intro at [symmetric]) linarith+
    finally show ?thesis by (simp add: add.assoc)
  qed
  have long: "logical_length (sc_instruction c) = of_nat ?r + of_nat n"
  proof (rule unat_eqI)
    have "unat (sel_extra sel + of_nat (fd_length ?f)) = ?x + fd_length ?f"
      using unat_count [of ?x "fd_length ?f"] s(3) r l(1) by (simp add: layout_ok_def)
    then show "unat (logical_length (sc_instruction c)) = unat (of_nat ?r + of_nat n :: u32)"
      using len count by (simp add: c logical_length_def)
  qed
  have imm: "immediate (sc_instruction c) =
       (if fd_immediate_index ?f = kNoIndex then None
        else if fd_immediate_size ?f = 2
          then Some (ucast (?bs ! (?x + fd_immediate_index ?f)) OR
                     push_bit 8 (ucast (?bs ! (?x + fd_immediate_index ?f + 1))))
        else Some (ucast (?bs ! (?x + fd_immediate_index ?f))))"
    using i [of 0] i [of 1] layout(3) by (auto simp: immediate_def Let_def c)
  show ?thesis
    unfolding instruction_ok_def Let_def
    using long imm d s(4) pre op count replay_from_code [OF all_code]
    by (simp add: c len replay_bytes_def displacement_def code_bytes_def)
qed

text \<open>What the classification of a start means for the mapping.\<close>

definition outcome_ok :: "LogicalFetch \<Rightarrow> u16 \<Rightarrow> StartClassification \<Rightarrow> bool" where
  "outcome_ok get a c \<longleftrightarrow>
    (case sc_kind c of
       SK_decoded \<Rightarrow> instruction_ok get a (sc_instruction c) \<and> (\<exists>x. \<not> is_prefix (get x))
     | SK_prefix_lock \<Rightarrow> (\<forall>x. is_prefix (get x))
     | SK_excluded_form \<Rightarrow> False
     | k \<Rightarrow> (\<exists>p < 65540. sc_blocking_address c = a + of_nat p \<and>
              (\<forall>i < p. fb_kind (get (a + of_nat i)) = FK_byte) \<and>
              fb_kind (get (sc_blocking_address c)) =
                (if k = SK_unresolved_fetch_mapping then FK_unresolved_mapping else FK_non_code)))"

lemma blocked_outcome:
  assumes nl: "no_lock get" and b: "blocked_at get (run_end get a) 4 c"
  shows "outcome_ok get a c"
proof -
  from b obtain j where j: "j < 4" "fb_kind (get (run_end get a + of_nat j)) \<noteq> FK_byte"
    "c = blocked (get (run_end get a + of_nat j)) (run_end get a + of_nat j)"
    "\<forall>i < j. fb_kind (get (run_end get a + of_nat i)) = FK_byte" by (auto simp: blocked_at_def)
  let ?p = "run_length get a + j"
  have at: "run_end get a + of_nat j = a + of_nat ?p" by (simp add: run_end_def)
  have "\<exists>p < 65540. run_end get a + of_nat j = a + of_nat p \<and>
      (\<forall>i < p. fb_kind (get (a + of_nat i)) = FK_byte)"
    using at j(1,4) run_length_prop(2) [OF nl, of a] code_upto [OF nl j(4)] by (intro exI [of _ ?p]) simp
  then show ?thesis
    using j(2) by (cases "fb_kind (get (run_end get a + of_nat j))") (simp_all add: outcome_ok_def j(3))
qed


lemma nth_classify_all:
  "length (classify_all fetch) = kAddressSpace" "classify_all fetch ! unat a = decode_at fetch a"
proof -
  show "length (classify_all fetch) = kAddressSpace"
    by (simp add: classify_all_def Let_def)
  show "classify_all fetch ! unat a = decode_at fetch a"
  proof (cases "no_lock fetch")
    case True
    then have "find_anchor (snapshot fetch) \<noteq> kAddressSpace" using find_anchor_cases [of fetch] by simp
    then show ?thesis
      using True unat_u16_less [of a] classify_from_run_ends [OF True, of a]
      by (simp add: classify_all_def Let_def decode_at_unfold kAddressSpace_def)
  next
    case False
    then have "find_anchor (snapshot fetch) = kAddressSpace" using find_anchor_cases [of fetch] by simp
    then show ?thesis
      using False unat_u16_less [of a]
      by (simp add: classify_all_def Let_def decode_at_unfold kAddressSpace_def)
  qed
qed

text \<open>
  C16. The linear-time classification of the whole address space, over precomputed ends of prefix
  runs on the circular space, gives each of the 65,536 starts what decoding it alone gives.
\<close>

theorem classify_all_decode_at:
  "length (classify_all fetch) = kAddressSpace \<and> classify_all fetch ! unat a = decode_at fetch a"
  using nth_classify_all by blast

text \<open>A decode depends only on the bytes of the instruction it returns.\<close>

lemma decode_at_cong:
  assumes dec: "sc_kind (decode_at get a) = SK_decoded"
    and same: "same_on get get' a (unat (pv_logical_byte_count (di_provenance (sc_instruction (decode_at get a)))))"
  shows "decode_at get' a = decode_at get a"
proof -
  note nl = decode_at_decoded(1) [OF dec]
  let ?r = "run_length get a" and ?e = "run_end get a"
  from decode_at_decoded(2) [OF dec] obtain sel ops cnt n
    where c: "decode_at get a = decoded_result a (get a) (of_nat ?r) (run_prefix get a) sel ops cnt n"
      and n: "n \<le> 4" "1 \<le> n"
      and cong: "\<forall>get'. same_on get get' ?e n \<longrightarrow>
        finish get' a (get a) (of_nat ?r) (run_prefix get a) ?e = decode_at get a"
    by (rule result_okE)
  have "unat (of_nat ?r + of_nat n :: u32) = ?r + n"
    using unat_count run_length_prop(2) [OF nl] n(1) .
  with same c have same': "same_on get get' a (?r + n)" by simp
  have at: "get' (a + of_nat i) = get (a + of_nat i)" if "i \<le> ?r" for i
    using same_onD [OF same', of i] that n(2) by simp
  have r: "run_length get' a = ?r"
    using run_length_prop(1,3) [OF nl, where a = a] at by (intro run_length_eqI) auto
  have e: "run_end get' a = ?e" unfolding run_end_def r ..
  have nl': "no_lock get'"
    unfolding no_lock_def
    using run_length_prop(1) [OF nl, of a] by (intro exI [of _ "a + of_nat ?r"]) (simp add: at)
  have p: "run_prefix get' a = run_prefix get a"
  proof (cases "?r = 0")
    case False
    then have "?e - 1 = a + of_nat (?r - 1)" by (simp add: run_end_def of_nat_diff)
    then have "get' (?e - 1) = get (?e - 1)" using at [of "?r - 1"] by (simp only: diff_le_self)
    then show ?thesis by (simp add: run_prefix_def r e)
  qed (simp add: run_prefix_def r)
  have "same_on get get' ?e n"
    unfolding run_end_def by (rule same_on_shift [OF same']) simp
  with cong have "finish get' a (get a) (of_nat ?r) (run_prefix get a) ?e = decode_at get a" by blast
  moreover have "get' a = get a" using at [of 0] by simp
  ultimately show ?thesis by (simp add: decode_at_unfold [of get'] nl' r p e)
qed

text \<open>A mapping of code bytes that starts with no prefix decodes, in at most four bytes.\<close>

lemma decoded_if_code:
  assumes "\<forall>x. fb_kind (get x) = FK_byte" "\<not> is_prefix (get a)"
  shows "sc_kind (decode_at get a) = SK_decoded"
    "unat (pv_logical_byte_count (di_provenance (sc_instruction (decode_at get a)))) \<le> 4"
proof -
  have nl: "no_lock get" using assms(2) by (auto simp: no_lock_def)
  show d: "sc_kind (decode_at get a) = SK_decoded"
    using assms(1) nl by (cases rule: decode_at_cases [of get a]) (auto simp: blocked_at_def result_ok_def)
  have r: "run_length get a = 0" using assms(2) by (rule run_length_0)
  show "unat (pv_logical_byte_count (di_provenance (sc_instruction (decode_at get a)))) \<le> 4"
    by (rule result_okE [OF decode_at_decoded(2) [OF d]]) (simp add: r unat_of_nat_u32)
qed

lemma table_fetch_invariant:
  "table_fetch (table_invariant image_id fill) a =
     \<lparr>fb_kind = FK_byte, fb_value = fill, fb_image_id = image_id, fb_image_offset = of_nat (unat a)\<rparr>"
  using unat_u16_less [of a] by (simp add: table_fetch_def table_invariant_def kAddressSpace_def)

lemma length_table_invariant [simp]: "length (table_invariant image_id fill) = kAddressSpace"
  by (simp add: table_invariant_def)

lemma decoded_invariant:
  assumes "fill \<noteq> kDd" "fill \<noteq> kFd"
  shows "sc_kind (decode_at (table_fetch (table_invariant image_id fill)) a) = SK_decoded"
    "unat (pv_logical_byte_count (di_provenance (sc_instruction
       (decode_at (table_fetch (table_invariant image_id fill)) a)))) \<le> 4"
  by (rule decoded_if_code; use assms in \<open>simp add: is_prefix_def table_fetch_invariant\<close>)+

section \<open>The mapping as an interface\<close>

text \<open>
  What the decoder needs of a mutable mapping: the analyses replace single bytes of a dense
  mapping and decode again. The law is that a written byte is the one later fetched, and no
  other byte changes.
\<close>

locale code_mapping =
  fixes fetch_of :: "'m \<Rightarrow> LogicalFetch"
    and put :: "'m \<Rightarrow> u16 \<Rightarrow> FetchedByte \<Rightarrow> 'm"
    and wf_map :: "'m \<Rightarrow> bool"
  assumes wf_put: "wf_map m \<Longrightarrow> wf_map (put m x b)"
    and fetch_put: "wf_map m \<Longrightarrow> fetch_of (put m x b) y = (if y = x then b else fetch_of m y)"
begin

text \<open>A write outside the bytes of a decoded instruction does not change its decode.\<close>

lemma decode_frame:
  assumes "wf_map m" "sc_kind (decode_at (fetch_of m) a) = SK_decoded"
    "unat (x - a) \<ge> unat (pv_logical_byte_count (di_provenance (sc_instruction (decode_at (fetch_of m) a))))"
  shows "decode_at (fetch_of (put m x b)) a = decode_at (fetch_of m) a"
proof (rule decode_at_cong [OF assms(2)])
  let ?n = "unat (pv_logical_byte_count (di_provenance (sc_instruction (decode_at (fetch_of m) a))))"
  show "same_on (fetch_of m) (fetch_of (put m x b)) a ?n"
    unfolding same_on_def
  proof (intro allI impI)
    fix i assume i: "i < ?n"
    have "a + of_nat i \<noteq> x"
    proof
      assume "a + of_nat i = x"
      then have "unat (x - a) \<le> i" by (auto simp: unat_of_nat)
      with i assms(3) show False by simp
    qed
    then show "fetch_of (put m x b) (a + of_nat i) = fetch_of m (a + of_nat i)"
      using fetch_put [OF assms(1)] by simp
  qed
qed

text \<open>Writes to different addresses commute as far as fetching goes.\<close>

lemma fetch_put_commute:
  "wf_map m \<Longrightarrow> x \<noteq> y \<Longrightarrow> fetch_of (put (put m x b) y c) = fetch_of (put (put m y c) x b)"
  by (rule ext) (simp add: fetch_put wf_put)

end

interpretation tf: code_mapping table_fetch table_set "\<lambda>t. length t = kAddressSpace"
proof
  fix m :: TableFetch and x y b
  assume len: "length m = kAddressSpace"
  show "length (table_set m x b) = kAddressSpace" using len by (simp add: table_set_def)
  have "unat x < length m" using len unat_u16_less [of x] by (simp add: kAddressSpace_def)
  then show "table_fetch (table_set m x b) y = (if y = x then b else table_fetch m y)"
    by (auto simp: table_fetch_def table_set_def nth_list_update dest: unat_eqI)
qed

text \<open>
  C17. Storing a byte into a dense mapping outside the logical bytes of a decoded instruction does
  not change how the instruction decodes.
\<close>

theorem table_set_frame:
  assumes "length t = kAddressSpace" "sc_kind (decode_at (table_fetch t) a) = SK_decoded"
    "unat (x - a) \<ge> unat (pv_logical_byte_count (di_provenance (sc_instruction (decode_at (table_fetch t) a))))"
  shows "decode_at (table_fetch (table_set t x b)) a = decode_at (table_fetch t) a"
  using assms by (rule tf.decode_frame)

theorem table_set_frame_witness:
  "decode_at (table_fetch (table_set (table_invariant 0 0) 4 default_byte)) 0 =
   decode_at (table_fetch (table_invariant 0 0)) 0"
  using table_set_frame [of "table_invariant 0 0" 0 4 default_byte] decoded_invariant [of 0 0 0]
  by (simp add: kDd_def kFd_def)



end
