(* ===== verification/Z80_Effects.thy ===== *)
theory Z80_Effects
  imports Z80_Decode
begin

text \<open>
  The effect projection of \<^verbatim>\<open>libs/cpu/z80/src/effects.cpp\<close>: for an enumerated set of forms, the
  register writes, the memory store and the control successors of a decoded instruction. The
  \<open>Builder\<close> object is a function from the instruction to an optional effect; \<open>None\<close> is the
  source's \<open>return false\<close>.
\<close>

section \<open>Effects\<close>

datatype (plugins only: code) Reg =
  R_a | R_b | R_c | R_d | R_e | R_h | R_l | R_bc | R_de | R_hl | R_sp | R_ix | R_iy

fun is_wide :: "Reg \<Rightarrow> bool" where
  "is_wide R_bc = True" | "is_wide R_de = True" | "is_wide R_hl = True" | "is_wide R_sp = True"
| "is_wide R_ix = True" | "is_wide R_iy = True" | "is_wide _ = False"

datatype AddressKind = AK_absolute | AK_register_relative

record AddressExpr =
  ae_kind :: AddressKind
  ae_absolute :: u16
  ae_base :: Reg
  ae_offset :: int

datatype ValueKind = VK_constant | VK_copy | VK_add_constant | VK_load | VK_opaque

record ValueExpr =
  ve_kind :: ValueKind
  ve_constant :: u16
  ve_source :: Reg
  ve_delta :: int
  ve_address :: AddressExpr
  ve_width :: nat

record RegisterWrite =
  rw_target :: Reg
  rw_value :: ValueExpr

record MemoryStore =
  ms_address :: AddressExpr
  ms_width :: nat
  ms_value :: ValueExpr

datatype ControlKind =
  CK_fallthrough | CK_jump | CK_conditional_jump | CK_call | CK_return | CK_conditional_return | CK_computed

record Z80Effect =
  ef_supported :: bool
  ef_writes :: "RegisterWrite list"
  ef_store :: "MemoryStore option"
  ef_control :: ControlKind
  ef_fallthrough :: u16
  ef_target :: u16
  ef_computed_base :: Reg

definition default_effect :: Z80Effect where
  "default_effect =
     \<lparr>ef_supported = False, ef_writes = [], ef_store = None, ef_control = CK_fallthrough,
      ef_fallthrough = 0, ef_target = 0, ef_computed_base = R_hl\<rparr>"

section \<open>Expressions\<close>

definition default_address :: AddressExpr where
  "default_address = \<lparr>ae_kind = AK_absolute, ae_absolute = 0, ae_base = R_hl, ae_offset = 0\<rparr>"

definition opaque_value :: ValueExpr where
  "opaque_value =
     \<lparr>ve_kind = VK_opaque, ve_constant = 0, ve_source = R_a, ve_delta = 0,
      ve_address = default_address, ve_width = 1\<rparr>"

definition constant_value :: "u16 \<Rightarrow> ValueExpr" where
  "constant_value value = opaque_value\<lparr>ve_kind := VK_constant, ve_constant := value\<rparr>"

definition copy_value :: "Reg \<Rightarrow> ValueExpr" where
  "copy_value source = opaque_value\<lparr>ve_kind := VK_copy, ve_source := source\<rparr>"

definition add_value :: "Reg \<Rightarrow> int \<Rightarrow> ValueExpr" where
  "add_value source delta = opaque_value\<lparr>ve_kind := VK_add_constant, ve_source := source, ve_delta := delta\<rparr>"

definition absolute_address :: "u16 \<Rightarrow> AddressExpr" where
  "absolute_address address = default_address\<lparr>ae_kind := AK_absolute, ae_absolute := address\<rparr>"

definition relative_address :: "Reg \<Rightarrow> int \<Rightarrow> AddressExpr" where
  "relative_address base offset =
     default_address\<lparr>ae_kind := AK_register_relative, ae_base := base, ae_offset := offset\<rparr>"

definition load_value :: "AddressExpr \<Rightarrow> nat \<Rightarrow> ValueExpr" where
  "load_value address width = opaque_value\<lparr>ve_kind := VK_load, ve_address := address, ve_width := width\<rparr>"

section \<open>The builder\<close>

definition kR :: "Reg list" where "kR = [R_b, R_c, R_d, R_e, R_h, R_l, R_a, R_a]"
definition kRr :: "Reg list" where "kRr = [R_bc, R_de, R_hl, R_sp]"

text \<open>
  What the builder reads of the instruction: the immediate and the displacement (0 when the form
  has none), the registers of the \<open>y\<close>, \<open>z\<close> and \<open>p\<close> fields of the opcode, and the effect it starts from.
\<close>

record Builder =
  bd_imm :: u16
  bd_disp :: int
  bd_ry :: Reg
  bd_rz :: Reg
  bd_rp :: Reg
  bd_effect :: Z80Effect

definition builder_of :: "DecodedInstruction \<Rightarrow> Builder" where
  "builder_of i =
    (let op = pv_opcode (di_provenance i) in
     \<lparr>bd_imm = (case immediate i of Some v \<Rightarrow> v | None \<Rightarrow> 0),
      bd_disp = (case displacement i of Some v \<Rightarrow> v | None \<Rightarrow> 0),
      bd_ry = kR ! field_y op, bd_rz = kR ! field_z op, bd_rp = kRr ! (field_y op div 2),
      bd_effect = default_effect\<lparr>ef_fallthrough := pv_address (di_provenance i) + ucast (logical_length i)\<rparr>\<rparr>)"

definition eb_write :: "Reg \<Rightarrow> ValueExpr \<Rightarrow> Z80Effect \<Rightarrow> Z80Effect" where
  "eb_write target value e = e\<lparr>ef_writes := ef_writes e @ [\<lparr>rw_target = target, rw_value = value\<rparr>]\<rparr>"

definition eb_store :: "AddressExpr \<Rightarrow> nat \<Rightarrow> ValueExpr \<Rightarrow> Z80Effect \<Rightarrow> Z80Effect" where
  "eb_store address width value e =
     e\<lparr>ef_store := Some \<lparr>ms_address = address, ms_width = width, ms_value = value\<rparr>\<rparr>"

definition eb_jump :: "ControlKind \<Rightarrow> u16 \<Rightarrow> Z80Effect \<Rightarrow> Z80Effect" where
  "eb_jump kind target e = e\<lparr>ef_control := kind, ef_target := target\<rparr>"

definition eb_computed :: "Reg \<Rightarrow> Z80Effect \<Rightarrow> Z80Effect" where
  "eb_computed base e = e\<lparr>ef_control := CK_computed, ef_computed_base := base\<rparr>"

definition eb_relative_target :: "Builder \<Rightarrow> u16" where
  "eb_relative_target b =
     ef_fallthrough (bd_effect b) + of_int (sint (ucast (bd_imm b AND 0xFF) :: u8))"

definition base_ld :: "Builder \<Rightarrow> Operand \<Rightarrow> Operand \<Rightarrow> Z80Effect option" where
  "base_ld b d s =
    (let e = bd_effect b in
     if d = O_r \<and> s = O_n then Some (eb_write (bd_ry b) (constant_value (bd_imm b)) e)
     else if d = O_r \<and> s = O_r then Some (eb_write (bd_ry b) (copy_value (bd_rz b)) e)
     else if d = O_r \<and> s = O_hl_ind then Some (eb_write (bd_ry b) (load_value (relative_address R_hl 0) 1) e)
     else if d = O_hl_ind \<and> s = O_r then Some (eb_store (relative_address R_hl 0) 1 (copy_value (bd_rz b)) e)
     else if d = O_hl_ind \<and> s = O_n then Some (eb_store (relative_address R_hl 0) 1 (constant_value (bd_imm b)) e)
     else if d = O_rr \<and> s = O_nn then Some (eb_write (bd_rp b) (constant_value (bd_imm b)) e)
     else if d = O_a \<and> s = O_rr_ind then Some (eb_write R_a (load_value (relative_address (bd_rp b) 0) 1) e)
     else if d = O_rr_ind \<and> s = O_a then Some (eb_store (relative_address (bd_rp b) 0) 1 (copy_value R_a) e)
     else if d = O_a \<and> s = O_nn_ind then Some (eb_write R_a (load_value (absolute_address (bd_imm b)) 1) e)
     else if d = O_nn_ind \<and> s = O_a then Some (eb_store (absolute_address (bd_imm b)) 1 (copy_value R_a) e)
     else if d = O_hl \<and> s = O_nn_ind then Some (eb_write R_hl (load_value (absolute_address (bd_imm b)) 2) e)
     else if d = O_nn_ind \<and> s = O_hl then Some (eb_store (absolute_address (bd_imm b)) 2 (copy_value R_hl) e)
     else if d = O_sp \<and> s = O_hl then Some (eb_write R_sp (copy_value R_hl) e)
     else None)"

definition base_flow :: "Builder \<Rightarrow> Mnemonic \<Rightarrow> Operand \<Rightarrow> Operand \<Rightarrow> Z80Effect option" where
  "base_flow b m d s =
    (let e = bd_effect b in
     if m = M_jp then
       (if d = O_none \<and> s = O_nn then Some (eb_jump CK_jump (bd_imm b) e)
        else if d = O_cc \<and> s = O_nn then Some (eb_jump CK_conditional_jump (bd_imm b) e)
        else if d = O_none \<and> s = O_hl then Some (eb_computed R_hl e)
        else None)
     else if m = M_jr then
       Some (eb_jump (if d = O_none then CK_jump else CK_conditional_jump) (eb_relative_target b) e)
     else if m = M_djnz then
       Some (eb_jump CK_conditional_jump (eb_relative_target b) (eb_write R_b (add_value R_b (- 1)) e))
     else if m = M_call then
       (if d \<noteq> O_none then None
        else Some (eb_jump CK_call (bd_imm b)
          (eb_store (relative_address R_sp (- 2)) 2 (constant_value (ef_fallthrough e))
            (eb_write R_sp (add_value R_sp (- 2)) e))))
     else if m = M_ret then
       (if d = O_cc then Some (e\<lparr>ef_control := CK_conditional_return\<rparr>)
        else Some ((eb_write R_sp (add_value R_sp 2) e)\<lparr>ef_control := CK_return\<rparr>))
     else if is_alu m \<and> d = O_a \<and> (s = O_r \<or> s = O_n \<or> s = O_hl_ind) then
       Some (if m \<noteq> M_cp then eb_write R_a opaque_value e else e)
     else None)"

definition base_effect :: "Builder \<Rightarrow> Mnemonic \<Rightarrow> Operand \<Rightarrow> Operand \<Rightarrow> Z80Effect option" where
  "base_effect b m d s =
    (let e = bd_effect b in
     if m = M_nop then Some e
     else if m = M_ld then base_ld b d s
     else if m = M_inc \<or> m = M_dec then
       (let delta = (if m = M_inc then 1 else - 1) in
        if d = O_r then Some (eb_write (bd_ry b) (add_value (bd_ry b) delta) e)
        else if d = O_rr then Some (eb_write (bd_rp b) (add_value (bd_rp b) delta) e)
        else None)
     else base_flow b m d s)"

definition index_effect :: "Builder \<Rightarrow> bool \<Rightarrow> Mnemonic \<Rightarrow> Operand \<Rightarrow> Operand \<Rightarrow> Z80Effect option" where
  "index_effect b iy m d s =
    (let e = bd_effect b;
         x = (if iy then R_iy else R_ix);
         xr = (if iy then O_iy else O_ix);
         xd = (if iy then O_iy_d else O_ix_d) in
     if m = M_ld then
       (if d = xr \<and> s = O_nn then Some (eb_write x (constant_value (bd_imm b)) e)
        else if d = xr \<and> s = O_nn_ind then Some (eb_write x (load_value (absolute_address (bd_imm b)) 2) e)
        else if d = O_nn_ind \<and> s = xr then Some (eb_store (absolute_address (bd_imm b)) 2 (copy_value x) e)
        else if d = O_r \<and> s = xd then
          Some (eb_write (bd_ry b) (load_value (relative_address x (bd_disp b)) 1) e)
        else if d = xd \<and> s = O_r then
          Some (eb_store (relative_address x (bd_disp b)) 1 (copy_value (bd_rz b)) e)
        else if d = xd \<and> s = O_n then
          Some (eb_store (relative_address x (bd_disp b)) 1 (constant_value (bd_imm b)) e)
        else if d = O_sp \<and> s = xr then Some (eb_write R_sp (copy_value x) e)
        else None)
     else if m = M_inc \<or> m = M_dec then
       (if d = xr then Some (eb_write x (add_value x (if m = M_inc then 1 else - 1)) e) else None)
     else if m = M_jp then
       (if d = O_none \<and> s = xr then Some (eb_computed x e) else None)
     else if is_alu m \<and> d = O_a \<and> s = xd then
       Some (if m \<noteq> M_cp then eb_write R_a opaque_value e else e)
     else None)"

definition project_effect :: "DecodedInstruction \<Rightarrow> Z80Effect" where
  "project_effect i =
    (if di_form i = kNoForm then default_effect
     else
       (let desc = form_descriptor (di_form i);
            m = fd_mnemonic desc; d = fd_dst desc; s = fd_src desc; b = builder_of i;
            r = (if fd_space desc = S_base then base_effect b m d s
                 else if fd_space desc = S_dd \<or> fd_space desc = S_fd
                   then index_effect b (fd_space desc = S_fd) m d s
                 else None)
        in case r of None \<Rightarrow> default_effect | Some e \<Rightarrow> e\<lparr>ef_supported := True\<rparr>))"

end
