(* ===== verification/Z80_Encode.thy ===== *)
theory Z80_Encode
  imports Z80_Effects
begin

text \<open>
  An assembler for the base-space instructions whose effect \<^verbatim>\<open>libs/cpu/z80/src/effects.cpp\<close>
  projects, as an abstract specification: the encoding and the documented effect of each
  instruction. Decoding its bytes and projecting the decoded form yields that effect, through the
  form table, the decoder and the projection together.
\<close>

section \<open>Descriptors of classified bytes\<close>

lemma form_desc_key:
  assumes "has_form (cl_kind (classify_key sp b))"
  shows "fd_space (form_descriptor (bc_form (classify_opcode_byte sp b))) = key_space (cl_key (classify_key sp b))"
    "fd_mnemonic (form_descriptor (bc_form (classify_opcode_byte sp b))) = key_mnemonic (cl_key (classify_key sp b))"
    "fd_dst (form_descriptor (bc_form (classify_opcode_byte sp b))) = key_dst (cl_key (classify_key sp b))"
    "fd_src (form_descriptor (bc_form (classify_opcode_byte sp b))) = key_src (cl_key (classify_key sp b))"
    "bc_form (classify_opcode_byte sp b) \<noteq> kNoForm"
    "fd_immediate_size (form_descriptor (bc_form (classify_opcode_byte sp b))) =
       (if key_space (cl_key (classify_key sp b)) \<in> {S_ddcb, S_fdcb} then 0
        else immediate_bytes (cl_key (classify_key sp b)))"
proof -
  note k = form_descriptor_classify(1,2) [OF assms]
  show "fd_space (form_descriptor (bc_form (classify_opcode_byte sp b))) = key_space (cl_key (classify_key sp b))"
    "fd_mnemonic (form_descriptor (bc_form (classify_opcode_byte sp b))) = key_mnemonic (cl_key (classify_key sp b))"
    "fd_dst (form_descriptor (bc_form (classify_opcode_byte sp b))) = key_dst (cl_key (classify_key sp b))"
    "fd_src (form_descriptor (bc_form (classify_opcode_byte sp b))) = key_src (cl_key (classify_key sp b))"
    "fd_immediate_size (form_descriptor (bc_form (classify_opcode_byte sp b))) =
       (if key_space (cl_key (classify_key sp b)) \<in> {S_ddcb, S_fdcb} then 0
        else immediate_bytes (cl_key (classify_key sp b)))"
    using k by (simp_all add: form_descriptor_nth describe_fields)
  have "unat (bc_form (classify_opcode_byte sp b)) < 1792" using k(1) form_keys_length by linarith
  then show "bc_form (classify_opcode_byte sp b) \<noteq> kNoForm" by (auto simp: kNoForm_def)
qed

section \<open>Decoding an unprefixed instruction\<close>

text \<open>The bytes at \<open>a\<close> are code and start with \<open>bs\<close>.\<close>

definition code_at :: "LogicalFetch \<Rightarrow> u16 \<Rightarrow> u8 list \<Rightarrow> bool" where
  "code_at get a bs \<longleftrightarrow>
     (\<forall>j < length bs. fb_kind (get (a + of_nat j)) = FK_byte \<and> fb_value (get (a + of_nat j)) = bs ! j)"

lemma code_at_Cons:
  "code_at get a (b # bs) \<longleftrightarrow> fb_kind (get a) = FK_byte \<and> fb_value (get a) = b \<and> code_at get (a + 1) bs"
proof
  assume *: "code_at get a (b # bs)"
  have "fb_kind (get (a + 1 + of_nat j)) = FK_byte \<and> fb_value (get (a + 1 + of_nat j)) = bs ! j"
    if "j < length bs" for j
    using * [unfolded code_at_def, THEN spec, of "Suc j"] that by (simp add: add.assoc)
  then show "fb_kind (get a) = FK_byte \<and> fb_value (get a) = b \<and> code_at get (a + 1) bs"
    using * [unfolded code_at_def, THEN spec, of 0] by (simp add: code_at_def)
next
  assume *: "fb_kind (get a) = FK_byte \<and> fb_value (get a) = b \<and> code_at get (a + 1) bs"
  then show "code_at get a (b # bs)"
    by (auto simp: code_at_def less_Suc_eq_0_disj add.assoc)
qed

text \<open>What decoding an unprefixed opcode with its immediate bytes returns.\<close>

definition plain_decode :: "LogicalFetch \<Rightarrow> u16 \<Rightarrow> u8 \<Rightarrow> u8 list \<Rightarrow> DecodedInstruction \<Rightarrow> bool" where
  "plain_decode get a b imm i \<longleftrightarrow>
     sc_kind (decode_at get a) = SK_decoded \<and> i = sc_instruction (decode_at get a) \<and>
     di_form i = bc_form (classify_opcode_byte S_base b) \<and> pv_opcode (di_provenance i) = b \<and>
     pv_address (di_provenance i) = a \<and> logical_length i = 1 + of_nat (length imm) \<and>
     immediate i = (case imm of [] \<Rightarrow> None | [n] \<Rightarrow> Some (ucast n)
       | lo # hi # _ \<Rightarrow> Some (ucast lo OR push_bit 8 (ucast hi)))"

lemma base_layout:
  assumes "cl_kind (classify_base b) = BK_form"
  defines "f \<equiv> form_descriptor (bc_form (classify_opcode_byte S_base b))"
  shows "fd_space f = S_base" "fd_opcode_index f = 0" "fd_displacement_index f = kNoIndex"
    "fd_length f = 1 + immediate_bytes (cl_key (classify_base b))"
    "fd_immediate_size f = immediate_bytes (cl_key (classify_base b))"
    "fd_immediate_index f = (if immediate_bytes (cl_key (classify_base b)) = 0 then kNoIndex else 1)"
    "immediate_bytes (cl_key (classify_base b)) \<le> 2"
proof -
  have h: "has_form (cl_kind (classify_key S_base b))" using assms(1) by (simp add: classify_key_def)
  have wf: "key_wf (cl_key (classify_base b))"
    using cl_wf_base [of b] assms(1) by (simp add: cl_wf_def)
  note d = form_desc_space [OF h, folded f_def]
  show sp: "fd_space f = S_base" using d(1) assms(1) by (simp add: classify_key_def)
  show o0: "fd_opcode_index f = 0" using d(2) sp by simp
  have nd: "\<not> has_displacement (cl_key (classify_base b))" using wf by (simp add: key_wf_def)
  then show di: "fd_displacement_index f = kNoIndex" using d(3) sp by (simp add: classify_key_def)
  show "fd_immediate_index f = (if immediate_bytes (cl_key (classify_base b)) = 0 then kNoIndex else 1)"
    using d(4) sp o0 nd by (simp add: classify_key_def)
  show im: "fd_immediate_size f = immediate_bytes (cl_key (classify_base b))"
    using form_desc_key(6) [OF h] by (simp add: f_def classify_key_def)
  show "immediate_bytes (cl_key (classify_base b)) \<le> 2" using wf by (simp add: key_wf_def)
  show "fd_length f = 1 + immediate_bytes (cl_key (classify_base b))"
    using form_desc_layout [OF h, folded f_def] sp o0 di im by (auto simp: layout_ok_def)
qed

lemma plain_decodeI:
  assumes "cl_kind (classify_base b) = BK_form" "length imm = immediate_bytes (cl_key (classify_base b))"
    "code_at get a (b # imm)"
  shows "plain_decode get a b imm (sc_instruction (decode_at get a))"
proof -
  let ?n = "length imm" and ?i = "bc_form (classify_opcode_byte S_base b)"
  let ?f = "form_descriptor ?i"
  note l = base_layout [OF assms(1)]
  have op: "fb_kind (get a) = FK_byte" "fb_value (get a) = b" "code_at get (a + 1) imm"
    using assms(3) by (auto simp: code_at_Cons)
  have np: "\<not> is_prefix (get a)"
    using assms(1) op by (auto simp: is_prefix_def classify_base_kind kDd_def kFd_def split: if_splits)
  then have nl: "no_lock get" by (auto simp: no_lock_def)
  have dec: "decode_at get a = finish get a (get a) 0 EP_none a"
    using nl run_length_0 [of get a, OF np] by (simp add: decode_at_unfold run_prefix_def run_end_def)
  have sel: "select_form get 0 EP_none a (get a) =
      Inr \<lparr>sel_form = ?i, sel_consumed = 1, sel_extra = 0, sel_opcode = b\<rparr>"
    using assms(1) op by (simp add: select_form_def lead_space_def classify_key_def Let_def)
  have code: "fb_kind (get (a + 1 + of_nat j)) = FK_byte \<and> fb_value (get (a + 1 + of_nat j)) = imm ! j"
    if "j < ?n" for j using op(3) that by (simp add: code_at_def)
  have n2: "?n \<le> 2" using l(7) assms(2) by simp
  obtain ops where ops: "read_operands get (a + 1) 0 ?n [0, 0, 0] = Inr ops"
    "\<forall>j < ?n. ops ! j = imm ! j"
    using read_operands_spec [of 0 ?n "[0, 0, 0]" get "a + 1"] n2 code
    by (cases "read_operands get (a + 1) 0 ?n [0, 0, 0]") auto
  have res: "decode_at get a = decoded_result a (get a) 0 EP_none
      \<lparr>sel_form = ?i, sel_consumed = 1, sel_extra = 0, sel_opcode = b\<rparr> ops ?n (1 + ?n)"
    unfolding dec finish_def Let_def sel using op l assms(2) ops(1) by simp
  have "immediate (sc_instruction (decode_at get a)) = (case imm of [] \<Rightarrow> None | [n] \<Rightarrow> Some (ucast n)
       | lo # hi # _ \<Rightarrow> Some (ucast lo OR push_bit 8 (ucast hi)))"
  proof (cases imm)
    case Nil
    then show ?thesis using l assms(2) by (simp add: res immediate_def)
  next
    case (Cons lo r)
    then show ?thesis using l assms(2) ops(2) n2
      by (cases r) (auto simp: res immediate_def kNoIndex_def Let_def)
  qed
  moreover have "logical_length (sc_instruction (decode_at get a)) = 1 + of_nat ?n"
    using l assms(2) by (simp add: res logical_length_def)
  ultimately show ?thesis unfolding plain_decode_def by (simp add: res)
qed

text \<open>
  Projecting it: the supported effect is a function of the mnemonic, the operand classes, the
  fields of the opcode and the immediate.
\<close>

definition plain_builder :: "u16 \<Rightarrow> u8 \<Rightarrow> u8 list \<Rightarrow> Builder" where
  "plain_builder a b imm =
     \<lparr>bd_imm = (case imm of [] \<Rightarrow> 0 | [n] \<Rightarrow> ucast n | lo # hi # _ \<Rightarrow> ucast lo OR push_bit 8 (ucast hi)),
      bd_disp = 0, bd_ry = kR ! field_y b, bd_rz = kR ! field_z b, bd_rp = kRr ! (field_y b div 2),
      bd_effect = default_effect\<lparr>ef_fallthrough := a + of_nat (Suc (length imm))\<rparr>\<rparr>"

lemma ucast_of_nat_u16: "ucast (of_nat n :: u32) = (of_nat n :: u16)"
  unfolding unsigned_of_nat by (simp add: word_of_nat_eq_iff)

lemma project_plain:
  assumes "cl_kind (classify_base b) = BK_form" "plain_decode get a b imm i"
  shows "project_effect i =
    (case base_effect (plain_builder a b imm) (key_mnemonic (cl_key (classify_base b)))
        (key_dst (cl_key (classify_base b))) (key_src (cl_key (classify_base b))) of
       None \<Rightarrow> default_effect | Some e \<Rightarrow> e\<lparr>ef_supported := True\<rparr>)"
proof -
  have h: "has_form (cl_kind (classify_key S_base b))" using assms(1) by (simp add: classify_key_def)
  note k = form_desc_key [OF h]
  have i: "di_form i = bc_form (classify_opcode_byte S_base b)" "pv_opcode (di_provenance i) = b"
    "pv_address (di_provenance i) = a" "logical_length i = 1 + of_nat (length imm)"
    "immediate i = (case imm of [] \<Rightarrow> None | [n] \<Rightarrow> Some (ucast n)
       | lo # hi # _ \<Rightarrow> Some (ucast lo OR push_bit 8 (ucast hi)))"
    using assms(2) unfolding plain_decode_def by blast+
  have "displacement i = None"
    using base_layout(3) [OF assms(1)] by (simp add: displacement_def i(1))
  moreover have "ucast (1 + of_nat (length imm) :: u32) = (of_nat (Suc (length imm)) :: u16)"
    using ucast_of_nat_u16 [of "Suc (length imm)"] by simp
  ultimately have "builder_of i = plain_builder a b imm"
    by (simp add: builder_of_def plain_builder_def Let_def i split: list.split)
  then show ?thesis
    using k base_layout(1) [OF assms(1)] by (simp add: project_effect_def i(1) Let_def classify_key_def)
qed

section \<open>The assembler\<close>

datatype instr =
  Nop
| Ld_r_n nat u8 | Ld_r_r nat nat | Ld_r_hl nat | Ld_hl_r nat | Ld_hl_n u8
| Ld_rr_nn nat u16 | Ld_a_rr nat | Ld_rr_a nat | Ld_a_nn u16 | Ld_nn_a u16
| Ld_hl_nn u16 | Ld_nn_hl u16 | Ld_sp_hl
| Inc_r nat | Dec_r nat | Inc_rr nat | Dec_rr nat
| Alu_r nat nat | Alu_hl nat | Alu_n nat u8
| Jp u16 | Jp_cc nat u16 | Jp_hl | Jr u8 | Jr_cc nat u8 | Djnz u8
| Call u16 | Ret | Ret_cc nat

text \<open>Opcode bytes from their fields; 16-bit immediates are little-endian.\<close>

definition opc :: "nat \<Rightarrow> nat \<Rightarrow> nat \<Rightarrow> u8" where
  "opc x y z = of_nat (64 * x + 8 * y + z)"

definition le16 :: "u16 \<Rightarrow> u8 list" where
  "le16 nn = [ucast nn, ucast (drop_bit 8 nn)]"

fun encode :: "instr \<Rightarrow> u8 list" where
  "encode Nop = [opc 0 0 0]"
| "encode (Ld_r_n y n) = [opc 0 y 6, n]"
| "encode (Ld_r_r y z) = [opc 1 y z]"
| "encode (Ld_r_hl y) = [opc 1 y 6]"
| "encode (Ld_hl_r z) = [opc 1 6 z]"
| "encode (Ld_hl_n n) = [opc 0 6 6, n]"
| "encode (Ld_rr_nn p nn) = opc 0 (2 * p) 1 # le16 nn"
| "encode (Ld_a_rr p) = [opc 0 (2 * p + 1) 2]"
| "encode (Ld_rr_a p) = [opc 0 (2 * p) 2]"
| "encode (Ld_a_nn nn) = opc 0 7 2 # le16 nn"
| "encode (Ld_nn_a nn) = opc 0 6 2 # le16 nn"
| "encode (Ld_hl_nn nn) = opc 0 5 2 # le16 nn"
| "encode (Ld_nn_hl nn) = opc 0 4 2 # le16 nn"
| "encode Ld_sp_hl = [opc 3 7 1]"
| "encode (Inc_r y) = [opc 0 y 4]"
| "encode (Dec_r y) = [opc 0 y 5]"
| "encode (Inc_rr p) = [opc 0 (2 * p) 3]"
| "encode (Dec_rr p) = [opc 0 (2 * p + 1) 3]"
| "encode (Alu_r y z) = [opc 2 y z]"
| "encode (Alu_hl y) = [opc 2 y 6]"
| "encode (Alu_n y n) = [opc 3 y 6, n]"
| "encode (Jp nn) = opc 3 0 3 # le16 nn"
| "encode (Jp_cc cc nn) = opc 3 cc 2 # le16 nn"
| "encode Jp_hl = [opc 3 5 1]"
| "encode (Jr e) = [opc 0 3 0, e]"
| "encode (Jr_cc cc e) = [opc 0 (4 + cc) 0, e]"
| "encode (Djnz e) = [opc 0 2 0, e]"
| "encode (Call nn) = opc 3 1 5 # le16 nn"
| "encode Ret = [opc 3 1 1]"
| "encode (Ret_cc cc) = [opc 3 cc 0]"

fun wf_instr :: "instr \<Rightarrow> bool" where
  "wf_instr (Ld_r_n y n) \<longleftrightarrow> y < 8 \<and> y \<noteq> 6"
| "wf_instr (Ld_r_r y z) \<longleftrightarrow> y < 8 \<and> y \<noteq> 6 \<and> z < 8 \<and> z \<noteq> 6"
| "wf_instr (Ld_r_hl y) \<longleftrightarrow> y < 8 \<and> y \<noteq> 6"
| "wf_instr (Ld_hl_r z) \<longleftrightarrow> z < 8 \<and> z \<noteq> 6"
| "wf_instr (Ld_rr_nn p nn) \<longleftrightarrow> p < 4"
| "wf_instr (Ld_a_rr p) \<longleftrightarrow> p < 2"
| "wf_instr (Ld_rr_a p) \<longleftrightarrow> p < 2"
| "wf_instr (Inc_r y) \<longleftrightarrow> y < 8 \<and> y \<noteq> 6"
| "wf_instr (Dec_r y) \<longleftrightarrow> y < 8 \<and> y \<noteq> 6"
| "wf_instr (Inc_rr p) \<longleftrightarrow> p < 4"
| "wf_instr (Dec_rr p) \<longleftrightarrow> p < 4"
| "wf_instr (Alu_r y z) \<longleftrightarrow> y < 8 \<and> z < 8 \<and> z \<noteq> 6"
| "wf_instr (Alu_hl y) \<longleftrightarrow> y < 8"
| "wf_instr (Alu_n y n) \<longleftrightarrow> y < 8"
| "wf_instr (Jp_cc cc nn) \<longleftrightarrow> cc < 8"
| "wf_instr (Jr_cc cc e) \<longleftrightarrow> cc < 4"
| "wf_instr (Ret_cc cc) \<longleftrightarrow> cc < 8"
| "wf_instr _ \<longleftrightarrow> True"

text \<open>The documented effect at address \<open>a\<close>; \<open>n\<close> is the address of the next instruction.\<close>

definition plain_effect :: "u16 \<Rightarrow> Z80Effect" where
  "plain_effect n = default_effect\<lparr>ef_supported := True, ef_fallthrough := n\<rparr>"

definition writes :: "Reg \<Rightarrow> ValueExpr \<Rightarrow> Z80Effect \<Rightarrow> Z80Effect" where
  "writes r v e = e\<lparr>ef_writes := [\<lparr>rw_target = r, rw_value = v\<rparr>]\<rparr>"

definition stores :: "AddressExpr \<Rightarrow> nat \<Rightarrow> ValueExpr \<Rightarrow> Z80Effect \<Rightarrow> Z80Effect" where
  "stores a w v e = e\<lparr>ef_store := Some \<lparr>ms_address = a, ms_width = w, ms_value = v\<rparr>\<rparr>"

definition goes :: "ControlKind \<Rightarrow> u16 \<Rightarrow> Z80Effect \<Rightarrow> Z80Effect" where
  "goes k t e = e\<lparr>ef_control := k, ef_target := t\<rparr>"

definition jr_target :: "u16 \<Rightarrow> u8 \<Rightarrow> u16" where
  "jr_target n e = n + of_int (sint e)"

fun instr_effect :: "u16 \<Rightarrow> instr \<Rightarrow> Z80Effect" where
  "instr_effect n Nop = plain_effect n"
| "instr_effect n (Ld_r_n y v) = writes (kR ! y) (constant_value (ucast v)) (plain_effect n)"
| "instr_effect n (Ld_r_r y z) = writes (kR ! y) (copy_value (kR ! z)) (plain_effect n)"
| "instr_effect n (Ld_r_hl y) = writes (kR ! y) (load_value (relative_address R_hl 0) 1) (plain_effect n)"
| "instr_effect n (Ld_hl_r z) = stores (relative_address R_hl 0) 1 (copy_value (kR ! z)) (plain_effect n)"
| "instr_effect n (Ld_hl_n v) = stores (relative_address R_hl 0) 1 (constant_value (ucast v)) (plain_effect n)"
| "instr_effect n (Ld_rr_nn p nn) = writes (kRr ! p) (constant_value nn) (plain_effect n)"
| "instr_effect n (Ld_a_rr p) = writes R_a (load_value (relative_address (kRr ! p) 0) 1) (plain_effect n)"
| "instr_effect n (Ld_rr_a p) = stores (relative_address (kRr ! p) 0) 1 (copy_value R_a) (plain_effect n)"
| "instr_effect n (Ld_a_nn nn) = writes R_a (load_value (absolute_address nn) 1) (plain_effect n)"
| "instr_effect n (Ld_nn_a nn) = stores (absolute_address nn) 1 (copy_value R_a) (plain_effect n)"
| "instr_effect n (Ld_hl_nn nn) = writes R_hl (load_value (absolute_address nn) 2) (plain_effect n)"
| "instr_effect n (Ld_nn_hl nn) = stores (absolute_address nn) 2 (copy_value R_hl) (plain_effect n)"
| "instr_effect n Ld_sp_hl = writes R_sp (copy_value R_hl) (plain_effect n)"
| "instr_effect n (Inc_r y) = writes (kR ! y) (add_value (kR ! y) 1) (plain_effect n)"
| "instr_effect n (Dec_r y) = writes (kR ! y) (add_value (kR ! y) (- 1)) (plain_effect n)"
| "instr_effect n (Inc_rr p) = writes (kRr ! p) (add_value (kRr ! p) 1) (plain_effect n)"
| "instr_effect n (Dec_rr p) = writes (kRr ! p) (add_value (kRr ! p) (- 1)) (plain_effect n)"
| "instr_effect n (Alu_r y z) = (if y = 7 then plain_effect n else writes R_a opaque_value (plain_effect n))"
| "instr_effect n (Alu_hl y) = (if y = 7 then plain_effect n else writes R_a opaque_value (plain_effect n))"
| "instr_effect n (Alu_n y v) = (if y = 7 then plain_effect n else writes R_a opaque_value (plain_effect n))"
| "instr_effect n (Jp nn) = goes CK_jump nn (plain_effect n)"
| "instr_effect n (Jp_cc cc nn) = goes CK_conditional_jump nn (plain_effect n)"
| "instr_effect n Jp_hl = (plain_effect n)\<lparr>ef_control := CK_computed, ef_computed_base := R_hl\<rparr>"
| "instr_effect n (Jr e) = goes CK_jump (jr_target n e) (plain_effect n)"
| "instr_effect n (Jr_cc cc e) = goes CK_conditional_jump (jr_target n e) (plain_effect n)"
| "instr_effect n (Djnz e) =
     writes R_b (add_value R_b (- 1)) (goes CK_conditional_jump (jr_target n e) (plain_effect n))"
| "instr_effect n (Call nn) =
     writes R_sp (add_value R_sp (- 2)) (stores (relative_address R_sp (- 2)) 2 (constant_value n)
       (goes CK_call nn (plain_effect n)))"
| "instr_effect n Ret = (writes R_sp (add_value R_sp 2) (plain_effect n))\<lparr>ef_control := CK_return\<rparr>"
| "instr_effect n (Ret_cc cc) = (plain_effect n)\<lparr>ef_control := CK_conditional_return\<rparr>"

lemma base8_unique: "8 * p + u = 8 * q + v \<Longrightarrow> u < 8 \<Longrightarrow> v < 8 \<Longrightarrow> p = q \<and> u = (v :: nat)"
  by presburger

lemma opc_fields:
  assumes "x < 4" "y < 8" "z < 8"
  shows "field_x (opc x y z) = x" "field_y (opc x y z) = y" "field_z (opc x y z) = z"
proof -
  have "unat (opc x y z) = 64 * x + 8 * y + z"
    unfolding opc_def by (rule unat_of_nat_u8) (use assms in simp)
  then have "8 * (8 * field_x (opc x y z) + field_y (opc x y z)) + field_z (opc x y z) = 8 * (8 * x + y) + z"
    using byte_fields(4) [of "opc x y z"] by simp
  from base8_unique [OF this byte_fields(3) assms(3)]
  have 1: "8 * field_x (opc x y z) + field_y (opc x y z) = 8 * x + y" "field_z (opc x y z) = z" by simp_all
  from base8_unique [OF 1(1) byte_fields(2) assms(2)] 1(2)
  show "field_x (opc x y z) = x" "field_y (opc x y z) = y" "field_z (opc x y z) = z" by simp_all
qed

lemma le16_value: "ucast (ucast (nn :: u16) :: u8) OR push_bit 8 (ucast (ucast (drop_bit 8 nn) :: u8)) = nn"
  by (rule bit_word_eqI) (auto simp: bit_simps)

lemma sint_imm_byte: "ucast ((ucast (e :: u8) :: u16) AND 0xFF) = e"
proof -
  have "ucast ((ucast e :: u16) AND mask 8) = e" by (rule bit_word_eqI) (auto simp: bit_simps)
  then show ?thesis by (simp add: mask_eq_exp_minus_1)
qed

text \<open>The classification of each opcode of the assembler.\<close>

lemma kAlu_nth: "y < 8 \<Longrightarrow> is_alu (kAlu ! y) \<and> (kAlu ! y = M_cp \<longleftrightarrow> y = 7) \<and> kAlu ! y \<noteq> M_nop \<and>
    kAlu ! y \<noteq> M_ld \<and> kAlu ! y \<noteq> M_inc \<and> kAlu ! y \<noteq> M_dec \<and> kAlu ! y \<noteq> M_jp \<and> kAlu ! y \<noteq> M_jr \<and>
    kAlu ! y \<noteq> M_djnz \<and> kAlu ! y \<noteq> M_call \<and> kAlu ! y \<noteq> M_ret"
  by (rule nth_cases_8 [of y]) (simp_all add: kAlu_def is_alu_def)

lemma classify_opc:
  assumes "x < 4" "y < 8" "z < 8"
  shows "classify_base (opc x y z) =
    (if x = 0 then base_x0 y z (y div 2) (y mod 2)
     else if x = 1 then
       (if z = 6 \<and> y = 6 then mk S_base M_halt O_none O_none
        else if z = 6 then mk S_base M_ld O_r O_hl_ind
        else if y = 6 then mk S_base M_ld O_hl_ind O_r
        else mk S_base M_ld O_r O_r)
     else if x = 2 then mk S_base (kAlu ! y) O_a (if z = 6 then O_hl_ind else O_r)
     else base_x3 y z (y div 2) (y mod 2))"
  using opc_fields [OF assms] by (simp add: classify_base_def Let_def)

definition encodes :: "LogicalFetch \<Rightarrow> u16 \<Rightarrow> instr \<Rightarrow> bool" where
  "encodes get a i \<longleftrightarrow> sc_kind (decode_at get a) = SK_decoded \<and>
     project_effect (sc_instruction (decode_at get a)) = instr_effect (a + of_nat (length (encode i))) i"

text \<open>The one shape of all cases: the classification of the opcode decides everything.\<close>

lemma encodesI:
  assumes "code_at get a (b # imm)" "encode i = b # imm" "classify_base b = mk S_base m d s"
    "length imm = operand_imm_size d + operand_imm_size s"
    "base_effect (plain_builder a b imm) m d s = Some e"
    "e\<lparr>ef_supported := True\<rparr> = instr_effect (a + of_nat (Suc (length imm))) i"
  shows "encodes get a i"
proof -
  have k: "cl_kind (classify_base b) = BK_form" by (simp add: assms(3))
  have "length imm = immediate_bytes (cl_key (classify_base b))"
    using assms(4) by (simp add: assms(3) immediate_bytes_def)
  from plain_decodeI [OF k this assms(1)] have p: "plain_decode get a b imm (sc_instruction (decode_at get a))" .
  then have "sc_kind (decode_at get a) = SK_decoded" by (simp add: plain_decode_def)
  moreover have "project_effect (sc_instruction (decode_at get a)) = e\<lparr>ef_supported := True\<rparr>"
    using project_plain [OF k p] assms(3,5) by simp
  ultimately show ?thesis using assms(2,6) by (simp add: encodes_def)
qed

lemmas effect_defs =
  base_effect_def base_ld_def base_flow_def eb_write_def eb_store_def eb_jump_def eb_computed_def
  eb_relative_target_def plain_effect_def writes_def stores_def goes_def jr_target_def Let_def
  default_effect_def le16_value sint_imm_byte plain_builder_def

lemmas classify_defs = classify_opc base_x0_def base_x3_def operand_imm_size_def opc_fields le16_def

lemma encodes_nop: "code_at get a (encode Nop) \<Longrightarrow> encodes get a Nop"
  by (rule encodesI [of get a "opc 0 0 0" "[]" _ M_nop O_none O_none]) (simp add: classify_defs effect_defs)+

lemma encodes_ld_r_n: "y < 8 \<Longrightarrow> y \<noteq> 6 \<Longrightarrow> code_at get a (encode (Ld_r_n y n)) \<Longrightarrow> encodes get a (Ld_r_n y n)"
  by (rule encodesI [of get a "opc 0 y 6" "[n]" _ M_ld O_r O_n]) (simp add: classify_defs effect_defs)+

lemma encodes_ld_r_r: "y < 8 \<Longrightarrow> y \<noteq> 6 \<Longrightarrow> z < 8 \<Longrightarrow> z \<noteq> 6 \<Longrightarrow> code_at get a (encode (Ld_r_r y z)) \<Longrightarrow> encodes get a (Ld_r_r y z)"
  by (rule encodesI [of get a "opc 1 y z" "[]" _ M_ld O_r O_r]) (simp add: classify_defs effect_defs)+

lemma encodes_ld_r_hl: "y < 8 \<Longrightarrow> y \<noteq> 6 \<Longrightarrow> code_at get a (encode (Ld_r_hl y)) \<Longrightarrow> encodes get a (Ld_r_hl y)"
  by (rule encodesI [of get a "opc 1 y 6" "[]" _ M_ld O_r O_hl_ind]) (simp add: classify_defs effect_defs)+

lemma encodes_ld_hl_r: "z < 8 \<Longrightarrow> z \<noteq> 6 \<Longrightarrow> code_at get a (encode (Ld_hl_r z)) \<Longrightarrow> encodes get a (Ld_hl_r z)"
  by (rule encodesI [of get a "opc 1 6 z" "[]" _ M_ld O_hl_ind O_r]) (simp add: classify_defs effect_defs)+

lemma encodes_ld_hl_n: "code_at get a (encode (Ld_hl_n n)) \<Longrightarrow> encodes get a (Ld_hl_n n)"
  by (rule encodesI [of get a "opc 0 6 6" "[n]" _ M_ld O_hl_ind O_n]) (simp add: classify_defs effect_defs)+

lemma encodes_ld_rr_nn: "p < 4 \<Longrightarrow> code_at get a (encode (Ld_rr_nn p nn)) \<Longrightarrow> encodes get a (Ld_rr_nn p nn)"
  by (rule encodesI [of get a "opc 0 (2 * p) 1" "le16 nn" _ M_ld O_rr O_nn]) (simp add: classify_defs effect_defs)+

lemma encodes_ld_a_rr: "p < 2 \<Longrightarrow> code_at get a (encode (Ld_a_rr p)) \<Longrightarrow> encodes get a (Ld_a_rr p)"
  by (rule encodesI [of get a "opc 0 (2 * p + 1) 2" "[]" _ M_ld O_a O_rr_ind]) (simp add: classify_defs effect_defs)+

lemma encodes_ld_rr_a: "p < 2 \<Longrightarrow> code_at get a (encode (Ld_rr_a p)) \<Longrightarrow> encodes get a (Ld_rr_a p)"
  by (rule encodesI [of get a "opc 0 (2 * p) 2" "[]" _ M_ld O_rr_ind O_a]) (simp add: classify_defs effect_defs)+

lemma encodes_ld_a_nn: "code_at get a (encode (Ld_a_nn nn)) \<Longrightarrow> encodes get a (Ld_a_nn nn)"
  by (rule encodesI [of get a "opc 0 7 2" "le16 nn" _ M_ld O_a O_nn_ind]) (simp add: classify_defs effect_defs)+

lemma encodes_ld_nn_a: "code_at get a (encode (Ld_nn_a nn)) \<Longrightarrow> encodes get a (Ld_nn_a nn)"
  by (rule encodesI [of get a "opc 0 6 2" "le16 nn" _ M_ld O_nn_ind O_a]) (simp add: classify_defs effect_defs)+

lemma encodes_ld_hl_nn: "code_at get a (encode (Ld_hl_nn nn)) \<Longrightarrow> encodes get a (Ld_hl_nn nn)"
  by (rule encodesI [of get a "opc 0 5 2" "le16 nn" _ M_ld O_hl O_nn_ind]) (simp add: classify_defs effect_defs)+

lemma encodes_ld_nn_hl: "code_at get a (encode (Ld_nn_hl nn)) \<Longrightarrow> encodes get a (Ld_nn_hl nn)"
  by (rule encodesI [of get a "opc 0 4 2" "le16 nn" _ M_ld O_nn_ind O_hl]) (simp add: classify_defs effect_defs)+

lemma encodes_ld_sp_hl: "code_at get a (encode Ld_sp_hl) \<Longrightarrow> encodes get a Ld_sp_hl"
  by (rule encodesI [of get a "opc 3 7 1" "[]" _ M_ld O_sp O_hl]) (simp add: classify_defs effect_defs)+

lemma encodes_inc_r: "y < 8 \<Longrightarrow> y \<noteq> 6 \<Longrightarrow> code_at get a (encode (Inc_r y)) \<Longrightarrow> encodes get a (Inc_r y)"
  by (rule encodesI [of get a "opc 0 y 4" "[]" _ M_inc O_r O_none]) (simp add: classify_defs effect_defs)+

lemma encodes_dec_r: "y < 8 \<Longrightarrow> y \<noteq> 6 \<Longrightarrow> code_at get a (encode (Dec_r y)) \<Longrightarrow> encodes get a (Dec_r y)"
  by (rule encodesI [of get a "opc 0 y 5" "[]" _ M_dec O_r O_none]) (simp add: classify_defs effect_defs)+

lemma encodes_inc_rr: "p < 4 \<Longrightarrow> code_at get a (encode (Inc_rr p)) \<Longrightarrow> encodes get a (Inc_rr p)"
  by (rule encodesI [of get a "opc 0 (2 * p) 3" "[]" _ M_inc O_rr O_none]) (simp add: classify_defs effect_defs)+

lemma encodes_dec_rr: "p < 4 \<Longrightarrow> code_at get a (encode (Dec_rr p)) \<Longrightarrow> encodes get a (Dec_rr p)"
  by (rule encodesI [of get a "opc 0 (2 * p + 1) 3" "[]" _ M_dec O_rr O_none]) (simp add: classify_defs effect_defs)+

lemma encodes_alu_r: "y < 8 \<Longrightarrow> z < 8 \<Longrightarrow> z \<noteq> 6 \<Longrightarrow> code_at get a (encode (Alu_r y z)) \<Longrightarrow> encodes get a (Alu_r y z)"
  by (rule encodesI [of get a "opc 2 y z" "[]" _ "kAlu ! y" O_a O_r]) (simp add: classify_defs effect_defs kAlu_nth)+

lemma encodes_alu_hl: "y < 8 \<Longrightarrow> code_at get a (encode (Alu_hl y)) \<Longrightarrow> encodes get a (Alu_hl y)"
  by (rule encodesI [of get a "opc 2 y 6" "[]" _ "kAlu ! y" O_a O_hl_ind]) (simp add: classify_defs effect_defs kAlu_nth)+

lemma encodes_alu_n: "y < 8 \<Longrightarrow> code_at get a (encode (Alu_n y n)) \<Longrightarrow> encodes get a (Alu_n y n)"
  by (rule encodesI [of get a "opc 3 y 6" "[n]" _ "kAlu ! y" O_a O_n]) (simp add: classify_defs effect_defs kAlu_nth)+

lemma encodes_jp: "code_at get a (encode (Jp nn)) \<Longrightarrow> encodes get a (Jp nn)"
  by (rule encodesI [of get a "opc 3 0 3" "le16 nn" _ M_jp O_none O_nn]) (simp add: classify_defs effect_defs)+

lemma encodes_jp_cc: "cc < 8 \<Longrightarrow> code_at get a (encode (Jp_cc cc nn)) \<Longrightarrow> encodes get a (Jp_cc cc nn)"
  by (rule encodesI [of get a "opc 3 cc 2" "le16 nn" _ M_jp O_cc O_nn]) (simp add: classify_defs effect_defs)+

lemma encodes_jp_hl: "code_at get a (encode Jp_hl) \<Longrightarrow> encodes get a Jp_hl"
  by (rule encodesI [of get a "opc 3 5 1" "[]" _ M_jp O_none O_hl]) (simp add: classify_defs effect_defs)+

lemma encodes_jr: "code_at get a (encode (Jr e)) \<Longrightarrow> encodes get a (Jr e)"
  by (rule encodesI [of get a "opc 0 3 0" "[e]" _ M_jr O_none O_e]) (simp add: classify_defs effect_defs)+

lemma encodes_jr_cc: "cc < 4 \<Longrightarrow> code_at get a (encode (Jr_cc cc e)) \<Longrightarrow> encodes get a (Jr_cc cc e)"
  by (rule encodesI [of get a "opc 0 (4 + cc) 0" "[e]" _ M_jr O_cc4 O_e]) (simp add: classify_defs effect_defs)+

lemma encodes_djnz: "code_at get a (encode (Djnz e)) \<Longrightarrow> encodes get a (Djnz e)"
  by (rule encodesI [of get a "opc 0 2 0" "[e]" _ M_djnz O_none O_e]) (simp add: classify_defs effect_defs)+

lemma encodes_call: "code_at get a (encode (Call nn)) \<Longrightarrow> encodes get a (Call nn)"
  by (rule encodesI [of get a "opc 3 1 5" "le16 nn" _ M_call O_none O_nn]) (simp add: classify_defs effect_defs)+

lemma encodes_ret: "code_at get a (encode Ret) \<Longrightarrow> encodes get a Ret"
  by (rule encodesI [of get a "opc 3 1 1" "[]" _ M_ret O_none O_none]) (simp add: classify_defs effect_defs)+

lemma encodes_ret_cc: "cc < 8 \<Longrightarrow> code_at get a (encode (Ret_cc cc)) \<Longrightarrow> encodes get a (Ret_cc cc)"
  by (rule encodesI [of get a "opc 3 cc 0" "[]" _ M_ret O_cc O_none]) (simp add: classify_defs effect_defs)+

lemmas encodes_all =
  encodes_nop encodes_ld_r_n encodes_ld_r_r encodes_ld_r_hl encodes_ld_hl_r encodes_ld_hl_n
  encodes_ld_rr_nn encodes_ld_a_rr encodes_ld_rr_a encodes_ld_a_nn encodes_ld_nn_a encodes_ld_hl_nn
  encodes_ld_nn_hl encodes_ld_sp_hl encodes_inc_r encodes_dec_r encodes_inc_rr encodes_dec_rr
  encodes_alu_r encodes_alu_hl encodes_alu_n encodes_jp encodes_jp_cc encodes_jp_hl encodes_jr
  encodes_jr_cc encodes_djnz encodes_call encodes_ret encodes_ret_cc

lemma encodes_wf: "wf_instr i \<Longrightarrow> code_at get a (encode i) \<Longrightarrow> encodes get a i"
  by (cases i; simp only: wf_instr.simps) (blast intro: encodes_all)+



end
