(* ===== verification/Z80_Analysis.thy ===== *)
theory Z80_Analysis
  imports Z80_Encode "HOL-Library.AList"
begin

text \<open>
  The bounded finite-value propagation inside \<^verbatim>\<open>libs/cpu/z80/src/mutation.cpp\<close> (class
  \<open>Analyzer\<close> up to \<open>fixpoint\<close>): abstract register values are finite sets of 16-bit values or
  unknown, states map the ten register slots to them, and a work list propagates the states of
  reachable starts along the control successors of the effect projection. The hash map from starts
  to states is an association list, whose length is the size of the map; its order is never used.
\<close>

section \<open>Abstract values and states\<close>

datatype Slot = sA | sB | sC | sD | sE | sH | sL | sIX | sIY | sSP

definition all_slots :: "Slot list" where
  "all_slots = [sA, sB, sC, sD, sE, sH, sL, sIX, sIY, sSP]"

text \<open>The reason a value is unknown; attribution only.\<close>

datatype Cause =
  kCauseEntry | kCauseCall | kCauseLoad | kCauseOpaque | kCauseWidened | kCauseOverflow
| kCauseUnsupported Mnemonic

record Val =
  val_top :: bool
  val_v :: "u16 list"
  val_cause :: Cause

type_synonym State = "Slot \<Rightarrow> Val"

record Limits =
  lim_max_values :: nat
  lim_max_starts :: nat
  lim_max_revisits :: nat
  lim_max_steps :: nat

definition default_limits :: Limits where
  "default_limits =
     \<lparr>lim_max_values = 16, lim_max_starts = 16384, lim_max_revisits = 4, lim_max_steps = 262144\<rparr>"

definition top_val :: "Cause \<Rightarrow> Val" where
  "top_val cause = \<lparr>val_top = True, val_v = [], val_cause = cause\<rparr>"

definition finite_val :: "u16 list \<Rightarrow> Val" where
  "finite_val v = \<lparr>val_top = False, val_v = v, val_cause = kCauseEntry\<rparr>"

definition singleton :: "u16 \<Rightarrow> Val" where
  "singleton x = finite_val [x]"

definition normalize :: "Limits \<Rightarrow> u16 list \<Rightarrow> Val" where
  "normalize lim v =
    (let v' = remdups_adj (sort v)
     in if length v' > lim_max_values lim then top_val kCauseOverflow else finite_val v')"

section \<open>Reading and writing registers\<close>

fun slot_of :: "Reg \<Rightarrow> Slot option" where
  "slot_of R_a = Some sA" | "slot_of R_b = Some sB" | "slot_of R_c = Some sC"
| "slot_of R_d = Some sD" | "slot_of R_e = Some sE" | "slot_of R_h = Some sH"
| "slot_of R_l = Some sL" | "slot_of R_ix = Some sIX" | "slot_of R_iy = Some sIY"
| "slot_of R_sp = Some sSP" | "slot_of _ = None"

fun pair_of :: "Reg \<Rightarrow> (Slot \<times> Slot) option" where
  "pair_of R_bc = Some (sB, sC)" | "pair_of R_de = Some (sD, sE)" | "pair_of R_hl = Some (sH, sL)"
| "pair_of _ = None"

definition pair_values :: "u16 list \<Rightarrow> u16 list \<Rightarrow> u16 list" where
  "pair_values h l = concat (map (\<lambda>x. map (\<lambda>y. push_bit 8 x OR y) l) h)"

definition read_pair :: "Limits \<Rightarrow> Val \<Rightarrow> Val \<Rightarrow> Val" where
  "read_pair lim h l =
    (if val_top h then h else if val_top l then l
     else if length (val_v h) * length (val_v l) > lim_max_values lim then top_val kCauseOverflow
     else normalize lim (pair_values (val_v h) (val_v l)))"

definition read_reg :: "Limits \<Rightarrow> State \<Rightarrow> Reg \<Rightarrow> Val" where
  "read_reg lim s r =
    (case pair_of r of Some (hi, lo) \<Rightarrow> read_pair lim (s hi) (s lo)
     | None \<Rightarrow> (case slot_of r of Some k \<Rightarrow> s k | None \<Rightarrow> top_val kCauseEntry))"

definition write_reg :: "Limits \<Rightarrow> Reg \<Rightarrow> Val \<Rightarrow> State \<Rightarrow> State" where
  "write_reg lim r v s =
    (case pair_of r of
       Some (hi, lo) \<Rightarrow>
         (if val_top v then s(hi := v, lo := v)
          else s(hi := normalize lim (map (drop_bit 8) (val_v v)),
                 lo := normalize lim (map (\<lambda>x. x AND 0xFF) (val_v v))))
     | None \<Rightarrow> (case slot_of r of Some k \<Rightarrow> s(k := v) | None \<Rightarrow> s))"

definition map_val :: "Limits \<Rightarrow> (u16 \<Rightarrow> u16) \<Rightarrow> Val \<Rightarrow> Val" where
  "map_val lim f v = (if val_top v then v else normalize lim (map f (val_v v)))"

definition add_int :: "u16 \<Rightarrow> int \<Rightarrow> u16" where
  "add_int x d = of_int (uint x + d)"

definition eval :: "Limits \<Rightarrow> ValueExpr \<Rightarrow> State \<Rightarrow> u16 \<Rightarrow> Val" where
  "eval lim e s msk =
    (case ve_kind e of
       VK_constant \<Rightarrow> singleton (ve_constant e AND msk)
     | VK_copy \<Rightarrow> map_val lim (\<lambda>x. x AND msk) (read_reg lim s (ve_source e))
     | VK_add_constant \<Rightarrow> map_val lim (\<lambda>x. add_int x (ve_delta e) AND msk) (read_reg lim s (ve_source e))
     | VK_load \<Rightarrow> top_val kCauseLoad
     | VK_opaque \<Rightarrow> top_val kCauseOpaque)"

definition eval_address :: "Limits \<Rightarrow> AddressExpr \<Rightarrow> State \<Rightarrow> Val" where
  "eval_address lim a s =
    (if ae_kind a = AK_absolute then singleton (ae_absolute a)
     else map_val lim (\<lambda>x. add_int x (ae_offset a) AND 0xFFFF) (read_reg lim s (ae_base a)))"

definition all_top :: "Cause \<Rightarrow> State" where
  "all_top cause = (\<lambda>_. top_val cause)"

definition reset_state :: State where
  "reset_state = all_top kCauseEntry"

section \<open>Join and transfer\<close>

definition join_val :: "Limits \<Rightarrow> Val \<Rightarrow> Val \<Rightarrow> Val \<times> bool" where
  "join_val lim d x =
    (if val_top d then (d, False)
     else if val_top x then (x, True)
     else let nv = normalize lim (val_v d @ val_v x)
          in if val_top nv \<noteq> val_top d \<or> val_v nv \<noteq> val_v d then (nv, True) else (d, False))"

definition join :: "Limits \<Rightarrow> State \<Rightarrow> State \<Rightarrow> State \<times> bool" where
  "join lim dst src =
    ((\<lambda>i. fst (join_val lim (dst i) (src i))),
     list_ex (\<lambda>i. snd (join_val lim (dst i) (src i))) all_slots)"

definition write_mask :: "Reg \<Rightarrow> u16" where
  "write_mask r = (if is_wide r then 0xFFFF else 0xFF)"

definition transfer :: "Limits \<Rightarrow> State \<Rightarrow> Z80Effect \<Rightarrow> State" where
  "transfer lim s e =
    (let values = map (\<lambda>w. (rw_target w, eval lim (rw_value w) s (write_mask (rw_target w)))) (ef_writes e)
     in fold (\<lambda>(r, v) out. write_reg lim r v out) values s)"

section \<open>The work list\<close>

record Analyzer =
  an_states :: "(u16 \<times> State) list"
  an_revisits :: "u16 \<Rightarrow> nat"
  an_queue :: "u16 list"
  an_steps :: nat
  an_budget :: bool

definition analyzer_init :: Analyzer where
  "analyzer_init =
     \<lparr>an_states = [], an_revisits = (\<lambda>_. 0), an_queue = [], an_steps = 0, an_budget = False\<rparr>"

definition enqueue :: "Limits \<Rightarrow> u16 \<times> State \<Rightarrow> Analyzer \<Rightarrow> Analyzer" where
  "enqueue lim = (\<lambda>(pc, s) A.
    (case map_of (an_states A) pc of
       None \<Rightarrow>
         (if length (an_states A) \<ge> lim_max_starts lim then A\<lparr>an_budget := True\<rparr>
          else A\<lparr>an_states := AList.update pc s (an_states A), an_queue := an_queue A @ [pc]\<rparr>)
     | Some d \<Rightarrow>
         (let (d', changed) = join lim d s in
          if \<not> changed then A
          else let n = an_revisits A pc + 1;
                   d'' = (if n > lim_max_revisits lim then all_top kCauseWidened else d')
               in A\<lparr>an_states := AList.update pc d'' (an_states A),
                    an_revisits := (an_revisits A)(pc := n), an_queue := an_queue A @ [pc]\<rparr>)))"

text \<open>The mnemonics of unsupported forms whose successor the analysis does not follow.\<close>

definition stops_flow :: "Mnemonic \<Rightarrow> bool" where
  "stops_flow m \<longleftrightarrow> m = M_ret \<or> m = M_reti \<or> m = M_retn \<or> m = M_jp \<or> m = M_jr \<or> m = M_djnz \<or>
     m = M_call \<or> m = M_rst"

text \<open>The successor states of a start, in the order in which they are enqueued.\<close>

definition edges :: "Limits \<Rightarrow> StartClassification list \<Rightarrow> u16 \<Rightarrow> State \<Rightarrow> (u16 \<times> State) list" where
  "edges lim classes pc s =
    (let cls = classes ! unat pc; i = sc_instruction cls in
     if sc_kind cls \<noteq> SK_decoded then []
     else let eff = project_effect i; next_pc = pc + ucast (logical_length i) in
       if \<not> ef_supported eff then
         (let m = fd_mnemonic (form_descriptor (di_form i)) in
          if stops_flow m then [] else [(next_pc, all_top (kCauseUnsupported m))])
       else
         (let out = transfer lim s eff in
          case ef_control eff of
            CK_fallthrough \<Rightarrow> [(ef_fallthrough eff, out)]
          | CK_jump \<Rightarrow> [(ef_target eff, out)]
          | CK_conditional_jump \<Rightarrow> [(ef_target eff, out), (ef_fallthrough eff, out)]
          | CK_call \<Rightarrow> [(ef_target eff, out), (ef_fallthrough eff, all_top kCauseCall)]
          | CK_return \<Rightarrow> []
          | CK_conditional_return \<Rightarrow> [(ef_fallthrough eff, out)]
          | CK_computed \<Rightarrow>
              (let base = read_reg lim s (ef_computed_base eff)
               in if val_top base then [] else map (\<lambda>t. (t, out)) (val_v base))))"

definition process :: "Limits \<Rightarrow> StartClassification list \<Rightarrow> Analyzer \<Rightarrow> Analyzer" where
  "process lim classes A =
    (case an_queue A of
       [] \<Rightarrow> A
     | pc # q \<Rightarrow>
         (let A' = A\<lparr>an_queue := q\<rparr>
          in case map_of (an_states A) pc of
               None \<Rightarrow> A'
             | Some s \<Rightarrow> fold (enqueue lim) (edges lim classes pc s) A'))"

lemma enqueue_steps [simp]: "an_steps (enqueue lim ps A) = an_steps A"
  by (cases ps) (simp add: enqueue_def Let_def split: option.splits prod.splits)

lemma fold_enqueue_steps [simp]: "an_steps (fold (enqueue lim) es A) = an_steps A"
  by (induction es arbitrary: A) simp_all

lemma process_steps [simp]: "an_steps (process lim classes A) = an_steps A"
  by (simp add: process_def Let_def split: list.splits option.splits)

function fixpoint :: "Limits \<Rightarrow> StartClassification list \<Rightarrow> Analyzer \<Rightarrow> Analyzer" where
  "fixpoint lim classes A =
    (if an_queue A = [] then A
     else let A1 = A\<lparr>an_steps := an_steps A + 1\<rparr> in
       if an_steps A1 > lim_max_steps lim then A1\<lparr>an_budget := True\<rparr>
       else fixpoint lim classes (process lim classes A1))"
  by pat_completeness auto

termination
  by (relation "measure (\<lambda>(lim, classes, A). lim_max_steps lim - an_steps A)") auto

declare fixpoint.simps [simp del]

end
