(* ===== verification/Z80_Soundness.thy ===== *)
theory Z80_Soundness
  imports Z80_Analysis
begin

text \<open>
  Soundness of the finite-value propagation of \<^verbatim>\<open>libs/cpu/z80/src/mutation.cpp\<close>: a concrete
  register machine over the effect projection, the concretization of abstract states, and the
  proof that the work list covers every state the machine can reach along the control edges the
  analysis follows. Memory is not tracked by the source: a load and an opaque result may produce
  any value, and so may the registers after a call returns or after an unsupported instruction.
\<close>

section \<open>Concrete registers\<close>

record cpu =
  c_a :: u8
  c_b :: u8
  c_c :: u8
  c_d :: u8
  c_e :: u8
  c_h :: u8
  c_l :: u8
  c_ix :: u16
  c_iy :: u16
  c_sp :: u16

fun slot_value :: "cpu \<Rightarrow> Slot \<Rightarrow> u16" where
  "slot_value c sA = ucast (c_a c)" | "slot_value c sB = ucast (c_b c)" | "slot_value c sC = ucast (c_c c)"
| "slot_value c sD = ucast (c_d c)" | "slot_value c sE = ucast (c_e c)" | "slot_value c sH = ucast (c_h c)"
| "slot_value c sL = ucast (c_l c)" | "slot_value c sIX = c_ix c" | "slot_value c sIY = c_iy c"
| "slot_value c sSP = c_sp c"

definition pair_word :: "u8 \<Rightarrow> u8 \<Rightarrow> u16" where
  "pair_word hi lo = push_bit 8 (ucast hi) OR ucast lo"

fun get_reg :: "cpu \<Rightarrow> Reg \<Rightarrow> u16" where
  "get_reg c R_a = ucast (c_a c)" | "get_reg c R_b = ucast (c_b c)" | "get_reg c R_c = ucast (c_c c)"
| "get_reg c R_d = ucast (c_d c)" | "get_reg c R_e = ucast (c_e c)" | "get_reg c R_h = ucast (c_h c)"
| "get_reg c R_l = ucast (c_l c)" | "get_reg c R_bc = pair_word (c_b c) (c_c c)"
| "get_reg c R_de = pair_word (c_d c) (c_e c)" | "get_reg c R_hl = pair_word (c_h c) (c_l c)"
| "get_reg c R_sp = c_sp c" | "get_reg c R_ix = c_ix c" | "get_reg c R_iy = c_iy c"

fun set_reg :: "Reg \<Rightarrow> u16 \<Rightarrow> cpu \<Rightarrow> cpu" where
  "set_reg R_a v c = c\<lparr>c_a := ucast v\<rparr>" | "set_reg R_b v c = c\<lparr>c_b := ucast v\<rparr>"
| "set_reg R_c v c = c\<lparr>c_c := ucast v\<rparr>" | "set_reg R_d v c = c\<lparr>c_d := ucast v\<rparr>"
| "set_reg R_e v c = c\<lparr>c_e := ucast v\<rparr>" | "set_reg R_h v c = c\<lparr>c_h := ucast v\<rparr>"
| "set_reg R_l v c = c\<lparr>c_l := ucast v\<rparr>"
| "set_reg R_bc v c = c\<lparr>c_b := ucast (drop_bit 8 v), c_c := ucast v\<rparr>"
| "set_reg R_de v c = c\<lparr>c_d := ucast (drop_bit 8 v), c_e := ucast v\<rparr>"
| "set_reg R_hl v c = c\<lparr>c_h := ucast (drop_bit 8 v), c_l := ucast v\<rparr>"
| "set_reg R_sp v c = c\<lparr>c_sp := v\<rparr>" | "set_reg R_ix v c = c\<lparr>c_ix := v\<rparr>"
| "set_reg R_iy v c = c\<lparr>c_iy := v\<rparr>"

text \<open>The values an expression may have; every read is of the input registers.\<close>

definition value_of :: "ValueExpr \<Rightarrow> cpu \<Rightarrow> u16 \<Rightarrow> bool" where
  "value_of e c v \<longleftrightarrow>
    (case ve_kind e of
       VK_constant \<Rightarrow> v = ve_constant e
     | VK_copy \<Rightarrow> v = get_reg c (ve_source e)
     | VK_add_constant \<Rightarrow> v = add_int (get_reg c (ve_source e)) (ve_delta e)
     | VK_load \<Rightarrow> True
     | VK_opaque \<Rightarrow> True)"

definition address_of :: "AddressExpr \<Rightarrow> cpu \<Rightarrow> u16" where
  "address_of a c =
    (if ae_kind a = AK_absolute then ae_absolute a else add_int (get_reg c (ae_base a)) (ae_offset a))"

definition effect_step :: "Z80Effect \<Rightarrow> cpu \<Rightarrow> cpu \<Rightarrow> bool" where
  "effect_step e c c' \<longleftrightarrow>
    (\<exists>vs. list_all2 (\<lambda>w v. value_of (rw_value w) c v) (ef_writes e) vs \<and>
       c' = fold (\<lambda>(w, v). set_reg (rw_target w) v) (zip (ef_writes e) vs) c)"

section \<open>Concretization\<close>

definition in_val :: "Val \<Rightarrow> u16 \<Rightarrow> bool" where
  "in_val av x \<longleftrightarrow> val_top av \<or> x \<in> set (val_v av)"

definition in_state :: "State \<Rightarrow> cpu \<Rightarrow> bool" where
  "in_state s c \<longleftrightarrow> (\<forall>k. in_val (s k) (slot_value c k))"

lemma in_val_top [simp]: "in_val (top_val cause) x"
  by (simp add: in_val_def top_val_def)

lemma in_val_singleton [simp]: "in_val (singleton y) x \<longleftrightarrow> x = y"
  by (simp add: in_val_def singleton_def finite_val_def)

lemma in_val_normalize: "x \<in> set v \<Longrightarrow> in_val (normalize lim v) x"
  by (simp add: normalize_def Let_def in_val_def top_val_def finite_val_def)

lemma in_val_map_val: "in_val av x \<Longrightarrow> in_val (map_val lim f av) (f x)"
  by (auto simp: map_val_def in_val_def [of av] intro: in_val_normalize)

lemma in_state_all_top [simp]: "in_state (all_top cause) c"
  by (simp add: in_state_def all_top_def)

lemma set_all_slots: "set all_slots = UNIV"
proof -
  have "k \<in> set all_slots" for k by (cases k) (simp_all add: all_slots_def)
  then show ?thesis by auto
qed

section \<open>The domain as an interface\<close>

text \<open>What the work list needs of a join: it covers both arguments, and reports every change.\<close>

locale join_domain =
  fixes conc :: "'v \<Rightarrow> 'c \<Rightarrow> bool"
    and jn :: "'v \<Rightarrow> 'v \<Rightarrow> 'v \<times> bool"
  assumes join_left: "conc d x \<Longrightarrow> conc (fst (jn d e)) x"
    and join_right: "conc e x \<Longrightarrow> conc (fst (jn d e)) x"
    and join_same: "\<not> snd (jn d e) \<Longrightarrow> fst (jn d e) = d"
begin

lemma unchanged_covers: "\<not> snd (jn d e) \<Longrightarrow> conc e x \<Longrightarrow> conc d x"
  using join_right join_same by metis

end

text \<open>A domain with a greatest element to widen to.\<close>

locale widening_domain = join_domain conc jn
  for conc :: "'v \<Rightarrow> 'c \<Rightarrow> bool" and jn :: "'v \<Rightarrow> 'v \<Rightarrow> 'v \<times> bool" +
  fixes wide :: 'v
  assumes conc_wide: "conc wide x"
begin

lemma merge_covers:
  assumes "conc d x \<or> conc e x"
  shows "conc (if widen then wide else fst (jn d e)) x"
  using assms conc_wide join_left join_right by auto

end

interpretation vj: widening_domain in_val "join_val lim" "top_val cause" for lim cause
proof
  fix d e x
  show "in_val d x \<Longrightarrow> in_val (fst (join_val lim d e)) x"
    using in_val_normalize [of x "val_v d @ val_v e" lim]
    by (auto simp: join_val_def Let_def in_val_def)
  show "in_val e x \<Longrightarrow> in_val (fst (join_val lim d e)) x"
    using in_val_normalize [of x "val_v d @ val_v e" lim]
    by (auto simp: join_val_def Let_def in_val_def)
  show "\<not> snd (join_val lim d e) \<Longrightarrow> fst (join_val lim d e) = d"
    by (auto simp: join_val_def Let_def split: if_splits)
qed simp

interpretation sj: widening_domain in_state "join lim" "all_top cause" for lim cause
proof
  fix d e x
  show "in_state d x \<Longrightarrow> in_state (fst (join lim d e)) x"
    by (simp add: in_state_def join_def vj.join_left)
  show "in_state e x \<Longrightarrow> in_state (fst (join lim d e)) x"
    by (simp add: in_state_def join_def vj.join_right)
  show "\<not> snd (join lim d e) \<Longrightarrow> fst (join lim d e) = d"
    by (rule ext) (simp add: join_def list_ex_iff set_all_slots vj.join_same)
qed simp

section \<open>Registers and expressions\<close>

lemma in_val_pair:
  assumes "in_val h (ucast x)" "in_val l (ucast y)"
  shows "in_val (read_pair lim h l) (pair_word x y)"
proof (cases "val_top h \<or> val_top l \<or> length (val_v h) * length (val_v l) > lim_max_values lim")
  case True
  then show ?thesis by (auto simp: read_pair_def in_val_def top_val_def)
next
  case False
  then have "pair_word x y \<in> set (pair_values (val_v h) (val_v l))"
    using assms by (auto simp: in_val_def pair_values_def pair_word_def)
  then show ?thesis using False by (simp add: read_pair_def in_val_normalize)
qed

lemma in_state_slots:
  assumes "in_state s c"
  shows "in_val (s sA) (ucast (c_a c))" "in_val (s sB) (ucast (c_b c))" "in_val (s sC) (ucast (c_c c))"
    "in_val (s sD) (ucast (c_d c))" "in_val (s sE) (ucast (c_e c))" "in_val (s sH) (ucast (c_h c))"
    "in_val (s sL) (ucast (c_l c))" "in_val (s sIX) (c_ix c)" "in_val (s sIY) (c_iy c)" "in_val (s sSP) (c_sp c)"
  using assms [unfolded in_state_def, THEN spec, of sA] assms [unfolded in_state_def, THEN spec, of sB]
    assms [unfolded in_state_def, THEN spec, of sC] assms [unfolded in_state_def, THEN spec, of sD]
    assms [unfolded in_state_def, THEN spec, of sE] assms [unfolded in_state_def, THEN spec, of sH]
    assms [unfolded in_state_def, THEN spec, of sL] assms [unfolded in_state_def, THEN spec, of sIX]
    assms [unfolded in_state_def, THEN spec, of sIY] assms [unfolded in_state_def, THEN spec, of sSP]
  by simp_all

lemma read_reg_sound: "in_state s c \<Longrightarrow> in_val (read_reg lim s r) (get_reg c r)"
  by (cases r) (simp_all add: read_reg_def in_state_slots in_val_pair)

lemma ucast_u8_low: "(ucast (ucast (v :: u16) :: u8) :: u16) = v AND 0xFF"
proof (rule bit_word_eqI)
  fix n assume "n < LENGTH(16)"
  have "bit (0xFF :: u16) n \<longleftrightarrow> n < 8"
    using bit_mask_iff [of 8 n, where 'a = "16 word"] \<open>n < LENGTH(16)\<close> by (simp add: mask_eq_exp_minus_1)
  then show "bit (ucast (ucast v :: u8) :: u16) n \<longleftrightarrow> bit (v AND 0xFF) n"
    using \<open>n < LENGTH(16)\<close> by (auto simp: bit_simps)
qed

lemma ucast_ucast_hi: "(ucast (ucast (drop_bit 8 (v :: u16)) :: u8) :: u16) = drop_bit 8 v"
  by (rule bit_word_eqI) (auto simp: bit_simps dest: bit_imp_le_length)

lemma and_FFFF [simp]: "(v :: u16) AND 0xFFFF = v"
proof -
  have "(0xFFFF :: u16) = - 1" by simp
  then show ?thesis by (simp only: and.right_neutral)
qed

lemma eval_sound:
  assumes "in_state s c" "value_of e c v"
  shows "in_val (eval lim e s msk) (v AND msk)"
  using assms in_val_map_val [OF read_reg_sound [OF assms(1)], of lim]
  by (cases "ve_kind e") (simp_all add: eval_def value_of_def)

lemma eval_address_sound:
  assumes "in_state s c" shows "in_val (eval_address lim a s) (address_of a c)"
  using in_val_map_val [OF read_reg_sound [OF assms], of lim "\<lambda>x. add_int x (ae_offset a)"]
  by (simp add: eval_address_def address_of_def)

lemma write_pair_sound:
  assumes "in_val av v" "\<not> val_top av"
  shows "in_val (normalize lim (map (drop_bit 8) (val_v av))) (ucast (ucast (drop_bit 8 v) :: u8))"
    "in_val (normalize lim (map (\<lambda>x. x AND 0xFF) (val_v av))) (ucast (ucast v :: u8))"
  unfolding ucast_ucast_hi unfolding ucast_u8_low
  using assms by (auto simp: in_val_def [of av] intro!: in_val_normalize)

lemma write_reg_sound:
  assumes "in_state s c" "in_val av (v AND write_mask r)"
  shows "in_state (write_reg lim r av s) (set_reg r v c)"
proof -
  have 1: "in_val av (ucast (ucast v :: u8))" if "\<not> is_wide r"
    using assms(2) that by (simp add: write_mask_def ucast_u8_low)
  have 2: "in_val av v" if "is_wide r"
    using assms(2) that by (simp add: write_mask_def)
  have 3: "val_top av \<Longrightarrow> in_val av x" for x by (simp add: in_val_def)
  have "in_val (write_reg lim r av s k) (slot_value (set_reg r v c) k)" for k
    using assms(1) 1 2 3 write_pair_sound [of av v lim]
    by (cases r; cases k) (auto simp: write_reg_def in_state_def dest: spec [where x = k])
  then show ?thesis by (simp add: in_state_def)
qed


text \<open>One instruction: the abstract transfer covers every concrete outcome.\<close>

lemma fold_writes_sound:
  assumes "list_all2 (\<lambda>w v. in_val (f w) (v AND write_mask (rw_target w))) ws vs" "in_state s c"
  shows "in_state (fold (\<lambda>(r, v) out. write_reg lim r v out) (map (\<lambda>w. (rw_target w, f w)) ws) s)
    (fold (\<lambda>(w, v). set_reg (rw_target w) v) (zip ws vs) c)"
  using assms by (induction ws vs arbitrary: s c rule: list_all2_induct) (simp_all add: write_reg_sound)

lemma transfer_sound_step:
  assumes "in_state s c" "effect_step e c c'"
  shows "in_state (transfer lim s e) c'"
proof -
  from assms(2) obtain vs where vs: "list_all2 (\<lambda>w v. value_of (rw_value w) c v) (ef_writes e) vs"
    and c': "c' = fold (\<lambda>(w, v). set_reg (rw_target w) v) (zip (ef_writes e) vs) c"
    by (auto simp: effect_step_def)
  have "list_all2 (\<lambda>w v. in_val (eval lim (rw_value w) s (write_mask (rw_target w))) (v AND write_mask (rw_target w)))
      (ef_writes e) vs"
    using vs by (rule list_all2_mono) (simp add: eval_sound [OF assms(1)])
  from fold_writes_sound [OF this assms(1), of lim] show ?thesis
    by (simp add: transfer_def Let_def c')
qed

section \<open>Control flow\<close>

text \<open>
  The concrete edges between starts that the analysis follows. A call continues at its target,
  and its continuation may be reached with any registers; an unsupported instruction that does
  not transfer control reaches the next start with any registers; returns, restarts and
  unsupported control have no edge.
\<close>

inductive flow :: "StartClassification list \<Rightarrow> u16 \<times> cpu \<Rightarrow> u16 \<times> cpu \<Rightarrow> bool" for classes where
  flow_next: "sc_kind (classes ! unat pc) = SK_decoded \<Longrightarrow>
    e = project_effect (sc_instruction (classes ! unat pc)) \<Longrightarrow> ef_supported e \<Longrightarrow> effect_step e c c' \<Longrightarrow>
    ef_control e \<in> {CK_fallthrough, CK_conditional_jump, CK_conditional_return} \<Longrightarrow>
    flow classes (pc, c) (ef_fallthrough e, c')"
| flow_target: "sc_kind (classes ! unat pc) = SK_decoded \<Longrightarrow>
    e = project_effect (sc_instruction (classes ! unat pc)) \<Longrightarrow> ef_supported e \<Longrightarrow> effect_step e c c' \<Longrightarrow>
    ef_control e \<in> {CK_jump, CK_conditional_jump, CK_call} \<Longrightarrow>
    flow classes (pc, c) (ef_target e, c')"
| flow_continuation: "sc_kind (classes ! unat pc) = SK_decoded \<Longrightarrow>
    e = project_effect (sc_instruction (classes ! unat pc)) \<Longrightarrow> ef_supported e \<Longrightarrow>
    ef_control e = CK_call \<Longrightarrow> flow classes (pc, c) (ef_fallthrough e, c')"
| flow_computed: "sc_kind (classes ! unat pc) = SK_decoded \<Longrightarrow>
    e = project_effect (sc_instruction (classes ! unat pc)) \<Longrightarrow> ef_supported e \<Longrightarrow> effect_step e c c' \<Longrightarrow>
    ef_control e = CK_computed \<Longrightarrow> flow classes (pc, c) (get_reg c (ef_computed_base e), c')"
| flow_unsupported: "sc_kind (classes ! unat pc) = SK_decoded \<Longrightarrow>
    i = sc_instruction (classes ! unat pc) \<Longrightarrow> \<not> ef_supported (project_effect i) \<Longrightarrow>
    \<not> stops_flow (fd_mnemonic (form_descriptor (di_form i))) \<Longrightarrow>
    flow classes (pc, c) (pc + ucast (logical_length i), c')"

inductive_cases flowE: "flow classes (pc, c) (pc', c')"

text \<open>A computed jump whose base register is unknown is the one edge the analysis cannot follow.\<close>

definition unresolved :: "Limits \<Rightarrow> StartClassification list \<Rightarrow> u16 \<Rightarrow> State \<Rightarrow> bool" where
  "unresolved lim classes pc s \<longleftrightarrow>
    (let e = project_effect (sc_instruction (classes ! unat pc)) in
     sc_kind (classes ! unat pc) = SK_decoded \<and> ef_supported e \<and> ef_control e = CK_computed \<and>
     val_top (read_reg lim s (ef_computed_base e)))"

lemma edges_cover:
  assumes "in_state s c" "flow classes (pc, c) (pc', c')" "\<not> unresolved lim classes pc s"
  shows "\<exists>s'. (pc', s') \<in> set (edges lim classes pc s) \<and> in_state s' c'"
proof -
  let ?e = "project_effect (sc_instruction (classes ! unat pc))"
  have T: "effect_step ?e c c' \<Longrightarrow> in_state (transfer lim s ?e) c'"
    by (rule transfer_sound_step [OF assms(1)])
  have "in_val (read_reg lim s (ef_computed_base ?e)) (get_reg c (ef_computed_base ?e))"
    by (rule read_reg_sound [OF assms(1)])
  then have C: "sc_kind (classes ! unat pc) = SK_decoded \<Longrightarrow> ef_supported ?e \<Longrightarrow> ef_control ?e = CK_computed \<Longrightarrow>
      \<not> val_top (read_reg lim s (ef_computed_base ?e)) \<and>
      get_reg c (ef_computed_base ?e) \<in> set (val_v (read_reg lim s (ef_computed_base ?e)))"
    using assms(3) by (auto simp: unresolved_def Let_def in_val_def)
  from assms(2) show ?thesis
    by (rule flowE) (use T C in \<open>auto simp: edges_def Let_def\<close>)
qed

section \<open>The work list\<close>

text \<open>An abstract state is covered when the analysis holds a state of that start that includes it.\<close>

definition covers :: "Analyzer \<Rightarrow> u16 \<Rightarrow> State \<Rightarrow> bool" where
  "covers A pc s \<longleftrightarrow>
     (\<exists>d. map_of (an_states A) pc = Some d \<and> (\<forall>c. in_state s c \<longrightarrow> in_state d c))"

definition closed_at :: "Limits \<Rightarrow> StartClassification list \<Rightarrow> Analyzer \<Rightarrow> u16 \<Rightarrow> State \<Rightarrow> bool" where
  "closed_at lim classes A pc s \<longleftrightarrow> (\<forall>(pc', s') \<in> set (edges lim classes pc s). covers A pc' s')"

definition work_inv :: "Limits \<Rightarrow> StartClassification list \<Rightarrow> Analyzer \<Rightarrow> bool" where
  "work_inv lim classes A \<longleftrightarrow>
     (\<forall>pc s. map_of (an_states A) pc = Some s \<longrightarrow> pc \<in> set (an_queue A) \<or> closed_at lim classes A pc s)"

text \<open>How an analysis grows: nothing covered is lost, and a start whose state changed is queued.\<close>

definition grows :: "Analyzer \<Rightarrow> Analyzer \<Rightarrow> bool" where
  "grows A B \<longleftrightarrow>
     (\<forall>pc s. covers A pc s \<longrightarrow> covers B pc s) \<and>
     (\<forall>pc. map_of (an_states B) pc = map_of (an_states A) pc \<or> pc \<in> set (an_queue B)) \<and>
     set (an_queue A) \<subseteq> set (an_queue B) \<and> (an_budget A \<longrightarrow> an_budget B)"

lemma grows_refl: "grows A A"
  by (simp add: grows_def)

lemma grows_same:
  "grows A B \<Longrightarrow> pc \<notin> set (an_queue B) \<Longrightarrow>
     map_of (an_states B) pc = map_of (an_states A) pc \<and> pc \<notin> set (an_queue A)"
  by (auto simp: grows_def)

lemma grows_trans:
  assumes "grows A B" "grows B C" shows "grows A C"
proof -
  have "map_of (an_states C) pc = map_of (an_states A) pc" if "pc \<notin> set (an_queue C)" for pc
    using grows_same [OF assms(2) that] grows_same [OF assms(1), of pc] by simp
  then show ?thesis using assms by (auto simp: grows_def)
qed

lemma map_of_update_states [simp]:
  "map_of (AList.update k v al) k' = (if k' = k then Some v else map_of al k')"
  by (simp add: update_conv)

lemma covers_update:
  "covers (A\<lparr>an_states := AList.update pc d (an_states A), an_queue := q\<rparr>) p s \<longleftrightarrow>
     (if p = pc then \<forall>c. in_state s c \<longrightarrow> in_state d c else covers A p s)"
  "covers (A\<lparr>an_states := AList.update pc d (an_states A), an_revisits := r, an_queue := q\<rparr>) p s \<longleftrightarrow>
     (if p = pc then \<forall>c. in_state s c \<longrightarrow> in_state d c else covers A p s)"
  by (simp_all add: covers_def)

lemma enqueue_new:
  assumes "map_of (an_states A) pc = None" "length (an_states A) < lim_max_starts lim"
  shows "grows A (enqueue lim (pc, s) A)" "covers (enqueue lim (pc, s) A) pc s"
proof -
  let ?B = "A\<lparr>an_states := AList.update pc s (an_states A), an_queue := an_queue A @ [pc]\<rparr>"
  have e: "enqueue lim (pc, s) A = ?B" using assms by (simp add: enqueue_def)
  have "\<not> covers A pc t" for t using assms(1) by (simp add: covers_def)
  then show "grows A (enqueue lim (pc, s) A)" unfolding e grows_def covers_update by auto
  show "covers (enqueue lim (pc, s) A) pc s" unfolding e covers_update by simp
qed

lemma enqueue_known:
  assumes "map_of (an_states A) pc = Some d"
  shows "grows A (enqueue lim (pc, s) A) \<and> covers (enqueue lim (pc, s) A) pc s"
proof (cases "snd (join lim d s)")
  case False
  then have "enqueue lim (pc, s) A = A" using assms by (simp add: enqueue_def split_beta)
  moreover have "covers A pc s" using assms sj.unchanged_covers [OF False] by (auto simp: covers_def)
  ultimately show ?thesis by (simp add: grows_refl)
next
  case True
  let ?n = "an_revisits A pc + 1"
  let ?d = "if ?n > lim_max_revisits lim then all_top kCauseWidened else fst (join lim d s)"
  let ?B = "A\<lparr>an_states := AList.update pc ?d (an_states A),
      an_revisits := (an_revisits A)(pc := ?n), an_queue := an_queue A @ [pc]\<rparr>"
  have e: "enqueue lim (pc, s) A = ?B" using assms True by (simp add: enqueue_def split_beta Let_def)
  have 1: "in_state d c \<or> in_state s c \<Longrightarrow> in_state ?d c" for c by (rule sj.merge_covers)
  have "covers A p t \<Longrightarrow> covers ?B p t" for p t
    unfolding covers_update using assms 1 by (auto simp: covers_def)
  moreover have "covers ?B pc s" unfolding covers_update using 1 by simp
  ultimately show ?thesis unfolding e grows_def by auto
qed

lemma enqueue_ok:
  assumes "\<not> an_budget (enqueue lim (pc, s) A)"
  shows "grows A (enqueue lim (pc, s) A) \<and> covers (enqueue lim (pc, s) A) pc s"
proof (cases "map_of (an_states A) pc")
  case None
  then show ?thesis using assms enqueue_new [OF None]
    by (cases "length (an_states A) < lim_max_starts lim") (simp_all add: enqueue_def)
qed (rule enqueue_known)

lemma enqueue_budget: "an_budget A \<Longrightarrow> an_budget (enqueue lim ps A)"
  by (cases ps) (simp add: enqueue_def Let_def split: option.splits prod.splits)

lemma fold_enqueue_budget: "an_budget A \<Longrightarrow> an_budget (fold (enqueue lim) es A)"
  by (induction es arbitrary: A) (simp_all add: enqueue_budget)

lemma fold_enqueue_ok:
  "\<not> an_budget (fold (enqueue lim) es A) \<Longrightarrow>
     grows A (fold (enqueue lim) es A) \<and> (\<forall>(pc, s) \<in> set es. covers (fold (enqueue lim) es A) pc s)"
proof (induction es arbitrary: A)
  case (Cons e es)
  obtain pc s where e: "e = (pc, s)" by (cases e)
  let ?B = "enqueue lim (pc, s) A"
  have nb: "\<not> an_budget (fold (enqueue lim) es ?B)" using Cons.prems by (simp add: e)
  then have "\<not> an_budget ?B" using fold_enqueue_budget by blast
  from enqueue_ok [OF this] have 1: "grows A ?B" "covers ?B pc s" by auto
  from Cons.IH [OF nb] have 2: "grows ?B (fold (enqueue lim) es ?B)"
    "\<forall>(pc, s) \<in> set es. covers (fold (enqueue lim) es ?B) pc s" by auto
  have "covers (fold (enqueue lim) es ?B) pc s" using 1(2) 2(1) by (simp add: grows_def)
  then show ?case using grows_trans [OF 1(1) 2(1)] 2(2) by (simp add: e)
qed (simp add: grows_refl)

lemma work_inv_grows:
  assumes "work_inv lim classes A" "grows A B"
  shows "work_inv lim classes B"
  unfolding work_inv_def
proof (intro allI impI)
  fix pc s assume s: "map_of (an_states B) pc = Some s"
  show "pc \<in> set (an_queue B) \<or> closed_at lim classes B pc s"
  proof (cases "pc \<in> set (an_queue B)")
    case False
    then have "map_of (an_states A) pc = Some s" "pc \<notin> set (an_queue A)"
      using grows_same [OF assms(2) False] s by simp_all
    then have "closed_at lim classes A pc s" using assms(1) by (auto simp: work_inv_def)
    then have "closed_at lim classes B pc s" using assms(2) by (auto simp: closed_at_def grows_def)
    then show ?thesis ..
  qed simp
qed

lemma covers_queue [simp]:
  "covers (A\<lparr>an_queue := q\<rparr>) = covers A" "covers (A\<lparr>an_steps := n\<rparr>) = covers A"
  by (intro ext; simp add: covers_def)+

lemma process_ok:
  assumes inv: "work_inv lim classes A" and nb: "\<not> an_budget (process lim classes A)"
  shows "work_inv lim classes (process lim classes A) \<and>
    (\<forall>pc s. covers A pc s \<longrightarrow> covers (process lim classes A) pc s)"
proof (cases "an_queue A")
  case Nil
  then show ?thesis using inv by (simp add: process_def)
next
  case (Cons pc q)
  let ?A = "A\<lparr>an_queue := q\<rparr>"
  show ?thesis
  proof (cases "map_of (an_states A) pc")
    case None
    then have "process lim classes A = ?A" by (simp add: process_def Cons)
    moreover have "p \<in> set q \<or> closed_at lim classes A p t" if "map_of (an_states A) p = Some t" for p t
      using inv that None by (cases "p = pc") (auto simp: work_inv_def Cons)
    then have "work_inv lim classes ?A" by (simp add: work_inv_def closed_at_def)
    ultimately show ?thesis by simp
  next
    case (Some s)
    let ?B = "fold (enqueue lim) (edges lim classes pc s) ?A"
    have B: "process lim classes A = ?B" by (simp add: process_def Cons Some)
    from fold_enqueue_ok [of lim "edges lim classes pc s" ?A] nb B
    have g: "grows ?A ?B" and c: "closed_at lim classes ?B pc s" by (auto simp: closed_at_def)
    have "work_inv lim classes ?B"
      unfolding work_inv_def
    proof (intro allI impI)
      fix p t assume t: "map_of (an_states ?B) p = Some t"
      show "p \<in> set (an_queue ?B) \<or> closed_at lim classes ?B p t"
      proof (cases "p \<in> set (an_queue ?B)")
        case False
        then have p: "map_of (an_states A) p = Some t" "p \<notin> set q"
          using grows_same [OF g False] t by simp_all
        show ?thesis
        proof (cases "p = pc")
          case True
          then show ?thesis using p Some c by simp
        next
          case False
          then have "closed_at lim classes A p t"
            using inv p unfolding work_inv_def Cons by auto
          then show ?thesis using g by (auto simp: closed_at_def grows_def)
        qed
      qed simp
    qed
    then show ?thesis using g B by (simp add: grows_def)
  qed
qed

lemma process_budget: "an_budget A \<Longrightarrow> an_budget (process lim classes A)"
  by (simp add: process_def Let_def fold_enqueue_budget split: list.splits option.splits)

lemma fixpoint_budget: "an_budget A \<Longrightarrow> an_budget (fixpoint lim classes A)"
proof (induction lim classes A rule: fixpoint.induct)
  case (1 lim classes A)
  then show ?case by (subst fixpoint.simps) (auto simp: Let_def process_budget)
qed

lemma fixpoint_ok:
  "work_inv lim classes A \<Longrightarrow> \<not> an_budget (fixpoint lim classes A) \<Longrightarrow>
     work_inv lim classes (fixpoint lim classes A) \<and> an_queue (fixpoint lim classes A) = [] \<and>
     (\<forall>pc s. covers A pc s \<longrightarrow> covers (fixpoint lim classes A) pc s)"
proof (induction lim classes A rule: fixpoint.induct)
  case (1 lim classes A)
  let ?A = "A\<lparr>an_steps := an_steps A + 1\<rparr>"
  show ?case
  proof (cases "an_queue A = []")
    case True
    then show ?thesis using 1(2) by (simp add: fixpoint.simps)
  next
    case False
    have step: "fixpoint lim classes A = fixpoint lim classes (process lim classes ?A)"
      and le: "\<not> an_steps ?A > lim_max_steps lim"
      using 1(3) False by (simp_all add: fixpoint.simps [of lim classes A] Let_def split: if_splits)
    have "\<not> an_budget (process lim classes ?A)"
      using 1(3) fixpoint_budget unfolding step by blast
    moreover have "work_inv lim classes ?A" using 1(2) by (simp add: work_inv_def closed_at_def)
    ultimately have p: "work_inv lim classes (process lim classes ?A)"
      "\<forall>pc s. covers A pc s \<longrightarrow> covers (process lim classes ?A) pc s"
      using process_ok [of lim classes ?A] by simp_all
    have "work_inv lim classes (fixpoint lim classes (process lim classes ?A)) \<and>
        an_queue (fixpoint lim classes (process lim classes ?A)) = [] \<and>
        (\<forall>pc s. covers (process lim classes ?A) pc s \<longrightarrow> covers (fixpoint lim classes (process lim classes ?A)) pc s)"
      using 1(1) [OF False refl le p(1)] 1(3) unfolding step by simp
    then show ?thesis unfolding step using p(2) by blast
  qed
qed

section \<open>Reachable states\<close>

text \<open>What a finished analysis covers: every concrete state the machine reaches.\<close>

lemma reachable_covered:
  assumes inv: "work_inv lim classes A" and queue: "an_queue A = []"
    and resolved: "\<forall>pc s. map_of (an_states A) pc = Some s \<longrightarrow> \<not> unresolved lim classes pc s"
    and start: "map_of (an_states A) (fst x) = Some s" "in_state s (snd x)"
    and reach: "(flow classes)\<^sup>*\<^sup>* x y"
  shows "\<exists>t. map_of (an_states A) (fst y) = Some t \<and> in_state t (snd y)"
  using reach
proof (induction rule: rtranclp_induct)
  case base
  then show ?case using start by auto
next
  case (step y z)
  then obtain t where t: "map_of (an_states A) (fst y) = Some t" "in_state t (snd y)" by auto
  have "flow classes (fst y, snd y) (fst z, snd z)" using step.hyps by simp
  with t resolved obtain s' where s': "(fst z, s') \<in> set (edges lim classes (fst y) t)" "in_state s' (snd z)"
    using edges_cover [of t "snd y" classes "fst y" "fst z" "snd z" lim] by blast
  have "closed_at lim classes A (fst y) t" using inv t queue by (auto simp: work_inv_def)
  with s' have "covers A (fst z) s'" by (auto simp: closed_at_def)
  then show ?case using s'(2) by (auto simp: covers_def)
qed

end
