(* ===== verification/Z80_Names.thy ===== *)
theory Z80_Names
  imports Z80_Forms
begin

text \<open>
  The deterministic diagnostic names of \<^verbatim>\<open>libs/cpu/z80/src/forms.cpp\<close>: the name tables, and
  \<open>form_name\<close>, which lower-cases the mnemonic by setting bit 5 of each character and appends the
  operand classes, the space and the status of the form.
\<close>

section \<open>Name tables\<close>

primrec space_name :: "Space \<Rightarrow> string" where
  "space_name S_base = ''base''"
| "space_name S_cb = ''cb''"
| "space_name S_ed = ''ed''"
| "space_name S_dd = ''dd''"
| "space_name S_fd = ''fd''"
| "space_name S_ddcb = ''ddcb''"
| "space_name S_fdcb = ''fdcb''"

primrec mnemonic_name :: "Mnemonic \<Rightarrow> string" where
  "mnemonic_name M_nop = ''NOP''"
| "mnemonic_name M_ld = ''LD''"
| "mnemonic_name M_inc = ''INC''"
| "mnemonic_name M_dec = ''DEC''"
| "mnemonic_name M_rlca = ''RLCA''"
| "mnemonic_name M_rrca = ''RRCA''"
| "mnemonic_name M_rla = ''RLA''"
| "mnemonic_name M_rra = ''RRA''"
| "mnemonic_name M_ex = ''EX''"
| "mnemonic_name M_add = ''ADD''"
| "mnemonic_name M_djnz = ''DJNZ''"
| "mnemonic_name M_jr = ''JR''"
| "mnemonic_name M_daa = ''DAA''"
| "mnemonic_name M_cpl = ''CPL''"
| "mnemonic_name M_scf = ''SCF''"
| "mnemonic_name M_ccf = ''CCF''"
| "mnemonic_name M_halt = ''HALT''"
| "mnemonic_name M_adc = ''ADC''"
| "mnemonic_name M_sub = ''SUB''"
| "mnemonic_name M_sbc = ''SBC''"
| "mnemonic_name M_and = ''AND''"
| "mnemonic_name M_xor = ''XOR''"
| "mnemonic_name M_or = ''OR''"
| "mnemonic_name M_cp = ''CP''"
| "mnemonic_name M_ret = ''RET''"
| "mnemonic_name M_pop = ''POP''"
| "mnemonic_name M_jp = ''JP''"
| "mnemonic_name M_call = ''CALL''"
| "mnemonic_name M_push = ''PUSH''"
| "mnemonic_name M_rst = ''RST''"
| "mnemonic_name M_exx = ''EXX''"
| "mnemonic_name M_out = ''OUT''"
| "mnemonic_name M_in = ''IN''"
| "mnemonic_name M_di = ''DI''"
| "mnemonic_name M_ei = ''EI''"
| "mnemonic_name M_rlc = ''RLC''"
| "mnemonic_name M_rrc = ''RRC''"
| "mnemonic_name M_rl = ''RL''"
| "mnemonic_name M_rr = ''RR''"
| "mnemonic_name M_sla = ''SLA''"
| "mnemonic_name M_sra = ''SRA''"
| "mnemonic_name M_sll = ''SLL''"
| "mnemonic_name M_srl = ''SRL''"
| "mnemonic_name M_bit = ''BIT''"
| "mnemonic_name M_res = ''RES''"
| "mnemonic_name M_set = ''SET''"
| "mnemonic_name M_neg = ''NEG''"
| "mnemonic_name M_retn = ''RETN''"
| "mnemonic_name M_reti = ''RETI''"
| "mnemonic_name M_im = ''IM''"
| "mnemonic_name M_rrd = ''RRD''"
| "mnemonic_name M_rld = ''RLD''"
| "mnemonic_name M_ldi = ''LDI''"
| "mnemonic_name M_cpi = ''CPI''"
| "mnemonic_name M_ini = ''INI''"
| "mnemonic_name M_outi = ''OUTI''"
| "mnemonic_name M_ldd = ''LDD''"
| "mnemonic_name M_cpd = ''CPD''"
| "mnemonic_name M_ind = ''IND''"
| "mnemonic_name M_outd = ''OUTD''"
| "mnemonic_name M_ldir = ''LDIR''"
| "mnemonic_name M_cpir = ''CPIR''"
| "mnemonic_name M_inir = ''INIR''"
| "mnemonic_name M_otir = ''OTIR''"
| "mnemonic_name M_lddr = ''LDDR''"
| "mnemonic_name M_cpdr = ''CPDR''"
| "mnemonic_name M_indr = ''INDR''"
| "mnemonic_name M_otdr = ''OTDR''"

primrec operand_name :: "Operand \<Rightarrow> string" where
  "operand_name O_none = ''none''"
| "operand_name O_a = ''a''"
| "operand_name O_r = ''r''"
| "operand_name O_rr = ''rr''"
| "operand_name O_rr2 = ''rr2''"
| "operand_name O_rr_ind = ''rr_ind''"
| "operand_name O_hl = ''hl''"
| "operand_name O_hl_ind = ''hl_ind''"
| "operand_name O_de = ''de''"
| "operand_name O_sp = ''sp''"
| "operand_name O_sp_ind = ''sp_ind''"
| "operand_name O_nn = ''nn''"
| "operand_name O_n = ''n''"
| "operand_name O_e = ''e''"
| "operand_name O_p = ''p''"
| "operand_name O_cc = ''cc''"
| "operand_name O_cc4 = ''cc4''"
| "operand_name O_bit = ''bit''"
| "operand_name O_af = ''af''"
| "operand_name O_af_alt = ''af_alt''"
| "operand_name O_i = ''i''"
| "operand_name O_r_refresh = ''r_refresh''"
| "operand_name O_im0 = ''im0''"
| "operand_name O_im1 = ''im1''"
| "operand_name O_im2 = ''im2''"
| "operand_name O_n_port = ''n_port''"
| "operand_name O_c_port = ''c_port''"
| "operand_name O_nn_ind = ''nn_ind''"
| "operand_name O_flags_only = ''flags_only''"
| "operand_name O_zero = ''zero''"
| "operand_name O_ed_undefined = ''ed_undefined''"
| "operand_name O_rr_ed = ''rr_ed''"
| "operand_name O_ix = ''ix''"
| "operand_name O_iy = ''iy''"
| "operand_name O_ix_d = ''ix_d''"
| "operand_name O_iy_d = ''iy_d''"
| "operand_name O_ix_half = ''ix_half''"
| "operand_name O_iy_half = ''iy_half''"
| "operand_name O_rr_ix = ''rr_ix''"
| "operand_name O_rr_iy = ''rr_iy''"
| "operand_name O_ix_d_copy_r = ''ix_d_copy_r''"
| "operand_name O_iy_d_copy_r = ''iy_d_copy_r''"

primrec byte_class_name :: "ByteClassKind \<Rightarrow> string" where
  "byte_class_name BK_form = ''form''"
| "byte_class_name BK_escape_cb = ''escape_cb''"
| "byte_class_name BK_escape_ed = ''escape_ed''"
| "byte_class_name BK_escape_dd = ''escape_dd''"
| "byte_class_name BK_escape_fd = ''escape_fd''"
| "byte_class_name BK_escape_ddcb = ''escape_ddcb''"
| "byte_class_name BK_escape_fdcb = ''escape_fdcb''"
| "byte_class_name BK_prefix_chain = ''prefix_chain''"
| "byte_class_name BK_prefix_ignored = ''prefix_ignored''"
| "byte_class_name BK_prefix_ignored_before_ed = ''prefix_ignored_before_ed''"

section \<open>Form names\<close>

definition lower_char :: "char \<Rightarrow> char" where
  "lower_char c = char_of (of_char c OR (0x20 :: nat))"

definition operands_name :: "Operand \<Rightarrow> Operand \<Rightarrow> string" where
  "operands_name d s =
    (let operands = (if d \<noteq> O_none then operand_name d else [])
     in if s \<noteq> O_none then operands @ (if operands = [] then [] else ''_'') @ operand_name s
        else operands)"

definition descriptor_name :: "FormDescriptor \<Rightarrow> string" where
  "descriptor_name f =
    (let name = map lower_char (mnemonic_name (fd_mnemonic f));
         operands = operands_name (fd_dst f) (fd_src f)
     in name @ (if operands = [] then [] else ''.'' @ operands) @ ''.'' @ space_name (fd_space f) @
        (if fd_alias_of f \<noteq> kNoForm \<and> \<not> fd_documented f then ''.alias''
         else if \<not> fd_documented f then ''.undoc'' else []))"

definition form_name :: "FormId \<Rightarrow> string" where
  "form_name i = descriptor_name (form_descriptor i)"

end
