(* ===== verification/Z80_Mutation.thy ===== *)
theory Z80_Mutation
  imports Z80_Soundness Z80_Names "HOL-Library.Product_Lexorder"
begin

text \<open>
  Static discovery of code writes in a known 8 KiB RAM image, \<^verbatim>\<open>libs/cpu/z80/src/mutation.cpp\<close>:
  the run over the roots and the interrupt vector, the report with its store sites, completeness
  flags and reasons, the decoded effect of each candidate write, and the alternative bytes a
  RAM-backed image may also compile. Counters kept in \<^verbatim>\<open>unsigned\<close> are \<open>nat\<close>.
\<close>

section \<open>The image\<close>

definition kRamBytes :: nat where "kRamBytes = 8192"
definition kCodeWindow :: nat where "kCodeWindow = 0x4000"

record Root =
  rt_pc :: u16
  rt_reset_state :: bool

definition ram_mask :: "u16 \<Rightarrow> u16" where
  "ram_mask a = a AND 0x1FFF"

definition make_table :: "u8 list \<Rightarrow> TableFetch" where
  "make_table ram =
     fold (\<lambda>a t. table_set t (of_nat a)
         \<lparr>fb_kind = FK_byte, fb_value = ram ! (a mod kRamBytes), fb_image_id = 1,
          fb_image_offset = of_nat (a mod kRamBytes)\<rparr>)
       [0..<kCodeWindow] table_new"

definition image_classes :: "u8 list \<Rightarrow> StartClassification list" where
  "image_classes ram = classify_all (table_fetch (make_table ram))"

section \<open>The run\<close>

definition start_state :: "Root \<Rightarrow> u16 \<times> State" where
  "start_state r = (rt_pc r, if rt_reset_state r then reset_state else all_top kCauseEntry)"

definition ei_reachable :: "StartClassification list \<Rightarrow> Analyzer \<Rightarrow> bool" where
  "ei_reachable classes A =
     list_ex (\<lambda>(pc, s). let c = classes ! unat pc in
       sc_kind c = SK_decoded \<and> fd_mnemonic (form_descriptor (di_form (sc_instruction c))) = M_ei)
     (an_states A)"

definition sp_union :: "Limits \<Rightarrow> Analyzer \<Rightarrow> Val" where
  "sp_union lim A =
    (if list_ex (\<lambda>(pc, s). val_top (s sSP)) (an_states A) then top_val kCauseEntry
     else normalize lim (concat (map (\<lambda>(pc, s). val_v (s sSP)) (an_states A))))"

text \<open>The entry state of the interrupt vector: the interrupted SP less the push, all else unknown.\<close>

definition interrupt_state :: "Limits \<Rightarrow> Val \<Rightarrow> State" where
  "interrupt_state lim sp =
    (if val_top sp then all_top kCauseEntry
     else (all_top kCauseEntry)(sSP := normalize lim (map (\<lambda>x. x - 2) (val_v sp))))"

fun int_rounds :: "nat \<Rightarrow> Limits \<Rightarrow> StartClassification list \<Rightarrow> Analyzer \<Rightarrow> bool \<Rightarrow> Analyzer \<times> bool" where
  "int_rounds 0 lim classes A ei = (A, ei)"
| "int_rounds (Suc n) lim classes A ei =
    (if an_budget A then (A, ei)
     else if \<not> ei_reachable classes A then (A, ei)
     else let sp = sp_union lim A;
              A' = fixpoint lim classes (enqueue lim (0x38, interrupt_state lim sp) A);
              sp' = sp_union lim A'
          in if val_top sp' = val_top sp \<and> val_v sp' = val_v sp then (A', True)
             else int_rounds n lim classes A' True)"

definition analyzer_run :: "Limits \<Rightarrow> StartClassification list \<Rightarrow> Root list \<Rightarrow> Analyzer \<times> bool" where
  "analyzer_run lim classes roots =
    (let A = fixpoint lim classes (fold (enqueue lim) (map start_state roots) analyzer_init)
     in int_rounds 4 lim classes A False)"

section \<open>The report\<close>

datatype Certainty = C_exact | C_finite | C_unknown

record StoreSite =
  ss_pc :: u16
  ss_width :: nat
  ss_hardware_push :: bool
  ss_address :: Certainty
  ss_value :: Certainty
  ss_addresses :: "u16 list"
  ss_values :: "u16 list"
  ss_hits_reachable_code :: bool

datatype ChangeKind = CH_payload_only | CH_form_changed | CH_length_changed | CH_becomes_undecodable | CH_becomes_decodable

record StartChange =
  sg_start :: u16
  sg_kind :: ChangeKind
  sg_original :: string
  sg_modified :: string
  sg_original_length :: nat
  sg_modified_length :: nat
  sg_reachable_start :: bool

record Candidate =
  cd_site_pc :: u16
  cd_destination :: u16
  cd_value :: u16
  cd_width :: nat
  cd_changes :: "StartChange list"
  cd_changed_starts :: nat
  cd_structural_changed_starts :: nat
  cd_reachable_structural_changed_starts :: nat
  cd_reachable_changed_starts :: nat

record Report =
  rp_reachable_starts :: nat
  rp_steps :: nat
  rp_reachability_complete :: bool
  rp_effects_complete :: bool
  rp_store_addresses_complete :: bool
  rp_store_values_complete :: bool
  rp_budget_exceeded :: bool
  rp_reasons :: "string \<Rightarrow> nat"
  rp_stores :: "StoreSite list"
  rp_candidates :: "Candidate list"
  rp_unknown_address_stores :: nat
  rp_unknown_value_stores :: nat

definition report_init :: Report where
  "report_init =
     \<lparr>rp_reachable_starts = 0, rp_steps = 0, rp_reachability_complete = True, rp_effects_complete = True,
      rp_store_addresses_complete = True, rp_store_values_complete = True, rp_budget_exceeded = False,
      rp_reasons = (\<lambda>_. 0), rp_stores = [], rp_candidates = [], rp_unknown_address_stores = 0,
      rp_unknown_value_stores = 0\<rparr>"

definition candidate_set_complete :: "Report \<Rightarrow> bool" where
  "candidate_set_complete r \<longleftrightarrow>
     rp_reachability_complete r \<and> rp_effects_complete r \<and> rp_store_addresses_complete r \<and>
     rp_store_values_complete r \<and> \<not> rp_budget_exceeded r"

definition closed_under_mutation :: "Report \<Rightarrow> bool" where
  "closed_under_mutation r \<longleftrightarrow>
     candidate_set_complete r \<and> list_all (\<lambda>c. cd_reachable_changed_starts c = 0) (rp_candidates r)"

definition count_reason :: "string \<Rightarrow> Report \<Rightarrow> Report" where
  "count_reason why r = r\<lparr>rp_reasons := (rp_reasons r)(why := rp_reasons r why + 1)\<rparr>"

definition note_reason :: "string \<Rightarrow> bool \<Rightarrow> bool \<Rightarrow> Report \<Rightarrow> Report" where
  "note_reason why reach_flag effect_flag r =
    (let r1 = count_reason why r;
         r2 = (if reach_flag then r1\<lparr>rp_reachability_complete := False\<rparr> else r1)
     in if effect_flag then r2\<lparr>rp_effects_complete := False\<rparr> else r2)"

definition lower_name :: "Mnemonic \<Rightarrow> string" where
  "lower_name m = map lower_char (mnemonic_name m)"

fun cause_name :: "Cause \<Rightarrow> string" where
  "cause_name kCauseEntry = ''unknown_entry_or_reset_state''"
| "cause_name kCauseCall = ''call_return_continuation''"
| "cause_name kCauseLoad = ''memory_load''"
| "cause_name kCauseOpaque = ''alu_result_not_modelled''"
| "cause_name kCauseWidened = ''join_widened''"
| "cause_name kCauseOverflow = ''cardinality_bound''"
| "cause_name (kCauseUnsupported m) = ''unsupported_effect:'' @ lower_name m"

section \<open>Reachable code\<close>

definition sorted_pcs :: "Analyzer \<Rightarrow> u16 list" where
  "sorted_pcs A = sort (map fst (an_states A))"

text \<open>The physical code bytes of the reachable decoded instructions.\<close>

definition covered_bytes :: "StartClassification list \<Rightarrow> u16 list \<Rightarrow> u16 list" where
  "covered_bytes classes pcs =
     concat (map (\<lambda>pc. let cls = classes ! unat pc in
       if sc_kind cls \<noteq> SK_decoded then []
       else map (\<lambda>i. ram_mask (pc + of_nat i)) [0..<unat (logical_length (sc_instruction cls))]) pcs)"

definition undecoded_reason :: "StartKind \<Rightarrow> string" where
  "undecoded_reason k =
    (if k = SK_prefix_lock then ''prefix_lock''
     else if k = SK_unresolved_fetch_mapping then ''unresolved_fetch_mapping''
     else ''fetch_outside_code_window'')"

definition note_undecoded :: "StartClassification list \<Rightarrow> u16 \<Rightarrow> Report \<Rightarrow> Report" where
  "note_undecoded classes pc r =
    (let k = sc_kind (classes ! unat pc)
     in if k \<noteq> SK_decoded then note_reason (undecoded_reason k) True True r else r)"

text \<open>Does a store of \<open>width\<close> bytes at \<open>a\<close> touch a covered code byte?\<close>

definition hits_code :: "u16 list \<Rightarrow> nat \<Rightarrow> u16 \<Rightarrow> bool" where
  "hits_code covered width a =
     list_ex (\<lambda>b. let dest = a + of_nat b in unat dest < kCodeWindow \<and> ram_mask dest \<in> set covered) [0..<width]"

section \<open>Store sites\<close>

definition certainty_of :: "Val \<Rightarrow> Certainty" where
  "certainty_of v = (if val_top v then C_unknown else if length (val_v v) = 1 then C_exact else C_finite)"

definition values_of :: "Val \<Rightarrow> u16 list" where
  "values_of v = (if val_top v then [] else val_v v)"

definition store_site :: "Limits \<Rightarrow> u16 list \<Rightarrow> State \<Rightarrow> u16 \<Rightarrow> MemoryStore \<Rightarrow> StoreSite" where
  "store_site lim covered s pc st =
    (let addr = eval_address lim (ms_address st) s;
         val = eval lim (ms_value st) s (if ms_width st = 2 then 0xFFFF else 0xFF)
     in \<lparr>ss_pc = pc, ss_width = ms_width st, ss_hardware_push = False, ss_address = certainty_of addr,
         ss_value = certainty_of val, ss_addresses = values_of addr, ss_values = values_of val,
         ss_hits_reachable_code = (val_top addr \<or> list_ex (hits_code covered (ms_width st)) (values_of addr))\<rparr>)"

definition note_store :: "Limits \<Rightarrow> u16 list \<Rightarrow> State \<Rightarrow> u16 \<Rightarrow> MemoryStore \<Rightarrow> Report \<Rightarrow> Report" where
  "note_store lim covered s pc st r =
    (let addr = eval_address lim (ms_address st) s;
         val = eval lim (ms_value st) s (if ms_width st = 2 then 0xFFFF else 0xFF);
         site = store_site lim covered s pc st;
         r1 = (if val_top addr then
                 (let r' = count_reason (''  address_cause:'' @ cause_name (val_cause addr))
                             (note_reason ''store_address_unknown'' False False r)
                  in r'\<lparr>rp_store_addresses_complete := False,
                        rp_unknown_address_stores := rp_unknown_address_stores r' + 1\<rparr>)
               else r);
         r2 = (if val_top val then
                 (let r' = count_reason (''  value_cause:'' @ cause_name (val_cause val))
                             (r1\<lparr>rp_unknown_value_stores := rp_unknown_value_stores r1 + 1\<rparr>)
                  in if ss_hits_reachable_code site
                     then (note_reason ''store_value_unknown_may_hit_code'' False False r')
                            \<lparr>rp_store_values_complete := False\<rparr>
                     else r')
               else r1)
     in r2\<lparr>rp_stores := rp_stores r2 @ [site]\<rparr>)"

definition note_unsupported :: "FormDescriptor \<Rightarrow> Report \<Rightarrow> Report" where
  "note_unsupported d r =
    (let m = fd_mnemonic d; name = lower_name m;
         r1 = (if m = M_ret \<or> m = M_reti \<or> m = M_retn
               then note_reason (''unsupported_effect:'' @ name) True True r
               else if m = M_jp \<or> m = M_jr \<or> m = M_djnz \<or> m = M_call \<or> m = M_rst
               then note_reason (''unsupported_control:'' @ name) True True r
               else note_reason (''unsupported_effect:'' @ name) False True r)
     in if m = M_im \<and> fd_src d = O_im2 then note_reason ''interrupt_vector_unresolved_im2'' True False r1
        else r1)"

definition note_start :: "Limits \<Rightarrow> StartClassification list \<Rightarrow> u16 list \<Rightarrow> Analyzer \<Rightarrow> u16 \<Rightarrow> Report \<Rightarrow> Report" where
  "note_start lim classes covered A pc r =
    (let cls = classes ! unat pc in
     if sc_kind cls \<noteq> SK_decoded then r
     else let i = sc_instruction cls; eff = project_effect i;
              s = (case map_of (an_states A) pc of Some s \<Rightarrow> s | None \<Rightarrow> all_top kCauseEntry) in
       if \<not> ef_supported eff then note_unsupported (form_descriptor (di_form i)) r
       else let r1 = (if ef_control eff = CK_computed \<and> val_top (read_reg lim s (ef_computed_base eff))
                      then note_reason ''unresolved_indirect_jump'' True False r else r);
                r2 = (if ef_control eff = CK_return \<or> ef_control eff = CK_conditional_return
                      then note_reason ''return_target_unproven'' True False r1 else r1)
            in case ef_store eff of None \<Rightarrow> r2 | Some st \<Rightarrow> note_store lim covered s pc st r2)"

definition note_interrupt :: "Limits \<Rightarrow> u16 list \<Rightarrow> Analyzer \<Rightarrow> Report \<Rightarrow> Report" where
  "note_interrupt lim covered A r =
    (let r0 = note_reason ''interrupt_register_effects_unverified'' False True r;
         sp = sp_union lim A;
         dests = remdups_adj (sort (map (\<lambda>x. x - 2) (val_v sp)));
         site = (if val_top sp then
                   \<lparr>ss_pc = 0, ss_width = 2, ss_hardware_push = True, ss_address = C_unknown, ss_value = C_unknown,
                    ss_addresses = [], ss_values = [], ss_hits_reachable_code = True\<rparr>
                 else
                   \<lparr>ss_pc = 0, ss_width = 2, ss_hardware_push = True,
                    ss_address = (if length dests = 1 then C_exact else C_finite), ss_value = C_unknown,
                    ss_addresses = dests, ss_values = [],
                    ss_hits_reachable_code = list_ex (hits_code covered 2) dests\<rparr>);
         r1 = (if val_top sp then
                 (let r' = note_reason ''hardware_push_sp_unknown'' False False r0
                  in r'\<lparr>rp_store_addresses_complete := False,
                        rp_unknown_address_stores := rp_unknown_address_stores r' + 1\<rparr>)
               else r0);
         r2 = r1\<lparr>rp_unknown_value_stores := rp_unknown_value_stores r1 + 1\<rparr>;
         r3 = (if ss_hits_reachable_code site
               then (note_reason ''hardware_push_may_hit_code'' False False r2)\<lparr>rp_store_values_complete := False\<rparr>
               else r2)
     in r3\<lparr>rp_stores := rp_stores r3 @ [site]\<rparr>)"

section \<open>Candidates\<close>

definition start_name :: "StartClassification \<Rightarrow> string" where
  "start_name c = (if sc_kind c = SK_decoded then form_name (di_form (sc_instruction c)) else ''undecodable'')"

definition start_length :: "StartClassification \<Rightarrow> nat" where
  "start_length c = (if sc_kind c = SK_decoded then unat (logical_length (sc_instruction c)) else 0)"

definition change_kind :: "StartClassification \<Rightarrow> StartClassification \<Rightarrow> ChangeKind" where
  "change_kind o' m =
    (if sc_kind o' = SK_decoded \<and> sc_kind m = SK_decoded then
       (if start_length o' \<noteq> start_length m then CH_length_changed
        else if di_form (sc_instruction o') \<noteq> di_form (sc_instruction m) then CH_form_changed
        else CH_payload_only)
     else if sc_kind o' = SK_decoded then CH_becomes_undecodable else CH_becomes_decodable)"

definition start_change :: "u16 list \<Rightarrow> nat \<Rightarrow> StartClassification \<Rightarrow> StartClassification \<Rightarrow> StartChange" where
  "start_change reach q o' m =
     \<lparr>sg_start = of_nat q, sg_kind = change_kind o' m, sg_original = start_name o', sg_modified = start_name m,
      sg_original_length = start_length o', sg_modified_length = start_length m,
      sg_reachable_start = (of_nat q \<in> set reach)\<rparr>"

text \<open>The starts that are compared: the second mirror counts only where it is reachable.\<close>

definition changed_starts :: "StartClassification list \<Rightarrow> StartClassification list \<Rightarrow> u16 list \<Rightarrow> StartChange list" where
  "changed_starts classes modified reach =
     map (\<lambda>q. start_change reach q (classes ! q) (modified ! q))
       (filter (\<lambda>q. classes ! q \<noteq> modified ! q \<and> \<not> (q \<ge> kRamBytes \<and> of_nat q \<notin> set reach)) [0..<kCodeWindow])"

definition apply_write :: "u8 list \<Rightarrow> u16 \<Rightarrow> u16 \<Rightarrow> nat \<Rightarrow> u8 list" where
  "apply_write ram a v width =
     fold (\<lambda>b mod_ram. let dest = a + of_nat b in
         if unat dest < kCodeWindow then mod_ram[unat (ram_mask dest) := ucast (drop_bit (8 * b) v)] else mod_ram)
       [0..<width] ram"

definition make_candidate :: "u8 list \<Rightarrow> StartClassification list \<Rightarrow> u16 list \<Rightarrow> StoreSite \<Rightarrow> u16 \<Rightarrow> u16 \<Rightarrow> Candidate" where
  "make_candidate ram classes reach s a v =
    (let changes = changed_starts classes (image_classes (apply_write ram a v (ss_width s))) reach;
         structural = filter (\<lambda>c. sg_kind c \<noteq> CH_payload_only) changes
     in \<lparr>cd_site_pc = ss_pc s, cd_destination = a, cd_value = v, cd_width = ss_width s,
         cd_changes = take 64 changes, cd_changed_starts = length changes,
         cd_structural_changed_starts = length structural,
         cd_reachable_structural_changed_starts = length (filter sg_reachable_start structural),
         cd_reachable_changed_starts = length (filter sg_reachable_start changes)\<rparr>)"

definition kCandidateCap :: nat where "kCandidateCap = 4096"

definition add_candidate ::
  "u8 list \<Rightarrow> StartClassification list \<Rightarrow> u16 list \<Rightarrow> u16 list \<Rightarrow> StoreSite \<Rightarrow> u16 \<times> u16 \<Rightarrow> Report \<Rightarrow> Report" where
  "add_candidate ram classes reach covered s = (\<lambda>(a, v) r.
    (if \<not> hits_code covered (ss_width s) a then r
     else if length (rp_candidates r) \<ge> kCandidateCap
       then count_reason ''candidate_cap_exceeded'' (r\<lparr>rp_budget_exceeded := True\<rparr>)
     else r\<lparr>rp_candidates := rp_candidates r @ [make_candidate ram classes reach s a v]\<rparr>))"

definition site_candidates ::
  "u8 list \<Rightarrow> StartClassification list \<Rightarrow> u16 list \<Rightarrow> u16 list \<Rightarrow> StoreSite \<Rightarrow> Report \<Rightarrow> Report" where
  "site_candidates ram classes reach covered s r =
    (if ss_hardware_push s \<or> ss_address s = C_unknown \<or> ss_value s = C_unknown \<or> \<not> ss_hits_reachable_code s then r
     else fold (add_candidate ram classes reach covered s)
       (concat (map (\<lambda>a. map (Pair a) (ss_values s)) (ss_addresses s))) r)"

section \<open>The analysis\<close>

definition report_stores :: "Limits \<Rightarrow> StartClassification list \<Rightarrow> Analyzer \<Rightarrow> bool \<Rightarrow> Report" where
  "report_stores lim classes A ei =
    (let pcs = sorted_pcs A;
         covered = covered_bytes classes pcs;
         r0 = report_init\<lparr>rp_reachable_starts := length pcs, rp_steps := an_steps A, rp_budget_exceeded := an_budget A\<rparr>;
         r1 = (if an_budget A then count_reason ''analysis_budget_exceeded'' r0 else r0);
         r2 = fold (note_undecoded classes) pcs r1;
         r3 = fold (note_start lim classes covered A) pcs r2
     in if ei then note_interrupt lim covered A r3 else r3)"

definition analyzer_report :: "Limits \<Rightarrow> u8 list \<Rightarrow> Root list \<Rightarrow> Report" where
  "analyzer_report lim ram roots =
    (let classes = image_classes ram;
         (A, ei) = analyzer_run lim classes roots;
         pcs = sorted_pcs A;
         r = report_stores lim classes A ei
     in fold (site_candidates ram classes pcs (covered_bytes classes pcs)) (rp_stores r) r)"

definition analyze :: "u8 list \<Rightarrow> Root list \<Rightarrow> Limits \<Rightarrow> Report" where
  "analyze ram roots lim =
    (if length ram \<noteq> kRamBytes
     then count_reason ''bad_image_size'' (report_init\<lparr>rp_reachability_complete := False\<rparr>)
     else analyzer_report lim ram roots)"

definition hardware_roots :: "Root list" where
  "hardware_roots = [\<lparr>rt_pc = 0x0000, rt_reset_state = True\<rparr>]"

section \<open>Alternative bytes\<close>

record ByteAlternative =
  ba_offset :: u16
  ba_value :: u8

record AlternativeSet =
  as_bytes :: "ByteAlternative list"
  as_candidates :: nat
  as_bound_exceeded :: bool

text \<open>The (offset, value) pairs of one candidate that differ from the snapshot.\<close>

definition candidate_pairs :: "u8 list \<Rightarrow> Candidate \<Rightarrow> (u16 \<times> u8) list" where
  "candidate_pairs ram c =
     concat (map (\<lambda>b. let dest = cd_destination c + of_nat b;
                          offset = ram_mask dest;
                          val = ucast (drop_bit (8 * b) (cd_value c)) in
       if unat dest \<ge> kCodeWindow \<or> val = ram ! unat offset then [] else [(offset, val)])
     [0..<cd_width c])"

definition static_byte_alternatives :: "u8 list \<Rightarrow> nat \<Rightarrow> AlternativeSet" where
  "static_byte_alternatives ram max_destination_bytes =
    (if length ram \<noteq> kRamBytes then \<lparr>as_bytes = [], as_candidates = 0, as_bound_exceeded = False\<rparr>
     else
       let report = analyze ram hardware_roots default_limits;
           used = filter (\<lambda>c. cd_changed_starts c \<noteq> 0) (rp_candidates report);
           all_pairs = concat (map (candidate_pairs ram) used);
           pairs = remdups_adj (sort all_pairs);
           destinations = remdups_adj (sort (map fst all_pairs))
       in if length destinations > max_destination_bytes
          then \<lparr>as_bytes = [], as_candidates = length used, as_bound_exceeded = True\<rparr>
          else \<lparr>as_bytes = map (\<lambda>(o', v). \<lparr>ba_offset = o', ba_value = v\<rparr>) pairs,
                as_candidates = length used, as_bound_exceeded = False\<rparr>)"

end
