(* ===== verification/Z80_Report.thy ===== *)
theory Z80_Report
  imports Z80_Mutation
begin

text \<open>
  What a complete report of the code-write analysis
  (\<^verbatim>\<open>src/libs/cpu/z80/src/mutation.cpp\<close>) promises. The run of the analyzer is a fixpoint that
  covers every state the machine can reach (from \<open>Z80_Soundness\<close>), the passes over the starts only
  ever lower the flags of the report, and so a report whose flags all stand has a site for every
  store of the reachable code (C13). The last section evaluates the analysis of a concrete image.
\<close>

section \<open>The run covers what the image can reach\<close>

lemma int_rounds_budget: "an_budget A \<Longrightarrow> an_budget (fst (int_rounds n lim classes A ei))"
proof (induction n arbitrary: A ei)
  case (Suc n)
  then show ?case by simp
qed simp

lemma int_rounds_ok:
  "work_inv lim classes A \<Longrightarrow> an_queue A = [] \<Longrightarrow> \<not> an_budget (fst (int_rounds n lim classes A ei)) \<Longrightarrow>
     work_inv lim classes (fst (int_rounds n lim classes A ei)) \<and>
     an_queue (fst (int_rounds n lim classes A ei)) = [] \<and>
     (\<forall>pc s. covers A pc s \<longrightarrow> covers (fst (int_rounds n lim classes A ei)) pc s)"
proof (induction n arbitrary: A ei)
  case (Suc n)
  show ?case
  proof (cases "an_budget A \<or> \<not> ei_reachable classes A")
    case True
    then show ?thesis using Suc.prems by auto
  next
    case False
    let ?E = "enqueue lim (0x38, interrupt_state lim (sp_union lim A)) A"
    let ?A = "fixpoint lim classes ?E"
    let ?stable = "val_top (sp_union lim ?A) = val_top (sp_union lim A) \<and> val_v (sp_union lim ?A) = val_v (sp_union lim A)"
    have step: "int_rounds (Suc n) lim classes A ei = (if ?stable then (?A, True) else int_rounds n lim classes ?A True)"
      using False by (simp add: Let_def)
    have nb: "\<not> an_budget ?A"
    proof
      assume "an_budget ?A"
      then have "an_budget (fst (int_rounds (Suc n) lim classes A ei))"
        unfolding step using int_rounds_budget by simp
      then show False using Suc.prems(3) by simp
    qed
    then have "\<not> an_budget ?E" using fixpoint_budget by blast
    then have g: "grows A ?E" using enqueue_ok by blast
    from fixpoint_ok [OF work_inv_grows [OF Suc.prems(1) g] nb]
    have A: "work_inv lim classes ?A" "an_queue ?A = []" "\<forall>pc s. covers A pc s \<longrightarrow> covers ?A pc s"
      using g by (auto simp: grows_def)
    show ?thesis
    proof (cases ?stable)
      case True
      then show ?thesis unfolding step using A by simp
    next
      case unstable: False
      then have s: "int_rounds (Suc n) lim classes A ei = int_rounds n lim classes ?A True"
        unfolding step by (simp only: if_False)
      from Suc.IH [OF A(1,2)] Suc.prems(3) show ?thesis unfolding s using A(3) by blast
    qed
  qed
qed simp

lemma analyzer_run_ok:
  assumes "\<not> an_budget (fst (analyzer_run lim classes roots))"
  shows "work_inv lim classes (fst (analyzer_run lim classes roots))"
    "an_queue (fst (analyzer_run lim classes roots)) = []"
    "r \<in> set roots \<Longrightarrow> \<exists>s. map_of (an_states (fst (analyzer_run lim classes roots))) (rt_pc r) = Some s \<and> in_state s c"
proof -
  let ?I = "fold (enqueue lim) (map start_state roots) analyzer_init"
  let ?F = "fixpoint lim classes ?I"
  have run: "analyzer_run lim classes roots = int_rounds 4 lim classes ?F False"
    by (simp add: analyzer_run_def Let_def)
  have nF: "\<not> an_budget ?F" using assms int_rounds_budget unfolding run by blast
  have nI: "\<not> an_budget ?I" using nF fixpoint_budget by blast
  have "work_inv lim classes analyzer_init" by (simp add: work_inv_def analyzer_init_def)
  with fold_enqueue_ok [OF nI] have I: "work_inv lim classes ?I"
    "\<forall>(pc, s) \<in> set (map start_state roots). covers ?I pc s" using work_inv_grows by blast+
  from fixpoint_ok [OF I(1) nF] have F: "work_inv lim classes ?F" "an_queue ?F = []"
    "\<forall>pc s. covers ?I pc s \<longrightarrow> covers ?F pc s" by auto
  from int_rounds_ok [OF F(1,2) assms [unfolded run]]
  have R: "work_inv lim classes (fst (analyzer_run lim classes roots))"
    "an_queue (fst (analyzer_run lim classes roots)) = []"
    "\<forall>pc s. covers ?F pc s \<longrightarrow> covers (fst (analyzer_run lim classes roots)) pc s"
    unfolding run by auto
  show "work_inv lim classes (fst (analyzer_run lim classes roots))"
    "an_queue (fst (analyzer_run lim classes roots)) = []" by (rule R)+
  assume "r \<in> set roots"
  then have "covers ?I (rt_pc r) (snd (start_state r))" using I(2) by (auto simp: start_state_def)
  then have "covers (fst (analyzer_run lim classes roots)) (rt_pc r) (snd (start_state r))"
    using F(3) R(3) by blast
  moreover have "in_state (snd (start_state r)) c" by (simp add: start_state_def reset_state_def)
  ultimately show "\<exists>s. map_of (an_states (fst (analyzer_run lim classes roots))) (rt_pc r) = Some s \<and> in_state s c"
    by (auto simp: covers_def)
qed

text \<open>No start of a finished run has a computed jump the analysis could not follow.\<close>

definition all_resolved :: "Limits \<Rightarrow> StartClassification list \<Rightarrow> Analyzer \<Rightarrow> bool" where
  "all_resolved lim classes A \<longleftrightarrow>
     (\<forall>pc s. map_of (an_states A) pc = Some s \<longrightarrow> \<not> unresolved lim classes pc s)"

lemma run_covers_reachable:
  assumes "\<not> an_budget (fst (analyzer_run lim classes roots))"
    and "all_resolved lim classes (fst (analyzer_run lim classes roots))"
    and "r \<in> set roots" "(flow classes)\<^sup>*\<^sup>* (rt_pc r, c0) (pc, c)"
  shows "\<exists>s. map_of (an_states (fst (analyzer_run lim classes roots))) pc = Some s \<and> in_state s c"
proof -
  from analyzer_run_ok(3) [OF assms(1,3), of c0] obtain s
    where s: "map_of (an_states (fst (analyzer_run lim classes roots))) (rt_pc r) = Some s" "in_state s c0" by blast
  have "\<exists>t. map_of (an_states (fst (analyzer_run lim classes roots))) (fst (pc, c)) = Some t \<and> in_state t (snd (pc, c))"
    by (rule reachable_covered [OF analyzer_run_ok(1,2) [OF assms(1)] assms(2) [unfolded all_resolved_def] _ _ assms(4)])
      (use s in simp_all)
  then show ?thesis by simp
qed

section \<open>Report flags\<close>

text \<open>One report extends another: flags only fall, and no store site is lost.\<close>

definition extends :: "Report \<Rightarrow> Report \<Rightarrow> bool" where
  "extends r r' \<longleftrightarrow>
     (rp_reachability_complete r' \<longrightarrow> rp_reachability_complete r) \<and>
     (rp_effects_complete r' \<longrightarrow> rp_effects_complete r) \<and>
     (rp_store_addresses_complete r' \<longrightarrow> rp_store_addresses_complete r) \<and>
     (rp_store_values_complete r' \<longrightarrow> rp_store_values_complete r) \<and>
     (rp_budget_exceeded r \<longrightarrow> rp_budget_exceeded r') \<and> set (rp_stores r) \<subseteq> set (rp_stores r')"

lemma extends_refl: "extends r r"
  by (simp add: extends_def)

lemma extends_trans: "extends r r' \<Longrightarrow> extends r' r'' \<Longrightarrow> extends r r''"
  by (auto simp: extends_def)

lemma extends_complete: "extends r r' \<Longrightarrow> candidate_set_complete r' \<Longrightarrow> candidate_set_complete r"
  by (auto simp: extends_def candidate_set_complete_def)

lemma extends_fold: "(\<And>x r. extends r (f x r)) \<Longrightarrow> extends r (fold f xs r)"
  by (induction xs arbitrary: r) (auto intro: extends_refl extends_trans)

text \<open>Every step of a fold over a complete report started and ended complete.\<close>

lemma fold_step_complete:
  assumes ext: "\<And>x r. extends r (f x r)" and x: "x \<in> set xs" and c: "candidate_set_complete (fold f xs r)"
  shows "\<exists>r0. candidate_set_complete (f x r0) \<and> extends (f x r0) (fold f xs r)"
  using x c
proof (induction xs arbitrary: r)
  case (Cons y ys)
  show ?case
  proof (cases "x = y")
    case True
    have "extends (f x r) (fold f (y # ys) r)" using True extends_fold [OF ext] by simp
    then show ?thesis using Cons.prems(2) extends_complete by blast
  next
    case False
    then show ?thesis using Cons by simp
  qed
qed simp

lemma count_reason_simps [simp]:
  "rp_reachability_complete (count_reason w r) = rp_reachability_complete r"
  "rp_effects_complete (count_reason w r) = rp_effects_complete r"
  "rp_store_addresses_complete (count_reason w r) = rp_store_addresses_complete r"
  "rp_store_values_complete (count_reason w r) = rp_store_values_complete r"
  "rp_budget_exceeded (count_reason w r) = rp_budget_exceeded r"
  "rp_stores (count_reason w r) = rp_stores r"
  "rp_candidates (count_reason w r) = rp_candidates r"
  by (simp_all add: count_reason_def)

lemma note_reason_simps [simp]:
  "rp_reachability_complete (note_reason w a b r) = (rp_reachability_complete r \<and> \<not> a)"
  "rp_effects_complete (note_reason w a b r) = (rp_effects_complete r \<and> \<not> b)"
  "rp_store_addresses_complete (note_reason w a b r) = rp_store_addresses_complete r"
  "rp_store_values_complete (note_reason w a b r) = rp_store_values_complete r"
  "rp_budget_exceeded (note_reason w a b r) = rp_budget_exceeded r"
  "rp_stores (note_reason w a b r) = rp_stores r"
  "rp_candidates (note_reason w a b r) = rp_candidates r"
  by (simp_all add: note_reason_def Let_def)

lemma extends_note_undecoded: "extends r (note_undecoded classes pc r)"
  by (simp add: note_undecoded_def Let_def extends_def)

lemma note_unsupported_flags:
  "rp_effects_complete (note_unsupported d r) = False" "extends r (note_unsupported d r)"
  by (simp_all add: note_unsupported_def Let_def extends_def)

lemma note_store_flags:
  "extends r (note_store lim covered s pc st r)"
  "store_site lim covered s pc st \<in> set (rp_stores (note_store lim covered s pc st r))"
  "rp_store_addresses_complete (note_store lim covered s pc st r) \<Longrightarrow> \<not> val_top (eval_address lim (ms_address st) s)"
  "rp_store_values_complete (note_store lim covered s pc st r) \<Longrightarrow>
     \<not> val_top (eval lim (ms_value st) s (if ms_width st = 2 then 0xFFFF else 0xFF)) \<or>
     \<not> ss_hits_reachable_code (store_site lim covered s pc st)"
  by (auto simp: note_store_def Let_def extends_def split: if_splits)

lemma extends_note_reason: "extends r (note_reason w a b r)"
  by (simp add: extends_def)

lemma extends_if: "extends r (f r) \<Longrightarrow> extends r (if b then f r else r)"
  by (simp add: extends_refl)

text \<open>The two notes about control before the store of a start.\<close>

definition note_control :: "Limits \<Rightarrow> State \<Rightarrow> Z80Effect \<Rightarrow> Report \<Rightarrow> Report" where
  "note_control lim s eff r =
    (let r1 = (if ef_control eff = CK_computed \<and> val_top (read_reg lim s (ef_computed_base eff))
               then note_reason ''unresolved_indirect_jump'' True False r else r)
     in if ef_control eff = CK_return \<or> ef_control eff = CK_conditional_return
        then note_reason ''return_target_unproven'' True False r1 else r1)"

lemma note_control_flags:
  "extends r (note_control lim s eff r)"
  "rp_reachability_complete (note_control lim s eff r) \<Longrightarrow>
     \<not> (ef_control eff = CK_computed \<and> val_top (read_reg lim s (ef_computed_base eff)))"
  by (auto simp: note_control_def Let_def extends_def)

lemma note_start_alt:
  "note_start lim classes covered A pc r =
    (let i = sc_instruction (classes ! unat pc); eff = project_effect i;
         s = (case map_of (an_states A) pc of Some s \<Rightarrow> s | None \<Rightarrow> all_top kCauseEntry) in
     if sc_kind (classes ! unat pc) \<noteq> SK_decoded then r
     else if \<not> ef_supported eff then note_unsupported (form_descriptor (di_form i)) r
     else case ef_store eff of None \<Rightarrow> note_control lim s eff r
          | Some st \<Rightarrow> note_store lim covered s pc st (note_control lim s eff r))"
  unfolding note_start_def note_control_def Let_def by (rule refl)

lemma extends_note_start: "extends r (note_start lim classes covered A pc r)"
  unfolding note_start_alt Let_def
  using note_unsupported_flags(2) note_control_flags(1) extends_trans [OF note_control_flags(1) note_store_flags(1)]
  by (simp add: extends_refl split: option.split)

lemma note_interrupt_flags: "rp_effects_complete (note_interrupt lim covered A r) = False"
  "extends r (note_interrupt lim covered A r)"
  by (auto simp: note_interrupt_def Let_def extends_def split: if_splits)

lemma extends_site_candidates: "extends r (site_candidates ram classes reach covered s r)"
proof -
  have "extends r (add_candidate ram classes reach covered s av r)" for av r
    by (cases av) (simp add: add_candidate_def extends_def)
  then show ?thesis by (simp add: site_candidates_def extends_refl extends_fold)
qed

section \<open>A complete report\<close>

lemma report_stores_complete:
  assumes "candidate_set_complete (report_stores lim classes A ei)"
  shows "\<not> an_budget A" "\<not> ei"
    "candidate_set_complete (fold (note_start lim classes (covered_bytes classes (sorted_pcs A)) A) (sorted_pcs A)
       (fold (note_undecoded classes) (sorted_pcs A)
         (report_init\<lparr>rp_reachable_starts := length (sorted_pcs A), rp_steps := an_steps A, rp_budget_exceeded := False\<rparr>)))"
    "report_stores lim classes A ei =
       fold (note_start lim classes (covered_bytes classes (sorted_pcs A)) A) (sorted_pcs A)
       (fold (note_undecoded classes) (sorted_pcs A)
         (report_init\<lparr>rp_reachable_starts := length (sorted_pcs A), rp_steps := an_steps A, rp_budget_exceeded := False\<rparr>))"
proof -
  let ?pcs = "sorted_pcs A" and ?cov = "covered_bytes classes (sorted_pcs A)"
  let ?r0 = "report_init\<lparr>rp_reachable_starts := length ?pcs, rp_steps := an_steps A, rp_budget_exceeded := an_budget A\<rparr>"
  let ?r1 = "if an_budget A then count_reason ''analysis_budget_exceeded'' ?r0 else ?r0"
  let ?r2 = "fold (note_undecoded classes) ?pcs ?r1"
  let ?r3 = "fold (note_start lim classes ?cov A) ?pcs ?r2"
  have r: "report_stores lim classes A ei = (if ei then note_interrupt lim ?cov A ?r3 else ?r3)"
    by (simp add: report_stores_def Let_def)
  show ei: "\<not> ei"
    using assms note_interrupt_flags(1) unfolding r by (auto simp: candidate_set_complete_def)
  have "extends ?r1 ?r3"
    using extends_fold [of "note_undecoded classes" ?r1 ?pcs] extends_note_undecoded
      extends_fold [of "note_start lim classes ?cov A" ?r2 ?pcs] extends_note_start extends_trans by blast
  moreover have "candidate_set_complete ?r3" using assms ei unfolding r by simp
  ultimately have "candidate_set_complete ?r1" by (rule extends_complete)
  then show nb: "\<not> an_budget A" by (auto simp: candidate_set_complete_def split: if_splits)
  show "report_stores lim classes A ei =
       fold (note_start lim classes ?cov A) ?pcs
       (fold (note_undecoded classes) ?pcs
         (report_init\<lparr>rp_reachable_starts := length ?pcs, rp_steps := an_steps A, rp_budget_exceeded := False\<rparr>))"
    using ei nb unfolding r by simp
  then show "candidate_set_complete (fold (note_start lim classes ?cov A) ?pcs
       (fold (note_undecoded classes) ?pcs
         (report_init\<lparr>rp_reachable_starts := length ?pcs, rp_steps := an_steps A, rp_budget_exceeded := False\<rparr>)))"
    using assms by simp
qed

lemma pc_sorted: "map_of (an_states A) pc = Some s \<Longrightarrow> pc \<in> set (sorted_pcs A)"
  by (auto simp: sorted_pcs_def dest!: map_of_SomeD intro: rev_image_eqI)

text \<open>
  What a complete report knows of each start the run holds: it decodes, its effect is supported,
  its jump is resolved, and its store has a site with known addresses, whose values are known
  wherever the store may touch covered code.
\<close>

definition site_for :: "Limits \<Rightarrow> StartClassification list \<Rightarrow> Analyzer \<Rightarrow> Report \<Rightarrow> u16 \<Rightarrow> State \<Rightarrow> MemoryStore \<Rightarrow> bool" where
  "site_for lim classes A r pc s st \<longleftrightarrow>
    (let covered = covered_bytes classes (sorted_pcs A); site = store_site lim covered s pc st in
     site \<in> set (rp_stores r) \<and> \<not> val_top (eval_address lim (ms_address st) s) \<and>
     (\<not> val_top (eval lim (ms_value st) s (if ms_width st = 2 then 0xFFFF else 0xFF)) \<or>
      \<not> ss_hits_reachable_code site))"

lemma complete_start:
  assumes c: "candidate_set_complete (report_stores lim classes A ei)" and s: "map_of (an_states A) pc = Some s"
  defines "e \<equiv> project_effect (sc_instruction (classes ! unat pc))"
  shows "sc_kind (classes ! unat pc) = SK_decoded" "ef_supported e" "\<not> unresolved lim classes pc s"
    "ef_store e = Some st \<Longrightarrow> site_for lim classes A (report_stores lim classes A ei) pc s st"
proof -
  let ?pcs = "sorted_pcs A" and ?cov = "covered_bytes classes (sorted_pcs A)"
  let ?r0 = "report_init\<lparr>rp_reachable_starts := length ?pcs, rp_steps := an_steps A, rp_budget_exceeded := False\<rparr>"
  let ?r2 = "fold (note_undecoded classes) ?pcs ?r0"
  let ?n = "note_start lim classes ?cov A pc"
  note R = report_stores_complete [OF c]
  have pc: "pc \<in> set ?pcs" by (rule pc_sorted [OF s])
  have "extends ?r2 (fold (note_start lim classes ?cov A) ?pcs ?r2)"
    by (rule extends_fold [OF extends_note_start])
  from extends_complete [OF this R(3)] fold_step_complete [of "note_undecoded classes", OF extends_note_undecoded pc]
  obtain q where "candidate_set_complete (note_undecoded classes pc q)" by blast
  then show dec: "sc_kind (classes ! unat pc) = SK_decoded"
    by (auto simp: candidate_set_complete_def note_undecoded_def Let_def split: if_splits)
  from fold_step_complete [of "note_start lim classes ?cov A", OF extends_note_start pc R(3)]
  obtain q where q: "candidate_set_complete (?n q)" and ext: "extends (?n q) (report_stores lim classes A ei)"
    unfolding R(4) by blast
  have st: "(case map_of (an_states A) pc of Some s \<Rightarrow> s | None \<Rightarrow> all_top kCauseEntry) = s" using s by simp
  have alt: "?n q = (if \<not> ef_supported e then note_unsupported (form_descriptor (di_form (sc_instruction (classes ! unat pc)))) q
     else case ef_store e of None \<Rightarrow> note_control lim s e q
          | Some st \<Rightarrow> note_store lim ?cov s pc st (note_control lim s e q))"
    unfolding note_start_alt Let_def e_def st using dec by simp
  show sup: "ef_supported e"
    using q note_unsupported_flags(1) unfolding alt by (auto simp: candidate_set_complete_def split: if_splits)
  have "extends (note_control lim s e q) (?n q)"
    unfolding alt using sup note_store_flags(1) by (simp add: extends_refl split: option.split)
  from extends_complete [OF this q] have "rp_reachability_complete (note_control lim s e q)"
    by (simp add: candidate_set_complete_def)
  from note_control_flags(2) [OF this] show "\<not> unresolved lim classes pc s"
    by (auto simp: unresolved_def Let_def e_def)
  assume st: "ef_store e = Some st"
  have n: "?n q = note_store lim ?cov s pc st (note_control lim s e q)" using sup st unfolding alt by simp
  have "store_site lim ?cov s pc st \<in> set (rp_stores (report_stores lim classes A ei))"
    using note_store_flags(2) [of lim ?cov s pc st "note_control lim s e q"] ext
    unfolding extends_def n [symmetric] by blast
  then show "site_for lim classes A (report_stores lim classes A ei) pc s st"
    using q note_store_flags(3,4) [of lim ?cov s pc st "note_control lim s e q"]
    unfolding site_for_def Let_def n [symmetric] candidate_set_complete_def by blast
qed

text \<open>The final report extends the one before the candidates.\<close>

lemma analyzer_report_extends:
  "extends (report_stores lim (image_classes ram) (fst (analyzer_run lim (image_classes ram) roots))
      (snd (analyzer_run lim (image_classes ram) roots))) (analyzer_report lim ram roots)"
  unfolding analyzer_report_def Let_def split_beta
  by (rule extends_fold [OF extends_site_candidates])

text \<open>The code bytes the final report takes as reachable.\<close>

definition reachable_code :: "u8 list \<Rightarrow> Root list \<Rightarrow> Limits \<Rightarrow> u16 list" where
  "reachable_code ram roots lim =
     covered_bytes (image_classes ram) (sorted_pcs (fst (analyzer_run lim (image_classes ram) roots)))"

definition store_covered :: "Report \<Rightarrow> u16 list \<Rightarrow> u16 \<Rightarrow> cpu \<Rightarrow> MemoryStore \<Rightarrow> bool" where
  "store_covered r covered pc c st \<longleftrightarrow>
    (\<exists>site \<in> set (rp_stores r). ss_pc site = pc \<and> ss_width site = ms_width st \<and>
       address_of (ms_address st) c \<in> set (ss_addresses site) \<and>
       (\<forall>v. value_of (ms_value st) c v \<longrightarrow> hits_code covered (ms_width st) (address_of (ms_address st) c) \<longrightarrow>
          (v AND (if ms_width st = 2 then 0xFFFF else 0xFF)) \<in> set (ss_values site)))"

lemma site_for_covers:
  assumes "site_for lim classes A r pc s st" "in_state s c"
  shows "store_covered r (covered_bytes classes (sorted_pcs A)) pc c st"
proof -
  let ?cov = "covered_bytes classes (sorted_pcs A)"
  let ?site = "store_site lim ?cov s pc st" and ?a = "address_of (ms_address st) c"
  let ?m = "if ms_width st = 2 then 0xFFFF else 0xFF :: u16"
  let ?val = "eval lim (ms_value st) s ?m"
  have s: "?site \<in> set (rp_stores r)" "\<not> val_top (eval_address lim (ms_address st) s)"
    "\<not> val_top ?val \<or> \<not> ss_hits_reachable_code ?site"
    using assms(1) unfolding site_for_def Let_def by blast+
  have a: "?a \<in> set (values_of (eval_address lim (ms_address st) s))"
    using eval_address_sound [OF assms(2), of lim "ms_address st"] s(2) by (simp add: in_val_def values_of_def)
  have "(v AND ?m) \<in> set (ss_values ?site)"
    if v: "value_of (ms_value st) c v" and h: "hits_code ?cov (ms_width st) ?a" for v
  proof -
    have "ss_hits_reachable_code ?site" using a h s(2) by (auto simp: store_site_def Let_def list_ex_iff)
    with s(3) have "\<not> val_top ?val" by simp
    then show ?thesis
      using eval_sound [OF assms(2) v, of lim ?m] by (simp add: in_val_def store_site_def Let_def values_of_def)
  qed
  moreover have "ss_pc ?site = pc" "ss_width ?site = ms_width st"
    "ss_addresses ?site = values_of (eval_address lim (ms_address st) s)"
    by (simp_all add: store_site_def Let_def)
  ultimately show ?thesis unfolding store_covered_def using s(1) a by (intro bexI [of _ ?site]) auto
qed

lemma complete_report_run:
  assumes "length ram = kRamBytes" "candidate_set_complete (analyze ram roots lim)"
  defines "classes \<equiv> image_classes ram"
  defines "A \<equiv> fst (analyzer_run lim classes roots)"
  shows "candidate_set_complete (report_stores lim classes A (snd (analyzer_run lim classes roots)))"
    "set (rp_stores (report_stores lim classes A (snd (analyzer_run lim classes roots)))) \<subseteq> set (rp_stores (analyze ram roots lim))"
    "\<not> an_budget A" "all_resolved lim classes A"
proof -
  have r: "analyze ram roots lim = analyzer_report lim ram roots" using assms(1) by (simp add: analyze_def)
  have ext: "extends (report_stores lim classes A (snd (analyzer_run lim classes roots))) (analyze ram roots lim)"
    unfolding r A_def classes_def by (rule analyzer_report_extends)
  show c: "candidate_set_complete (report_stores lim classes A (snd (analyzer_run lim classes roots)))"
    by (rule extends_complete [OF ext assms(2)])
  show "set (rp_stores (report_stores lim classes A (snd (analyzer_run lim classes roots)))) \<subseteq> set (rp_stores (analyze ram roots lim))"
    using ext by (simp add: extends_def)
  show "\<not> an_budget A" using report_stores_complete(1) [OF c] .
  show "all_resolved lim classes A" unfolding all_resolved_def using complete_start(3) [OF c] by blast
qed

text \<open>What the machine reaches from a root of the image.\<close>

definition reaches :: "u8 list \<Rightarrow> Root list \<Rightarrow> u16 \<Rightarrow> cpu \<Rightarrow> bool" where
  "reaches ram roots pc c \<longleftrightarrow>
     (\<exists>r \<in> set roots. \<exists>c0. (flow (image_classes ram))\<^sup>*\<^sup>* (rt_pc r, c0) (pc, c))"


section \<open>A concrete image\<close>

lemma length_table_set [simp]: "length (table_set t x b) = length t"
  by (simp add: table_set_def)

lemma length_table_new [simp]: "length table_new = kAddressSpace"
  by (simp add: table_new_def)

text \<open>The mapping of an image: the RAM, mirrored, below the end of the code window.\<close>

lemma make_table_upto:
  fixes ram :: "u8 list"
  assumes "n \<le> 65536"
  defines "t \<equiv> \<lambda>n. fold (\<lambda>a t. table_set t (of_nat a)
         \<lparr>fb_kind = FK_byte, fb_value = ram ! (a mod kRamBytes), fb_image_id = 1,
          fb_image_offset = of_nat (a mod kRamBytes)\<rparr>) [0..<n] table_new"
  shows "length (t n) = kAddressSpace \<and> table_fetch (t n) x =
    (if unat x < n then \<lparr>fb_kind = FK_byte, fb_value = ram ! (unat x mod kRamBytes), fb_image_id = 1,
          fb_image_offset = of_nat (unat x mod kRamBytes)\<rparr> else default_byte)"
  using assms(1)
proof (induction n)
  case 0
  then show ?case using unat_u16_less [of x] by (simp add: t_def table_fetch_def table_new_def kAddressSpace_def)
next
  case (Suc n)
  have t: "t (Suc n) = table_set (t n) (of_nat n)
      \<lparr>fb_kind = FK_byte, fb_value = ram ! (n mod kRamBytes), fb_image_id = 1, fb_image_offset = of_nat (n mod kRamBytes)\<rparr>"
    by (simp add: t_def)
  have n: "unat (of_nat n :: u16) = n" using Suc.prems by (simp add: unat_of_nat_u16)
  then have "x = of_nat n \<longleftrightarrow> unat x = n" by (metis unat_eqI)
  then show ?case
    unfolding t using Suc by (auto simp: tf.fetch_put less_Suc_eq)
qed

lemma fetch_make_table:
  "table_fetch (make_table ram) x =
    (if unat x < kCodeWindow then \<lparr>fb_kind = FK_byte, fb_value = ram ! (unat x mod kRamBytes), fb_image_id = 1,
          fb_image_offset = of_nat (unat x mod kRamBytes)\<rparr> else default_byte)"
  unfolding make_table_def using make_table_upto [of kCodeWindow] by (simp add: kCodeWindow_def)

lemma nth_classes: "image_classes ram ! unat a = decode_at (table_fetch (make_table ram)) a"
  unfolding image_classes_def by (rule nth_classify_all(2))

text \<open>\<open>LD ($3000),A\<close> and a jump back to it, in an otherwise empty image.\<close>

definition loop_image :: "u8 list" where
  "loop_image = [0x32, 0x00, 0x30, 0x18, 0xFB] @ replicate 8187 0"

definition loop_root :: "Root list" where
  "loop_root = [\<lparr>rt_pc = 0, rt_reset_state = False\<rparr>]"

lemma length_loop_image: "length loop_image = kRamBytes"
  by (simp add: loop_image_def kRamBytes_def)

lemma loop_code:
  "code_at (table_fetch (make_table loop_image)) 0 [0x32, 0x00, 0x30]"
  "code_at (table_fetch (make_table loop_image)) 3 [0x18, 0xFB]"
  by (simp_all add: code_at_Cons code_at_def [where bs = "[]"] fetch_make_table kCodeWindow_def kRamBytes_def loop_image_def)

lemma loop_classify:
  "classify_base 0x32 = mk S_base M_ld O_nn_ind O_a" "classify_base 0x18 = mk S_base M_jr O_none O_e"
  by (simp_all add: classify_base_def base_x0_def Let_def)

lemma loop_plain:
  "plain_decode (table_fetch (make_table loop_image)) 0 0x32 [0x00, 0x30] (sc_instruction (image_classes loop_image ! 0))"
  "plain_decode (table_fetch (make_table loop_image)) 3 0x18 [0xFB] (sc_instruction (image_classes loop_image ! 3))"
  using plain_decodeI [of "0x32" "[0x00, 0x30]", OF _ _ loop_code(1)] plain_decodeI [of "0x18" "[0xFB]", OF _ _ loop_code(2)]
    nth_classes [of loop_image 0] nth_classes [of loop_image 3]
  by (simp_all add: loop_classify immediate_bytes_def operand_imm_size_def)

lemma loop_starts:
  "sc_kind (image_classes loop_image ! 0) = SK_decoded" "sc_kind (image_classes loop_image ! 3) = SK_decoded"
  "logical_length (sc_instruction (image_classes loop_image ! 0)) = 3"
  "logical_length (sc_instruction (image_classes loop_image ! 3)) = 2"
  "fd_mnemonic (form_descriptor (di_form (sc_instruction (image_classes loop_image ! 0)))) = M_ld"
  "fd_mnemonic (form_descriptor (di_form (sc_instruction (image_classes loop_image ! 3)))) = M_jr"
  using loop_plain nth_classes [of loop_image 0] nth_classes [of loop_image 3]
    form_desc_key(2) [of S_base "0x32"] form_desc_key(2) [of S_base "0x18"]
  by (simp_all add: plain_decode_def classify_key_def loop_classify)

lemma loop_effects:
  "project_effect (sc_instruction (image_classes loop_image ! 0)) =
     \<lparr>ef_supported = True, ef_writes = [],
      ef_store = Some \<lparr>ms_address = absolute_address 0x3000, ms_width = 1, ms_value = copy_value R_a\<rparr>,
      ef_control = CK_fallthrough, ef_fallthrough = 3, ef_target = 0, ef_computed_base = R_hl\<rparr>"
  "project_effect (sc_instruction (image_classes loop_image ! 3)) =
     \<lparr>ef_supported = True, ef_writes = [], ef_store = None, ef_control = CK_jump, ef_fallthrough = 5,
      ef_target = 0, ef_computed_base = R_hl\<rparr>"
  using project_plain [OF _ loop_plain(1)] project_plain [OF _ loop_plain(2)]
  by (simp_all add: loop_classify effect_defs)

lemma join_all_top: "snd (join lim (all_top cause) s) = False"
  by (simp add: join_def join_val_def all_top_def top_val_def list_ex_iff)

lemma loop_edges:
  "edges lim (image_classes loop_image) 0 (all_top kCauseEntry) = [(3, all_top kCauseEntry)]"
  "edges lim (image_classes loop_image) 3 (all_top kCauseEntry) = [(0, all_top kCauseEntry)]"
  by (simp_all add: edges_def loop_starts loop_effects transfer_def Let_def)

definition loop_result :: Analyzer where
  "loop_result = analyzer_init\<lparr>an_states := [(0, all_top kCauseEntry), (3, all_top kCauseEntry)], an_steps := 2\<rparr>"

lemma loop_run: "analyzer_run default_limits (image_classes loop_image) loop_root = (loop_result, False)"
proof -
  let ?c = "image_classes loop_image" and ?T = "all_top kCauseEntry"
  let ?A0 = "analyzer_init\<lparr>an_states := [(0, ?T)], an_queue := [0]\<rparr>"
  let ?A1 = "analyzer_init\<lparr>an_states := [(0, ?T), (3, ?T)], an_steps := 1, an_queue := [3]\<rparr>"
  have 0: "fold (enqueue default_limits) (map start_state loop_root) analyzer_init = ?A0"
    by (simp add: loop_root_def start_state_def enqueue_def analyzer_init_def default_limits_def)
  have 1: "process default_limits ?c (?A0\<lparr>an_steps := 1\<rparr>) = ?A1"
    by (simp add: process_def analyzer_init_def loop_edges enqueue_def default_limits_def)
  have 2: "process default_limits ?c (?A1\<lparr>an_steps := 2\<rparr>) = loop_result"
    by (simp add: process_def analyzer_init_def loop_edges enqueue_def loop_result_def split_beta join_all_top)
  have f2: "fixpoint default_limits ?c loop_result = loop_result"
    by (subst fixpoint.simps) (simp add: loop_result_def analyzer_init_def)
  have f1: "fixpoint default_limits ?c ?A1 = loop_result"
    by (subst fixpoint.simps) (use 2 f2 in \<open>simp add: analyzer_init_def default_limits_def numeral_2_eq_2\<close>)
  have f0: "fixpoint default_limits ?c ?A0 = loop_result"
    by (subst fixpoint.simps) (use 1 f1 in \<open>simp add: analyzer_init_def default_limits_def\<close>)
  have "\<not> ei_reachable ?c loop_result"
    by (simp add: ei_reachable_def loop_result_def loop_starts Let_def)
  then have "int_rounds (Suc 3) default_limits ?c loop_result False = (loop_result, False)"
    by (simp only: int_rounds.simps) simp
  then show ?thesis by (simp add: analyzer_run_def 0 f0 numeral_eq_Suc)
qed

lemma loop_covered: "covered_bytes (image_classes loop_image) [0, 3] = [0, 1, 2, 3, 4]"
  by (simp add: covered_bytes_def loop_starts Let_def upt_rec ram_mask_def)

lemma loop_complete: "candidate_set_complete (analyze loop_image loop_root default_limits)"
proof -
  have pcs: "sorted_pcs loop_result = [0, 3]" by (simp add: sorted_pcs_def loop_result_def)
  have a: "analyze loop_image loop_root default_limits =
      fold (site_candidates loop_image (image_classes loop_image) [0, 3] [0, 1, 2, 3, 4])
        (rp_stores (report_stores default_limits (image_classes loop_image) loop_result False))
        (report_stores default_limits (image_classes loop_image) loop_result False)"
    by (simp add: analyze_def length_loop_image analyzer_report_def loop_run pcs loop_covered Let_def)
  have nohit: "\<not> hits_code [0, 1, 2, 3, 4] 1 0x3000"
    by (simp add: hits_code_def ram_mask_def)
  let ?st = "\<lparr>ms_address = absolute_address 0x3000, ms_width = 1, ms_value = copy_value R_a\<rparr>"
  have site: "store_site default_limits [0, 1, 2, 3, 4] (all_top kCauseEntry) 0 ?st =
      \<lparr>ss_pc = 0, ss_width = 1, ss_hardware_push = False, ss_address = C_exact, ss_value = C_unknown,
       ss_addresses = [0x3000], ss_values = [], ss_hits_reachable_code = False\<rparr>"
    using nohit by (simp add: store_site_def eval_address_def absolute_address_def default_address_def singleton_def
        finite_val_def eval_def copy_value_def opaque_value_def read_reg_def all_top_def top_val_def map_val_def
        certainty_of_def values_of_def Let_def)
  have r: "report_stores default_limits (image_classes loop_image) loop_result False =
      note_store default_limits [0, 1, 2, 3, 4] (all_top kCauseEntry) 0 ?st
        (report_init\<lparr>rp_reachable_starts := 2, rp_steps := 2\<rparr>)"
    by (simp add: report_stores_def pcs loop_covered Let_def note_undecoded_def note_start_def loop_starts loop_effects)
      (simp add: loop_result_def analyzer_init_def report_init_def numeral_2_eq_2)
  let ?r = "note_store default_limits [0, 1, 2, 3, 4] (all_top kCauseEntry) 0 ?st
      (report_init\<lparr>rp_reachable_starts := 2, rp_steps := 2\<rparr>)"
  have addr: "\<not> val_top (eval_address default_limits (absolute_address 0x3000) (all_top kCauseEntry))"
    by (simp add: eval_address_def absolute_address_def default_address_def singleton_def finite_val_def)
  have flags: "candidate_set_complete ?r" "rp_stores ?r = [store_site default_limits [0, 1, 2, 3, 4] (all_top kCauseEntry) 0 ?st]"
    by (simp_all add: note_store_def site addr candidate_set_complete_def report_init_def Let_def del: One_nat_def)
  show ?thesis unfolding a r flags(2) site using flags(1) by (simp add: site_candidates_def)
qed

lemma loop_reaches: "reaches loop_image loop_root 0 c"
  by (auto simp: reaches_def loop_root_def)


end
