(* ===== verification/Z80_Bounds.thy ===== *)
theory Z80_Bounds
  imports Z80_Report
begin

text \<open>
  Three facts about every report of the code-write analysis
  (\<^verbatim>\<open>src/libs/cpu/z80/src/mutation.cpp\<close>): the interrupt mode 2 check is dead (C14), the
  propagation stays within its limits (C15), and the alternative bytes of an image are a sorted
  set within the RAM that never repeats the snapshot (C16).
\<close>

section \<open>The IM 2 reason\<close>

text \<open>No form of the table has the IM 2 operand as its source.\<close>

definition no_im2 :: "Key \<Rightarrow> bool" where
  "no_im2 k \<longleftrightarrow> key_src k \<noteq> O_im2"

lemma no_im2_simps [simp]:
  "no_im2 (cl_key (mk sp m d s)) = (s \<noteq> O_im2)" "no_im2 (cl_key (mk_undoc sp m d s)) = (s \<noteq> O_im2)"
  "no_im2 (cl_key (form k)) = no_im2 k" "no_im2 (cl_key (escape e))" "no_im2 (cl_key ed_nop)"
  "no_im2 (make_key sp m d s doc) = (s \<noteq> O_im2)" "no_im2 (alias_key k t) = no_im2 k"
  "no_im2 (k\<lparr>key_has_alias := True, key_alias_space := t\<rparr>) = no_im2 k" "no_im2 default_key"
  by (simp_all add: no_im2_def mk_def mk_undoc_def form_def escape_def ed_nop_def make_key_def alias_key_def default_key_def)

lemmas push_im2 = if_distrib [of cl_key] if_distrib [of no_im2] if_distrib [of "\<lambda>s. s \<noteq> O_im2"] if_distrib [of "\<lambda>s. s = O_im2"]

lemma no_im2_base: "no_im2 (cl_key (classify_base b))"
proof -
  have "no_im2 (cl_key (base_x0 y z p q))" for y z p q
    unfolding base_x0_def by (simp add: push_im2)
  moreover have "no_im2 (cl_key (base_x3 y z p q))" for y z p q
    unfolding base_x3_def by (simp add: push_im2)
  ultimately show ?thesis unfolding classify_base_def Let_def by (simp add: push_im2)
qed

lemma no_im2_ed: "no_im2 (cl_key (classify_ed b))"
proof -
  have "no_im2 (cl_key (ed_x1 y z p q))" for y z p q
    unfolding ed_x1_def Let_def by (simp add: push_im2)
  then show ?thesis unfolding classify_ed_def Let_def by (simp add: push_im2)
qed

lemma no_im2_index: "no_im2 (cl_key (classify_index sp b))"
proof -
  have "no_im2 (cl_key (ignored b))" using no_im2_base [of b] by (simp add: ignored_def)
  then have "no_im2 (cl_key (index_fields sp b))"
    unfolding index_fields_def Let_def by (simp add: push_im2)
  then show ?thesis unfolding classify_index_def Let_def by (simp add: push_im2)
qed

lemma no_im2_classify: "no_im2 (cl_key (classify_key sp b))"
  using no_im2_base no_im2_ed no_im2_index
  by (cases sp) (simp_all add: classify_key_def classify_cb_def classify_indexed_cb_def Let_def push_im2)

lemma decoded_result_instruction: "di_form (sc_instruction (decoded_result start first pc eff sel ops cnt n)) = sel_form sel"
  by (simp add: decoded_result_def)

lemma blocked_not_decoded: "sc_kind (blocked b x) \<noteq> SK_decoded"
  by (simp add: blocked_def)

lemma decoded_form_id:
  assumes "sc_kind (decode_at get a) = SK_decoded"
  shows "is_form_id (di_form (sc_instruction (decode_at get a)))"
proof (cases rule: decode_at_cases [of get a])
  case lock
  then show ?thesis using assms by (simp add: prefix_lock_def)
next
  case blocked
  then obtain x y where "decode_at get a = blocked x y" unfolding blocked_at_def by blast
  then show ?thesis using assms blocked_not_decoded by simp
next
  case decoded
  from result_okE [OF decoded(2)] show ?thesis by (metis decoded_result_instruction)
qed

lemma form_id_src: "is_form_id i \<Longrightarrow> fd_src (form_descriptor i) \<noteq> O_im2"
  using form_desc_key(4) no_im2_classify by (auto simp: is_form_id_def no_im2_def)

text \<open>What the passes over the starts keep: the counters of the run, and no IM 2 reason.\<close>

abbreviation im2_reason :: string where
  "im2_reason \<equiv> ''interrupt_vector_unresolved_im2''"

definition keeps :: "Report \<Rightarrow> Report \<Rightarrow> bool" where
  "keeps r r' \<longleftrightarrow> rp_steps r' = rp_steps r \<and> rp_reachable_starts r' = rp_reachable_starts r \<and>
     rp_reasons r' im2_reason = rp_reasons r im2_reason"

lemma keeps_refl: "keeps r r"
  by (simp add: keeps_def)

lemma keeps_trans: "keeps r r' \<Longrightarrow> keeps r' r'' \<Longrightarrow> keeps r r''"
  by (simp add: keeps_def)

lemma keeps_fold: "(\<And>x r. x \<in> set xs \<Longrightarrow> keeps r (f x r)) \<Longrightarrow> keeps r (fold f xs r)"
proof (induction xs arbitrary: r)
  case (Cons x xs)
  have "keeps r (f x r)" "keeps (f x r) (fold f xs (f x r))" using Cons by simp_all
  then show ?case by (simp add: keeps_trans)
qed (simp add: keeps_refl)

lemma keeps_count: "w \<noteq> im2_reason \<Longrightarrow> keeps r (count_reason w r)"
  by (simp add: keeps_def count_reason_def)

lemma keeps_note: "w \<noteq> im2_reason \<Longrightarrow> keeps r (note_reason w a b r)"
  by (simp add: keeps_def note_reason_def count_reason_def Let_def)

lemma keeps_updates [simp]:
  "keeps r (r'\<lparr>rp_store_addresses_complete := v\<rparr>) = keeps r r'"
  "keeps r (r'\<lparr>rp_store_values_complete := v\<rparr>) = keeps r r'"
  "keeps r (r'\<lparr>rp_budget_exceeded := v\<rparr>) = keeps r r'"
  "keeps r (r'\<lparr>rp_unknown_address_stores := n\<rparr>) = keeps r r'"
  "keeps r (r'\<lparr>rp_unknown_value_stores := n\<rparr>) = keeps r r'"
  "keeps r (r'\<lparr>rp_stores := s\<rparr>) = keeps r r'"
  "keeps r (r'\<lparr>rp_candidates := c\<rparr>) = keeps r r'"
  by (simp_all add: keeps_def)

lemma keeps_budget: "keeps r (count_reason ''candidate_cap_exceeded'' (r\<lparr>rp_budget_exceeded := True\<rparr>))"
  by (simp add: keeps_def count_reason_def)

lemma keeps_if: "(b \<Longrightarrow> keeps r r1) \<Longrightarrow> (\<not> b \<Longrightarrow> keeps r r2) \<Longrightarrow> keeps r (if b then r1 else r2)"
  by simp

lemmas keeps_note_trans = keeps_trans [OF _ keeps_note] keeps_trans [OF _ keeps_count]

lemma keeps_note_undecoded: "keeps r (note_undecoded classes pc r)"
  by (simp add: note_undecoded_def Let_def keeps_refl keeps_note undecoded_reason_def)

lemma keeps_note_store: "keeps r (note_store lim covered s pc st r)"
  unfolding note_store_def Let_def
  by (simp add: if_distrib [of "keeps r"] keeps_refl keeps_note keeps_count keeps_note_trans cong: if_cong)

lemma keeps_note_control: "keeps r (note_control lim s eff r)"
  unfolding note_control_def Let_def
  by (simp add: keeps_refl keeps_note keeps_note_trans)

lemma keeps_note_unsupported: "fd_src d \<noteq> O_im2 \<Longrightarrow> keeps r (note_unsupported d r)"
  unfolding note_unsupported_def Let_def
  by (simp add: keeps_note)

lemma keeps_note_start:
  "keeps r (note_start lim (image_classes ram) covered A pc r)"
proof -
  let ?c = "image_classes ram ! unat pc"
  have "fd_src (form_descriptor (di_form (sc_instruction ?c))) \<noteq> O_im2" if "sc_kind ?c = SK_decoded"
    using decoded_form_id form_id_src that by (simp add: nth_classes)
  then show ?thesis
    unfolding note_start_alt Let_def
    by (simp add: keeps_refl keeps_note_unsupported keeps_note_control keeps_trans [OF keeps_note_control keeps_note_store]
        split: option.split)
qed

lemma keeps_note_interrupt: "keeps r (note_interrupt lim covered A r)"
  unfolding note_interrupt_def Let_def
  by (simp add: if_distrib [of "keeps r"] keeps_refl keeps_note keeps_count keeps_note_trans cong: if_cong)

lemma keeps_site_candidates: "keeps r (site_candidates ram classes reach covered s r)"
proof -
  have "keeps r (add_candidate ram classes reach covered s av r)" for av r
    by (cases av) (simp add: add_candidate_def keeps_refl keeps_budget)
  then show ?thesis by (simp add: site_candidates_def keeps_refl keeps_fold)
qed

lemma keeps_report_stores:
  "keeps (if an_budget A then count_reason ''analysis_budget_exceeded''
            (report_init\<lparr>rp_reachable_starts := length (sorted_pcs A), rp_steps := an_steps A, rp_budget_exceeded := an_budget A\<rparr>)
          else report_init\<lparr>rp_reachable_starts := length (sorted_pcs A), rp_steps := an_steps A, rp_budget_exceeded := an_budget A\<rparr>)
     (report_stores lim (image_classes ram) A ei)"
proof -
  have f: "keeps r (fold (note_start lim (image_classes ram) cov A) pcs (fold (note_undecoded (image_classes ram)) pcs r))" for r cov pcs
    using keeps_trans [OF keeps_fold [of pcs "note_undecoded (image_classes ram)" r, OF keeps_note_undecoded]
        keeps_fold [of pcs "note_start lim (image_classes ram) cov A", OF keeps_note_start]] .
  show ?thesis unfolding report_stores_def Let_def by (intro keeps_if keeps_trans [OF f keeps_note_interrupt] f)
qed

lemma report_counters:
  fixes lim ram roots
  defines "A \<equiv> fst (analyzer_run lim (image_classes ram) roots)"
  shows "rp_steps (analyzer_report lim ram roots) = an_steps A"
    "rp_reachable_starts (analyzer_report lim ram roots) = length (an_states A)"
    "rp_reasons (analyzer_report lim ram roots) im2_reason = 0"
proof -
  let ?ei = "snd (analyzer_run lim (image_classes ram) roots)"
  let ?r0 = "report_init\<lparr>rp_reachable_starts := length (sorted_pcs A), rp_steps := an_steps A, rp_budget_exceeded := an_budget A\<rparr>"
  have "keeps ?r0 (if an_budget A then count_reason ''analysis_budget_exceeded'' ?r0 else ?r0)"
    by (simp add: keeps_refl keeps_count)
  from keeps_trans [OF this keeps_report_stores [of A lim ram ?ei]]
  have "keeps ?r0 (report_stores lim (image_classes ram) A ?ei)" .
  moreover have "keeps (report_stores lim (image_classes ram) A ?ei) (analyzer_report lim ram roots)"
    unfolding analyzer_report_def Let_def A_def split_beta by (rule keeps_fold [OF keeps_site_candidates])
  ultimately have "keeps ?r0 (analyzer_report lim ram roots)" by (rule keeps_trans)
  then show "rp_steps (analyzer_report lim ram roots) = an_steps A"
    "rp_reachable_starts (analyzer_report lim ram roots) = length (an_states A)"
    "rp_reasons (analyzer_report lim ram roots) im2_reason = 0"
    by (simp_all add: keeps_def report_init_def sorted_pcs_def)
qed

text \<open>
  C21. The check for interrupt mode 2 never fires: whatever the image, the roots and the limits,
  no report counts the reason \<^verbatim>\<open>interrupt_vector_unresolved_im2\<close>, since the forms of IM name the
  mode as their destination operand and the check looks at the source.
\<close>

theorem im2_reason_never: "rp_reasons (analyze ram roots lim) ''interrupt_vector_unresolved_im2'' = 0"
  using report_counters(3) [of lim ram roots]
  by (simp add: analyze_def count_reason_def report_init_def)

section \<open>The bounds of a run\<close>

text \<open>The budget invariant: the states and the steps stay within the limits.\<close>

definition within :: "Limits \<Rightarrow> Analyzer \<Rightarrow> bool" where
  "within lim A \<longleftrightarrow> length (an_states A) \<le> lim_max_starts lim \<and> an_steps A \<le> lim_max_steps lim + 1 \<and>
     (an_budget A \<or> an_steps A \<le> lim_max_steps lim)"

lemma length_update_known: "map_of al k = Some v \<Longrightarrow> length (AList.update k w al) = length al"
  by (induction al) auto

lemma length_update_new: "map_of al k = None \<Longrightarrow> length (AList.update k w al) = Suc (length al)"
  by (induction al) (auto split: if_splits)

lemma within_enqueue:
  assumes "within lim A"
  shows "within lim (enqueue lim ps A)"
proof (cases ps)
  case (Pair pc s)
  show ?thesis
  proof (cases "map_of (an_states A) pc")
    case None
    then show ?thesis using assms unfolding Pair enqueue_def within_def by (simp add: length_update_new)
  next
    case (Some d)
    then show ?thesis using assms unfolding Pair enqueue_def within_def
      by (simp add: length_update_known Let_def split_beta)
  qed
qed

lemma within_fold_enqueue: "within lim A \<Longrightarrow> within lim (fold (enqueue lim) es A)"
  by (induction es arbitrary: A) (simp_all add: within_enqueue)

lemma within_queue [simp]: "within lim (A\<lparr>an_queue := q\<rparr>) = within lim A"
  by (simp add: within_def)

lemma within_process: "within lim A \<Longrightarrow> within lim (process lim classes A)"
  unfolding process_def Let_def
  by (simp add: within_fold_enqueue split: list.split option.split)

lemma within_fixpoint: "within lim A \<Longrightarrow> an_steps A \<le> lim_max_steps lim \<Longrightarrow> within lim (fixpoint lim classes A)"
proof (induction lim classes A rule: fixpoint.induct)
  case (1 lim classes A)
  let ?A = "A\<lparr>an_steps := an_steps A + 1\<rparr>"
  show ?case
  proof (cases "an_queue A = [] \<or> an_steps ?A > lim_max_steps lim")
    case True
    then show ?thesis using 1(2,3) by (subst fixpoint.simps) (auto simp: within_def)
  next
    case False
    then have "within lim ?A" using 1(2) by (simp add: within_def)
    then show ?thesis using False 1(1) [OF _ refl] within_process
      by (subst fixpoint.simps) (simp add: Let_def)
  qed
qed

lemma within_rounds: "within lim A \<Longrightarrow> within lim (fst (int_rounds n lim classes A ei))"
proof (induction n arbitrary: A ei)
  case (Suc n)
  show ?case
  proof (cases "an_budget A \<or> \<not> ei_reachable classes A")
    case True
    then show ?thesis using Suc.prems by auto
  next
    case False
    let ?E = "enqueue lim (0x38, interrupt_state lim (sp_union lim A)) A"
    have "within lim (fixpoint lim classes ?E)"
      using False Suc.prems within_fixpoint [OF within_enqueue] by (simp add: within_def)
    then show ?thesis using False Suc.IH by (simp add: Let_def)
  qed
qed simp

lemma within_run: "within lim (fst (analyzer_run lim classes roots))"
proof -
  have "within lim (fold (enqueue lim) (map start_state roots) analyzer_init)"
    by (rule within_fold_enqueue) (simp add: within_def analyzer_init_def)
  then have "within lim (fixpoint lim classes (fold (enqueue lim) (map start_state roots) analyzer_init))"
    by (rule within_fixpoint) (simp add: analyzer_init_def)
  then show ?thesis unfolding analyzer_run_def by (simp add: within_rounds)
qed

lemma budget_report_stores: "an_budget A \<Longrightarrow> rp_budget_exceeded (report_stores lim classes A ei)"
proof -
  assume b: "an_budget A"
  have f: "rp_budget_exceeded r \<Longrightarrow> rp_budget_exceeded (fold (note_start lim classes cov A) pcs (fold (note_undecoded classes) pcs r))" for r cov pcs
    using extends_trans [OF extends_fold [of "note_undecoded classes" r pcs, OF extends_note_undecoded]
        extends_fold [of "note_start lim classes cov A" _ pcs, OF extends_note_start]] by (simp add: extends_def)
  have i: "rp_budget_exceeded r \<Longrightarrow> rp_budget_exceeded (note_interrupt lim cov A r)" for r cov
    using note_interrupt_flags(2) [of r lim cov A] by (simp add: extends_def)
  show ?thesis unfolding report_stores_def Let_def using b by (auto intro!: f i)
qed

text \<open>
  C22. The propagation is bounded by its limits whatever the image: a report never counts more
  than one step beyond the step limit nor more reachable starts than the start limit, and a
  report without the budget flag stayed within the step limit.
\<close>

theorem analysis_bounded:
  "let r = analyze ram roots lim in
     rp_steps r \<le> lim_max_steps lim + 1 \<and> rp_reachable_starts r \<le> lim_max_starts lim \<and>
     (rp_budget_exceeded r \<or> rp_steps r \<le> lim_max_steps lim)"
proof (cases "length ram = kRamBytes")
  case True
  let ?A = "fst (analyzer_run lim (image_classes ram) roots)"
  have "an_budget ?A \<Longrightarrow> rp_budget_exceeded (analyzer_report lim ram roots)"
    using analyzer_report_extends [of lim ram roots] budget_report_stores by (auto simp: extends_def)
  then show ?thesis
    using True within_run [of lim "image_classes ram" roots] report_counters(1,2) [of lim ram roots]
    by (auto simp: analyze_def within_def Let_def)
qed (simp add: analyze_def report_init_def count_reason_def)

section \<open>The alternative bytes\<close>

lemma ram_offset_less: "unat (ram_mask a) < kRamBytes"
proof -
  have "ram_mask a = take_bit 13 a" by (simp add: ram_mask_def take_bit_eq_mask mask_eq_exp_minus_1 and.commute)
  then show ?thesis using take_bit_nat_less_exp [of 13 "unat a"]
    by (simp only: unsigned_take_bit_eq kRamBytes_def) simp
qed

lemma candidate_pairs_spec:
  "(o', v) \<in> set (candidate_pairs ram c) \<Longrightarrow> unat o' < kRamBytes \<and> v \<noteq> ram ! unat o'"
  using ram_offset_less by (auto simp: candidate_pairs_def Let_def split: if_splits)

definition pair_of_alternative :: "ByteAlternative \<Rightarrow> u16 \<times> u8" where
  "pair_of_alternative b = (ba_offset b, ba_value b)"

definition alternatives_ok :: "u8 list \<Rightarrow> nat \<Rightarrow> AlternativeSet \<Rightarrow> bool" where
  "alternatives_ok ram bound s \<longleftrightarrow>
     sorted_wrt (<) (map pair_of_alternative (as_bytes s)) \<and>
     list_all (\<lambda>b. unat (ba_offset b) < kRamBytes \<and> ba_value b \<noteq> ram ! unat (ba_offset b)) (as_bytes s) \<and>
     card (ba_offset ` set (as_bytes s)) \<le> bound \<and>
     (if as_bound_exceeded s then as_bytes s = [] else True)"

text \<open>
  C23. The alternatives of an image are a well-formed set: strictly ascending by offset, then by
  value, every offset inside the RAM, every value different from the snapshot byte, and at most
  the permitted number of destination bytes; when the bound is exceeded there are none.
\<close>

theorem static_byte_alternatives_ok: "alternatives_ok ram bound (static_byte_alternatives ram bound)"
proof (cases "length ram = kRamBytes")
  case True
  define used where "used = filter (\<lambda>c. cd_changed_starts c \<noteq> 0) (rp_candidates (analyze ram hardware_roots default_limits))"
  define ps where "ps = concat (map (candidate_pairs ram) used)"
  let ?bs = "map (\<lambda>(o', v). \<lparr>ba_offset = o', ba_value = v\<rparr>) (remdups_adj (sort ps))"
  let ?dests = "remdups_adj (sort (map fst ps))"
  have s: "static_byte_alternatives ram bound =
      (if length ?dests > bound then \<lparr>as_bytes = [], as_candidates = length used, as_bound_exceeded = True\<rparr>
       else \<lparr>as_bytes = ?bs, as_candidates = length used, as_bound_exceeded = False\<rparr>)"
    using True by (simp add: static_byte_alternatives_def used_def ps_def Let_def)
  have "map pair_of_alternative ?bs = remdups_adj (sort ps)"
    by (simp add: pair_of_alternative_def split_beta o_def)
  then have 1: "sorted_wrt (<) (map pair_of_alternative ?bs)" by (simp add: strict_sorted_unique)
  have 2: "list_all (\<lambda>b. unat (ba_offset b) < kRamBytes \<and> ba_value b \<noteq> ram ! unat (ba_offset b)) ?bs"
    using candidate_pairs_spec by (fastforce simp: list_all_iff ps_def)
  have "ba_offset ` set ?bs = set (map fst ps)" by (force simp: image_iff split_beta)
  then have 3: "card (ba_offset ` set ?bs) = length ?dests" by (simp only: card_unique)
  show ?thesis unfolding s alternatives_ok_def using 1 2 3 by simp
qed (simp add: static_byte_alternatives_def alternatives_ok_def)

end
