(* ===== verification/M68k_Types.thy ===== *)
theory M68k_Types
  imports Prelude
begin

text \<open>
  The data of the MC68000 front end: the typed provenance of \<^verbatim>\<open>libs/core/include/segarecomp/core\<close>
  (\<^verbatim>\<open>address.hpp\<close>, \<^verbatim>\<open>provenance.hpp\<close>), the instruction representation of
  \<^verbatim>\<open>cpu/m68k/instruction.hpp\<close> with its legal effective-address masks, and the results of
  \<^verbatim>\<open>cpu/m68k/decode.hpp\<close>. Enumerations over an integer that the code compares with named values are
  words; all the others are datatypes.
\<close>

section \<open>Provenance\<close>

type_synonym TargetAddressSpace = u32

definition m68k_program :: TargetAddressSpace where "m68k_program = 0"

record M68kProgramAddress =
  pa_space :: TargetAddressSpace
  pa_value :: u32

datatype CpuVariant = Cpu_mc68000 | Cpu_z80

record DecodeSource =
  ds_cpu_variant :: CpuVariant
  ds_address :: M68kProgramAddress
  ds_image_offset :: u64

record InstructionProvenance =
  pv_source :: DecodeSource
  pv_bytes :: "u8 \<times> u8"
  pv_length :: u32

definition decode_source_init :: DecodeSource where
  "decode_source_init = \<lparr>ds_cpu_variant = Cpu_mc68000,
     ds_address = \<lparr>pa_space = m68k_program, pa_value = 0\<rparr>, ds_image_offset = 0\<rparr>"

definition provenance_init :: InstructionProvenance where
  "provenance_init = \<lparr>pv_source = decode_source_init, pv_bytes = (0, 0), pv_length = 2\<rparr>"

section \<open>Instructions\<close>

type_synonym DataRegister = u8

datatype M68kDecodeProfile = Profile_moveq | Profile_direct_flow | Profile_genesis_startup | Profile_general_startup

datatype M68kEaMode =
    Ea_unused | Ea_data_register | Ea_address_register | Ea_address_indirect | Ea_address_postinc
    | Ea_address_predec | Ea_address_disp16 | Ea_absolute_word | Ea_absolute_long | Ea_pc_disp16
    | Ea_immediate | Ea_address_index8 | Ea_pc_index8

record M68kEffectiveAddress =
  ea_mode :: M68kEaMode
  ea_reg :: u8
  ea_displacement :: u16
  ea_absolute_address :: u32
  ea_immediate_value :: u32
  ea_extension_words :: u8
  ea_index_reg :: u8
  ea_index_is_address :: bool
  ea_index_is_long :: bool
  ea_pc_base_address :: u32

text \<open>Aggregate initialization: the fields left out are zero.\<close>

definition mk_ea :: "M68kEaMode \<Rightarrow> u8 \<Rightarrow> u16 \<Rightarrow> u32 \<Rightarrow> u32 \<Rightarrow> u8 \<Rightarrow> M68kEffectiveAddress" where
  "mk_ea mode reg disp addr imm ext =
     \<lparr>ea_mode = mode, ea_reg = reg, ea_displacement = disp, ea_absolute_address = addr,
      ea_immediate_value = imm, ea_extension_words = ext, ea_index_reg = 0, ea_index_is_address = False,
      ea_index_is_long = False, ea_pc_base_address = 0\<rparr>"

definition ea_init :: M68kEffectiveAddress where
  "ea_init = mk_ea Ea_unused 0 0 0 0 0"

datatype M68kMemoryAccessWidth = Width_byte | Width_word | Width_long_word

datatype (plugins only: code) M68kInstructionKind =
    K_moveq | K_subq_l_1_d0 | K_bne_short | K_bra_short | K_rts | K_rte | K_tst | K_cmp | K_cmpi
    | K_cmpa | K_add | K_adda | K_addi | K_addq | K_sub | K_suba | K_subi | K_subq | K_logical_and
    | K_andi | K_logical_or | K_ori | K_eor | K_eori | K_move | K_movea | K_clr | K_lea | K_jmp
    | K_jsr | K_not_operand | K_negate_word | K_negate_extended | K_add_extended
    | K_subtract_extended | K_compare_memory | K_add_decimal | K_subtract_decimal | K_negate_decimal
    | K_exchange_registers | K_movep | K_set_conditional | K_test_and_set | K_swap | K_ext_w
    | K_ext_l | K_pea | K_link | K_unlk | K_btst | K_bchg | K_bclr | K_bset | K_branch | K_bsr
    | K_dbcc | K_movem | K_shift_rotate | K_move_an_to_usp | K_move_usp_to_an
    | K_logical_immediate_to_ccr | K_logical_immediate_to_sr | K_move_to_sr | K_nop | K_move_from_sr
    | K_move_to_ccr | K_multiply_signed_word | K_multiply_unsigned_word | K_divide_signed_word
    | K_divide_unsigned_word | K_trap | K_trapv | K_chk | K_rtr | K_instruction_exception | K_stop

datatype M68kMovemDirection = Registers_to_memory | Memory_to_registers

datatype M68kShiftRotateKind = Sr_lsl | Sr_lsr | Sr_asl | Sr_asr | Sr_rol | Sr_ror | Sr_roxl | Sr_roxr

datatype M68kStatusLogicalOperation = Status_and_op | Status_or_op | Status_eor_op

datatype M68kCondition =
    Cond_always | Cond_never | Cond_hi | Cond_ls | Cond_cc | Cond_cs | Cond_ne | Cond_eq
  | Cond_vc | Cond_vs | Cond_pl | Cond_mi | Cond_ge | Cond_lt | Cond_gt | Cond_le

record M68kDecodedInstruction =
  di_provenance :: InstructionProvenance
  di_kind :: M68kInstructionKind
  di_destination :: DataRegister
  di_operand :: u8
  di_raw_bytes :: bytes
  di_extension :: u32
  di_size :: M68kMemoryAccessWidth
  di_source_ea :: M68kEffectiveAddress
  di_destination_ea :: M68kEffectiveAddress
  di_condition :: M68kCondition
  di_movem_direction :: M68kMovemDirection
  di_movem_register_mask :: u16
  di_shift_rotate_kind :: M68kShiftRotateKind
  di_status_operation :: M68kStatusLogicalOperation
  di_exception_vector :: u8

definition instruction_init :: M68kDecodedInstruction where
  "instruction_init = \<lparr>di_provenance = provenance_init, di_kind = K_moveq, di_destination = 0, di_operand = 0,
     di_raw_bytes = [], di_extension = 0, di_size = Width_long_word, di_source_ea = ea_init,
     di_destination_ea = ea_init, di_condition = Cond_always, di_movem_direction = Registers_to_memory,
     di_movem_register_mask = 0, di_shift_rotate_kind = Sr_lsl, di_status_operation = Status_and_op,
     di_exception_vector = 0\<rparr>"

text \<open>The kinds whose memory destination is read and the value discarded.\<close>

definition m68k_destination_read_value_discarded :: "M68kInstructionKind \<Rightarrow> bool" where
  "m68k_destination_read_value_discarded kind \<longleftrightarrow>
     kind = K_clr \<or> kind = K_set_conditional \<or> kind = K_move_from_sr"

section \<open>Legal effective-address masks\<close>

type_synonym M68kEaLegalMask = u16

definition m68k_ea_dn :: M68kEaLegalMask where
  "m68k_ea_dn = push_bit 0 1"

definition m68k_ea_an :: M68kEaLegalMask where
  "m68k_ea_an = push_bit 1 1"

definition m68k_ea_an_indirect :: M68kEaLegalMask where
  "m68k_ea_an_indirect = push_bit 2 1"

definition m68k_ea_an_postinc :: M68kEaLegalMask where
  "m68k_ea_an_postinc = push_bit 3 1"

definition m68k_ea_an_predec :: M68kEaLegalMask where
  "m68k_ea_an_predec = push_bit 4 1"

definition m68k_ea_an_disp16 :: M68kEaLegalMask where
  "m68k_ea_an_disp16 = push_bit 5 1"

definition m68k_ea_absolute_word :: M68kEaLegalMask where
  "m68k_ea_absolute_word = push_bit 6 1"

definition m68k_ea_absolute_long :: M68kEaLegalMask where
  "m68k_ea_absolute_long = push_bit 7 1"

definition m68k_ea_pc_disp16 :: M68kEaLegalMask where
  "m68k_ea_pc_disp16 = push_bit 8 1"

definition m68k_ea_immediate :: M68kEaLegalMask where
  "m68k_ea_immediate = push_bit 9 1"

definition m68k_ea_index8 :: M68kEaLegalMask where
  "m68k_ea_index8 = push_bit 10 1"

definition m68k_ea_pc_index8 :: M68kEaLegalMask where
  "m68k_ea_pc_index8 = push_bit 11 1"

definition m68k_ea_control_modes :: M68kEaLegalMask where
  "m68k_ea_control_modes = m68k_ea_an_indirect OR m68k_ea_an_disp16 OR m68k_ea_absolute_word OR
     m68k_ea_absolute_long OR m68k_ea_pc_disp16"

definition m68k_ea_jsr_jmp_control_modes :: M68kEaLegalMask where
  "m68k_ea_jsr_jmp_control_modes = m68k_ea_control_modes OR m68k_ea_pc_index8 OR m68k_ea_index8"

definition m68k_ea_lea_control_modes :: M68kEaLegalMask where
  "m68k_ea_lea_control_modes = m68k_ea_control_modes OR m68k_ea_index8 OR m68k_ea_pc_index8"

definition m68k_ea_pea_control_modes :: M68kEaLegalMask where
  "m68k_ea_pea_control_modes = m68k_ea_control_modes OR m68k_ea_index8 OR m68k_ea_pc_index8"

definition m68k_ea_data_alterable :: M68kEaLegalMask where
  "m68k_ea_data_alterable = m68k_ea_dn OR m68k_ea_an_indirect OR m68k_ea_an_postinc OR
     m68k_ea_an_predec OR m68k_ea_an_disp16 OR m68k_ea_absolute_word OR m68k_ea_absolute_long"

definition m68k_ea_memory_alterable :: M68kEaLegalMask where
  "m68k_ea_memory_alterable = m68k_ea_an_indirect OR m68k_ea_an_postinc OR m68k_ea_an_predec OR
     m68k_ea_an_disp16 OR m68k_ea_absolute_word OR m68k_ea_absolute_long"

definition m68k_ea_move_source :: M68kEaLegalMask where
  "m68k_ea_move_source = m68k_ea_dn OR m68k_ea_an OR m68k_ea_an_indirect OR m68k_ea_an_postinc OR
     m68k_ea_an_predec OR m68k_ea_an_disp16 OR m68k_ea_absolute_word OR m68k_ea_absolute_long OR
     m68k_ea_pc_disp16 OR m68k_ea_immediate"

definition m68k_ea_move_family_source :: M68kEaLegalMask where
  "m68k_ea_move_family_source = m68k_ea_dn OR m68k_ea_an OR m68k_ea_an_indirect OR
     m68k_ea_an_postinc OR m68k_ea_an_predec OR m68k_ea_an_disp16 OR m68k_ea_index8 OR
     m68k_ea_absolute_word OR m68k_ea_absolute_long OR m68k_ea_pc_disp16 OR m68k_ea_pc_index8 OR
     m68k_ea_immediate"

definition m68k_ea_data_alterable_with_index :: M68kEaLegalMask where
  "m68k_ea_data_alterable_with_index = m68k_ea_dn OR m68k_ea_an_indirect OR m68k_ea_an_postinc OR
     m68k_ea_an_predec OR m68k_ea_an_disp16 OR m68k_ea_index8 OR m68k_ea_absolute_word OR
     m68k_ea_absolute_long"

definition m68k_ea_move_family_destination :: M68kEaLegalMask where
  "m68k_ea_move_family_destination = m68k_ea_data_alterable_with_index"

definition m68k_ea_clr_not_operand :: M68kEaLegalMask where
  "m68k_ea_clr_not_operand = m68k_ea_data_alterable_with_index"

definition m68k_ea_negate_operand :: M68kEaLegalMask where
  "m68k_ea_negate_operand = m68k_ea_data_alterable_with_index"

definition m68k_ea_scc_tas_operand :: M68kEaLegalMask where
  "m68k_ea_scc_tas_operand = m68k_ea_data_alterable_with_index"

definition m68k_ea_arithmetic_logical_indexed_source :: M68kEaLegalMask where
  "m68k_ea_arithmetic_logical_indexed_source = m68k_ea_move_source OR m68k_ea_index8"

definition m68k_ea_add_sub_cmp_source :: M68kEaLegalMask where
  "m68k_ea_add_sub_cmp_source = m68k_ea_move_family_source"

definition m68k_ea_reverse_arithmetic_destination :: M68kEaLegalMask where
  "m68k_ea_reverse_arithmetic_destination = m68k_ea_data_alterable_with_index AND NOT m68k_ea_dn"

definition m68k_ea_and_or_source :: M68kEaLegalMask where
  "m68k_ea_and_or_source = m68k_ea_move_family_source AND NOT m68k_ea_an"

definition m68k_ea_mul_div_source :: M68kEaLegalMask where
  "m68k_ea_mul_div_source = m68k_ea_move_family_source AND NOT m68k_ea_an"

definition m68k_ea_and_or_reverse_destination :: M68kEaLegalMask where
  "m68k_ea_and_or_reverse_destination = m68k_ea_data_alterable_with_index AND NOT m68k_ea_dn"

definition m68k_ea_eor_destination :: M68kEaLegalMask where
  "m68k_ea_eor_destination = m68k_ea_data_alterable_with_index"

definition m68k_ea_logical_immediate_destination :: M68kEaLegalMask where
  "m68k_ea_logical_immediate_destination = m68k_ea_data_alterable_with_index"

definition m68k_ea_addq_subq_destination :: M68kEaLegalMask where
  "m68k_ea_addq_subq_destination = m68k_ea_data_alterable OR m68k_ea_index8"

definition m68k_ea_tst_operand :: M68kEaLegalMask where
  "m68k_ea_tst_operand = m68k_ea_data_alterable_with_index"

definition m68k_ea_bit_modify_destination :: M68kEaLegalMask where
  "m68k_ea_bit_modify_destination = m68k_ea_data_alterable_with_index"

definition m68k_ea_bit_test_destination :: M68kEaLegalMask where
  "m68k_ea_bit_test_destination = m68k_ea_data_alterable_with_index OR m68k_ea_pc_disp16 OR
     m68k_ea_pc_index8"

definition m68k_ea_bit_test_dynamic_destination :: M68kEaLegalMask where
  "m68k_ea_bit_test_dynamic_destination = m68k_ea_bit_test_destination OR m68k_ea_immediate"

definition m68k_ea_shift_memory_destination :: M68kEaLegalMask where
  "m68k_ea_shift_memory_destination = m68k_ea_data_alterable_with_index AND NOT m68k_ea_dn"

definition m68k_ea_movem_register_to_memory :: M68kEaLegalMask where
  "m68k_ea_movem_register_to_memory = m68k_ea_an_indirect OR m68k_ea_an_disp16 OR
     m68k_ea_absolute_word OR m68k_ea_absolute_long OR m68k_ea_an_predec OR m68k_ea_index8"

definition m68k_ea_movem_memory_to_register :: M68kEaLegalMask where
  "m68k_ea_movem_memory_to_register = m68k_ea_control_modes OR m68k_ea_an_postinc OR m68k_ea_index8
     OR m68k_ea_pc_index8"

definition m68k_ea_move_to_sr_source :: M68kEaLegalMask where
  "m68k_ea_move_to_sr_source = m68k_ea_move_family_source AND NOT m68k_ea_an"

definition m68k_ea_move_from_sr_destination :: M68kEaLegalMask where
  "m68k_ea_move_from_sr_destination = m68k_ea_data_alterable_with_index"

definition m68k_ea_move_to_ccr_source :: M68kEaLegalMask where
  "m68k_ea_move_to_ccr_source = m68k_ea_move_to_sr_source"

definition m68k_ea_chk_source :: M68kEaLegalMask where
  "m68k_ea_chk_source = m68k_ea_move_family_source AND NOT m68k_ea_an"

lemmas m68k_mask_defs =
    m68k_ea_dn_def m68k_ea_an_def m68k_ea_an_indirect_def m68k_ea_an_postinc_def m68k_ea_an_predec_def
    m68k_ea_an_disp16_def m68k_ea_absolute_word_def m68k_ea_absolute_long_def m68k_ea_pc_disp16_def
    m68k_ea_immediate_def m68k_ea_index8_def m68k_ea_pc_index8_def m68k_ea_control_modes_def
    m68k_ea_jsr_jmp_control_modes_def m68k_ea_lea_control_modes_def m68k_ea_pea_control_modes_def
    m68k_ea_data_alterable_def m68k_ea_memory_alterable_def m68k_ea_move_source_def
    m68k_ea_move_family_source_def m68k_ea_data_alterable_with_index_def
    m68k_ea_move_family_destination_def m68k_ea_clr_not_operand_def m68k_ea_negate_operand_def
    m68k_ea_scc_tas_operand_def m68k_ea_arithmetic_logical_indexed_source_def
    m68k_ea_add_sub_cmp_source_def m68k_ea_reverse_arithmetic_destination_def m68k_ea_and_or_source_def
    m68k_ea_mul_div_source_def m68k_ea_and_or_reverse_destination_def m68k_ea_eor_destination_def
    m68k_ea_logical_immediate_destination_def m68k_ea_addq_subq_destination_def m68k_ea_tst_operand_def
    m68k_ea_bit_modify_destination_def m68k_ea_bit_test_destination_def
    m68k_ea_bit_test_dynamic_destination_def m68k_ea_shift_memory_destination_def
    m68k_ea_movem_register_to_memory_def m68k_ea_movem_memory_to_register_def
    m68k_ea_move_to_sr_source_def m68k_ea_move_from_sr_destination_def m68k_ea_move_to_ccr_source_def
    m68k_ea_chk_source_def

section \<open>Results of decoding\<close>

datatype DecodeOutcome =
    Out_decoded_moveq | Out_unsupported_cpu_variant | Out_unsupported_address_space | Out_odd_instruction_address
  | Out_truncated_instruction | Out_illegal_instruction | Out_valid_but_unsupported_instruction

datatype M68kCpuFrontierKind = Frontier_none | Frontier_nop | Frontier_stop_immediate_word | Frontier_reset | Frontier_move_an_to_usp

record RejectedM68kDecode =
  rj_outcome :: DecodeOutcome
  rj_source :: DecodeSource
  rj_available_bytes :: nat
  rj_requested_length :: u32
  rj_instruction_length :: u32
  rj_has_instruction_length :: bool
  rj_provenance :: InstructionProvenance
  rj_has_provenance :: bool
  rj_unsupported_instruction_form :: bool
  rj_cpu_frontier :: M68kCpuFrontierKind

datatype M68kDecodeResult = Decoded M68kDecodedInstruction | Rejected RejectedM68kDecode

datatype M68kPrimaryWordClass = Class_legal | Class_line_a_emulator | Class_line_f_emulator | Class_illegal

end
