(* ===== verification/M68k_Ea.thy ===== *)
theory M68k_Ea
  imports M68k_Types
begin

text \<open>
  The shared effective-address layer of \<^verbatim>\<open>libs/cpu/m68k/src/decode.cpp\<close>: the decoding of one
  6-bit effective-address field with its extension words, the rejections that retain the primary
  word, and the assembly of a decoded instruction. Every decoder of the program is passed the same
  source, image, offset, byte count and primary bytes; they are the fields of \<open>DecodeContext\<close>.
\<close>

section \<open>Reading words and fields\<close>

definition read16 :: "bytes \<Rightarrow> nat \<Rightarrow> u16" where
  "read16 img at = push_bit 8 (ucast (img ! at)) OR ucast (img ! (at + 1))"

definition read32 :: "bytes \<Rightarrow> nat \<Rightarrow> u32" where
  "read32 img at =
     push_bit 24 (ucast (img ! at)) OR push_bit 16 (ucast (img ! (at + 1))) OR
     push_bit 8 (ucast (img ! (at + 2))) OR ucast (img ! (at + 3))"

text \<open>The byte \<open>(word >> k) & m\<close>.\<close>

definition field16 :: "u16 \<Rightarrow> nat \<Rightarrow> u16 \<Rightarrow> u8" where
  "field16 word k m = ucast (drop_bit k word AND m)"

section \<open>Rejections\<close>

record DecodeContext =
  cx_source :: DecodeSource
  cx_image :: bytes
  cx_offset :: nat
  cx_available :: nat
  cx_bytes :: "u8 \<times> u8"

definition reject :: "DecodeOutcome \<Rightarrow> DecodeSource \<Rightarrow> nat \<Rightarrow> u32 \<Rightarrow> bool \<Rightarrow> RejectedM68kDecode" where
  "reject outcome source available requested has_length =
     \<lparr>rj_outcome = outcome, rj_source = source, rj_available_bytes = available, rj_requested_length = requested,
      rj_instruction_length = (if has_length then 2 else 0), rj_has_instruction_length = has_length,
      rj_provenance = provenance_init, rj_has_provenance = False, rj_unsupported_instruction_form = False,
      rj_cpu_frontier = Frontier_none\<rparr>"

text \<open>A rejection that retains the verified primary word.\<close>

definition reject_word :: "DecodeContext \<Rightarrow> DecodeOutcome \<Rightarrow> u32 \<Rightarrow> RejectedM68kDecode" where
  "reject_word cx outcome requested =
     (reject outcome (cx_source cx) (cx_available cx) requested True)
       \<lparr>rj_provenance := \<lparr>pv_source = cx_source cx, pv_bytes = cx_bytes cx, pv_length = 2\<rparr>,
        rj_has_provenance := True\<rparr>"

definition unsupported_form :: "DecodeContext \<Rightarrow> M68kDecodeResult" where
  "unsupported_form cx =
     Rejected ((reject_word cx Out_valid_but_unsupported_instruction 2)\<lparr>rj_unsupported_instruction_form := True\<rparr>)"

definition truncated :: "DecodeContext \<Rightarrow> nat \<Rightarrow> M68kDecodeResult" where
  "truncated cx requested = Rejected (reject_word cx Out_truncated_instruction (of_nat requested))"

section \<open>One effective-address field\<close>

definition m68k_ea_bit_for :: "M68kEaMode \<Rightarrow> M68kEaLegalMask" where
  "m68k_ea_bit_for mode =
     (case mode of
        Ea_data_register \<Rightarrow> m68k_ea_dn
      | Ea_address_register \<Rightarrow> m68k_ea_an
      | Ea_address_indirect \<Rightarrow> m68k_ea_an_indirect
      | Ea_address_postinc \<Rightarrow> m68k_ea_an_postinc
      | Ea_address_predec \<Rightarrow> m68k_ea_an_predec
      | Ea_address_disp16 \<Rightarrow> m68k_ea_an_disp16
      | Ea_absolute_word \<Rightarrow> m68k_ea_absolute_word
      | Ea_absolute_long \<Rightarrow> m68k_ea_absolute_long
      | Ea_pc_disp16 \<Rightarrow> m68k_ea_pc_disp16
      | Ea_immediate \<Rightarrow> m68k_ea_immediate
      | Ea_address_index8 \<Rightarrow> m68k_ea_index8
      | Ea_pc_index8 \<Rightarrow> m68k_ea_pc_index8
      | Ea_unused \<Rightarrow> 0)"

datatype M68kEaParseStatus = Ps_ok | Ps_illegal_mode | Ps_not_permitted | Ps_truncated

record M68kEaParseResult =
  ep_status :: M68kEaParseStatus
  ep_ea :: M68kEffectiveAddress
  ep_extension_bytes :: nat

definition parse_result_init :: M68kEaParseResult where
  "parse_result_init = \<lparr>ep_status = Ps_illegal_mode, ep_ea = ea_init, ep_extension_bytes = 0\<rparr>"

text \<open>The mode and register a field names; none for the reserved fields.\<close>

definition field_mode :: "u8 \<Rightarrow> u8 \<Rightarrow> (M68kEaMode \<times> u8) option" where
  "field_mode mode3 reg3 =
     (if mode3 = 0 then Some (Ea_data_register, reg3)
      else if mode3 = 1 then Some (Ea_address_register, reg3)
      else if mode3 = 2 then Some (Ea_address_indirect, reg3)
      else if mode3 = 3 then Some (Ea_address_postinc, reg3)
      else if mode3 = 4 then Some (Ea_address_predec, reg3)
      else if mode3 = 5 then Some (Ea_address_disp16, reg3)
      else if mode3 = 6 then Some (Ea_address_index8, reg3)
      else if mode3 = 7 then
        (if reg3 = 0 then Some (Ea_absolute_word, 0)
         else if reg3 = 1 then Some (Ea_absolute_long, 0)
         else if reg3 = 2 then Some (Ea_pc_disp16, 0)
         else if reg3 = 3 then Some (Ea_pc_index8, 0)
         else if reg3 = 4 then Some (Ea_immediate, 0)
         else None)
      else None)"

definition ea_extension_bytes :: "M68kEaMode \<Rightarrow> M68kMemoryAccessWidth \<Rightarrow> nat" where
  "ea_extension_bytes mode sz =
     (case mode of
        Ea_address_disp16 \<Rightarrow> 2
      | Ea_pc_disp16 \<Rightarrow> 2
      | Ea_address_index8 \<Rightarrow> 2
      | Ea_pc_index8 \<Rightarrow> 2
      | Ea_absolute_word \<Rightarrow> 2
      | Ea_absolute_long \<Rightarrow> 4
      | Ea_immediate \<Rightarrow> (if sz = Width_long_word then 4 else 2)
      | _ \<Rightarrow> 0)"

text \<open>
  The brief-format extension word: a scale or the full format is refused (\<open>None\<close>), as the base
  MC68000 has neither.
\<close>

definition brief_index :: "u16 \<Rightarrow> M68kEffectiveAddress \<Rightarrow> M68kEffectiveAddress option" where
  "brief_index ext ea =
     (if ext AND 0x0700 \<noteq> 0 then None
      else Some (ea\<lparr>ea_index_reg := field16 ext 12 7,
                    ea_index_is_address := ext AND 0x8000 \<noteq> 0,
                    ea_index_is_long := ext AND 0x0800 \<noteq> 0,
                    ea_displacement := scast (ucast (ext AND 0xFF) :: u8)\<rparr>))"

definition ea_operand ::
  "M68kEaMode \<Rightarrow> M68kMemoryAccessWidth \<Rightarrow> bytes \<Rightarrow> nat \<Rightarrow> u32 \<Rightarrow> M68kEffectiveAddress \<Rightarrow> M68kEffectiveAddress option" where
  "ea_operand mode sz img ext_offset ext_word_address ea =
     (case mode of
        Ea_address_disp16 \<Rightarrow> Some (ea\<lparr>ea_displacement := read16 img ext_offset\<rparr>)
      | Ea_address_index8 \<Rightarrow> brief_index (read16 img ext_offset) ea
      | Ea_pc_disp16 \<Rightarrow>
          (let disp = read16 img ext_offset in
           Some (ea\<lparr>ea_displacement := disp, ea_absolute_address := ext_word_address + scast disp,
                    ea_pc_base_address := ext_word_address\<rparr>))
      | Ea_pc_index8 \<Rightarrow>
          map_option (\<lambda>ea. ea\<lparr>ea_pc_base_address := ext_word_address\<rparr>) (brief_index (read16 img ext_offset) ea)
      | Ea_absolute_word \<Rightarrow> Some (ea\<lparr>ea_absolute_address := scast (read16 img ext_offset)\<rparr>)
      | Ea_absolute_long \<Rightarrow> Some (ea\<lparr>ea_absolute_address := read32 img ext_offset\<rparr>)
      | Ea_immediate \<Rightarrow>
          Some (ea\<lparr>ea_immediate_value :=
                 (case sz of
                    Width_byte \<Rightarrow> ucast (img ! (ext_offset + 1))
                  | Width_word \<Rightarrow> ucast (read16 img ext_offset)
                  | Width_long_word \<Rightarrow>
                      push_bit 16 (ucast (read16 img ext_offset)) OR ucast (read16 img (ext_offset + 2)))\<rparr>)
      | _ \<Rightarrow> Some ea)"

definition m68k_parse_ea_field ::
  "u8 \<Rightarrow> u8 \<Rightarrow> M68kEaLegalMask \<Rightarrow> M68kMemoryAccessWidth \<Rightarrow> bytes \<Rightarrow> nat \<Rightarrow> nat \<Rightarrow> u32 \<Rightarrow> M68kEaParseResult" where
  "m68k_parse_ea_field mode3 reg3 legal sz img ext_offset available ext_word_address =
     (case field_mode mode3 reg3 of
        None \<Rightarrow> parse_result_init
      | Some (mode, reg) \<Rightarrow>
          (if legal AND m68k_ea_bit_for mode = 0 then parse_result_init\<lparr>ep_status := Ps_not_permitted\<rparr>
           else let ext_bytes = ea_extension_bytes mode sz;
                    result = parse_result_init\<lparr>ep_extension_bytes := ext_bytes\<rparr> in
             if available < ext_bytes then result\<lparr>ep_status := Ps_truncated\<rparr>
             else case ea_operand mode sz img ext_offset ext_word_address
                         (ea_init\<lparr>ea_mode := mode, ea_reg := reg, ea_extension_words := of_nat (ext_bytes div 2)\<rparr>) of
                    None \<Rightarrow> result\<lparr>ep_status := Ps_illegal_mode\<rparr>
                  | Some ea \<Rightarrow> result\<lparr>ep_status := Ps_ok, ep_ea := ea\<rparr>))"

datatype M68kEaFieldOutcome = Field_ok M68kEffectiveAddress nat | Field_failure M68kDecodeResult

definition m68k_decode_one_ea ::
  "DecodeContext \<Rightarrow> nat \<Rightarrow> u8 \<Rightarrow> u8 \<Rightarrow> M68kEaLegalMask \<Rightarrow> M68kMemoryAccessWidth \<Rightarrow> M68kEaFieldOutcome" where
  "m68k_decode_one_ea cx consumed_before mode3 reg3 legal sz =
     (let ext_offset = cx_offset cx + 2 + consumed_before;
          consumed_total_before = 2 + consumed_before;
          ext_available = (if cx_available cx > consumed_total_before then cx_available cx - consumed_total_before else 0);
          ext_word_address = pa_value (ds_address (cx_source cx)) + 2 + of_nat consumed_before;
          parsed = m68k_parse_ea_field mode3 reg3 legal sz (cx_image cx) ext_offset ext_available ext_word_address
      in if ep_status parsed = Ps_illegal_mode \<or> ep_status parsed = Ps_not_permitted
         then Field_failure (unsupported_form cx)
         else if ep_status parsed = Ps_truncated
         then Field_failure (truncated cx (consumed_total_before + ep_extension_bytes parsed))
         else Field_ok (ep_ea parsed) (ep_extension_bytes parsed))"

text \<open>The \<open>if (!field.ok) return field.failure;\<close> after every call.\<close>

definition with_ea :: "M68kEaFieldOutcome \<Rightarrow> (M68kEffectiveAddress \<Rightarrow> nat \<Rightarrow> M68kDecodeResult) \<Rightarrow> M68kDecodeResult" where
  "with_ea outcome k = (case outcome of Field_ok ea ext \<Rightarrow> k ea ext | Field_failure r \<Rightarrow> r)"

lemma with_ea_cong [fundef_cong]:
  "o1 = o2 \<Longrightarrow> (\<And>ea ext. o2 = Field_ok ea ext \<Longrightarrow> k1 ea ext = k2 ea ext) \<Longrightarrow> with_ea o1 k1 = with_ea o2 k2"
  by (simp add: with_ea_def split: M68kEaFieldOutcome.split)

section \<open>Sizes and the decoded instruction\<close>

definition m68k_size_from_tst_clr_field :: "u8 \<Rightarrow> M68kMemoryAccessWidth" where
  "m68k_size_from_tst_clr_field ss = (if ss = 0 then Width_byte else if ss = 1 then Width_word else Width_long_word)"

definition m68k_size_from_move_field :: "u8 \<Rightarrow> M68kMemoryAccessWidth option" where
  "m68k_size_from_move_field ss =
     (if ss = 1 then Some Width_byte
      else if ss = 3 then Some Width_word
      else if ss = 2 then Some Width_long_word
      else None)"

definition m68k_finish_general_decode ::
  "DecodeContext \<Rightarrow> M68kInstructionKind \<Rightarrow> M68kMemoryAccessWidth \<Rightarrow> M68kEffectiveAddress \<Rightarrow> M68kEffectiveAddress
     \<Rightarrow> nat \<Rightarrow> M68kDecodedInstruction" where
  "m68k_finish_general_decode cx kind sz source_ea destination_ea total_extension_bytes =
     (let total_len = 2 + total_extension_bytes in
      instruction_init\<lparr>
        di_provenance := \<lparr>pv_source = cx_source cx, pv_bytes = cx_bytes cx, pv_length = of_nat total_len\<rparr>,
        di_kind := kind,
        di_raw_bytes := slice (cx_offset cx) total_len (cx_image cx),
        di_size := sz,
        di_source_ea := source_ea,
        di_destination_ea := destination_ea\<rparr>)"

end
