(* ===== verification/M68k_Legality.thy ===== *)
theory M68k_Legality
  imports M68k_Types
begin

text \<open>
  The legality partition of the 65,536 operation words of \<^verbatim>\<open>libs/cpu/m68k/src/legality.cpp\<close>:
  the effective-address categories of the base MC68000 and one predicate per opcode line. The
  arithmetic on \<^verbatim>\<open>unsigned\<close> there never leaves 16 bits, so it is modelled on 16-bit words.
\<close>

section \<open>Effective-address categories\<close>

definition ea_valid :: "u16 \<Rightarrow> u16 \<Rightarrow> bool" where
  "ea_valid mode reg \<longleftrightarrow> mode < 7 \<or> reg \<le> 4"

definition ea_data :: "u16 \<Rightarrow> u16 \<Rightarrow> bool" where
  "ea_data mode reg \<longleftrightarrow> mode \<noteq> 1 \<and> ea_valid mode reg"

definition ea_alterable :: "u16 \<Rightarrow> u16 \<Rightarrow> bool" where
  "ea_alterable mode reg \<longleftrightarrow> mode < 7 \<or> reg \<le> 1"

definition ea_data_alterable :: "u16 \<Rightarrow> u16 \<Rightarrow> bool" where
  "ea_data_alterable mode reg \<longleftrightarrow> mode \<noteq> 1 \<and> ea_alterable mode reg"

definition ea_memory_alterable :: "u16 \<Rightarrow> u16 \<Rightarrow> bool" where
  "ea_memory_alterable mode reg \<longleftrightarrow> mode \<ge> 2 \<and> ea_alterable mode reg"

definition ea_control :: "u16 \<Rightarrow> u16 \<Rightarrow> bool" where
  "ea_control mode reg \<longleftrightarrow> mode = 2 \<or> mode = 5 \<or> mode = 6 \<or> (mode = 7 \<and> reg \<le> 3)"

definition ea_control_alterable :: "u16 \<Rightarrow> u16 \<Rightarrow> bool" where
  "ea_control_alterable mode reg \<longleftrightarrow> mode = 2 \<or> mode = 5 \<or> mode = 6 \<or> (mode = 7 \<and> reg \<le> 1)"

section \<open>The opcode lines\<close>

definition line0_legal :: "u16 \<Rightarrow> u16 \<Rightarrow> u16 \<Rightarrow> bool" where
  "line0_legal word mode reg =
     (let sz = drop_bit 6 word AND 3; op = drop_bit 9 word AND 7 in
      if word AND 0x0100 \<noteq> 0 then
        (if mode = 1 then True
         else if sz = 0 then ea_data mode reg else ea_data_alterable mode reg)
      else if op = 0 \<or> op = 1 \<or> op = 5 then
        (if mode = 7 \<and> reg = 4 then sz = 0 \<or> sz = 1
         else sz \<noteq> 3 \<and> ea_data_alterable mode reg)
      else if op = 2 \<or> op = 3 \<or> op = 6 then sz \<noteq> 3 \<and> ea_data_alterable mode reg
      else if op = 4 then
        (if sz = 0 then ea_data mode reg \<and> \<not> (mode = 7 \<and> reg = 4) else ea_data_alterable mode reg)
      else False)"

definition move_legal :: "u16 \<Rightarrow> u16 \<Rightarrow> u16 \<Rightarrow> bool" where
  "move_legal word mode reg =
     (let is_byte = (drop_bit 12 word = 1);
          dst_mode = drop_bit 6 word AND 7;
          dst_reg = drop_bit 9 word AND 7
      in if \<not> ea_valid mode reg \<or> (is_byte \<and> mode = 1) then False
         else if dst_mode = 1 then \<not> is_byte
         else ea_data_alterable dst_mode dst_reg)"

definition line4_legal :: "u16 \<Rightarrow> u16 \<Rightarrow> u16 \<Rightarrow> bool" where
  "line4_legal word mode reg =
     (let sz = drop_bit 6 word AND 3; op = drop_bit 9 word AND 7 in
      if word AND 0x0100 \<noteq> 0 then
        (if sz = 3 then ea_control mode reg
         else if sz = 2 then ea_data mode reg
         else False)
      else if op = 0 \<or> op = 1 \<or> op = 2 \<or> op = 3 then
        (if sz \<noteq> 3 then ea_data_alterable mode reg
         else if op = 0 then ea_data_alterable mode reg
         else if op = 1 then False
         else ea_data mode reg)
      else if op = 4 then
        (if sz = 0 then ea_data_alterable mode reg
         else if sz = 1 then (if mode = 0 then True else ea_control mode reg)
         else (if mode = 0 then True else mode = 4 \<or> ea_control_alterable mode reg))
      else if op = 5 then
        (if sz \<noteq> 3 then ea_data_alterable mode reg
         else if word = 0x4AFC then True
         else ea_data_alterable mode reg)
      else if op = 6 then
        (if sz < 2 then False else mode = 3 \<or> ea_control mode reg)
      else
        (if sz = 0 then False
         else if sz = 1 then
           (if word \<le> 0x4E73 then True else word = 0x4E75 \<or> word = 0x4E76 \<or> word = 0x4E77)
         else ea_control mode reg))"

definition line5_legal :: "u16 \<Rightarrow> u16 \<Rightarrow> u16 \<Rightarrow> bool" where
  "line5_legal word mode reg =
     (let sz = drop_bit 6 word AND 3 in
      if sz = 3 then mode = 1 \<or> ea_data_alterable mode reg
      else if mode = 1 then sz \<noteq> 0
      else ea_alterable mode reg)"

definition or_and_legal :: "u16 \<Rightarrow> u16 \<Rightarrow> u16 \<Rightarrow> bool \<Rightarrow> bool" where
  "or_and_legal word mode reg and_line =
     (let opmode = drop_bit 6 word AND 7 in
      if opmode = 3 \<or> opmode = 7 then ea_data mode reg
      else if opmode < 3 then ea_data mode reg
      else if mode \<le> 1 then
        (if opmode = 4 then True
         else if \<not> and_line then False
         else if opmode = 5 then True
         else mode = 1)
      else ea_memory_alterable mode reg)"

definition add_sub_legal :: "u16 \<Rightarrow> u16 \<Rightarrow> u16 \<Rightarrow> bool" where
  "add_sub_legal word mode reg =
     (let opmode = drop_bit 6 word AND 7 in
      if opmode = 3 \<or> opmode = 7 then ea_valid mode reg
      else if opmode < 3 then ea_valid mode reg \<and> \<not> (opmode = 0 \<and> mode = 1)
      else if mode \<le> 1 then True
      else ea_memory_alterable mode reg)"

definition line_b_legal :: "u16 \<Rightarrow> u16 \<Rightarrow> u16 \<Rightarrow> bool" where
  "line_b_legal word mode reg =
     (let opmode = drop_bit 6 word AND 7 in
      if opmode = 3 \<or> opmode = 7 then ea_valid mode reg
      else if opmode < 3 then ea_valid mode reg \<and> \<not> (opmode = 0 \<and> mode = 1)
      else if mode = 1 then True
      else ea_data_alterable mode reg)"

definition line_e_legal :: "u16 \<Rightarrow> u16 \<Rightarrow> u16 \<Rightarrow> bool" where
  "line_e_legal word mode reg =
     (if drop_bit 6 word AND 3 \<noteq> 3 then True
      else if word AND 0x0800 \<noteq> 0 then False
      else ea_memory_alterable mode reg)"

section \<open>The classification\<close>

definition m68k_classify_primary_word :: "u16 \<Rightarrow> M68kPrimaryWordClass" where
  "m68k_classify_primary_word word =
     (let mode = drop_bit 3 word AND 7;
          reg = word AND 7;
          line = drop_bit 12 word;
          verdict = (\<lambda>legal. if legal then Class_legal else Class_illegal)
      in if line = 0x0 then verdict (line0_legal word mode reg)
         else if line = 0x1 \<or> line = 0x2 \<or> line = 0x3 then verdict (move_legal word mode reg)
         else if line = 0x4 then verdict (line4_legal word mode reg)
         else if line = 0x5 then verdict (line5_legal word mode reg)
         else if line = 0x6 then verdict True
         else if line = 0x7 then verdict (word AND 0x0100 = 0)
         else if line = 0x8 then verdict (or_and_legal word mode reg False)
         else if line = 0x9 \<or> line = 0xD then verdict (add_sub_legal word mode reg)
         else if line = 0xA then Class_line_a_emulator
         else if line = 0xB then verdict (line_b_legal word mode reg)
         else if line = 0xC then verdict (or_and_legal word mode reg True)
         else if line = 0xE then verdict (line_e_legal word mode reg)
         else Class_line_f_emulator)"

definition m68k_primary_word_exception_vector :: "M68kPrimaryWordClass \<Rightarrow> u8" where
  "m68k_primary_word_exception_vector word_class =
     (case word_class of
        Class_line_a_emulator \<Rightarrow> 10
      | Class_line_f_emulator \<Rightarrow> 11
      | Class_illegal \<Rightarrow> 4
      | Class_legal \<Rightarrow> 0)"

end
