(* ===== verification/M68k_Decode.thy ===== *)
theory M68k_Decode
  imports M68k_Ea M68k_Legality
begin

text \<open>
  The MC68000 decoder of \<^verbatim>\<open>libs/cpu/m68k/src/decode.cpp\<close>: one definition per instruction-family
  decoder, in the order of the source, and \<open>decode_m68k_instruction\<close>, which selects among them by
  the decode profile. A family decoder returns \<open>None\<close> when the primary word is not its own.
\<close>

section \<open>Data movement and one-operand forms\<close>

definition m68k_decode_general_tst :: "DecodeContext \<Rightarrow> u16 \<Rightarrow> M68kDecodeResult" where
  "m68k_decode_general_tst cx word =
     (let sz = m68k_size_from_tst_clr_field (field16 word 6 3);
          mode3 = field16 word 3 7;
          reg3 = field16 word 0 7
      in with_ea (m68k_decode_one_ea cx 0 mode3 reg3 m68k_ea_tst_operand sz) (\<lambda>src ext.
           Decoded (m68k_finish_general_decode cx K_tst sz src ea_init ext)))"

definition m68k_decode_general_move :: "DecodeContext \<Rightarrow> u16 \<Rightarrow> M68kDecodeResult option" where
  "m68k_decode_general_move cx word =
     (if word AND 0xC000 \<noteq> 0 then None
      else case m68k_size_from_move_field (field16 word 12 3) of
        None \<Rightarrow> None
      | Some sz \<Rightarrow>
          (let src_mode3 = field16 word 3 7;
               src_reg3 = field16 word 0 7;
               dst_mode3 = field16 word 6 7;
               dst_reg3 = field16 word 9 7
           in if dst_mode3 = 1 \<and> sz \<noteq> Width_byte then
                Some (with_ea (m68k_decode_one_ea cx 0 src_mode3 src_reg3 m68k_ea_move_family_source sz) (\<lambda>src ext.
                  Decoded (m68k_finish_general_decode cx K_movea sz src
                             (mk_ea Ea_address_register dst_reg3 0 0 0 0) ext)))
              else
                Some (with_ea (m68k_decode_one_ea cx 0 src_mode3 src_reg3 m68k_ea_move_family_source sz) (\<lambda>src ext.
                  if sz = Width_byte \<and> ea_mode src = Ea_address_register then unsupported_form cx
                  else with_ea (m68k_decode_one_ea cx ext dst_mode3 dst_reg3 m68k_ea_move_family_destination sz)
                    (\<lambda>dst ext2. Decoded (m68k_finish_general_decode cx K_move sz src dst (ext + ext2)))))))"

definition m68k_decode_general_move_to_sr :: "DecodeContext \<Rightarrow> u16 \<Rightarrow> M68kDecodeResult option" where
  "m68k_decode_general_move_to_sr cx word =
     (if word AND 0xFFC0 \<noteq> 0x46C0 then None
      else let mode3 = field16 word 3 7; reg3 = field16 word 0 7 in
        Some (with_ea (m68k_decode_one_ea cx 0 mode3 reg3 m68k_ea_move_to_sr_source Width_word) (\<lambda>src ext.
          Decoded (m68k_finish_general_decode cx K_move_to_sr Width_word src ea_init ext))))"

definition m68k_decode_general_move_from_sr :: "DecodeContext \<Rightarrow> u16 \<Rightarrow> M68kDecodeResult option" where
  "m68k_decode_general_move_from_sr cx word =
     (if word AND 0xFFC0 \<noteq> 0x40C0 then None
      else let mode3 = field16 word 3 7; reg3 = field16 word 0 7 in
        Some (with_ea (m68k_decode_one_ea cx 0 mode3 reg3 m68k_ea_move_from_sr_destination Width_word) (\<lambda>dst ext.
          Decoded (m68k_finish_general_decode cx K_move_from_sr Width_word ea_init dst ext))))"

definition m68k_decode_general_move_to_ccr :: "DecodeContext \<Rightarrow> u16 \<Rightarrow> M68kDecodeResult option" where
  "m68k_decode_general_move_to_ccr cx word =
     (if word AND 0xFFC0 \<noteq> 0x44C0 then None
      else let mode3 = field16 word 3 7; reg3 = field16 word 0 7 in
        Some (with_ea (m68k_decode_one_ea cx 0 mode3 reg3 m68k_ea_move_to_ccr_source Width_word) (\<lambda>src ext.
          Decoded (m68k_finish_general_decode cx K_move_to_ccr Width_word src ea_init ext))))"

definition m68k_decode_general_clr :: "DecodeContext \<Rightarrow> u16 \<Rightarrow> M68kDecodeResult option" where
  "m68k_decode_general_clr cx word =
     (if word AND 0xFF00 \<noteq> 0x4200 \<or> word AND 0xC0 = 0xC0 then None
      else let sz = m68k_size_from_tst_clr_field (field16 word 6 3);
               mode3 = field16 word 3 7; reg3 = field16 word 0 7 in
        Some (with_ea (m68k_decode_one_ea cx 0 mode3 reg3 m68k_ea_clr_not_operand sz) (\<lambda>dst ext.
          Decoded (m68k_finish_general_decode cx K_clr sz ea_init dst ext))))"

definition m68k_decode_general_not :: "DecodeContext \<Rightarrow> u16 \<Rightarrow> M68kDecodeResult option" where
  "m68k_decode_general_not cx word =
     (if word AND 0xFF00 \<noteq> 0x4600 \<or> word AND 0xC0 = 0xC0 then None
      else let sz = m68k_size_from_tst_clr_field (field16 word 6 3);
               mode3 = field16 word 3 7; reg3 = field16 word 0 7 in
        Some (with_ea (m68k_decode_one_ea cx 0 mode3 reg3 m68k_ea_clr_not_operand sz) (\<lambda>dst ext.
          Decoded (m68k_finish_general_decode cx K_not_operand sz ea_init dst ext))))"

definition m68k_decode_general_negate_word :: "DecodeContext \<Rightarrow> u16 \<Rightarrow> M68kDecodeResult option" where
  "m68k_decode_general_negate_word cx word =
     (if word AND 0xFF00 \<noteq> 0x4400 \<or> word AND 0x00C0 = 0x00C0 then None
      else let sz = m68k_size_from_tst_clr_field (field16 word 6 3);
               mode3 = field16 word 3 7; reg3 = field16 word 0 7 in
        Some (with_ea (m68k_decode_one_ea cx 0 mode3 reg3 m68k_ea_negate_operand sz) (\<lambda>dst ext.
          Decoded (m68k_finish_general_decode cx K_negate_word sz ea_init dst ext))))"

definition m68k_decode_general_negx :: "DecodeContext \<Rightarrow> u16 \<Rightarrow> M68kDecodeResult option" where
  "m68k_decode_general_negx cx word =
     (if word AND 0xFF00 \<noteq> 0x4000 \<or> word AND 0x00C0 = 0x00C0 then None
      else let sz = m68k_size_from_tst_clr_field (field16 word 6 3);
               mode3 = field16 word 3 7; reg3 = field16 word 0 7 in
        Some (with_ea (m68k_decode_one_ea cx 0 mode3 reg3 m68k_ea_negate_operand sz) (\<lambda>dst ext.
          Decoded (m68k_finish_general_decode cx K_negate_extended sz ea_init dst ext))))"

definition m68k_decode_general_nbcd :: "DecodeContext \<Rightarrow> u16 \<Rightarrow> M68kDecodeResult option" where
  "m68k_decode_general_nbcd cx word =
     (if word AND 0xFFC0 \<noteq> 0x4800 then None
      else let mode3 = field16 word 3 7; reg3 = field16 word 0 7 in
        Some (with_ea (m68k_decode_one_ea cx 0 mode3 reg3 m68k_ea_negate_operand Width_byte) (\<lambda>dst ext.
          Decoded (m68k_finish_general_decode cx K_negate_decimal Width_byte ea_init dst ext))))"

definition m68k_decode_general_bcd_pair :: "DecodeContext \<Rightarrow> u16 \<Rightarrow> M68kDecodeResult option" where
  "m68k_decode_general_bcd_pair cx word =
     (let pat = word AND 0xF1F0 in
      if pat \<noteq> 0xC100 \<and> pat \<noteq> 0x8100 then None
      else let mode = (if word AND 0x0008 \<noteq> 0 then Ea_address_predec else Ea_data_register);
               src = mk_ea mode (field16 word 0 7) 0 0 0 0;
               dst = mk_ea mode (field16 word 9 7) 0 0 0 0 in
        Some (Decoded (m68k_finish_general_decode cx
                (if pat = 0xC100 then K_add_decimal else K_subtract_decimal) Width_byte src dst 0)))"

definition m68k_condition_from_selector :: "u8 \<Rightarrow> M68kCondition" where
  "m68k_condition_from_selector selector =
     (if selector = 2 then Cond_hi
      else if selector = 3 then Cond_ls
      else if selector = 4 then Cond_cc
      else if selector = 5 then Cond_cs
      else if selector = 6 then Cond_ne
      else if selector = 7 then Cond_eq
      else if selector = 8 then Cond_vc
      else if selector = 9 then Cond_vs
      else if selector = 10 then Cond_pl
      else if selector = 11 then Cond_mi
      else if selector = 12 then Cond_ge
      else if selector = 13 then Cond_lt
      else if selector = 14 then Cond_gt
      else Cond_le)"

definition m68k_decode_general_tas :: "DecodeContext \<Rightarrow> u16 \<Rightarrow> M68kDecodeResult option" where
  "m68k_decode_general_tas cx word =
     (if word AND 0xFFC0 \<noteq> 0x4AC0 then None
      else let mode3 = field16 word 3 7; reg3 = field16 word 0 7 in
        Some (with_ea (m68k_decode_one_ea cx 0 mode3 reg3 m68k_ea_scc_tas_operand Width_byte) (\<lambda>dst ext.
          Decoded (m68k_finish_general_decode cx K_test_and_set Width_byte ea_init dst ext))))"

definition m68k_decode_general_exg :: "DecodeContext \<Rightarrow> u16 \<Rightarrow> M68kDecodeResult option" where
  "m68k_decode_general_exg cx word =
     (let pat = word AND 0xF1F8 in
      if pat \<noteq> 0xC140 \<and> pat \<noteq> 0xC148 \<and> pat \<noteq> 0xC188 then None
      else let rx_mode = (if pat = 0xC148 then Ea_address_register else Ea_data_register);
               ry_mode = (if pat = 0xC140 then Ea_data_register else Ea_address_register);
               src = mk_ea rx_mode (field16 word 9 7) 0 0 0 0;
               dst = mk_ea ry_mode (field16 word 0 7) 0 0 0 0 in
        Some (Decoded (m68k_finish_general_decode cx K_exchange_registers Width_long_word src dst 0)))"

definition m68k_decode_general_movep :: "DecodeContext \<Rightarrow> u16 \<Rightarrow> M68kDecodeResult option" where
  "m68k_decode_general_movep cx word =
     (if word AND 0xF138 \<noteq> 0x0108 then None
      else let opmode = field16 word 6 3;
               sz = (if opmode AND 1 \<noteq> 0 then Width_long_word else Width_word) in
        Some (with_ea (m68k_decode_one_ea cx 0 5 (field16 word 0 7) m68k_ea_an_disp16 sz) (\<lambda>mem ext.
          let dn = mk_ea Ea_data_register (field16 word 9 7) 0 0 0 0;
              to_register = opmode < 2 in
          Decoded (m68k_finish_general_decode cx K_movep sz
                     (if to_register then mem else dn) (if to_register then dn else mem) ext))))"

definition m68k_decode_general_scc :: "DecodeContext \<Rightarrow> u16 \<Rightarrow> M68kDecodeResult option" where
  "m68k_decode_general_scc cx word =
     (if word AND 0xF0C0 \<noteq> 0x50C0 then None
      else let mode3 = field16 word 3 7 in
        if mode3 = 1 then None
        else let reg3 = field16 word 0 7;
                 selector = field16 word 8 0xF;
                 condition = (if selector = 0 then Cond_always else if selector = 1 then Cond_never
                              else m68k_condition_from_selector selector) in
          Some (with_ea (m68k_decode_one_ea cx 0 mode3 reg3 m68k_ea_scc_tas_operand Width_byte) (\<lambda>dst ext.
            Decoded ((m68k_finish_general_decode cx K_set_conditional Width_byte ea_init dst ext)
                       \<lparr>di_condition := condition\<rparr>))))"

section \<open>Arithmetic and logic\<close>

definition m68k_decode_general_extended_pair :: "DecodeContext \<Rightarrow> u16 \<Rightarrow> M68kDecodeResult option" where
  "m68k_decode_general_extended_pair cx word =
     (if word AND 0x00C0 = 0x00C0 then None
      else let sz = m68k_size_from_tst_clr_field (field16 word 6 3);
               rx = field16 word 9 7;
               ry = field16 word 0 7;
               pair = (\<lambda>kind mode. Some (Decoded (m68k_finish_general_decode cx kind sz
                         (mk_ea mode ry 0 0 0 0) (mk_ea mode rx 0 0 0 0) 0))) in
        if word AND 0xF130 = 0xD100 \<or> word AND 0xF130 = 0x9100 then
          pair (if word AND 0xF000 = 0xD000 then K_add_extended else K_subtract_extended)
               (if word AND 0x0008 \<noteq> 0 then Ea_address_predec else Ea_data_register)
        else if word AND 0xF138 = 0xB108 then pair K_compare_memory Ea_address_postinc
        else None)"

definition m68k_decode_general_compare :: "DecodeContext \<Rightarrow> u16 \<Rightarrow> M68kDecodeResult option" where
  "m68k_decode_general_compare cx word =
     (let mode = field16 word 3 7;
          reg = field16 word 0 7;
          destination = field16 word 9 7;
          opmode = field16 word 6 7
      in if word AND 0xF000 = 0xB000 \<and> (opmode \<le> 2 \<or> opmode = 3 \<or> opmode = 7) then
           (let address_compare = (opmode = 3 \<or> opmode = 7);
                sz = (if address_compare then (if opmode = 3 then Width_word else Width_long_word)
                      else m68k_size_from_tst_clr_field opmode) in
            Some (with_ea (m68k_decode_one_ea cx 0 mode reg m68k_ea_add_sub_cmp_source sz) (\<lambda>src ext.
              if \<not> address_compare \<and> sz = Width_byte \<and> ea_mode src = Ea_address_register then unsupported_form cx
              else Decoded (m68k_finish_general_decode cx (if address_compare then K_cmpa else K_cmp) sz src
                     (mk_ea (if address_compare then Ea_address_register else Ea_data_register) destination 0 0 0 0)
                     ext))))
         else if word AND 0xFF00 \<noteq> 0x0C00 \<or> word AND 0xC0 = 0xC0 then None
         else let sz = m68k_size_from_tst_clr_field (field16 word 6 3) in
           Some (with_ea (m68k_decode_one_ea cx 0 7 4 m68k_ea_immediate sz) (\<lambda>imm ext.
             with_ea (m68k_decode_one_ea cx ext mode reg m68k_ea_data_alterable_with_index sz) (\<lambda>dst ext2.
               Decoded (m68k_finish_general_decode cx K_cmpi sz imm dst (ext + ext2))))))"

definition m68k_decode_general_subtract :: "DecodeContext \<Rightarrow> u16 \<Rightarrow> M68kDecodeResult option" where
  "m68k_decode_general_subtract cx word =
     (let mode = field16 word 3 7;
          reg = field16 word 0 7;
          destination = field16 word 9 7;
          opmode = field16 word 6 7
      in if word AND 0xF000 = 0x9000 \<and> (opmode \<le> 2 \<or> opmode = 3 \<or> opmode = 7) then
           (let address_subtract = (opmode = 3 \<or> opmode = 7);
                sz = (if address_subtract then (if opmode = 3 then Width_word else Width_long_word)
                      else m68k_size_from_tst_clr_field opmode) in
            Some (with_ea (m68k_decode_one_ea cx 0 mode reg m68k_ea_add_sub_cmp_source sz) (\<lambda>src ext.
              if \<not> address_subtract \<and> sz = Width_byte \<and> ea_mode src = Ea_address_register then unsupported_form cx
              else Decoded (m68k_finish_general_decode cx (if address_subtract then K_suba else K_sub) sz src
                     (mk_ea (if address_subtract then Ea_address_register else Ea_data_register) destination 0 0 0 0)
                     ext))))
         else if word AND 0xF000 = 0x9000 \<and> opmode \<ge> 4 \<and> opmode \<le> 6 then
           (let sz = m68k_size_from_tst_clr_field (opmode - 4);
                src = mk_ea Ea_data_register destination 0 0 0 0 in
            Some (with_ea (m68k_decode_one_ea cx 0 mode reg m68k_ea_reverse_arithmetic_destination sz) (\<lambda>dst ext.
              Decoded (m68k_finish_general_decode cx K_sub sz src dst ext))))
         else if word AND 0xFF00 = 0x0400 \<and> word AND 0xC0 \<noteq> 0xC0 then
           (let sz = m68k_size_from_tst_clr_field (field16 word 6 3) in
            Some (with_ea (m68k_decode_one_ea cx 0 7 4 m68k_ea_immediate sz) (\<lambda>imm ext.
              with_ea (m68k_decode_one_ea cx ext mode reg m68k_ea_data_alterable_with_index sz) (\<lambda>dst ext2.
                Decoded (m68k_finish_general_decode cx K_subi sz imm dst (ext + ext2))))))
         else if word AND 0xF100 = 0x5100 \<and> word AND 0xC0 \<noteq> 0xC0 then
           (let sz = m68k_size_from_tst_clr_field (field16 word 6 3) in
            if mode = 1 \<and> sz = Width_byte then None
            else let legal = (if mode = 1 then m68k_ea_an else m68k_ea_addq_subq_destination) in
              Some (with_ea (m68k_decode_one_ea cx 0 mode reg legal sz) (\<lambda>dst ext.
                Decoded ((m68k_finish_general_decode cx K_subq sz ea_init dst ext)
                  \<lparr>di_source_ea := mk_ea Ea_immediate 0 0 0 (if destination = 0 then 8 else ucast destination) 0\<rparr>))))
         else None)"

definition m68k_decode_general_add :: "DecodeContext \<Rightarrow> u16 \<Rightarrow> M68kDecodeResult option" where
  "m68k_decode_general_add cx word =
     (let mode = field16 word 3 7;
          reg = field16 word 0 7;
          destination = field16 word 9 7;
          opmode = field16 word 6 7
      in if word AND 0xF000 = 0xD000 \<and> (opmode \<le> 2 \<or> opmode = 3 \<or> opmode = 7) then
           (let address_add = (opmode = 3 \<or> opmode = 7);
                sz = (if address_add then (if opmode = 3 then Width_word else Width_long_word)
                      else m68k_size_from_tst_clr_field opmode);
                source_legal = (if address_add then m68k_ea_add_sub_cmp_source
                                else if sz = Width_byte then m68k_ea_add_sub_cmp_source AND NOT m68k_ea_an
                                else m68k_ea_add_sub_cmp_source) in
            Some (with_ea (m68k_decode_one_ea cx 0 mode reg source_legal sz) (\<lambda>src ext.
              Decoded (m68k_finish_general_decode cx (if address_add then K_adda else K_add) sz src
                (mk_ea (if address_add then Ea_address_register else Ea_data_register) destination 0 0 0 0) ext))))
         else if word AND 0xF000 = 0xD000 \<and> opmode \<ge> 4 \<and> opmode \<le> 6 then
           (let sz = m68k_size_from_tst_clr_field (opmode - 4);
                src = mk_ea Ea_data_register destination 0 0 0 0 in
            Some (with_ea (m68k_decode_one_ea cx 0 mode reg m68k_ea_reverse_arithmetic_destination sz) (\<lambda>dst ext.
              Decoded (m68k_finish_general_decode cx K_add sz src dst ext))))
         else if word AND 0xFF00 = 0x0600 \<and> word AND 0xC0 \<noteq> 0xC0 then
           (let sz = m68k_size_from_tst_clr_field (field16 word 6 3) in
            Some (with_ea (m68k_decode_one_ea cx 0 7 4 m68k_ea_immediate sz) (\<lambda>imm ext.
              with_ea (m68k_decode_one_ea cx ext mode reg m68k_ea_data_alterable_with_index sz) (\<lambda>dst ext2.
                Decoded (m68k_finish_general_decode cx K_addi sz imm dst (ext + ext2))))))
         else if word AND 0xF100 = 0x5000 \<and> word AND 0xC0 \<noteq> 0xC0 then
           (let sz = m68k_size_from_tst_clr_field (field16 word 6 3) in
            if mode = 1 \<and> sz = Width_byte then None
            else let legal = (if mode = 1 then m68k_ea_an else m68k_ea_addq_subq_destination) in
              Some (with_ea (m68k_decode_one_ea cx 0 mode reg legal sz) (\<lambda>dst ext.
                Decoded ((m68k_finish_general_decode cx K_addq sz ea_init dst ext)
                  \<lparr>di_source_ea := mk_ea Ea_immediate 0 0 0 (if destination = 0 then 8 else ucast destination) 0\<rparr>))))
         else None)"

text \<open>The immediate forms of AND, OR and EOR, and the register forms.\<close>

definition ordinary_immediate :: "DecodeContext \<Rightarrow> u16 \<Rightarrow> u16 \<Rightarrow> M68kInstructionKind \<Rightarrow> M68kDecodeResult option" where
  "ordinary_immediate cx word primary kind =
     (if word AND 0xFF00 \<noteq> primary \<or> word AND 0xC0 = 0xC0 then None
      else let sz = m68k_size_from_tst_clr_field (field16 word 6 3) in
        Some (with_ea (m68k_decode_one_ea cx 0 7 4 m68k_ea_immediate sz) (\<lambda>imm ext.
          with_ea (m68k_decode_one_ea cx ext (field16 word 3 7) (field16 word 0 7)
                     m68k_ea_logical_immediate_destination sz) (\<lambda>dst ext2.
            Decoded (m68k_finish_general_decode cx kind sz imm dst (ext + ext2))))))"

definition decode_register_logical ::
  "DecodeContext \<Rightarrow> u16 \<Rightarrow> u16 \<Rightarrow> M68kInstructionKind \<Rightarrow> bool \<Rightarrow> M68kDecodeResult option" where
  "decode_register_logical cx word family kind eor_only =
     (let mode = field16 word 3 7;
          reg = field16 word 0 7;
          destination = field16 word 9 7;
          opmode = field16 word 6 7
      in if word AND 0xF000 \<noteq> family \<or>
            (if eor_only then opmode < 4 \<or> opmode > 6 else opmode = 3 \<or> opmode = 7) then None
         else if opmode \<le> 2 then
           (if eor_only then None
            else let sz = m68k_size_from_tst_clr_field opmode in
              Some (with_ea (m68k_decode_one_ea cx 0 mode reg m68k_ea_and_or_source sz) (\<lambda>src ext.
                Decoded (m68k_finish_general_decode cx kind sz src
                           (mk_ea Ea_data_register destination 0 0 0 0) ext))))
         else
           (let sz = m68k_size_from_tst_clr_field (opmode - 4);
                src = mk_ea Ea_data_register destination 0 0 0 0;
                legal = (if eor_only then m68k_ea_eor_destination else m68k_ea_and_or_reverse_destination) in
            Some (with_ea (m68k_decode_one_ea cx 0 mode reg legal sz) (\<lambda>dst ext.
              Decoded (m68k_finish_general_decode cx kind sz src dst ext)))))"

definition status_logical :: "DecodeContext \<Rightarrow> u16 \<Rightarrow> M68kDecodeResult option" where
  "status_logical cx word =
     (if word = 0x023C \<or> word = 0x027C \<or> word = 0x003C \<or> word = 0x007C \<or> word = 0x0A3C \<or> word = 0x0A7C then
        (let to_sr = (word AND 0x0040 \<noteq> 0);
             sz = (if to_sr then Width_word else Width_byte) in
         Some (with_ea (m68k_decode_one_ea cx 0 7 4 m68k_ea_immediate sz) (\<lambda>imm ext.
           Decoded ((m68k_finish_general_decode cx
                       (if to_sr then K_logical_immediate_to_sr else K_logical_immediate_to_ccr) sz imm ea_init ext)
             \<lparr>di_status_operation := (if word AND 0xFF00 = 0x0200 then Status_and_op
                                      else if word AND 0xFF00 = 0 then Status_or_op else Status_eor_op)\<rparr>))))
      else None)"

text \<open>MULS, MULU, DIVS and DIVU share their body.\<close>

definition multiply_divide :: "DecodeContext \<Rightarrow> u16 \<Rightarrow> u16 \<Rightarrow> M68kInstructionKind \<Rightarrow> M68kDecodeResult option" where
  "multiply_divide cx word pat kind =
     (if word AND 0xF1C0 = pat then
        Some (with_ea (m68k_decode_one_ea cx 0 (field16 word 3 7) (field16 word 0 7) m68k_ea_mul_div_source Width_word)
          (\<lambda>src ext. Decoded (m68k_finish_general_decode cx kind Width_word src
                                (mk_ea Ea_data_register (field16 word 9 7) 0 0 0 0) ext)))
      else None)"

text \<open>The first decoder that claims the word.\<close>

fun first_claim :: "M68kDecodeResult option list \<Rightarrow> M68kDecodeResult option" where
  "first_claim [] = None"
| "first_claim (Some r # rest) = Some r"
| "first_claim (None # rest) = first_claim rest"

definition m68k_decode_general_logical :: "DecodeContext \<Rightarrow> u16 \<Rightarrow> M68kDecodeResult option" where
  "m68k_decode_general_logical cx word =
     first_claim
       [status_logical cx word,
        ordinary_immediate cx word 0x0200 K_andi,
        ordinary_immediate cx word 0x0000 K_ori,
        ordinary_immediate cx word 0x0A00 K_eori,
        decode_register_logical cx word 0xC000 K_logical_and False,
        decode_register_logical cx word 0x8000 K_logical_or False,
        decode_register_logical cx word 0xB000 K_eor True,
        multiply_divide cx word 0xC1C0 K_multiply_signed_word,
        multiply_divide cx word 0xC0C0 K_multiply_unsigned_word,
        multiply_divide cx word 0x81C0 K_divide_signed_word,
        multiply_divide cx word 0x80C0 K_divide_unsigned_word]"

section \<open>Register, address and control forms\<close>

definition m68k_decode_general_swap_ext :: "DecodeContext \<Rightarrow> u16 \<Rightarrow> M68kDecodeResult option" where
  "m68k_decode_general_swap_ext cx word =
     (let operand = mk_ea Ea_data_register (field16 word 0 7) 0 0 0 0 in
      if word AND 0xFFF8 = 0x4840 then
        Some (Decoded (m68k_finish_general_decode cx K_swap Width_long_word ea_init operand 0))
      else if word AND 0xFFF8 = 0x4880 then
        Some (Decoded (m68k_finish_general_decode cx K_ext_w Width_word ea_init operand 0))
      else if word AND 0xFFF8 = 0x48C0 then
        Some (Decoded (m68k_finish_general_decode cx K_ext_l Width_long_word ea_init operand 0))
      else None)"

definition m68k_decode_general_pea :: "DecodeContext \<Rightarrow> u16 \<Rightarrow> M68kDecodeResult option" where
  "m68k_decode_general_pea cx word =
     (if word AND 0xFFC0 \<noteq> 0x4840 then None
      else let mode3 = field16 word 3 7; reg3 = field16 word 0 7 in
        Some (with_ea (m68k_decode_one_ea cx 0 mode3 reg3 m68k_ea_pea_control_modes Width_long_word) (\<lambda>src ext.
          Decoded (m68k_finish_general_decode cx K_pea Width_long_word src ea_init ext))))"

definition m68k_decode_general_lea :: "DecodeContext \<Rightarrow> u16 \<Rightarrow> M68kDecodeResult option" where
  "m68k_decode_general_lea cx word =
     (if word AND 0xF1C0 \<noteq> 0x41C0 then None
      else let dest_reg = field16 word 9 7; mode3 = field16 word 3 7; reg3 = field16 word 0 7 in
        Some (with_ea (m68k_decode_one_ea cx 0 mode3 reg3 m68k_ea_lea_control_modes Width_long_word) (\<lambda>src ext.
          Decoded (m68k_finish_general_decode cx K_lea Width_long_word src
                     (mk_ea Ea_address_register dest_reg 0 0 0 0) ext))))"

definition m68k_decode_general_jmp :: "DecodeContext \<Rightarrow> u16 \<Rightarrow> M68kDecodeResult option" where
  "m68k_decode_general_jmp cx word =
     (if word AND 0xFFC0 \<noteq> 0x4EC0 then None
      else let mode3 = field16 word 3 7; reg3 = field16 word 0 7 in
        Some (with_ea (m68k_decode_one_ea cx 0 mode3 reg3 m68k_ea_jsr_jmp_control_modes Width_long_word) (\<lambda>src ext.
          Decoded (m68k_finish_general_decode cx K_jmp Width_long_word src ea_init ext))))"

definition m68k_decode_general_jsr :: "DecodeContext \<Rightarrow> u16 \<Rightarrow> M68kDecodeResult option" where
  "m68k_decode_general_jsr cx word =
     (if word AND 0xFFC0 \<noteq> 0x4E80 then None
      else let mode3 = field16 word 3 7; reg3 = field16 word 0 7 in
        Some (with_ea (m68k_decode_one_ea cx 0 mode3 reg3 m68k_ea_jsr_jmp_control_modes Width_long_word) (\<lambda>src ext.
          Decoded (m68k_finish_general_decode cx K_jsr Width_long_word src ea_init ext))))"

definition m68k_decode_general_link_unlk :: "DecodeContext \<Rightarrow> u16 \<Rightarrow> M68kDecodeResult option" where
  "m68k_decode_general_link_unlk cx word =
     (let reg = field16 word 0 7 in
      if word AND 0xFFF8 = 0x4E58 then
        Some (Decoded (m68k_finish_general_decode cx K_unlk Width_long_word ea_init
                         (mk_ea Ea_address_register reg 0 0 0 0) 0))
      else if word AND 0xFFF8 = 0x4E50 then
        (if cx_available cx < 4 then Some (truncated cx 4)
         else let disp16 = read16 (cx_image cx) (cx_offset cx + 2) in
           Some (Decoded (m68k_finish_general_decode cx K_link Width_long_word
                            (mk_ea Ea_immediate 0 0 0 (ucast disp16) 1) (mk_ea Ea_address_register reg 0 0 0 0) 2)))
      else None)"

text \<open>Bit operations; \<open>bit_finish\<close> decodes their destination.\<close>

definition bit_finish ::
  "DecodeContext \<Rightarrow> u16 \<Rightarrow> M68kInstructionKind \<Rightarrow> M68kEffectiveAddress \<Rightarrow> nat \<Rightarrow> M68kDecodeResult" where
  "bit_finish cx word kind bit_number_ea consumed_before_dst =
     (let dynamic_bit_number = (ea_mode bit_number_ea = Ea_data_register);
          legal = (if kind \<noteq> K_btst then m68k_ea_bit_modify_destination
                   else if dynamic_bit_number then m68k_ea_bit_test_dynamic_destination
                   else m68k_ea_bit_test_destination)
      in with_ea (m68k_decode_one_ea cx consumed_before_dst (field16 word 3 7) (field16 word 0 7) legal Width_byte)
           (\<lambda>dst ext.
             let sz = (if ea_mode dst = Ea_data_register then Width_long_word else Width_byte) in
             Decoded (m68k_finish_general_decode cx kind sz bit_number_ea dst (consumed_before_dst + ext))))"

definition m68k_decode_general_bit_operation :: "DecodeContext \<Rightarrow> u16 \<Rightarrow> M68kDecodeResult option" where
  "m68k_decode_general_bit_operation cx word =
     (if word AND 0xF1C0 = 0x0100 \<or> word AND 0xF1C0 = 0x0140 \<or> word AND 0xF1C0 = 0x0180 \<or> word AND 0xF1C0 = 0x01C0 then
        (let opmode = field16 word 6 7;
             bit_source = mk_ea Ea_data_register (field16 word 9 7) 0 0 0 0 in
         if opmode = 4 then Some (bit_finish cx word K_btst bit_source 0)
         else if opmode = 5 then Some (bit_finish cx word K_bchg bit_source 0)
         else if opmode = 6 then Some (bit_finish cx word K_bclr bit_source 0)
         else if opmode = 7 then Some (bit_finish cx word K_bset bit_source 0)
         else None)
      else if word AND 0xFF00 = 0x0800 then
        (let selector = field16 word 6 3 in
         Some (with_ea (m68k_decode_one_ea cx 0 7 4 m68k_ea_immediate Width_word) (\<lambda>imm ext.
           bit_finish cx word
             (if selector = 0 then K_btst else if selector = 1 then K_bchg
              else if selector = 2 then K_bclr else K_bset) imm ext)))
      else None)"

definition m68k_decode_general_branch :: "DecodeContext \<Rightarrow> u16 \<Rightarrow> M68kDecodeResult option" where
  "m68k_decode_general_branch cx word =
     (if word AND 0xF000 \<noteq> 0x6000 then None
      else let selector = field16 word 8 0xF in
        if selector = 1 then None
        else let condition = (if selector = 0 then Cond_always else m68k_condition_from_selector selector);
                 displacement = snd (cx_bytes cx) in
          if displacement \<noteq> 0 then
            Some (Decoded ((m68k_finish_general_decode cx K_branch Width_byte
                              (mk_ea Ea_immediate 0 0 0 (ucast displacement) 0) ea_init 0)\<lparr>di_condition := condition\<rparr>))
          else if cx_available cx < 4 then Some (truncated cx 4)
          else let disp16 = read16 (cx_image cx) (cx_offset cx + 2) in
            Some (Decoded ((m68k_finish_general_decode cx K_branch Width_word
                              (mk_ea Ea_immediate 0 0 0 (ucast disp16) 1) ea_init 2)\<lparr>di_condition := condition\<rparr>)))"

definition m68k_decode_general_bsr :: "DecodeContext \<Rightarrow> u16 \<Rightarrow> M68kDecodeResult option" where
  "m68k_decode_general_bsr cx word =
     (if word AND 0xFF00 \<noteq> 0x6100 then None
      else let displacement = snd (cx_bytes cx) in
        if displacement \<noteq> 0 then
          Some (Decoded (m68k_finish_general_decode cx K_bsr Width_byte
                           (mk_ea Ea_immediate 0 0 0 (ucast displacement) 0) ea_init 0))
        else if cx_available cx < 4 then Some (truncated cx 4)
        else let disp16 = read16 (cx_image cx) (cx_offset cx + 2) in
          Some (Decoded (m68k_finish_general_decode cx K_bsr Width_word
                           (mk_ea Ea_immediate 0 0 0 (ucast disp16) 1) ea_init 2)))"

definition m68k_decode_general_dbcc :: "DecodeContext \<Rightarrow> u16 \<Rightarrow> M68kDecodeResult option" where
  "m68k_decode_general_dbcc cx word =
     (if word AND 0xF0F8 \<noteq> 0x50C8 then None
      else let selector = field16 word 8 0xF;
               reg = field16 word 0 7;
               condition = (if selector = 0 then Cond_always else if selector = 1 then Cond_never
                            else m68k_condition_from_selector selector) in
        if cx_available cx < 4 then Some (truncated cx 4)
        else let disp16 = read16 (cx_image cx) (cx_offset cx + 2) in
          Some (Decoded ((m68k_finish_general_decode cx K_dbcc Width_word
                            (mk_ea Ea_immediate 0 0 0 (ucast disp16) 1) (mk_ea Ea_data_register reg 0 0 0 0) 2)
                           \<lparr>di_condition := condition\<rparr>)))"

definition m68k_decode_general_movem :: "DecodeContext \<Rightarrow> u16 \<Rightarrow> M68kDecodeResult option" where
  "m68k_decode_general_movem cx word =
     (if word AND 0xFB80 \<noteq> 0x4880 then None
      else let direction = (if drop_bit 10 word AND 1 \<noteq> 0 then Memory_to_registers else Registers_to_memory);
               sz = (if drop_bit 6 word AND 1 \<noteq> 0 then Width_long_word else Width_word);
               mode3 = field16 word 3 7; reg3 = field16 word 0 7 in
        if cx_available cx < 4 then Some (truncated cx 4)
        else let register_mask = read16 (cx_image cx) (cx_offset cx + 2);
                 legal = (if direction = Registers_to_memory then m68k_ea_movem_register_to_memory
                          else m68k_ea_movem_memory_to_register) in
          Some (with_ea (m68k_decode_one_ea cx 2 mode3 reg3 legal sz) (\<lambda>ea ext.
            Decoded ((if direction = Registers_to_memory
                      then m68k_finish_general_decode cx K_movem sz ea_init ea (2 + ext)
                      else m68k_finish_general_decode cx K_movem sz ea ea_init (2 + ext))
                     \<lparr>di_movem_direction := direction, di_movem_register_mask := register_mask\<rparr>))))"

text \<open>The operation a two-bit family and the direction bit select.\<close>

definition shift_rotate_kind :: "u8 \<Rightarrow> bool \<Rightarrow> M68kShiftRotateKind option" where
  "shift_rotate_kind family direction_left =
     (if family = 0 then Some (if direction_left then Sr_asl else Sr_asr)
      else if family = 1 then Some (if direction_left then Sr_lsl else Sr_lsr)
      else if family = 2 then Some (if direction_left then Sr_roxl else Sr_roxr)
      else if family = 3 then Some (if direction_left then Sr_rol else Sr_ror)
      else None)"

definition m68k_decode_general_shift_rotate :: "DecodeContext \<Rightarrow> u16 \<Rightarrow> M68kDecodeResult option" where
  "m68k_decode_general_shift_rotate cx word =
     (if word AND 0xF000 \<noteq> 0xE000 then None
      else if word AND 0x00C0 = 0x00C0 then None
      else let count_or_reg = field16 word 9 7;
               direction_left = (drop_bit 8 word AND 1 \<noteq> 0);
               size_field = field16 word 6 3;
               register_count = (drop_bit 5 word AND 1 \<noteq> 0);
               family = field16 word 3 3;
               dest_reg = field16 word 0 7 in
        case shift_rotate_kind family direction_left of
          None \<Rightarrow> None
        | Some kind \<Rightarrow>
            (let sz = (if size_field = 0 then Width_byte else if size_field = 1 then Width_word else Width_long_word);
                 dest_ea = mk_ea Ea_data_register dest_reg 0 0 0 0;
                 count_ea = (if register_count then mk_ea Ea_data_register count_or_reg 0 0 0 0
                             else mk_ea Ea_immediate 0 0 0 (if count_or_reg = 0 then 8 else ucast count_or_reg) 0)
             in Some (Decoded ((m68k_finish_general_decode cx K_shift_rotate sz count_ea dest_ea 0)
                                 \<lparr>di_shift_rotate_kind := kind\<rparr>))))"

definition m68k_decode_general_shift_rotate_memory :: "DecodeContext \<Rightarrow> u16 \<Rightarrow> M68kDecodeResult option" where
  "m68k_decode_general_shift_rotate_memory cx word =
     (if word AND 0xF0C0 \<noteq> 0xE0C0 then None
      else let family = field16 word 9 7;
               direction_left = (drop_bit 8 word AND 1 \<noteq> 0) in
        case shift_rotate_kind family direction_left of
          None \<Rightarrow> None
        | Some kind \<Rightarrow>
            (let mode3 = field16 word 3 7; reg3 = field16 word 0 7 in
             Some (with_ea (m68k_decode_one_ea cx 0 mode3 reg3 m68k_ea_shift_memory_destination Width_word) (\<lambda>dst ext.
               Decoded ((m68k_finish_general_decode cx K_shift_rotate Width_word ea_init dst ext)
                          \<lparr>di_shift_rotate_kind := kind\<rparr>)))))"

section \<open>The decoder\<close>

definition classify_m68k_cpu_frontier :: "InstructionProvenance \<Rightarrow> M68kCpuFrontierKind" where
  "classify_m68k_cpu_frontier provenance =
     (let word = (push_bit 8 (ucast (fst (pv_bytes provenance))) OR ucast (snd (pv_bytes provenance)) :: u16) in
      if word = 0x4E71 \<and> pv_length provenance = 2 then Frontier_nop
      else if word = 0x4E72 \<and> pv_length provenance = 4 then Frontier_stop_immediate_word
      else if word = 0x4E70 \<and> pv_length provenance = 2 then Frontier_reset
      else if word \<ge> 0x4E60 \<and> word \<le> 0x4E67 \<and> pv_length provenance = 2 then Frontier_move_an_to_usp
      else Frontier_none)"

text \<open>The instruction every profile starts from, and the selection of a fixed-length form.\<close>

definition primary_instruction :: "DecodeContext \<Rightarrow> u16 \<Rightarrow> M68kDecodedInstruction" where
  "primary_instruction cx word =
     instruction_init\<lparr>di_provenance := \<lparr>pv_source = cx_source cx, pv_bytes = cx_bytes cx, pv_length = 2\<rparr>,
                      di_destination := field16 word 9 7, di_operand := snd (cx_bytes cx)\<rparr>"

definition select_kind :: "DecodeContext \<Rightarrow> u16 \<Rightarrow> M68kInstructionKind \<Rightarrow> nat \<Rightarrow> M68kDecodeResult" where
  "select_kind cx word kind len =
     (if cx_available cx < len then truncated cx len
      else let raw = slice (cx_offset cx) len (cx_image cx);
               i = (primary_instruction cx word)
                     \<lparr>di_provenance := \<lparr>pv_source = cx_source cx, pv_bytes = cx_bytes cx, pv_length = of_nat len\<rparr>,
                      di_kind := kind, di_raw_bytes := raw\<rparr>
           in Decoded (if len = 6 then i\<lparr>di_extension := read32 raw 2\<rparr> else i))"

text \<open>
  \<^verbatim>\<open>std::get<M68kDecodedInstruction>(result).field = value\<close>. The form selected is always two bytes
  long and two bytes are available, so the result holds an instruction.
\<close>

definition on_decoded :: "(M68kDecodedInstruction \<Rightarrow> M68kDecodedInstruction) \<Rightarrow> M68kDecodeResult \<Rightarrow> M68kDecodeResult" where
  "on_decoded f r = (case r of Decoded i \<Rightarrow> Decoded (f i) | Rejected rejected \<Rightarrow> Rejected rejected)"

text \<open>The exception-raising forms of \<open>general_startup\<close>.\<close>

definition decode_chk :: "DecodeContext \<Rightarrow> u16 \<Rightarrow> M68kDecodeResult" where
  "decode_chk cx word =
     with_ea (m68k_decode_one_ea cx 0 (field16 word 3 7) (field16 word 0 7) m68k_ea_chk_source Width_word) (\<lambda>src ext.
       Decoded ((m68k_finish_general_decode cx K_chk Width_word src (mk_ea Ea_data_register (field16 word 9 7) 0 0 0 0) ext)
                  \<lparr>di_exception_vector := 6\<rparr>))"

definition exception_forms :: "DecodeContext \<Rightarrow> u16 \<Rightarrow> M68kDecodeResult option" where
  "exception_forms cx word =
     (let word_class = m68k_classify_primary_word word in
      if word = 0x4AFC \<or> word_class \<noteq> Class_legal then
        Some (on_decoded (\<lambda>i. i\<lparr>di_exception_vector :=
                (if word = 0x4AFC then 4 else m68k_primary_word_exception_vector word_class)\<rparr>)
              (select_kind cx word K_instruction_exception 2))
      else if word \<ge> 0x4E40 \<and> word \<le> 0x4E4F then
        Some (on_decoded (\<lambda>i. i\<lparr>di_exception_vector := ucast (32 + (word AND 0xF))\<rparr>) (select_kind cx word K_trap 2))
      else if word = 0x4E76 then
        Some (on_decoded (\<lambda>i. i\<lparr>di_exception_vector := 7\<rparr>) (select_kind cx word K_trapv 2))
      else if word = 0x4E77 then Some (select_kind cx word K_rtr 2)
      else if word AND 0xF1C0 = 0x4180 then Some (decode_chk cx word)
      else None)"

text \<open>MOVEQ, the system control forms, RESET and TST; \<open>general\<close> is the \<open>general_startup\<close> profile.\<close>

definition system_forms :: "DecodeContext \<Rightarrow> u16 \<Rightarrow> bool \<Rightarrow> M68kDecodeResult option" where
  "system_forms cx word general =
     (if word AND 0xFF00 = 0x7000 then Some (select_kind cx word K_moveq 2)
      else if general \<and> word AND 0xF100 = 0x7000 then Some (select_kind cx word K_moveq 2)
      else if word = 0x4E75 then Some (select_kind cx word K_rts 2)
      else if general \<and> word = 0x4E73 then Some (select_kind cx word K_rte 2)
      else if general \<and> word \<ge> 0x4E68 \<and> word \<le> 0x4E6F then
        Some (on_decoded (\<lambda>i. i\<lparr>di_destination_ea := mk_ea Ea_address_register (field16 word 0 7) 0 0 0 0\<rparr>)
              (select_kind cx word K_move_usp_to_an 2))
      else if general \<and> word \<ge> 0x4E60 \<and> word \<le> 0x4E67 then
        Some (on_decoded (\<lambda>i. i\<lparr>di_source_ea := mk_ea Ea_address_register (field16 word 0 7) 0 0 0 0\<rparr>)
              (select_kind cx word K_move_an_to_usp 2))
      else if general \<and> word = 0x4E71 then Some (select_kind cx word K_nop 2)
      else if general \<and> word = 0x4E72 then
        Some (with_ea (m68k_decode_one_ea cx 0 7 4 m68k_ea_immediate Width_word) (\<lambda>imm ext.
          Decoded (m68k_finish_general_decode cx K_stop Width_word imm ea_init ext)))
      else if general \<and> word = 0x4E70 then
        (if cx_available cx < 2 then Some (truncated cx 2)
         else let result = reject_word cx Out_valid_but_unsupported_instruction 2;
                  provenance = (rj_provenance result)\<lparr>pv_length := 2\<rparr> in
           Some (Rejected (result\<lparr>rj_instruction_length := 2, rj_provenance := provenance,
                                  rj_cpu_frontier := classify_m68k_cpu_frontier provenance\<rparr>)))
      else if word AND 0xFF00 = 0x4A00 \<and> word AND 0xC0 \<noteq> 0xC0 then
        (if word = 0x4AB9 \<or> general then Some (m68k_decode_general_tst cx word) else Some (unsupported_form cx))
      else None)"

definition general_forms :: "DecodeContext \<Rightarrow> u16 \<Rightarrow> M68kDecodeResult option" where
  "general_forms cx word =
     first_claim
       [m68k_decode_general_move cx word,
        m68k_decode_general_extended_pair cx word,
        m68k_decode_general_bcd_pair cx word,
        m68k_decode_general_exg cx word,
        m68k_decode_general_compare cx word,
        m68k_decode_general_add cx word,
        m68k_decode_general_subtract cx word,
        m68k_decode_general_logical cx word,
        m68k_decode_general_clr cx word,
        m68k_decode_general_not cx word,
        m68k_decode_general_negate_word cx word,
        m68k_decode_general_negx cx word,
        m68k_decode_general_nbcd cx word,
        m68k_decode_general_tas cx word,
        m68k_decode_general_move_to_sr cx word,
        m68k_decode_general_move_from_sr cx word,
        m68k_decode_general_move_to_ccr cx word,
        m68k_decode_general_swap_ext cx word,
        m68k_decode_general_pea cx word,
        m68k_decode_general_link_unlk cx word,
        m68k_decode_general_movep cx word,
        m68k_decode_general_bit_operation cx word,
        m68k_decode_general_branch cx word,
        m68k_decode_general_bsr cx word,
        m68k_decode_general_dbcc cx word,
        m68k_decode_general_scc cx word,
        m68k_decode_general_movem cx word,
        m68k_decode_general_shift_rotate cx word,
        m68k_decode_general_shift_rotate_memory cx word,
        m68k_decode_general_lea cx word,
        m68k_decode_general_jmp cx word,
        m68k_decode_general_jsr cx word]"

definition startup_forms :: "DecodeContext \<Rightarrow> u16 \<Rightarrow> M68kDecodeProfile \<Rightarrow> M68kDecodeResult option" where
  "startup_forms cx word profile =
     (let general = (profile = Profile_general_startup) in
      first_claim
        [(if general then exception_forms cx word else None),
         system_forms cx word general,
         (if general \<or> word = 0x23C0 \<or> word = 0x2239 \<or> word = 0x4EB9 then general_forms cx word else None),
         (if profile = Profile_genesis_startup then
            Some (Rejected ((reject_word cx Out_valid_but_unsupported_instruction 2)
              \<lparr>rj_unsupported_instruction_form :=
                 word AND 0xFFC0 = 0x4E80 \<or> word AND 0xF000 = 0x2000 \<or> word AND 0xF100 = 0x7000\<rparr>))
          else None)])"

text \<open>The forms of the \<open>moveq\<close> and \<open>direct_flow\<close> profiles, tried last.\<close>

definition direct_forms :: "DecodeContext \<Rightarrow> u16 \<Rightarrow> M68kDecodeProfile \<Rightarrow> M68kDecodeResult" where
  "direct_forms cx word profile =
     (let instruction = primary_instruction cx word;
          direct = (profile = Profile_direct_flow);
          displacement = snd (cx_bytes cx)
      in if word AND 0xF100 = 0x7000 \<and> (profile = Profile_moveq \<or> di_destination instruction = 0) then
           Decoded (instruction\<lparr>di_kind := K_moveq\<rparr>)
         else if direct \<and> word = 0x5380 then
           Decoded (instruction\<lparr>di_kind := K_subq_l_1_d0, di_destination := 0, di_operand := 0\<rparr>)
         else if direct \<and> word AND 0xFF00 = 0x6600 \<and> displacement \<noteq> 0 then
           Decoded (instruction\<lparr>di_kind := K_bne_short\<rparr>)
         else if direct \<and> word AND 0xFF00 = 0x6000 \<and> displacement \<noteq> 0 then
           Decoded (instruction\<lparr>di_kind := K_bra_short\<rparr>)
         else if direct \<and> (word AND 0xFF00 = 0x6600 \<or> word AND 0xFF00 = 0x6000) then
           (if cx_available cx < 4 then truncated cx 4
            else Rejected (reject_word cx Out_valid_but_unsupported_instruction 4))
         else Rejected (reject_word cx Out_valid_but_unsupported_instruction 2))"

definition decode_m68k_instruction :: "bytes \<Rightarrow> DecodeSource \<Rightarrow> M68kDecodeProfile \<Rightarrow> M68kDecodeResult" where
  "decode_m68k_instruction img source profile =
     (let offset = unat (ds_image_offset source);
          available = (if offset > length img then 0 else length img - offset)
      in if ds_cpu_variant source \<noteq> Cpu_mc68000 then
           Rejected (reject Out_unsupported_cpu_variant source available 2 False)
         else if pa_space (ds_address source) \<noteq> m68k_program then
           Rejected (reject Out_unsupported_address_space source available 2 False)
         else if pa_value (ds_address source) AND 1 \<noteq> 0 then
           Rejected (reject Out_odd_instruction_address source available 2 False)
         else if available < 2 then
           Rejected (reject Out_truncated_instruction source available 2 False)
         else let cx = \<lparr>cx_source = source, cx_image = img, cx_offset = offset, cx_available = available,
                        cx_bytes = (img ! offset, img ! (offset + 1))\<rparr>;
                  word = read16 img offset
           in if word = 0x4AFC \<and> profile \<noteq> Profile_general_startup then
                Rejected (reject_word cx Out_illegal_instruction 2)
              else case (if profile = Profile_genesis_startup \<or> profile = Profile_general_startup
                         then startup_forms cx word profile else None) of
                     Some r \<Rightarrow> r
                   | None \<Rightarrow> direct_forms cx word profile)"

end
