(* ===== verification/M68k_Fields.thy ===== *)
theory M68k_Fields
  imports M68k_Decode
begin

text \<open>
  The fields of an MC68000 operation word in terms of its bits, and the legal effective-address
  masks as the categories of the manual. With these rewrite rules the question which decoder claims
  a word, and whether the word is legal, becomes propositional in the sixteen bits of the word.
\<close>

section \<open>Words by bits\<close>

named_theorems word_bits \<open>conditions on an operation word as propositions on its bits\<close>

lemma all_less_16:
  "(\<forall>n < 16. P n) \<longleftrightarrow>
   P 0 \<and> P 1 \<and> P 2 \<and> P 3 \<and> P 4 \<and> P 5 \<and> P 6 \<and> P 7 \<and> P 8 \<and> P 9 \<and> P 10 \<and> P 11 \<and> P 12 \<and> P 13 \<and> P 14 \<and> P (15 :: nat)"
proof -
  have "{..<16} = {0, 1, 2, 3, 4, 5, 6, 7, 8, 9, 10, 11, 12, 13, 14, 15 :: nat}" by (auto simp: less_Suc_eq numeral_eq_Suc)
  then show ?thesis by (metis (mono_tags, lifting) insert_iff lessThan_iff singletonD)
qed

lemma u16_eq_bits:
  "(v = (c :: u16)) \<longleftrightarrow>
   (bit v 0 = bit c 0) \<and> (bit v 1 = bit c 1) \<and> (bit v 2 = bit c 2) \<and> (bit v 3 = bit c 3) \<and>
   (bit v 4 = bit c 4) \<and> (bit v 5 = bit c 5) \<and> (bit v 6 = bit c 6) \<and> (bit v 7 = bit c 7) \<and>
   (bit v 8 = bit c 8) \<and> (bit v 9 = bit c 9) \<and> (bit v 10 = bit c 10) \<and> (bit v 11 = bit c 11) \<and>
   (bit v 12 = bit c 12) \<and> (bit v 13 = bit c 13) \<and> (bit v 14 = bit c 14) \<and> (bit v 15 = bit c 15)"
proof -
  have "(v = c) \<longleftrightarrow> (\<forall>n < 16. bit v n = bit c n)" by (simp add: bit_eq_iff possible_bit_word)
  then show ?thesis unfolding all_less_16 .
qed

lemmas and_eq_bits [word_bits] =
  u16_eq_bits [of "w AND numeral m" "numeral c"] u16_eq_bits [of "w AND numeral m" 0]
  u16_eq_bits [of "numeral m" "w AND numeral m"] for w m c

declare bit_and_iff [word_bits] bit_drop_bit_eq [word_bits]

text \<open>A three-bit field as a word of any width.\<close>

definition tri :: "bool \<Rightarrow> bool \<Rightarrow> bool \<Rightarrow> 'a :: len word" where
  "tri b2 b1 b0 = 4 * of_bool b2 + 2 * of_bool b1 + of_bool b0"

lemma tri_val:
  "tri False False False = 0" "tri False False True = 1" "tri False True False = 2" "tri False True True = 3"
  "tri True False False = 4" "tri True False True = 5" "tri True True False = 6" "tri True True True = 7"
  by (simp_all add: tri_def)

lemma tri_cases [case_names 0 1 2 3 4 5 6 7]:
  assumes "P (0 :: 'a :: len word)" "P 1" "P 2" "P 3" "P 4" "P 5" "P 6" "P 7"
  shows "P (tri b2 b1 b0)"
  using assms by (cases b2; cases b1; cases b0) (simp_all add: tri_val)

lemma tri_eq [word_bits]:
  "(tri a b c :: u8) = 0 \<longleftrightarrow> \<not> a \<and> \<not> b \<and> \<not> c" "(tri a b c :: u8) = 1 \<longleftrightarrow> \<not> a \<and> \<not> b \<and> c"
  "(tri a b c :: u8) = 2 \<longleftrightarrow> \<not> a \<and> b \<and> \<not> c" "(tri a b c :: u8) = 3 \<longleftrightarrow> \<not> a \<and> b \<and> c"
  "(tri a b c :: u8) = 4 \<longleftrightarrow> a \<and> \<not> b \<and> \<not> c" "(tri a b c :: u8) = 5 \<longleftrightarrow> a \<and> \<not> b \<and> c"
  "(tri a b c :: u8) = 6 \<longleftrightarrow> a \<and> b \<and> \<not> c" "(tri a b c :: u8) = 7 \<longleftrightarrow> a \<and> b \<and> c"
  "(tri a b c :: u16) = 0 \<longleftrightarrow> \<not> a \<and> \<not> b \<and> \<not> c" "(tri a b c :: u16) = 1 \<longleftrightarrow> \<not> a \<and> \<not> b \<and> c"
  "(tri a b c :: u16) = 2 \<longleftrightarrow> \<not> a \<and> b \<and> \<not> c" "(tri a b c :: u16) = 3 \<longleftrightarrow> \<not> a \<and> b \<and> c"
  "(tri a b c :: u16) = 4 \<longleftrightarrow> a \<and> \<not> b \<and> \<not> c" "(tri a b c :: u16) = 5 \<longleftrightarrow> a \<and> \<not> b \<and> c"
  "(tri a b c :: u16) = 6 \<longleftrightarrow> a \<and> b \<and> \<not> c" "(tri a b c :: u16) = 7 \<longleftrightarrow> a \<and> b \<and> c"
  by (cases a; cases b; cases c; simp add: tri_val)+

lemma tri_less [word_bits]:
  "(tri a b c :: u8) \<le> 2 \<longleftrightarrow> \<not> a \<and> \<not> (b \<and> c)" "4 \<le> (tri a b c :: u8) \<longleftrightarrow> a" "(tri a b c :: u8) \<le> 6 \<longleftrightarrow> \<not> (a \<and> b \<and> c)"
  "(tri a b c :: u8) < 4 \<longleftrightarrow> \<not> a" "6 < (tri a b c :: u8) \<longleftrightarrow> a \<and> b \<and> c" "(tri a b c :: u8) < 2 \<longleftrightarrow> \<not> a \<and> \<not> b"
  "(tri a b c :: u16) < 7 \<longleftrightarrow> \<not> (a \<and> b \<and> c)" "(tri a b c :: u16) \<le> 4 \<longleftrightarrow> \<not> (a \<and> (b \<or> c))"
  "(tri a b c :: u16) \<le> 1 \<longleftrightarrow> \<not> a \<and> \<not> b" "2 \<le> (tri a b c :: u16) \<longleftrightarrow> a \<or> b"
  "4 \<le> (tri a b c :: u16) \<longleftrightarrow> a"
  "(tri a b c :: u16) \<le> 3 \<longleftrightarrow> \<not> a" "(tri a b c :: u16) < 3 \<longleftrightarrow> \<not> a \<and> \<not> (b \<and> c)" "(tri a b c :: u16) < 2 \<longleftrightarrow> \<not> a \<and> \<not> b"
  by (cases a; cases b; cases c; simp add: tri_val word_le_nat_alt word_less_nat_alt)+

lemma bit_tri: "bit (tri b2 b1 b0 :: 'a :: len word) n \<longleftrightarrow> n < LENGTH('a) \<and> (n = 0 \<and> b0 \<or> n = 1 \<and> b1 \<or> n = 2 \<and> b2)"
proof -
  have "tri b2 b1 b0 = (push_bit 2 (of_bool b2) OR push_bit 1 (of_bool b1) OR of_bool b0 :: 'a word)"
    by (cases b2; cases b1; cases b0) (simp_all add: tri_val)
  then show ?thesis by (auto simp: bit_simps)
qed

lemma less_3_cases: "n < (3 :: nat) \<longleftrightarrow> n = 0 \<or> n = 1 \<or> n = 2"
  by auto

lemma drop_and_7 [word_bits]: "(drop_bit k (w :: u16) AND 7) = tri (bit w (k + 2)) (bit w (k + 1)) (bit w k)"
proof -
  have t: "(drop_bit k w AND 7) = take_bit 3 (drop_bit k w)" by (simp add: take_bit_eq_mask mask_eq_exp_minus_1)
  show ?thesis unfolding t
    by (rule bit_word_eqI) (auto simp: bit_tri bit_take_bit_iff bit_drop_bit_eq less_3_cases add.commute)
qed

lemma and_7 [word_bits]: "((w :: u16) AND 7) = tri (bit w 2) (bit w 1) (bit w 0)"
  using drop_and_7 [of 0 w] by (simp add: numeral_2_eq_2)

lemma drop_and_3 [word_bits]: "(drop_bit k (w :: u16) AND 3) = tri False (bit w (k + 1)) (bit w k)"
proof -
  have t: "(drop_bit k w AND 3) = take_bit 2 (drop_bit k w)" by (simp add: take_bit_eq_mask mask_eq_exp_minus_1)
  show ?thesis unfolding t
    by (rule bit_word_eqI) (auto simp: bit_tri bit_take_bit_iff bit_drop_bit_eq less_2_cases_iff add.commute)
qed

lemma ucast_tri: "(ucast (tri a b c :: u16) :: u8) = tri a b c"
  by (cases a; cases b; cases c) (simp_all add: tri_val)

lemma field16_7 [word_bits]: "field16 w k 7 = tri (bit w (k + 2)) (bit w (k + 1)) (bit w k)"
  unfolding field16_def drop_and_7 ucast_tri ..

lemma field16_3 [word_bits]: "field16 w k 3 = tri False (bit w (k + 1)) (bit w k)"
  unfolding field16_def drop_and_3 ucast_tri ..

lemma drop_and_1 [word_bits]: "(drop_bit k (w :: u16) AND 1 = 0) \<longleftrightarrow> \<not> bit w k"
  by (simp add: and_one_eq bit_iff_odd_drop_bit odd_iff_mod_2_eq_one)

text \<open>The opcode line.\<close>

definition quad :: "bool \<Rightarrow> bool \<Rightarrow> bool \<Rightarrow> bool \<Rightarrow> u16" where
  "quad b3 b2 b1 b0 = 8 * of_bool b3 + tri b2 b1 b0"

lemma quad_eq [word_bits]:
  "(quad a b c d :: u16) = 0 \<longleftrightarrow> \<not> a \<and> \<not> b \<and> \<not> c \<and> \<not> d"
  "(quad a b c d :: u16) = 1 \<longleftrightarrow> \<not> a \<and> \<not> b \<and> \<not> c \<and> d"
  "(quad a b c d :: u16) = 2 \<longleftrightarrow> \<not> a \<and> \<not> b \<and> c \<and> \<not> d"
  "(quad a b c d :: u16) = 3 \<longleftrightarrow> \<not> a \<and> \<not> b \<and> c \<and> d"
  "(quad a b c d :: u16) = 4 \<longleftrightarrow> \<not> a \<and> b \<and> \<not> c \<and> \<not> d"
  "(quad a b c d :: u16) = 5 \<longleftrightarrow> \<not> a \<and> b \<and> \<not> c \<and> d"
  "(quad a b c d :: u16) = 6 \<longleftrightarrow> \<not> a \<and> b \<and> c \<and> \<not> d"
  "(quad a b c d :: u16) = 7 \<longleftrightarrow> \<not> a \<and> b \<and> c \<and> d"
  "(quad a b c d :: u16) = 8 \<longleftrightarrow> a \<and> \<not> b \<and> \<not> c \<and> \<not> d"
  "(quad a b c d :: u16) = 9 \<longleftrightarrow> a \<and> \<not> b \<and> \<not> c \<and> d"
  "(quad a b c d :: u16) = 10 \<longleftrightarrow> a \<and> \<not> b \<and> c \<and> \<not> d"
  "(quad a b c d :: u16) = 11 \<longleftrightarrow> a \<and> \<not> b \<and> c \<and> d"
  "(quad a b c d :: u16) = 12 \<longleftrightarrow> a \<and> b \<and> \<not> c \<and> \<not> d"
  "(quad a b c d :: u16) = 13 \<longleftrightarrow> a \<and> b \<and> \<not> c \<and> d"
  "(quad a b c d :: u16) = 14 \<longleftrightarrow> a \<and> b \<and> c \<and> \<not> d"
  "(quad a b c d :: u16) = 15 \<longleftrightarrow> a \<and> b \<and> c \<and> d"
  by (cases a; cases b; cases c; cases d; simp add: quad_def tri_val)+

lemma quad_le_3 [word_bits]: "quad a b c d \<le> 3 \<longleftrightarrow> \<not> a \<and> \<not> b"
  by (cases a; cases b; cases c; cases d; simp add: quad_def tri_val word_le_nat_alt)

lemma bit_quad: "bit (quad b3 b2 b1 b0) n \<longleftrightarrow> n = 0 \<and> b0 \<or> n = 1 \<and> b1 \<or> n = 2 \<and> b2 \<or> n = 3 \<and> b3"
proof -
  have "quad b3 b2 b1 b0 = push_bit 3 (of_bool b3) OR tri b2 b1 b0"
    by (cases b3; cases b2; cases b1; cases b0) (simp_all add: quad_def tri_val)
  then show ?thesis by (auto simp: bit_simps bit_tri)
qed

lemma drop_and_15: "(drop_bit k (w :: u16) AND 15) = quad (bit w (k + 3)) (bit w (k + 2)) (bit w (k + 1)) (bit w k)"
proof -
  have n: "n < 4 \<longleftrightarrow> n = 0 \<or> n = 1 \<or> n = 2 \<or> n = (3 :: nat)" for n by auto
  have t: "(drop_bit k w AND 15) = take_bit 4 (drop_bit k w)" by (simp add: take_bit_eq_mask mask_eq_exp_minus_1)
  show ?thesis unfolding t
    by (rule bit_word_eqI) (auto simp: bit_quad bit_take_bit_iff bit_drop_bit_eq n add.commute)
qed

lemma field16_15 [word_bits]:
  "field16 w k 15 = 0 \<longleftrightarrow> \<not> bit w k \<and> \<not> bit w (k + 1) \<and> \<not> bit w (k + 2) \<and> \<not> bit w (k + 3)"
  "field16 w k 15 = 1 \<longleftrightarrow> bit w k \<and> \<not> bit w (k + 1) \<and> \<not> bit w (k + 2) \<and> \<not> bit w (k + 3)"
proof -
  have "(ucast (quad a b c d) :: u8) = 0 \<longleftrightarrow> \<not> d \<and> \<not> c \<and> \<not> b \<and> \<not> a" "(ucast (quad a b c d) :: u8) = 1 \<longleftrightarrow> d \<and> \<not> c \<and> \<not> b \<and> \<not> a"
    for a b c d by (cases a; cases b; cases c; cases d; simp add: quad_def tri_val)+
  then show "field16 w k 15 = 0 \<longleftrightarrow> \<not> bit w k \<and> \<not> bit w (k + 1) \<and> \<not> bit w (k + 2) \<and> \<not> bit w (k + 3)"
    "field16 w k 15 = 1 \<longleftrightarrow> bit w k \<and> \<not> bit w (k + 1) \<and> \<not> bit w (k + 2) \<and> \<not> bit w (k + 3)"
    unfolding field16_def drop_and_15 by blast+
qed

lemma drop_12 [word_bits]: "drop_bit 12 (w :: u16) = quad (bit w 15) (bit w 14) (bit w 13) (bit w 12)"
proof -
  have "\<not> bit w n" if "16 \<le> n" for n using that bit_imp_le_length [of w n] by auto
  then show ?thesis by (subst u16_eq_bits) (simp add: bit_quad bit_drop_bit_eq)
qed

section \<open>Permitted fields\<close>

text \<open>Whether the decoder admits a field for an instruction with a given mask.\<close>

definition field_permitted :: "u8 \<Rightarrow> u8 \<Rightarrow> M68kEaLegalMask \<Rightarrow> bool" where
  "field_permitted mode3 reg3 legal =
     (case field_mode mode3 reg3 of None \<Rightarrow> False | Some (mode, reg) \<Rightarrow> legal AND m68k_ea_bit_for mode \<noteq> 0)"

lemma ea_bit_for_val:
  "m68k_ea_bit_for Ea_data_register = 1" "m68k_ea_bit_for Ea_address_register = 2"
  "m68k_ea_bit_for Ea_address_indirect = 4" "m68k_ea_bit_for Ea_address_postinc = 8"
  "m68k_ea_bit_for Ea_address_predec = 16" "m68k_ea_bit_for Ea_address_disp16 = 32"
  "m68k_ea_bit_for Ea_absolute_word = 64" "m68k_ea_bit_for Ea_absolute_long = 128"
  "m68k_ea_bit_for Ea_pc_disp16 = 256" "m68k_ea_bit_for Ea_immediate = 512"
  "m68k_ea_bit_for Ea_address_index8 = 1024" "m68k_ea_bit_for Ea_pc_index8 = 2048"
  by (simp_all add: m68k_ea_bit_for_def m68k_mask_defs)

lemma mask_val [word_bits]:
  "m68k_ea_move_family_source = 0xFFF"
  "m68k_ea_add_sub_cmp_source = 0xFFF"
  "m68k_ea_and_or_source = 0xFFD"
  "m68k_ea_mul_div_source = 0xFFD"
  "m68k_ea_move_to_sr_source = 0xFFD"
  "m68k_ea_move_to_ccr_source = 0xFFD"
  "m68k_ea_chk_source = 0xFFD"
  "m68k_ea_bit_test_dynamic_destination = 0xFFD"
  "m68k_ea_data_alterable_with_index = 0x4FD"
  "m68k_ea_move_family_destination = 0x4FD"
  "m68k_ea_clr_not_operand = 0x4FD"
  "m68k_ea_negate_operand = 0x4FD"
  "m68k_ea_scc_tas_operand = 0x4FD"
  "m68k_ea_eor_destination = 0x4FD"
  "m68k_ea_logical_immediate_destination = 0x4FD"
  "m68k_ea_addq_subq_destination = 0x4FD"
  "m68k_ea_tst_operand = 0x4FD"
  "m68k_ea_bit_modify_destination = 0x4FD"
  "m68k_ea_move_from_sr_destination = 0x4FD"
  "m68k_ea_reverse_arithmetic_destination = 0x4FC"
  "m68k_ea_and_or_reverse_destination = 0x4FC"
  "m68k_ea_shift_memory_destination = 0x4FC"
  "m68k_ea_bit_test_destination = 0xDFD"
  "m68k_ea_movem_register_to_memory = 0x4F4"
  "m68k_ea_movem_memory_to_register = 0xDEC"
  "m68k_ea_jsr_jmp_control_modes = 0xDE4"
  "m68k_ea_lea_control_modes = 0xDE4"
  "m68k_ea_pea_control_modes = 0xDE4"
  "m68k_ea_immediate = 0x200"
  "m68k_ea_an_disp16 = 0x20"
  "m68k_ea_an = 0x2"
  "m68k_ea_add_sub_cmp_source AND NOT m68k_ea_an = 0xFFD"
  by (simp_all add: m68k_mask_defs)

lemma and_bit_for: "m AND m68k_ea_bit_for mode \<noteq> 0 \<longleftrightarrow>
  (case mode of Ea_data_register \<Rightarrow> bit m 0 | Ea_address_register \<Rightarrow> bit m 1 | Ea_address_indirect \<Rightarrow> bit m 2
   | Ea_address_postinc \<Rightarrow> bit m 3 | Ea_address_predec \<Rightarrow> bit m 4 | Ea_address_disp16 \<Rightarrow> bit m 5
   | Ea_absolute_word \<Rightarrow> bit m 6 | Ea_absolute_long \<Rightarrow> bit m 7 | Ea_pc_disp16 \<Rightarrow> bit m 8
   | Ea_immediate \<Rightarrow> bit m 9 | Ea_address_index8 \<Rightarrow> bit m 10 | Ea_pc_index8 \<Rightarrow> bit m 11 | Ea_unused \<Rightarrow> False)"
  by (cases mode) (simp_all add: m68k_ea_bit_for_def m68k_mask_defs bit_iff_and_push_bit_not_eq_0)

lemma field_permitted_tri [word_bits]:
  "field_permitted (tri a b c) (tri d e f) m \<longleftrightarrow>
     (if a then
        (if b then
           (if c then \<not> d \<and> (\<not> e \<and> \<not> f \<and> bit m 6 \<or> \<not> e \<and> f \<and> bit m 7 \<or> e \<and> \<not> f \<and> bit m 8 \<or> e \<and> f \<and> bit m 11) \<or>
                      d \<and> \<not> e \<and> \<not> f \<and> bit m 9
            else bit m 10)
         else if c then bit m 5 else bit m 4)
      else if b then (if c then bit m 3 else bit m 2)
      else if c then bit m 1 else bit m 0)"
  unfolding field_permitted_def field_mode_def tri_eq by (simp add: and_bit_for)

lemma field_permitted_const [word_bits]:
  "field_permitted 5 reg m \<longleftrightarrow> bit m 5" "field_permitted 7 4 m \<longleftrightarrow> bit m 9"
  by (simp_all add: field_permitted_def field_mode_def and_bit_for)

lemmas category_defs =
  ea_valid_def ea_data_def ea_alterable_def ea_data_alterable_def ea_memory_alterable_def ea_control_def ea_control_alterable_def

lemma permitted_category:
  "field_permitted (field16 w k 7) (field16 w j 7) m68k_ea_move_family_source \<longleftrightarrow> ea_valid (drop_bit k w AND 7) (drop_bit j w AND 7)"
  "field_permitted (field16 w k 7) (field16 w j 7) m68k_ea_data_alterable_with_index \<longleftrightarrow>
     ea_data_alterable (drop_bit k w AND 7) (drop_bit j w AND 7)"
  "field_permitted (field16 w k 7) (field16 w j 7) m68k_ea_movem_register_to_memory \<longleftrightarrow>
     drop_bit k w AND 7 = 4 \<or> ea_control_alterable (drop_bit k w AND 7) (drop_bit j w AND 7)"
  "field_permitted (field16 w k 7) (field16 w j 7) m68k_ea_movem_memory_to_register \<longleftrightarrow>
     drop_bit k w AND 7 = 3 \<or> ea_control (drop_bit k w AND 7) (drop_bit j w AND 7)"
  unfolding category_defs by (simp add: word_bits; argo?)+

lemma field_eq_drop:
  "field16 w k 7 = 1 \<longleftrightarrow> drop_bit k w AND 7 = 1" "field16 w k 7 = 0 \<longleftrightarrow> drop_bit k w AND 7 = 0"
  by (simp_all add: word_bits)


end
