(* ===== verification/M68k_Opcode_Map.thy ===== *)
theory M68k_Opcode_Map
  imports M68k_Fields
begin

text \<open>
  Completeness of the \<^verbatim>\<open>general_startup\<close> decoder: the opcode map of the base MC68000 as a reference,
  and the proof that every legal operation word is decoded as the instruction the map gives it.
\<close>

section \<open>The opcode map\<close>

text \<open>
  The instruction of a legal word, line by line; the map is written by the fields of the word, with
  no reference to the decoders or to their order.
\<close>

definition bit_kind :: "u16 \<Rightarrow> M68kInstructionKind" where
  "bit_kind sz = (if sz = 0 then K_btst else if sz = 1 then K_bchg else if sz = 2 then K_bclr else K_bset)"

definition line0_kind :: "u16 \<Rightarrow> M68kInstructionKind" where
  "line0_kind w =
     (let mode = drop_bit 3 w AND 7; reg = w AND 7; op = drop_bit 9 w AND 7; sz = drop_bit 6 w AND 3;
          status = (\<lambda>k. if mode = 7 \<and> reg = 4 then (if sz = 0 then K_logical_immediate_to_ccr else K_logical_immediate_to_sr)
                        else k) in
      if bit w 8 then (if mode = 1 then K_movep else bit_kind sz)
      else if op = 0 then status K_ori
      else if op = 1 then status K_andi
      else if op = 2 then K_subi
      else if op = 3 then K_addi
      else if op = 4 then bit_kind sz
      else if op = 5 then status K_eori
      else K_cmpi)"

definition line4_misc_kind :: "u16 \<Rightarrow> M68kInstructionKind" where
  "line4_misc_kind w =
     (let mode = drop_bit 3 w AND 7; reg = w AND 7 in
      if mode = 0 \<or> mode = 1 then K_trap
      else if mode = 2 then K_link
      else if mode = 3 then K_unlk
      else if mode = 4 then K_move_an_to_usp
      else if mode = 5 then K_move_usp_to_an
      else if reg = 1 then K_nop
      else if reg = 2 then K_stop
      else if reg = 3 then K_rte
      else if reg = 5 then K_rts
      else if reg = 6 then K_trapv
      else K_rtr)"

definition line4_kind :: "u16 \<Rightarrow> M68kInstructionKind" where
  "line4_kind w =
     (let mode = drop_bit 3 w AND 7; op = drop_bit 9 w AND 7; sz = drop_bit 6 w AND 3 in
      if bit w 8 then (if sz = 3 then K_lea else K_chk)
      else if op = 0 then (if sz = 3 then K_move_from_sr else K_negate_extended)
      else if op = 1 then K_clr
      else if op = 2 then (if sz = 3 then K_move_to_ccr else K_negate_word)
      else if op = 3 then (if sz = 3 then K_move_to_sr else K_not_operand)
      else if op = 4 then
        (if sz = 0 then K_negate_decimal
         else if sz = 1 then (if mode = 0 then K_swap else K_pea)
         else if mode = 0 then (if sz = 2 then K_ext_w else K_ext_l) else K_movem)
      else if op = 5 then
        (if sz = 3 then (if w = 0x4AFC then K_instruction_exception else K_test_and_set) else K_tst)
      else if op = 6 then K_movem
      else if sz = 1 then line4_misc_kind w
      else if sz = 2 then K_jsr else K_jmp)"

definition line5_kind :: "u16 \<Rightarrow> M68kInstructionKind" where
  "line5_kind w =
     (if drop_bit 6 w AND 3 = 3 then (if drop_bit 3 w AND 7 = 1 then K_dbcc else K_set_conditional)
      else if bit w 8 then K_subq else K_addq)"

text \<open>The register lines: \<open>plain\<close> and \<open>extended\<close> are the two-operand form and the form on register pairs.\<close>

definition or_and_kind :: "u16 \<Rightarrow> bool \<Rightarrow> M68kInstructionKind" where
  "or_and_kind w and_line =
     (let opmode = drop_bit 6 w AND 7; mode = drop_bit 3 w AND 7 in
      if opmode = 3 then (if and_line then K_multiply_unsigned_word else K_divide_unsigned_word)
      else if opmode = 7 then (if and_line then K_multiply_signed_word else K_divide_signed_word)
      else if 4 \<le> opmode \<and> mode \<le> 1 then
        (if opmode = 4 then (if and_line then K_add_decimal else K_subtract_decimal) else K_exchange_registers)
      else if and_line then K_logical_and else K_logical_or)"

definition add_sub_kind :: "u16 \<Rightarrow> M68kInstructionKind \<Rightarrow> M68kInstructionKind \<Rightarrow> M68kInstructionKind \<Rightarrow> M68kInstructionKind" where
  "add_sub_kind w plain addr extended =
     (let opmode = drop_bit 6 w AND 7 in
      if opmode = 3 \<or> opmode = 7 then addr
      else if 4 \<le> opmode \<and> drop_bit 3 w AND 7 \<le> 1 then extended else plain)"

definition line_b_kind :: "u16 \<Rightarrow> M68kInstructionKind" where
  "line_b_kind w =
     (let opmode = drop_bit 6 w AND 7 in
      if opmode = 3 \<or> opmode = 7 then K_cmpa
      else if opmode < 3 then K_cmp
      else if drop_bit 3 w AND 7 = 1 then K_compare_memory else K_eor)"

definition opcode_kind :: "u16 \<Rightarrow> M68kInstructionKind" where
  "opcode_kind w =
     (let line = drop_bit 12 w in
      if line = 0 then line0_kind w
      else if line \<le> 3 then (if drop_bit 6 w AND 7 = 1 then K_movea else K_move)
      else if line = 4 then line4_kind w
      else if line = 5 then line5_kind w
      else if line = 6 then (if w AND 0x0F00 = 0x0100 then K_bsr else K_branch)
      else if line = 7 then K_moveq
      else if line = 8 then or_and_kind w False
      else if line = 9 then add_sub_kind w K_sub K_suba K_subtract_extended
      else if line = 11 then line_b_kind w
      else if line = 12 then or_and_kind w True
      else if line = 13 then add_sub_kind w K_add K_adda K_add_extended
      else K_shift_rotate)"

section \<open>Decoding as the map says\<close>

text \<open>An indexed operand whose extension word asks for a scale or the full format.\<close>

definition indexed_field :: "u8 \<Rightarrow> u8 \<Rightarrow> bool" where
  "indexed_field mode3 reg3 \<longleftrightarrow> mode3 = 6 \<or> mode3 = 7 \<and> reg3 = 3"

definition has_indexed :: "u16 \<Rightarrow> bool" where
  "has_indexed w \<longleftrightarrow> indexed_field (field16 w 3 7) (field16 w 0 7) \<or>
     w AND 0xC000 = 0 \<and> w AND 0x3000 \<noteq> 0 \<and> indexed_field (field16 w 6 7) (field16 w 9 7)"

definition reserved_index_word :: "DecodeContext \<Rightarrow> u16 \<Rightarrow> bool" where
  "reserved_index_word cx w \<longleftrightarrow> has_indexed w \<and>
     (\<exists>c \<in> {0, 2, 4}. read16 (cx_image cx) (cx_offset cx + 2 + c) AND 0x0700 \<noteq> 0)"

definition good :: "DecodeContext \<Rightarrow> u16 \<Rightarrow> M68kInstructionKind \<Rightarrow> M68kDecodeResult \<Rightarrow> bool" where
  "good cx w kind r \<longleftrightarrow>
     (\<exists>i. r = Decoded i \<and> di_kind i = kind) \<or> r = unsupported_form cx \<and> reserved_index_word cx w"

definition claim_good :: "DecodeContext \<Rightarrow> u16 \<Rightarrow> M68kDecodeResult option \<Rightarrow> bool" where
  "claim_good cx w c \<longleftrightarrow>
     (\<forall>r. c = Some r \<longrightarrow> m68k_classify_primary_word w = Class_legal \<longrightarrow> good cx w (opcode_kind w) r)"

named_theorems m68k_good \<open>steps of the proof that a claimed word is decoded as the map says\<close>

lemma finish_good [m68k_good]: "kind = kd \<Longrightarrow> good cx w kd (Decoded (m68k_finish_general_decode cx kind sz s d ext))"
  by (simp add: good_def m68k_finish_general_decode_def Let_def)

lemma update_good [m68k_good]:
  "good cx w kd (Decoded i) \<Longrightarrow> good cx w kd (Decoded (i\<lparr>di_condition := x1\<rparr>))"
  "good cx w kd (Decoded i) \<Longrightarrow> good cx w kd (Decoded (i\<lparr>di_status_operation := x2\<rparr>))"
  "good cx w kd (Decoded i) \<Longrightarrow> good cx w kd (Decoded (i\<lparr>di_shift_rotate_kind := x3\<rparr>))"
  "good cx w kd (Decoded i) \<Longrightarrow> good cx w kd (Decoded (i\<lparr>di_exception_vector := x4\<rparr>))"
  "good cx w kd (Decoded i) \<Longrightarrow> good cx w kd (Decoded (i\<lparr>di_movem_direction := x5\<rparr>))"
  "good cx w kd (Decoded i) \<Longrightarrow> good cx w kd (Decoded (i\<lparr>di_movem_register_mask := x6\<rparr>))"
  "good cx w kd (Decoded i) \<Longrightarrow> good cx w kd (Decoded (i\<lparr>di_source_ea := x7\<rparr>))"
  by (auto simp: good_def unsupported_form_def)

lemma ea_operand_None:
  "ea_operand mode sz img at base ea = None \<Longrightarrow>
   (mode = Ea_address_index8 \<or> mode = Ea_pc_index8) \<and> read16 img at AND 0x0700 \<noteq> 0"
  by (auto simp: ea_operand_def brief_index_def Let_def split: M68kEaMode.splits if_splits)

lemma field_mode_index:
  "field_mode mode3 reg3 = Some (Ea_address_index8, r) \<or> field_mode mode3 reg3 = Some (Ea_pc_index8, r) \<Longrightarrow>
   indexed_field mode3 reg3"
  by (auto simp: field_mode_def indexed_field_def split: if_splits)

lemma field_mode_an: "field_mode mode3 reg3 = Some (Ea_address_register, r) \<Longrightarrow> mode3 = 1"
  by (auto simp: field_mode_def split: if_splits)

lemma ea_operand_mode: "ea_operand mode sz img at base ea = Some ea' \<Longrightarrow> ea_mode ea' = ea_mode ea"
  by (auto simp: ea_operand_def brief_index_def Let_def split: M68kEaMode.splits if_splits)

lemma ea_extension_bytes_in: "ea_extension_bytes mode sz \<in> {0, 2, 4}"
  by (simp add: ea_extension_bytes_def split: M68kEaMode.split)

lemma with_ea_good [m68k_good]:
  assumes "field_permitted mode3 reg3 legal" "indexed_field mode3 reg3 \<Longrightarrow> has_indexed w"
    "c \<in> {0, 2, 4}" "10 \<le> cx_available cx"
    and k: "\<And>ea e. e \<in> {0, 2, 4} \<Longrightarrow> (ea_mode ea = Ea_address_register \<Longrightarrow> mode3 = 1) \<Longrightarrow> good cx w kd (k ea e)"
  shows "good cx w kd (with_ea (m68k_decode_one_ea cx c mode3 reg3 legal sz) k)"
proof -
  obtain mode reg where f: "field_mode mode3 reg3 = Some (mode, reg)" "legal AND m68k_ea_bit_for mode \<noteq> 0"
    using assms(1) by (auto simp: field_permitted_def split: option.splits)
  let ?e = "ea_extension_bytes mode sz"
  have e: "?e \<in> {0, 2, 4}" by (rule ea_extension_bytes_in)
  have a: "\<not> (if cx_available cx > 2 + c then cx_available cx - (2 + c) else 0) < ?e"
    using assms(3,4) e by auto
  show ?thesis
  proof (cases "ea_operand mode sz (cx_image cx) (cx_offset cx + 2 + c) (pa_value (ds_address (cx_source cx)) + 2 + of_nat c)
       (ea_init\<lparr>ea_mode := mode, ea_reg := reg, ea_extension_words := of_nat (?e div 2)\<rparr>)")
    case None
    with ea_operand_None [OF None] have "m68k_decode_one_ea cx c mode3 reg3 legal sz = Field_failure (unsupported_form cx)"
      using f a unfolding m68k_decode_one_ea_def m68k_parse_ea_field_def parse_result_init_def Let_def by simp
    moreover have "reserved_index_word cx w"
      using ea_operand_None [OF None] assms(2,3) f(1) field_mode_index [of mode3 reg3 reg]
      unfolding reserved_index_word_def by blast
    ultimately show ?thesis by (simp add: with_ea_def good_def)
  next
    case (Some ea)
    then have "m68k_decode_one_ea cx c mode3 reg3 legal sz = Field_ok ea ?e"
      using f a unfolding m68k_decode_one_ea_def m68k_parse_ea_field_def parse_result_init_def Let_def by simp
    moreover have "good cx w kd (k ea ?e)"
      by (rule k [OF e]) (use ea_operand_mode [OF Some] f(1) field_mode_an in simp)
    ultimately show ?thesis by (simp add: with_ea_def)
  qed
qed

section \<open>The decoders one by one\<close>

lemma claim_good_if [m68k_good]:
  "(b \<Longrightarrow> claim_good cx w x) \<Longrightarrow> (\<not> b \<Longrightarrow> claim_good cx w y) \<Longrightarrow> claim_good cx w (if b then x else y)"
  by simp

lemma claim_good_None [m68k_good]: "claim_good cx w None"
  by (simp add: claim_good_def)

lemma claim_good_Some [m68k_good]:
  "(m68k_classify_primary_word w = Class_legal \<Longrightarrow> good cx w (opcode_kind w) r) \<Longrightarrow> claim_good cx w (Some r)"
  by (simp add: claim_good_def)

lemma claim_good_case [m68k_good]:
  "(\<And>x. m = Some x \<Longrightarrow> claim_good cx w (f x)) \<Longrightarrow> claim_good cx w (case m of None \<Rightarrow> None | Some x \<Rightarrow> f x)"
  by (cases m) (simp_all add: claim_good_None)

lemma good_if [m68k_good]:
  "(b \<Longrightarrow> good cx w kd x) \<Longrightarrow> (\<not> b \<Longrightarrow> good cx w kd y) \<Longrightarrow> good cx w kd (if b then x else y)"
  by simp

lemma verdict_legal: "((if b then Class_legal else Class_illegal) = Class_legal) \<longleftrightarrow> b"
  by simp

lemmas word_simps = word_bits verdict_legal numeral_2_eq_2 [symmetric] indexed_field_def has_indexed_def

lemmas legal_defs =
  m68k_classify_primary_word_def line0_legal_def move_legal_def line4_legal_def line5_legal_def or_and_legal_def
  add_sub_legal_def line_b_legal_def line_e_legal_def category_defs Let_def

lemmas kind_defs =
  opcode_kind_def line0_kind_def bit_kind_def line4_kind_def line4_misc_kind_def line5_kind_def or_and_kind_def
  add_sub_kind_def line_b_kind_def Let_def



lemma move_sizeE:
  assumes "m68k_size_from_move_field ss = Some sz"
  obtains "ss = 1" "sz = Width_byte" | "ss = 3" "sz = Width_word" | "ss = 2" "sz = Width_long_word"
  using assms by (auto simp: m68k_size_from_move_field_def split: if_splits)

lemma move_bits:
  assumes "w AND 0xC000 = 0" "m68k_size_from_move_field (field16 w 12 3) = Some sz"
  shows "\<not> bit w 14" "\<not> bit w 15" "bit w 12 \<or> bit w 13" "sz = Width_byte \<longleftrightarrow> bit w 12 \<and> \<not> bit w 13"
proof -
  show "\<not> bit w 14" "\<not> bit w 15" using assms(1) by (simp_all add: word_bits)
  from assms(2) show "bit w 12 \<or> bit w 13" by (elim move_sizeE) (simp_all add: word_bits)
  from assms(2) show "sz = Width_byte \<longleftrightarrow> bit w 12 \<and> \<not> bit w 13" by (elim move_sizeE) (simp_all add: word_bits)
qed

lemma move_class:
  assumes "w AND 0xC000 = 0" "m68k_size_from_move_field (field16 w 12 3) = Some sz"
  shows "m68k_classify_primary_word w = Class_legal \<longleftrightarrow> move_legal w (drop_bit 3 w AND 7) (w AND 7)"
    and "opcode_kind w = (if field16 w 6 7 = 1 then K_movea else K_move)"
    and "drop_bit 12 w = 1 \<longleftrightarrow> sz = Width_byte"
    and "w AND 0x3000 \<noteq> 0"
proof -
  note B = move_bits [OF assms]
  have line: "drop_bit 12 w = quad False False (bit w 13) (bit w 12)" using B by (simp add: drop_12)
  show "m68k_classify_primary_word w = Class_legal \<longleftrightarrow> move_legal w (drop_bit 3 w AND 7) (w AND 7)"
    using B(3) unfolding m68k_classify_primary_word_def Let_def line by (auto simp: quad_eq)
  show "opcode_kind w = (if field16 w 6 7 = 1 then K_movea else K_move)"
    using B(3) unfolding opcode_kind_def Let_def line field_eq_drop by (auto simp: quad_eq quad_le_3)
  show "drop_bit 12 w = 1 \<longleftrightarrow> sz = Width_byte" using B(4) unfolding line by (auto simp: quad_eq)
  show "w AND 0x3000 \<noteq> 0" using B(3) by (auto simp: word_bits)
qed

lemma move_good:
  assumes "10 \<le> cx_available cx" shows "claim_good cx w (m68k_decode_general_move cx w)"
proof (cases "w AND 0xC000 = 0 \<and> m68k_size_from_move_field (field16 w 12 3) \<noteq> None \<and> m68k_classify_primary_word w = Class_legal")
  case False
  then show ?thesis by (auto simp: m68k_decode_general_move_def claim_good_def split: if_splits option.splits)
next
  case True
  then obtain sz where sz: "m68k_size_from_move_field (field16 w 12 3) = Some sz" and c: "w AND 0xC000 = 0" by auto
  note M = move_class [OF c sz]
  have l: "move_legal w (drop_bit 3 w AND 7) (w AND 7)" using True M(1) by simp
  have src: "field_permitted (field16 w 3 7) (field16 w 0 7) m68k_ea_move_family_source"
    using l permitted_category(1) [of w 3 0] by (simp add: move_legal_def Let_def split: if_splits)
  have an: "\<not> (sz = Width_byte \<and> field16 w 3 7 = 1)"
    using l M(3) by (auto simp: move_legal_def Let_def field_eq_drop split: if_splits)
  have dst: "field_permitted (field16 w 6 7) (field16 w 9 7) m68k_ea_move_family_destination"
    if "\<not> (field16 w 6 7 = 1 \<and> sz \<noteq> Width_byte)"
    using that l M(3) permitted_category(2) [of w 6 9]
    by (auto simp: move_legal_def Let_def field_eq_drop m68k_ea_move_family_destination_def split: if_splits)
  have byte: "field16 w 6 7 \<noteq> 1" if "sz = Width_byte"
    using that l M(3) by (auto simp: move_legal_def Let_def field_eq_drop split: if_splits)
  have idx: "indexed_field (field16 w 3 7) (field16 w 0 7) \<Longrightarrow> has_indexed w"
    "indexed_field (field16 w 6 7) (field16 w 9 7) \<Longrightarrow> has_indexed w"
    using c M(4) by (auto simp: has_indexed_def)
  show ?thesis
    unfolding m68k_decode_general_move_def Let_def
    using c sz assms
    by (simp; intro conjI impI m68k_good; (use src dst an byte idx M(2) in auto)?)
qed

lemma move_to_sr_good: "10 \<le> cx_available cx \<Longrightarrow> claim_good cx w (m68k_decode_general_move_to_sr cx w)"
  unfolding m68k_decode_general_move_to_sr_def Let_def
  by (intro m68k_good; simp add: word_simps legal_defs kind_defs;
    (auto simp: word_simps legal_defs kind_defs split: if_splits)?)

lemma move_from_sr_good: "10 \<le> cx_available cx \<Longrightarrow> claim_good cx w (m68k_decode_general_move_from_sr cx w)"
  unfolding m68k_decode_general_move_from_sr_def Let_def
  by (intro m68k_good; simp add: word_simps legal_defs kind_defs;
    (auto simp: word_simps legal_defs kind_defs split: if_splits)?)

lemma move_to_ccr_good: "10 \<le> cx_available cx \<Longrightarrow> claim_good cx w (m68k_decode_general_move_to_ccr cx w)"
  unfolding m68k_decode_general_move_to_ccr_def Let_def
  by (intro m68k_good; simp add: word_simps legal_defs kind_defs;
    (auto simp: word_simps legal_defs kind_defs split: if_splits)?)

lemma clr_good: "10 \<le> cx_available cx \<Longrightarrow> claim_good cx w (m68k_decode_general_clr cx w)"
  unfolding m68k_decode_general_clr_def Let_def
  by (intro m68k_good; simp add: word_simps legal_defs kind_defs;
    (auto simp: word_simps legal_defs kind_defs split: if_splits)?)

lemma not_good: "10 \<le> cx_available cx \<Longrightarrow> claim_good cx w (m68k_decode_general_not cx w)"
  unfolding m68k_decode_general_not_def Let_def
  by (intro m68k_good; simp add: word_simps legal_defs kind_defs;
    (auto simp: word_simps legal_defs kind_defs split: if_splits)?)

lemma negate_word_good: "10 \<le> cx_available cx \<Longrightarrow> claim_good cx w (m68k_decode_general_negate_word cx w)"
  unfolding m68k_decode_general_negate_word_def Let_def
  by (intro m68k_good; simp add: word_simps legal_defs kind_defs;
    (auto simp: word_simps legal_defs kind_defs split: if_splits)?)

lemma negx_good: "10 \<le> cx_available cx \<Longrightarrow> claim_good cx w (m68k_decode_general_negx cx w)"
  unfolding m68k_decode_general_negx_def Let_def
  by (intro m68k_good; simp add: word_simps legal_defs kind_defs;
    (auto simp: word_simps legal_defs kind_defs split: if_splits)?)

lemma nbcd_good: "10 \<le> cx_available cx \<Longrightarrow> claim_good cx w (m68k_decode_general_nbcd cx w)"
  unfolding m68k_decode_general_nbcd_def Let_def
  by (intro m68k_good; simp add: word_simps legal_defs kind_defs;
    (auto simp: word_simps legal_defs kind_defs split: if_splits)?)

lemma bcd_pair_good: "10 \<le> cx_available cx \<Longrightarrow> claim_good cx w (m68k_decode_general_bcd_pair cx w)"
  unfolding m68k_decode_general_bcd_pair_def Let_def
  by (intro m68k_good; (simp only: de_Morgan_conj not_not)?; (elim disjE)?; simp add: word_simps legal_defs kind_defs;
    (auto simp: word_simps legal_defs kind_defs split: if_splits)?)

lemma tas_good: "10 \<le> cx_available cx \<Longrightarrow> w \<noteq> 0x4AFC \<Longrightarrow> claim_good cx w (m68k_decode_general_tas cx w)"
  unfolding m68k_decode_general_tas_def Let_def
  by (intro m68k_good; simp add: word_simps legal_defs kind_defs;
    (auto simp: word_simps legal_defs kind_defs split: if_splits)?)

lemma exg_good: "10 \<le> cx_available cx \<Longrightarrow> claim_good cx w (m68k_decode_general_exg cx w)"
  unfolding m68k_decode_general_exg_def Let_def
  by (intro m68k_good; (simp only: de_Morgan_conj not_not)?; (elim disjE)?; simp add: word_simps legal_defs kind_defs;
    (auto simp: word_simps legal_defs kind_defs split: if_splits)?)

lemma movep_good: "10 \<le> cx_available cx \<Longrightarrow> claim_good cx w (m68k_decode_general_movep cx w)"
  unfolding m68k_decode_general_movep_def Let_def
  by (intro m68k_good; simp add: word_simps legal_defs kind_defs;
    (auto simp: word_simps legal_defs kind_defs split: if_splits)?)

lemma scc_good: "10 \<le> cx_available cx \<Longrightarrow> claim_good cx w (m68k_decode_general_scc cx w)"
  unfolding m68k_decode_general_scc_def Let_def
  by (intro m68k_good; simp add: word_simps legal_defs kind_defs;
    (auto simp: word_simps legal_defs kind_defs split: if_splits)?)

lemma extended_pair_good: "10 \<le> cx_available cx \<Longrightarrow> claim_good cx w (m68k_decode_general_extended_pair cx w)"
  unfolding m68k_decode_general_extended_pair_def Let_def
  by (intro m68k_good; (elim disjE)?; simp add: word_simps legal_defs kind_defs;
    (auto simp: word_simps legal_defs kind_defs split: if_splits)?)

lemma compare_good: "10 \<le> cx_available cx \<Longrightarrow> claim_good cx w (m68k_decode_general_compare cx w)"
  unfolding m68k_decode_general_compare_def Let_def
  by (intro m68k_good; simp add: word_simps legal_defs kind_defs m68k_size_from_tst_clr_field_def;
    (auto simp: word_simps legal_defs kind_defs m68k_size_from_tst_clr_field_def split: if_splits)?)

lemma subtract_good: "10 \<le> cx_available cx \<Longrightarrow> w AND 0xF130 \<noteq> 0x9100 \<or> w AND 0xC0 = 0xC0 \<Longrightarrow> claim_good cx w (m68k_decode_general_subtract cx w)"
  unfolding m68k_decode_general_subtract_def Let_def
  by (intro m68k_good; simp add: word_simps legal_defs kind_defs m68k_size_from_tst_clr_field_def;
    (auto simp: word_simps legal_defs kind_defs m68k_size_from_tst_clr_field_def split: if_splits)?)

lemma add_good: "10 \<le> cx_available cx \<Longrightarrow> w AND 0xF130 \<noteq> 0xD100 \<or> w AND 0xC0 = 0xC0 \<Longrightarrow> claim_good cx w (m68k_decode_general_add cx w)"
  unfolding m68k_decode_general_add_def Let_def
  by (intro m68k_good; simp add: word_simps legal_defs kind_defs m68k_size_from_tst_clr_field_def;
    (auto simp: word_simps legal_defs kind_defs m68k_size_from_tst_clr_field_def split: if_splits)?)

lemma swap_ext_good: "10 \<le> cx_available cx \<Longrightarrow> claim_good cx w (m68k_decode_general_swap_ext cx w)"
  unfolding m68k_decode_general_swap_ext_def Let_def
  by (intro m68k_good; simp add: word_simps legal_defs kind_defs;
    (auto simp: word_simps legal_defs kind_defs split: if_splits)?)

lemma pea_good: "10 \<le> cx_available cx \<Longrightarrow> w AND 0xFFF8 \<noteq> 0x4840 \<Longrightarrow> claim_good cx w (m68k_decode_general_pea cx w)"
  unfolding m68k_decode_general_pea_def Let_def
  by (intro m68k_good; simp add: word_simps legal_defs kind_defs;
    (auto simp: word_simps legal_defs kind_defs split: if_splits)?)

lemma lea_good: "10 \<le> cx_available cx \<Longrightarrow> claim_good cx w (m68k_decode_general_lea cx w)"
  unfolding m68k_decode_general_lea_def Let_def
  by (intro m68k_good; simp add: word_simps legal_defs kind_defs;
    (auto simp: word_simps legal_defs kind_defs split: if_splits)?)

lemma jmp_good: "10 \<le> cx_available cx \<Longrightarrow> claim_good cx w (m68k_decode_general_jmp cx w)"
  unfolding m68k_decode_general_jmp_def Let_def
  by (intro m68k_good; simp add: word_simps legal_defs kind_defs;
    (auto simp: word_simps legal_defs kind_defs split: if_splits)?)

lemma jsr_good: "10 \<le> cx_available cx \<Longrightarrow> claim_good cx w (m68k_decode_general_jsr cx w)"
  unfolding m68k_decode_general_jsr_def Let_def
  by (intro m68k_good; simp add: word_simps legal_defs kind_defs;
    (auto simp: word_simps legal_defs kind_defs split: if_splits)?)

lemma link_unlk_good: "10 \<le> cx_available cx \<Longrightarrow> claim_good cx w (m68k_decode_general_link_unlk cx w)"
  unfolding m68k_decode_general_link_unlk_def Let_def
  by (intro m68k_good; simp add: word_simps legal_defs kind_defs;
    (auto simp: word_simps legal_defs kind_defs split: if_splits)?)

lemma branch_good: "10 \<le> cx_available cx \<Longrightarrow> claim_good cx w (m68k_decode_general_branch cx w)"
  unfolding m68k_decode_general_branch_def Let_def
  by (intro m68k_good; simp add: word_simps legal_defs kind_defs;
    (auto simp: word_simps legal_defs kind_defs split: if_splits)?)

lemma bsr_good: "10 \<le> cx_available cx \<Longrightarrow> claim_good cx w (m68k_decode_general_bsr cx w)"
  unfolding m68k_decode_general_bsr_def Let_def
  by (intro m68k_good; simp add: word_simps legal_defs kind_defs;
    (auto simp: word_simps legal_defs kind_defs split: if_splits)?)

lemma dbcc_good: "10 \<le> cx_available cx \<Longrightarrow> claim_good cx w (m68k_decode_general_dbcc cx w)"
  unfolding m68k_decode_general_dbcc_def Let_def
  by (intro m68k_good; simp add: word_simps legal_defs kind_defs;
    (auto simp: word_simps legal_defs kind_defs split: if_splits)?)

lemma movem_class:
  assumes "w AND 0xFB80 = 0x4880" "w AND 0xFFF8 \<noteq> 0x4880" "w AND 0xFFF8 \<noteq> 0x48C0" "m68k_classify_primary_word w = Class_legal"
  shows "opcode_kind w = K_movem"
    and "drop_bit 10 w AND 1 = 0 \<Longrightarrow> drop_bit 3 w AND 7 = 4 \<or> ea_control_alterable (drop_bit 3 w AND 7) (drop_bit 0 w AND 7)"
    and "drop_bit 10 w AND 1 \<noteq> 0 \<Longrightarrow> drop_bit 3 w AND 7 = 3 \<or> ea_control (drop_bit 3 w AND 7) (drop_bit 0 w AND 7)"
  using assms
  by (simp_all add: word_simps m68k_classify_primary_word_def opcode_kind_def line4_kind_def line4_legal_def Let_def
      split: if_splits)

lemma movem_good:
  assumes "10 \<le> cx_available cx" "w AND 0xFFF8 \<noteq> 0x4880" "w AND 0xFFF8 \<noteq> 0x48C0"
  shows "claim_good cx w (m68k_decode_general_movem cx w)"
proof (cases "w AND 0xFB80 = 0x4880 \<and> m68k_classify_primary_word w = Class_legal")
  case False
  then show ?thesis by (auto simp: m68k_decode_general_movem_def claim_good_def Let_def split: if_splits)
next
  case True
  then have c: "w AND 0xFB80 = 0x4880" by simp
  note M = movem_class [OF c assms(2,3) conjunct2 [OF True]]
  have idx: "indexed_field (field16 w 3 7) (field16 w 0 7) \<Longrightarrow> has_indexed w" by (simp add: has_indexed_def)
  have p: "field_permitted (field16 w 3 7) (field16 w 0 7)
      (if drop_bit 10 w AND 1 \<noteq> 0 then m68k_ea_movem_memory_to_register else m68k_ea_movem_register_to_memory)"
    using M(2,3) unfolding if_split permitted_category by blast
  show ?thesis
    unfolding m68k_decode_general_movem_def Let_def
    using c assms(1) p
    by (simp; intro conjI impI m68k_good; (use idx M(1) in \<open>simp; (intro conjI impI m68k_good)?\<close>)?)
qed

lemma shift_rotate_good: "10 \<le> cx_available cx \<Longrightarrow> claim_good cx w (m68k_decode_general_shift_rotate cx w)"
  unfolding m68k_decode_general_shift_rotate_def Let_def
  by (intro m68k_good; simp add: word_simps legal_defs kind_defs shift_rotate_kind_def;
    (auto simp: word_simps legal_defs kind_defs shift_rotate_kind_def split: if_splits)?)

lemma shift_rotate_memory_good: "10 \<le> cx_available cx \<Longrightarrow> claim_good cx w (m68k_decode_general_shift_rotate_memory cx w)"
  unfolding m68k_decode_general_shift_rotate_memory_def Let_def
  by (intro m68k_good; simp add: word_simps legal_defs kind_defs shift_rotate_kind_def;
    (auto simp: word_simps legal_defs kind_defs shift_rotate_kind_def split: if_splits)?)


lemma bit_finish_good [m68k_good]:
  assumes "c \<in> {0, 2, 4}" "10 \<le> cx_available cx" "kind = kd"
    "field_permitted (field16 w 3 7) (field16 w 0 7)
       (if kind \<noteq> K_btst then m68k_ea_bit_modify_destination
        else if ea_mode b = Ea_data_register then m68k_ea_bit_test_dynamic_destination else m68k_ea_bit_test_destination)"
  shows "good cx w kd (bit_finish cx w kind b c)"
  using assms unfolding bit_finish_def Let_def
  by (intro m68k_good) (auto simp: has_indexed_def)

lemma tst_good:
  "10 \<le> cx_available cx \<Longrightarrow> w AND 0xFF00 = 0x4A00 \<Longrightarrow> w AND 0xC0 \<noteq> 0xC0 \<Longrightarrow> m68k_classify_primary_word w = Class_legal \<Longrightarrow>
   good cx w (opcode_kind w) (m68k_decode_general_tst cx w)"
  unfolding m68k_decode_general_tst_def Let_def
  by (intro m68k_good; simp add: word_simps legal_defs kind_defs;
    (auto simp: word_simps legal_defs kind_defs split: if_splits)?)

lemma status_logical_good: "10 \<le> cx_available cx \<Longrightarrow> claim_good cx w (status_logical cx w)"
  unfolding status_logical_def Let_def
  by (intro m68k_good; (elim disjE)?; simp add: word_simps legal_defs kind_defs; (auto simp: kind_defs word_simps)?)

lemma status_word:
  assumes "drop_bit 3 w AND 7 = 7" "(w :: u16) AND 7 = 4"
  shows "w AND 0xFF00 = 0x0200 \<Longrightarrow> drop_bit 6 w AND 3 = 0 \<Longrightarrow> w = 0x023C" "w AND 0xFF00 = 0x0200 \<Longrightarrow> drop_bit 6 w AND 3 = 1 \<Longrightarrow> w = 0x027C"
    "w AND 0xFF00 = 0x0000 \<Longrightarrow> drop_bit 6 w AND 3 = 0 \<Longrightarrow> w = 0x003C" "w AND 0xFF00 = 0x0000 \<Longrightarrow> drop_bit 6 w AND 3 = 1 \<Longrightarrow> w = 0x007C"
    "w AND 0xFF00 = 0x0A00 \<Longrightarrow> drop_bit 6 w AND 3 = 0 \<Longrightarrow> w = 0x0A3C" "w AND 0xFF00 = 0x0A00 \<Longrightarrow> drop_bit 6 w AND 3 = 1 \<Longrightarrow> w = 0x0A7C"
  using assms by (simp_all add: word_bits u16_eq_bits [of w] numeral_2_eq_2 [symmetric])

lemma line0_immediate:
  assumes "w AND 0xC0 \<noteq> 0xC0" "m68k_classify_primary_word w = Class_legal" "status_logical cx w = None"
    and "w AND 0xFF00 = 0x0200 \<or> w AND 0xFF00 = 0 \<or> w AND 0xFF00 = 0x0A00"
  shows "ea_data_alterable (drop_bit 3 w AND 7) (w AND 7)" (is ?da)
    and "opcode_kind w = (if w AND 0xFF00 = 0x0200 then K_andi else if w AND 0xFF00 = 0 then K_ori else K_eori)"
proof -
  let ?op = "drop_bit 9 w AND 7" and ?sz = "drop_bit 6 w AND 3" and ?st = "drop_bit 3 w AND 7 = 7 \<and> w AND 7 = 4"
  have 1: "drop_bit 12 w = 0" "w AND 0x0100 = 0" "\<not> bit w 8" "?sz \<noteq> 3"
    using assms(1,4) by (auto simp: word_bits)
  have 2: "w AND 0xFF00 = 0x0200 \<longleftrightarrow> ?op = 1" "w AND 0xFF00 = 0 \<longleftrightarrow> ?op = 0" "w AND 0xFF00 = 0x0A00 \<longleftrightarrow> ?op = 5" "?op = 1 \<or> ?op = 0 \<or> ?op = 5"
    using assms(4) by (elim disjE; simp add: word_bits)+
  from assms(2) 1 have L: "line0_legal w (drop_bit 3 w AND 7) (w AND 7)"
    by (simp add: m68k_classify_primary_word_def Let_def split: if_splits)
  have st: "w \<notin> {0x023C, 0x027C, 0x003C, 0x007C, 0x0A3C, 0x0A7C}"
    using assms(3) by (auto simp: status_logical_def Let_def split: if_splits)
  have n: "\<not> ?st" using L 1 2 st status_word assms(4) by (auto simp: line0_legal_def Let_def)
  show ?da using L n 1 2 by (auto simp: line0_legal_def Let_def)
  show "opcode_kind w = (if w AND 0xFF00 = 0x0200 then K_andi else if w AND 0xFF00 = 0 then K_ori else K_eori)"
    using 1 2 n by (auto simp: opcode_kind_def line0_kind_def Let_def)
qed

lemma ordinary_immediate_good:
  assumes "10 \<le> cx_available cx" "status_logical cx w = None"
    and "(p, kind) \<in> {(0x0200, K_andi), (0x0000, K_ori), (0x0A00, K_eori)}"
  shows "claim_good cx w (ordinary_immediate cx w p kind)"
proof (cases "w AND 0xFF00 = p \<and> w AND 0xC0 \<noteq> 0xC0 \<and> m68k_classify_primary_word w = Class_legal")
  case False
  then show ?thesis by (auto simp: ordinary_immediate_def claim_good_def Let_def split: if_splits)
next
  case True
  then have p: "w AND 0xFF00 = 0x0200 \<or> w AND 0xFF00 = 0 \<or> w AND 0xFF00 = 0x0A00" using assms(3) by auto
  have l: "w AND 0xC0 \<noteq> 0xC0" "m68k_classify_primary_word w = Class_legal" using True by auto
  note M = line0_immediate [OF l assms(2) p]
  have d: "field_permitted (field16 w 3 7) (field16 w 0 7) m68k_ea_logical_immediate_destination"
    using M(1) permitted_category(2) [of w 3 0] by (simp add: m68k_ea_logical_immediate_destination_def)
  have k: "opcode_kind w = kind" using M(2) True assms(3) by auto
  show ?thesis
    unfolding ordinary_immediate_def Let_def using assms(1) d k
    by (intro m68k_good; simp add: has_indexed_def field_permitted_const mask_val indexed_field_def)
qed

lemma multiply_divide_good:
  assumes "10 \<le> cx_available cx"
  shows "claim_good cx w (multiply_divide cx w 0xC1C0 K_multiply_signed_word)"
    "claim_good cx w (multiply_divide cx w 0xC0C0 K_multiply_unsigned_word)"
    "claim_good cx w (multiply_divide cx w 0x81C0 K_divide_signed_word)"
    "claim_good cx w (multiply_divide cx w 0x80C0 K_divide_unsigned_word)"
  using assms unfolding multiply_divide_def Let_def
  by (intro m68k_good; simp add: word_simps legal_defs kind_defs;
    (auto simp: word_simps legal_defs kind_defs split: if_splits)?)+

lemma pair_patterns:
  fixes w :: u16
  shows "w AND 0xF000 = 0xC000 \<Longrightarrow> drop_bit 6 w AND 7 = 4 \<Longrightarrow> drop_bit 3 w AND 7 \<le> 1 \<Longrightarrow> w AND 0xF1F0 = 0xC100"
    "w AND 0xF000 = 0x8000 \<Longrightarrow> drop_bit 6 w AND 7 = 4 \<Longrightarrow> drop_bit 3 w AND 7 \<le> 1 \<Longrightarrow> w AND 0xF1F0 = 0x8100"
    "w AND 0xF000 = 0xC000 \<Longrightarrow> drop_bit 6 w AND 7 = 5 \<Longrightarrow> drop_bit 3 w AND 7 = 0 \<Longrightarrow> w AND 0xF1F8 = 0xC140"
    "w AND 0xF000 = 0xC000 \<Longrightarrow> drop_bit 6 w AND 7 = 5 \<Longrightarrow> drop_bit 3 w AND 7 = 1 \<Longrightarrow> w AND 0xF1F8 = 0xC148"
    "w AND 0xF000 = 0xC000 \<Longrightarrow> drop_bit 6 w AND 7 = 6 \<Longrightarrow> drop_bit 3 w AND 7 = 1 \<Longrightarrow> w AND 0xF1F8 = 0xC188"
  by (simp_all add: word_bits)

lemma tri_le_1: "(drop_bit k (w :: u16) AND 7) \<le> 1 \<longleftrightarrow> drop_bit k w AND 7 = 0 \<or> drop_bit k w AND 7 = 1"
  by (auto simp: word_bits)

lemma and_or_class:
  assumes "w AND 0xF000 = (if and_line then 0xC000 else 0x8000)" "m68k_classify_primary_word w = Class_legal"
  shows "or_and_legal w (drop_bit 3 w AND 7) (drop_bit 0 w AND 7) and_line" "opcode_kind w = or_and_kind w and_line"
proof -
  have "drop_bit 12 w = (if and_line then 12 else 8)" using assms(1) by (cases and_line) (simp_all add: word_bits)
  with assms(2) show "or_and_legal w (drop_bit 3 w AND 7) (drop_bit 0 w AND 7) and_line" "opcode_kind w = or_and_kind w and_line"
    by (cases and_line; simp add: m68k_classify_primary_word_def opcode_kind_def Let_def verdict_legal)+
qed

lemma opmode_cases:
  assumes "4 \<le> field16 w 6 7" "field16 w 6 7 \<noteq> 7"
  shows "drop_bit 6 w AND 7 = 4 \<or> drop_bit 6 w AND 7 = 5 \<or> drop_bit 6 w AND 7 = 6"
  using assms by (auto simp: word_bits)

lemma and_or_reverse:
  assumes "w AND 0xF000 = (if and_line then 0xC000 else 0x8000)" "m68k_classify_primary_word w = Class_legal"
    and "\<not> (w AND 0xF1F0 = 0xC100 \<or> w AND 0xF1F0 = 0x8100)" "\<not> (w AND 0xF1F8 = 0xC140 \<or> w AND 0xF1F8 = 0xC148 \<or> w AND 0xF1F8 = 0xC188)"
    and "4 \<le> field16 w 6 7" "field16 w 6 7 \<noteq> 7"
  shows "ea_memory_alterable (drop_bit 3 w AND 7) (drop_bit 0 w AND 7)"
    "opcode_kind w = (if and_line then K_logical_and else K_logical_or)"
proof -
  note C = and_or_class [OF assms(1,2)]
  have o: "drop_bit 6 w AND 7 = 4 \<or> drop_bit 6 w AND 7 = 5 \<or> drop_bit 6 w AND 7 = 6" by (rule opmode_cases [OF assms(5,6)])
  have m: "\<not> drop_bit 3 w AND 7 \<le> 1"
  proof
    assume le: "drop_bit 3 w AND 7 \<le> 1"
    then have m: "drop_bit 3 w AND 7 = 0 \<or> drop_bit 3 w AND 7 = 1" by (simp add: tri_le_1)
    have L: "drop_bit 6 w AND 7 = 4 \<or> and_line \<and> (drop_bit 6 w AND 7 = 5 \<or> drop_bit 3 w AND 7 = 1)"
      using C(1) o le by (elim disjE) (simp_all add: or_and_legal_def Let_def split: if_splits)
    show False
    proof (cases "drop_bit 6 w AND 7 = 4")
      case True
      then show False using pair_patterns(1,2) [of w] le assms(1,3) by (simp split: if_splits)
    next
      case False
      with L have line: "w AND 0xF000 = 0xC000" and "drop_bit 6 w AND 7 = 5 \<or> drop_bit 3 w AND 7 = 1" using assms(1) by auto
      with o m False have "drop_bit 6 w AND 7 = 5 \<and> drop_bit 3 w AND 7 = 0 \<or> drop_bit 6 w AND 7 = 5 \<and> drop_bit 3 w AND 7 = 1 \<or>
          drop_bit 6 w AND 7 = 6 \<and> drop_bit 3 w AND 7 = 1" by blast
      then show False using pair_patterns(3-5) [of w, OF line] assms(4) by blast
    qed
  qed
  show "ea_memory_alterable (drop_bit 3 w AND 7) (drop_bit 0 w AND 7)"
    using C(1) o m by (auto simp: or_and_legal_def Let_def)
  show "opcode_kind w = (if and_line then K_logical_and else K_logical_or)"
    using C(2) o m by (auto simp: or_and_kind_def Let_def)
qed

lemma and_or_forward:
  assumes "w AND 0xF000 = (if and_line then 0xC000 else 0x8000)" "m68k_classify_primary_word w = Class_legal" "field16 w 6 7 \<le> 2"
  shows "ea_data (drop_bit 3 w AND 7) (drop_bit 0 w AND 7)"
    "opcode_kind w = (if and_line then K_logical_and else K_logical_or)"
proof -
  note C = and_or_class [OF assms(1,2)]
  have o: "drop_bit 6 w AND 7 = 0 \<or> drop_bit 6 w AND 7 = 1 \<or> drop_bit 6 w AND 7 = 2"
    using assms(3) by (auto simp: word_bits)
  show "ea_data (drop_bit 3 w AND 7) (drop_bit 0 w AND 7)" "opcode_kind w = (if and_line then K_logical_and else K_logical_or)"
    using C o by (auto simp: or_and_legal_def or_and_kind_def Let_def word_le_nat_alt)
qed

end
