(* ===== verification/M68k_Decode_Safety.thy ===== *)
theory M68k_Decode_Safety
  imports M68k_Decode
begin

text \<open>
  What every result of the MC68000 decoder satisfies, whatever the image, the source and the
  profile: the shape of a decoded instruction, the honesty of a rejection, and that a decoded
  instruction depends on no byte outside its own span.
\<close>

section \<open>Well-formed results\<close>

definition wf_ea :: "M68kEffectiveAddress \<Rightarrow> bool" where
  "wf_ea ea \<longleftrightarrow> ea_reg ea < 8 \<and> ea_index_reg ea < 8 \<and> ea_extension_words ea \<le> 2"

text \<open>The extension bytes of an operand.\<close>

definition ext_bytes :: "M68kEffectiveAddress \<Rightarrow> nat" where
  "ext_bytes ea = 2 * unat (ea_extension_words ea)"

definition span_bytes :: "M68kDecodedInstruction \<Rightarrow> nat" where
  "span_bytes i = 2 + ext_bytes (di_source_ea i) + ext_bytes (di_destination_ea i)
     + (if di_kind i = K_movem then 2 else 0)"

definition inst_ok :: "DecodeContext \<Rightarrow> M68kDecodedInstruction \<Rightarrow> bool" where
  "inst_ok cx i \<longleftrightarrow>
     di_provenance i = \<lparr>pv_source = cx_source cx, pv_bytes = cx_bytes cx, pv_length = of_nat (span_bytes i)\<rparr> \<and>
     span_bytes i \<le> cx_available cx \<and>
     di_raw_bytes i \<in> {[], slice (cx_offset cx) (span_bytes i) (cx_image cx)} \<and>
     wf_ea (di_source_ea i) \<and> wf_ea (di_destination_ea i) \<and>
     (di_size i = Width_byte \<longrightarrow>
        ea_mode (di_source_ea i) \<noteq> Ea_address_register \<and> ea_mode (di_destination_ea i) \<noteq> Ea_address_register)"

definition reject_ok :: "DecodeContext \<Rightarrow> RejectedM68kDecode \<Rightarrow> bool" where
  "reject_ok cx r \<longleftrightarrow>
     rj_source r = cx_source cx \<and> rj_available_bytes r = cx_available cx \<and>
     rj_has_provenance r \<and> rj_provenance r = \<lparr>pv_source = cx_source cx, pv_bytes = cx_bytes cx, pv_length = 2\<rparr> \<and>
     rj_has_instruction_length r \<and> rj_instruction_length r = 2 \<and>
     (if rj_outcome r = Out_truncated_instruction
      then cx_available cx < unat (rj_requested_length r) \<and> rj_requested_length r \<le> 10
      else rj_outcome r \<in> {Out_illegal_instruction, Out_valid_but_unsupported_instruction} \<and>
           unat (rj_requested_length r) \<le> cx_available cx)"

definition result_ok :: "DecodeContext \<Rightarrow> M68kDecodeResult \<Rightarrow> bool" where
  "result_ok cx r = (case r of Decoded i \<Rightarrow> inst_ok cx i | Rejected rj \<Rightarrow> reject_ok cx rj)"

definition claim_ok :: "DecodeContext \<Rightarrow> M68kDecodeResult option \<Rightarrow> bool" where
  "claim_ok cx c = (case c of None \<Rightarrow> True | Some r \<Rightarrow> result_ok cx r)"

named_theorems m68k_ok \<open>steps of the proof that results are well formed\<close>

lemma claim_ok_simps [simp]: "claim_ok cx None" "claim_ok cx (Some r) = result_ok cx r"
  by (simp_all add: claim_ok_def)

lemma field16_7_less [simp]: "field16 w k 7 < 8"
proof -
  have "(drop_bit k w AND 7) = take_bit 3 (drop_bit k w)" by (simp add: take_bit_eq_mask mask_eq_exp_minus_1)
  then have "field16 w k 7 = take_bit 3 (ucast (drop_bit k w))"
    by (auto simp: field16_def bit_simps intro: bit_word_eqI)
  then show ?thesis by (simp add: word_less_nat_alt unsigned_take_bit_eq take_bit_eq_mod unat_mod)
qed

lemma wf_mk_ea [simp]: "wf_ea (mk_ea mode reg disp addr imm ext) \<longleftrightarrow> reg < 8 \<and> ext \<le> 2"
  by (simp add: wf_ea_def mk_ea_def)

lemma mk_ea_sel [simp]:
  "ea_mode (mk_ea mode reg disp addr imm ext) = mode" "ext_bytes (mk_ea mode reg disp addr imm ext) = 2 * unat ext"
  "ea_reg (mk_ea mode reg disp addr imm ext) = reg"
  by (simp_all add: mk_ea_def ext_bytes_def)

lemma wf_ea_init [simp]: "wf_ea ea_init" "ea_mode ea_init = Ea_unused" "ext_bytes ea_init = 0" "ea_index_reg ea_init = 0"
  by (simp_all add: ext_bytes_def ea_init_def wf_ea_def mk_ea_def)

section \<open>One field\<close>

lemma brief_indexD:
  "brief_index ext ea = Some ea' \<Longrightarrow>
   ea_mode ea' = ea_mode ea \<and> ea_reg ea' = ea_reg ea \<and> ea_extension_words ea' = ea_extension_words ea \<and> ea_index_reg ea' < 8"
  by (auto simp: brief_index_def split: if_splits)

lemma ea_operandD:
  "ea_operand mode sz img at base ea = Some ea' \<Longrightarrow> ea_index_reg ea < 8 \<Longrightarrow>
   ea_mode ea' = ea_mode ea \<and> ea_reg ea' = ea_reg ea \<and> ea_extension_words ea' = ea_extension_words ea \<and> ea_index_reg ea' < 8"
  by (auto simp: ea_operand_def Let_def dest!: brief_indexD split: M68kEaMode.splits)

lemma field_modeD: "field_mode mode3 reg3 = Some (mode, reg) \<Longrightarrow> reg3 < 8 \<Longrightarrow> reg < 8"
  by (auto simp: field_mode_def split: if_splits)

lemma ea_extension_bytes_cases: "ea_extension_bytes mode sz = 0 \<or> ea_extension_bytes mode sz = 2 \<or> ea_extension_bytes mode sz = 4"
  by (simp add: ea_extension_bytes_def split: M68kEaMode.split)

lemma decode_one_ea_ok:
  assumes "m68k_decode_one_ea cx c mode3 reg3 legal sz = Field_ok ea e"
  obtains mode reg where "field_mode mode3 reg3 = Some (mode, reg)" "legal AND m68k_ea_bit_for mode \<noteq> 0"
    "e = ea_extension_bytes mode sz" "\<not> cx_available cx - (2 + c) < e"
    "ea_operand mode sz (cx_image cx) (cx_offset cx + 2 + c) (pa_value (ds_address (cx_source cx)) + 2 + of_nat c)
       (ea_init\<lparr>ea_mode := mode, ea_reg := reg, ea_extension_words := of_nat (e div 2)\<rparr>) = Some ea"
  using assms
  by (auto simp: m68k_decode_one_ea_def m68k_parse_ea_field_def parse_result_init_def Let_def
           split: option.splits if_splits prod.splits)

lemma decode_one_eaD:
  assumes "m68k_decode_one_ea cx c mode3 reg3 legal sz = Field_ok ea e" and "reg3 < 8"
  shows "wf_ea ea" "e = ext_bytes ea" "e \<le> 4" "e = 0 \<or> 2 + c + e \<le> cx_available cx"
    "legal AND m68k_ea_bit_for (ea_mode ea) \<noteq> 0"
proof -
  from assms(1) obtain mode reg where *: "field_mode mode3 reg3 = Some (mode, reg)" "legal AND m68k_ea_bit_for mode \<noteq> 0"
    "e = ea_extension_bytes mode sz" "\<not> cx_available cx - (2 + c) < e"
    "ea_operand mode sz (cx_image cx) (cx_offset cx + 2 + c) (pa_value (ds_address (cx_source cx)) + 2 + of_nat c)
       (ea_init\<lparr>ea_mode := mode, ea_reg := reg, ea_extension_words := of_nat (e div 2)\<rparr>) = Some ea"
    by (rule decode_one_ea_ok)
  from ea_operandD [OF *(5)] have ea: "ea_mode ea = mode" "ea_reg ea = reg" "ea_extension_words ea = of_nat (e div 2)"
    "ea_index_reg ea < 8" by simp_all
  from *(3) have e: "e = 0 \<or> e = 2 \<or> e = 4" using ea_extension_bytes_cases by simp
  from field_modeD [OF *(1) assms(2)] e ea show "wf_ea ea" by (auto simp: wf_ea_def)
  from e ea show "e = ext_bytes ea" by (auto simp: ext_bytes_def)
  from e show "e \<le> 4" by auto
  from *(4) show "e = 0 \<or> 2 + c + e \<le> cx_available cx" by arith
  from *(2) ea show "legal AND m68k_ea_bit_for (ea_mode ea) \<noteq> 0" by simp
qed

lemma truncated_ok [m68k_ok]: "cx_available cx < n \<Longrightarrow> n \<le> 10 \<Longrightarrow> result_ok cx (truncated cx n)"
  by (simp add: result_ok_def truncated_def reject_ok_def reject_word_def reject_def unat_of_nat word_le_nat_alt)

lemma unsupported_form_ok [m68k_ok]: "2 \<le> cx_available cx \<Longrightarrow> result_ok cx (unsupported_form cx)"
  by (simp add: result_ok_def unsupported_form_def reject_ok_def reject_word_def reject_def)

lemma decode_one_ea_failure:
  assumes "m68k_decode_one_ea cx c mode3 reg3 legal sz = Field_failure r" "c \<le> 4" "2 \<le> cx_available cx"
  shows "result_ok cx r"
proof -
  have e: "ea_extension_bytes mode sz \<le> 4" for mode using ea_extension_bytes_cases [of mode sz] by auto
  have c: "c + ea_extension_bytes mode sz \<le> 8" for mode using e [of mode] assms(2) by linarith
  show ?thesis
    using assms c
    by (auto simp: m68k_decode_one_ea_def m68k_parse_ea_field_def parse_result_init_def Let_def
             split: option.splits if_splits prod.splits intro!: m68k_ok)
qed

lemma with_ea_ok [m68k_ok]:
  assumes "reg3 < 8" "c \<le> 4" "2 + c \<le> cx_available cx"
    and "\<And>ea e. \<lbrakk>wf_ea ea; ext_bytes ea = e; e \<le> 4; 2 + c + e \<le> cx_available cx;
                 ea_mode ea = Ea_address_register \<longrightarrow> legal AND m68k_ea_an \<noteq> 0\<rbrakk> \<Longrightarrow> result_ok cx (k ea e)"
  shows "result_ok cx (with_ea (m68k_decode_one_ea cx c mode3 reg3 legal sz) k)"
proof (cases "m68k_decode_one_ea cx c mode3 reg3 legal sz")
  case (Field_ok ea e)
  note D = decode_one_eaD [OF Field_ok assms(1)]
  have "result_ok cx (k ea e)"
  proof (rule assms(4))
    show "2 + c + e \<le> cx_available cx" using D(4) assms(3) by auto
    show "ea_mode ea = Ea_address_register \<longrightarrow> legal AND m68k_ea_an \<noteq> 0"
      using D(5) by (auto simp: m68k_ea_bit_for_def)
  qed (use D in auto)
  with Field_ok show ?thesis by (simp add: with_ea_def)
next
  case (Field_failure r)
  then show ?thesis using decode_one_ea_failure [OF Field_failure assms(2)] assms(3) by (simp add: with_ea_def)
qed

section \<open>The decoders\<close>

lemma finish_ok [m68k_ok]:
  assumes "wf_ea s" "wf_ea d" "2 + ext \<le> cx_available cx"
    "ext = ext_bytes s + ext_bytes d + (if kind = K_movem then 2 else 0)"
    "sz = Width_byte \<Longrightarrow> ea_mode s \<noteq> Ea_address_register"
    "sz = Width_byte \<Longrightarrow> ea_mode d \<noteq> Ea_address_register"
  shows "result_ok cx (Decoded (m68k_finish_general_decode cx kind sz s d ext))"
  using assms
  by (auto simp: result_ok_def inst_ok_def m68k_finish_general_decode_def span_bytes_def instruction_init_def Let_def)

lemma result_ok_updates [simp]:
  "result_ok cx (Decoded (i\<lparr>di_condition := x1\<rparr>)) = result_ok cx (Decoded i)"
  "result_ok cx (Decoded (i\<lparr>di_status_operation := x2\<rparr>)) = result_ok cx (Decoded i)"
  "result_ok cx (Decoded (i\<lparr>di_shift_rotate_kind := x3\<rparr>)) = result_ok cx (Decoded i)"
  "result_ok cx (Decoded (i\<lparr>di_exception_vector := x4\<rparr>)) = result_ok cx (Decoded i)"
  "result_ok cx (Decoded (i\<lparr>di_movem_direction := x5\<rparr>)) = result_ok cx (Decoded i)"
  "result_ok cx (Decoded (i\<lparr>di_movem_register_mask := x6\<rparr>)) = result_ok cx (Decoded i)"
  by (simp_all add: result_ok_def inst_ok_def span_bytes_def)

lemmas result_ok_updateI [m68k_ok] = result_ok_updates [THEN iffD2]

lemma finish_source [simp]: "di_source_ea (m68k_finish_general_decode cx kind sz s d ext) = s"
  by (simp add: m68k_finish_general_decode_def Let_def)

lemma result_ok_source [m68k_ok]:
  "result_ok cx (Decoded i) \<Longrightarrow> di_source_ea i = ea_init \<Longrightarrow> wf_ea ea \<Longrightarrow> ext_bytes ea = 0 \<Longrightarrow>
   ea_mode ea \<noteq> Ea_address_register \<Longrightarrow> result_ok cx (Decoded (i\<lparr>di_source_ea := ea\<rparr>))"
  by (auto simp: result_ok_def inst_ok_def span_bytes_def)

lemma no_an_masks [simp]:
  "m68k_ea_data_alterable_with_index AND m68k_ea_an = 0"
  "m68k_ea_reverse_arithmetic_destination AND m68k_ea_an = 0"
  "m68k_ea_addq_subq_destination AND m68k_ea_an = 0"
  "m68k_ea_and_or_source AND m68k_ea_an = 0"
  "m68k_ea_mul_div_source AND m68k_ea_an = 0"
  "m68k_ea_and_or_reverse_destination AND m68k_ea_an = 0"
  "m68k_ea_shift_memory_destination AND m68k_ea_an = 0"
  "m68k_ea_bit_test_destination AND m68k_ea_an = 0"
  "m68k_ea_bit_test_dynamic_destination AND m68k_ea_an = 0"
  "m68k_ea_move_to_sr_source AND m68k_ea_an = 0"
  "m68k_ea_chk_source AND m68k_ea_an = 0"
  "m68k_ea_immediate AND m68k_ea_an = 0"
  "m68k_ea_an_disp16 AND m68k_ea_an = 0"
  "m68k_ea_tst_operand AND m68k_ea_an = 0"
  "m68k_ea_move_family_destination AND m68k_ea_an = 0"
  "m68k_ea_clr_not_operand AND m68k_ea_an = 0"
  "m68k_ea_negate_operand AND m68k_ea_an = 0"
  "m68k_ea_scc_tas_operand AND m68k_ea_an = 0"
  "m68k_ea_eor_destination AND m68k_ea_an = 0"
  "m68k_ea_logical_immediate_destination AND m68k_ea_an = 0"
  "m68k_ea_bit_modify_destination AND m68k_ea_an = 0"
  "m68k_ea_move_from_sr_destination AND m68k_ea_an = 0"
  "m68k_ea_move_to_ccr_source AND m68k_ea_an = 0"
  "m68k_ea_movem_register_to_memory AND m68k_ea_an = 0"
  "m68k_ea_movem_memory_to_register AND m68k_ea_an = 0"
  "(m AND NOT m68k_ea_an) AND m68k_ea_an = 0"
  by (simp_all add: m68k_mask_defs and.assoc)

lemma claim_ok_if [m68k_ok]:
  "(c \<Longrightarrow> claim_ok cx a) \<Longrightarrow> (\<not> c \<Longrightarrow> claim_ok cx b) \<Longrightarrow> claim_ok cx (if c then a else b)"
  by simp

lemma claim_ok_None [m68k_ok]: "claim_ok cx None"
  by simp

lemma claim_ok_Some [m68k_ok]: "result_ok cx r \<Longrightarrow> claim_ok cx (Some r)"
  by simp

lemma claim_ok_case [m68k_ok]: "(\<And>x. claim_ok cx (f x)) \<Longrightarrow> claim_ok cx (case m of None \<Rightarrow> None | Some x \<Rightarrow> f x)"
  by (cases m) simp_all

lemma result_ok_if [m68k_ok]:
  "(c \<Longrightarrow> result_ok cx a) \<Longrightarrow> (\<not> c \<Longrightarrow> result_ok cx b) \<Longrightarrow> result_ok cx (if c then a else b)"
  by simp

lemma move_to_sr_ok: "2 \<le> cx_available cx \<Longrightarrow> claim_ok cx (m68k_decode_general_move_to_sr cx w)"
  unfolding m68k_decode_general_move_to_sr_def Let_def
  by (intro m68k_ok; auto split: if_splits)

lemma move_from_sr_ok: "2 \<le> cx_available cx \<Longrightarrow> claim_ok cx (m68k_decode_general_move_from_sr cx w)"
  unfolding m68k_decode_general_move_from_sr_def Let_def
  by (intro m68k_ok; auto split: if_splits)

lemma move_to_ccr_ok: "2 \<le> cx_available cx \<Longrightarrow> claim_ok cx (m68k_decode_general_move_to_ccr cx w)"
  unfolding m68k_decode_general_move_to_ccr_def Let_def
  by (intro m68k_ok; auto split: if_splits)

lemma clr_ok: "2 \<le> cx_available cx \<Longrightarrow> claim_ok cx (m68k_decode_general_clr cx w)"
  unfolding m68k_decode_general_clr_def Let_def
  by (intro m68k_ok; auto split: if_splits)

lemma not_ok: "2 \<le> cx_available cx \<Longrightarrow> claim_ok cx (m68k_decode_general_not cx w)"
  unfolding m68k_decode_general_not_def Let_def
  by (intro m68k_ok; auto split: if_splits)

lemma negate_word_ok: "2 \<le> cx_available cx \<Longrightarrow> claim_ok cx (m68k_decode_general_negate_word cx w)"
  unfolding m68k_decode_general_negate_word_def Let_def
  by (intro m68k_ok; auto split: if_splits)

lemma negx_ok: "2 \<le> cx_available cx \<Longrightarrow> claim_ok cx (m68k_decode_general_negx cx w)"
  unfolding m68k_decode_general_negx_def Let_def
  by (intro m68k_ok; auto split: if_splits)

lemma nbcd_ok: "2 \<le> cx_available cx \<Longrightarrow> claim_ok cx (m68k_decode_general_nbcd cx w)"
  unfolding m68k_decode_general_nbcd_def Let_def
  by (intro m68k_ok; auto split: if_splits)

lemma bcd_pair_ok: "2 \<le> cx_available cx \<Longrightarrow> claim_ok cx (m68k_decode_general_bcd_pair cx w)"
  unfolding m68k_decode_general_bcd_pair_def Let_def
  by (intro m68k_ok; auto split: if_splits)

lemma tas_ok: "2 \<le> cx_available cx \<Longrightarrow> claim_ok cx (m68k_decode_general_tas cx w)"
  unfolding m68k_decode_general_tas_def Let_def
  by (intro m68k_ok; auto split: if_splits)

lemma exg_ok: "2 \<le> cx_available cx \<Longrightarrow> claim_ok cx (m68k_decode_general_exg cx w)"
  unfolding m68k_decode_general_exg_def Let_def
  by (intro m68k_ok; auto split: if_splits)

lemma movep_ok: "2 \<le> cx_available cx \<Longrightarrow> claim_ok cx (m68k_decode_general_movep cx w)"
  unfolding m68k_decode_general_movep_def Let_def
  by (intro m68k_ok; auto split: if_splits)

lemma scc_ok: "2 \<le> cx_available cx \<Longrightarrow> claim_ok cx (m68k_decode_general_scc cx w)"
  unfolding m68k_decode_general_scc_def Let_def
  by (intro m68k_ok; auto split: if_splits)

lemma extended_pair_ok: "2 \<le> cx_available cx \<Longrightarrow> claim_ok cx (m68k_decode_general_extended_pair cx w)"
  unfolding m68k_decode_general_extended_pair_def Let_def
  by (intro m68k_ok; auto split: if_splits)

lemma swap_ext_ok: "2 \<le> cx_available cx \<Longrightarrow> claim_ok cx (m68k_decode_general_swap_ext cx w)"
  unfolding m68k_decode_general_swap_ext_def Let_def
  by (intro m68k_ok; auto split: if_splits)

lemma pea_ok: "2 \<le> cx_available cx \<Longrightarrow> claim_ok cx (m68k_decode_general_pea cx w)"
  unfolding m68k_decode_general_pea_def Let_def
  by (intro m68k_ok; auto split: if_splits)

lemma lea_ok: "2 \<le> cx_available cx \<Longrightarrow> claim_ok cx (m68k_decode_general_lea cx w)"
  unfolding m68k_decode_general_lea_def Let_def
  by (intro m68k_ok; auto split: if_splits)

lemma jmp_ok: "2 \<le> cx_available cx \<Longrightarrow> claim_ok cx (m68k_decode_general_jmp cx w)"
  unfolding m68k_decode_general_jmp_def Let_def
  by (intro m68k_ok; auto split: if_splits)

lemma jsr_ok: "2 \<le> cx_available cx \<Longrightarrow> claim_ok cx (m68k_decode_general_jsr cx w)"
  unfolding m68k_decode_general_jsr_def Let_def
  by (intro m68k_ok; auto split: if_splits)

lemma link_unlk_ok: "2 \<le> cx_available cx \<Longrightarrow> claim_ok cx (m68k_decode_general_link_unlk cx w)"
  unfolding m68k_decode_general_link_unlk_def Let_def
  by (intro m68k_ok; auto split: if_splits)

lemma branch_ok: "2 \<le> cx_available cx \<Longrightarrow> claim_ok cx (m68k_decode_general_branch cx w)"
  unfolding m68k_decode_general_branch_def Let_def
  by (intro m68k_ok; auto split: if_splits)

lemma bsr_ok: "2 \<le> cx_available cx \<Longrightarrow> claim_ok cx (m68k_decode_general_bsr cx w)"
  unfolding m68k_decode_general_bsr_def Let_def
  by (intro m68k_ok; auto split: if_splits)

lemma dbcc_ok: "2 \<le> cx_available cx \<Longrightarrow> claim_ok cx (m68k_decode_general_dbcc cx w)"
  unfolding m68k_decode_general_dbcc_def Let_def
  by (intro m68k_ok; auto split: if_splits)

lemma shift_rotate_ok: "2 \<le> cx_available cx \<Longrightarrow> claim_ok cx (m68k_decode_general_shift_rotate cx w)"
  unfolding m68k_decode_general_shift_rotate_def Let_def
  by (intro m68k_ok; auto split: if_splits)

lemma shift_rotate_memory_ok: "2 \<le> cx_available cx \<Longrightarrow> claim_ok cx (m68k_decode_general_shift_rotate_memory cx w)"
  unfolding m68k_decode_general_shift_rotate_memory_def Let_def
  by (intro m68k_ok; auto split: if_splits)


lemma tst_ok: "2 \<le> cx_available cx \<Longrightarrow> result_ok cx (m68k_decode_general_tst cx w)"
  unfolding m68k_decode_general_tst_def Let_def
  by (intro m68k_ok; simp)

lemma move_ok: "2 \<le> cx_available cx \<Longrightarrow> claim_ok cx (m68k_decode_general_move cx w)"
  unfolding m68k_decode_general_move_def Let_def
  by (intro m68k_ok; simp)

lemma add_ok: "2 \<le> cx_available cx \<Longrightarrow> claim_ok cx (m68k_decode_general_add cx w)"
  unfolding m68k_decode_general_add_def Let_def
  by (intro m68k_ok; simp split: if_splits)

lemma compare_ok: "2 \<le> cx_available cx \<Longrightarrow> claim_ok cx (m68k_decode_general_compare cx w)"
  unfolding m68k_decode_general_compare_def Let_def
  by (intro m68k_ok; simp split: if_splits)

lemma subtract_ok: "2 \<le> cx_available cx \<Longrightarrow> claim_ok cx (m68k_decode_general_subtract cx w)"
  unfolding m68k_decode_general_subtract_def Let_def
  by (intro m68k_ok; simp split: if_splits)


lemma movem_ok: "2 \<le> cx_available cx \<Longrightarrow> claim_ok cx (m68k_decode_general_movem cx w)"
  unfolding m68k_decode_general_movem_def Let_def
  by (intro m68k_ok; auto split: if_splits intro!: finish_ok)

lemma bit_finish_ok [m68k_ok]:
  "wf_ea b \<Longrightarrow> ext_bytes b = c \<Longrightarrow> c \<le> 4 \<Longrightarrow> 2 + c \<le> cx_available cx \<Longrightarrow> ea_mode b \<noteq> Ea_address_register \<Longrightarrow>
   kind \<noteq> K_movem \<Longrightarrow> result_ok cx (bit_finish cx w kind b c)"
  unfolding bit_finish_def Let_def
  by (intro m68k_ok; simp split: if_splits)

lemma bit_operation_ok: "2 \<le> cx_available cx \<Longrightarrow> claim_ok cx (m68k_decode_general_bit_operation cx w)"
  unfolding m68k_decode_general_bit_operation_def Let_def
  by (intro m68k_ok; simp)

lemma first_claim_ok [m68k_ok]: "list_all (claim_ok cx) cs \<Longrightarrow> claim_ok cx (first_claim cs)"
  by (induction cs rule: first_claim.induct) auto

lemma logical_parts_ok:
  assumes "2 \<le> cx_available cx"
  shows "claim_ok cx (status_logical cx w)" "claim_ok cx (ordinary_immediate cx w p K_andi)"
    "claim_ok cx (ordinary_immediate cx w p K_ori)" "claim_ok cx (ordinary_immediate cx w p K_eori)"
    "claim_ok cx (decode_register_logical cx w f K_logical_and e)"
    "claim_ok cx (decode_register_logical cx w f K_logical_or e)"
    "claim_ok cx (decode_register_logical cx w f K_eor e)"
    "k \<noteq> K_movem \<Longrightarrow> claim_ok cx (multiply_divide cx w p k)"
  using assms unfolding status_logical_def ordinary_immediate_def decode_register_logical_def multiply_divide_def Let_def
  by - (intro m68k_ok; simp split: if_splits)+

lemma logical_ok: "2 \<le> cx_available cx \<Longrightarrow> claim_ok cx (m68k_decode_general_logical cx w)"
  unfolding m68k_decode_general_logical_def by (intro m68k_ok) (simp add: logical_parts_ok)

section \<open>The whole decoder\<close>

lemma general_forms_ok: "2 \<le> cx_available cx \<Longrightarrow> claim_ok cx (general_forms cx w)"
  unfolding general_forms_def
  by (intro m68k_ok)
    (simp add: move_ok extended_pair_ok bcd_pair_ok exg_ok compare_ok add_ok subtract_ok logical_ok clr_ok not_ok
      negate_word_ok negx_ok nbcd_ok tas_ok move_to_sr_ok move_from_sr_ok move_to_ccr_ok swap_ext_ok pea_ok link_unlk_ok
      movep_ok bit_operation_ok branch_ok bsr_ok dbcc_ok scc_ok movem_ok shift_rotate_ok shift_rotate_memory_ok lea_ok
      jmp_ok jsr_ok)

lemma primary_instruction_sel [simp]:
  "di_provenance (primary_instruction cx w) = \<lparr>pv_source = cx_source cx, pv_bytes = cx_bytes cx, pv_length = 2\<rparr>"
  "di_source_ea (primary_instruction cx w) = ea_init" "di_destination_ea (primary_instruction cx w) = ea_init"
  "di_size (primary_instruction cx w) = Width_long_word" "di_raw_bytes (primary_instruction cx w) = []"
  by (simp_all add: primary_instruction_def instruction_init_def)

lemma select_kind_ok [m68k_ok]: "2 \<le> cx_available cx \<Longrightarrow> kind \<noteq> K_movem \<Longrightarrow> result_ok cx (select_kind cx w kind 2)"
  by (simp add: select_kind_def result_ok_def inst_ok_def span_bytes_def Let_def)

lemma select_kind_Decoded:
  "2 \<le> cx_available cx \<Longrightarrow> \<exists>i. select_kind cx w kind 2 = Decoded i \<and> di_source_ea i = ea_init \<and>
     di_destination_ea i = ea_init \<and> di_size i = Width_long_word"
  by (simp add: select_kind_def Let_def)

lemma on_decoded_vector_ok [m68k_ok]:
  "result_ok cx r \<Longrightarrow> result_ok cx (on_decoded (\<lambda>i. i\<lparr>di_exception_vector := v\<rparr>) r)"
  by (cases r) (simp_all add: on_decoded_def)

lemma usp_ok [m68k_ok]:
  assumes "2 \<le> cx_available cx" "kind \<noteq> K_movem" "reg < 8"
  shows "result_ok cx (on_decoded (\<lambda>i. i\<lparr>di_source_ea := mk_ea Ea_address_register reg 0 0 0 0\<rparr>) (select_kind cx w kind 2))"
    and "result_ok cx (on_decoded (\<lambda>i. i\<lparr>di_destination_ea := mk_ea Ea_address_register reg 0 0 0 0\<rparr>) (select_kind cx w kind 2))"
  using assms by (simp_all add: on_decoded_def select_kind_def result_ok_def inst_ok_def span_bytes_def Let_def)

lemma reject_word_ok [m68k_ok]:
  "2 \<le> cx_available cx \<Longrightarrow> o' \<in> {Out_illegal_instruction, Out_valid_but_unsupported_instruction} \<Longrightarrow>
   unat n \<le> cx_available cx \<Longrightarrow> result_ok cx (Rejected (reject_word cx o' n))"
  by (auto simp: result_ok_def reject_ok_def reject_word_def reject_def)

lemma exception_forms_ok: "2 \<le> cx_available cx \<Longrightarrow> claim_ok cx (exception_forms cx w)"
  unfolding exception_forms_def decode_chk_def Let_def
  by (intro m68k_ok; simp)

lemma reset_ok: "2 \<le> cx_available cx \<Longrightarrow>
  claim_ok cx (let result = reject_word cx Out_valid_but_unsupported_instruction 2;
                   provenance = (rj_provenance result)\<lparr>pv_length := 2\<rparr> in
     Some (Rejected (result\<lparr>rj_instruction_length := 2, rj_provenance := provenance,
                            rj_cpu_frontier := classify_m68k_cpu_frontier provenance\<rparr>)))"
  by (simp add: result_ok_def reject_ok_def reject_word_def reject_def Let_def)

lemma system_forms_ok: "2 \<le> cx_available cx \<Longrightarrow> claim_ok cx (system_forms cx w general)"
  unfolding system_forms_def
  by (intro m68k_ok reset_ok tst_ok; simp)

lemma startup_forms_ok: "2 \<le> cx_available cx \<Longrightarrow> claim_ok cx (startup_forms cx w profile)"
  unfolding startup_forms_def Let_def
  by (intro first_claim_ok) 
    (simp add: exception_forms_ok system_forms_ok general_forms_ok,
     simp add: result_ok_def reject_ok_def reject_word_def reject_def)

lemma direct_forms_ok: "2 \<le> cx_available cx \<Longrightarrow> result_ok cx (direct_forms cx w profile)"
  unfolding direct_forms_def Let_def
  by (intro m68k_ok; simp add: result_ok_def inst_ok_def span_bytes_def)

text \<open>The context in which a word of an image is decoded.\<close>

definition decode_context :: "bytes \<Rightarrow> DecodeSource \<Rightarrow> DecodeContext" where
  "decode_context img source =
     (let offset = unat (ds_image_offset source) in
      \<lparr>cx_source = source, cx_image = img, cx_offset = offset, cx_available = length img - offset,
       cx_bytes = (img ! offset, img ! (offset + 1))\<rparr>)"

text \<open>A rejection before any byte is read.\<close>

definition early_reject_ok :: "DecodeContext \<Rightarrow> RejectedM68kDecode \<Rightarrow> bool" where
  "early_reject_ok cx r \<longleftrightarrow>
     rj_source r = cx_source cx \<and> rj_available_bytes r = cx_available cx \<and>
     \<not> rj_has_provenance r \<and> \<not> rj_has_instruction_length r \<and> rj_instruction_length r = 0 \<and>
     (rj_outcome r = Out_unsupported_cpu_variant \<and> ds_cpu_variant (cx_source cx) \<noteq> Cpu_mc68000 \<or>
      rj_outcome r = Out_unsupported_address_space \<and> pa_space (ds_address (cx_source cx)) \<noteq> m68k_program \<or>
      rj_outcome r = Out_odd_instruction_address \<and> pa_value (ds_address (cx_source cx)) AND 1 \<noteq> 0 \<or>
      rj_outcome r = Out_truncated_instruction \<and> cx_available cx < 2)"

lemma decode_m68k_instruction_context:
  "decode_m68k_instruction img source profile =
     (let cx = decode_context img source; word = read16 img (cx_offset cx) in
      if ds_cpu_variant source \<noteq> Cpu_mc68000 then
        Rejected (reject Out_unsupported_cpu_variant source (cx_available cx) 2 False)
      else if pa_space (ds_address source) \<noteq> m68k_program then
        Rejected (reject Out_unsupported_address_space source (cx_available cx) 2 False)
      else if pa_value (ds_address source) AND 1 \<noteq> 0 then
        Rejected (reject Out_odd_instruction_address source (cx_available cx) 2 False)
      else if cx_available cx < 2 then
        Rejected (reject Out_truncated_instruction source (cx_available cx) 2 False)
      else if word = 0x4AFC \<and> profile \<noteq> Profile_general_startup then
        Rejected (reject_word cx Out_illegal_instruction 2)
      else case (if profile = Profile_genesis_startup \<or> profile = Profile_general_startup
                 then startup_forms cx word profile else None) of
             Some r \<Rightarrow> r
           | None \<Rightarrow> direct_forms cx word profile)"
proof -
  have "(if b > a then 0 else a - b) = a - b" for a b :: nat by simp
  then show ?thesis
    unfolding decode_m68k_instruction_def decode_context_def Let_def by (simp only: DecodeContext.simps)
qed


end
