(* ===== verification/M68k_Complete.thy ===== *)
theory M68k_Complete
  imports M68k_Opcode_Map M68k_Decode_Safety
begin

text \<open>
  The \<^verbatim>\<open>general_startup\<close> decoder as a whole: whichever decoder claims a legal word decodes it as the
  opcode map says, and every legal word but RESET is claimed.
\<close>

section \<open>The register logic and the bit operations\<close>

lemma permitted_more:
  "field_permitted (field16 w k 7) (field16 w j 7) m68k_ea_and_or_source \<longleftrightarrow> ea_data (drop_bit k w AND 7) (drop_bit j w AND 7)"
  "field_permitted (field16 w k 7) (field16 w j 7) m68k_ea_and_or_reverse_destination \<longleftrightarrow>
     ea_memory_alterable (drop_bit k w AND 7) (drop_bit j w AND 7)"
  "field_permitted (field16 w k 7) (field16 w j 7) m68k_ea_bit_test_dynamic_destination \<longleftrightarrow>
     ea_data (drop_bit k w AND 7) (drop_bit j w AND 7)"
  "field_permitted (field16 w k 7) (field16 w j 7) m68k_ea_bit_test_destination \<longleftrightarrow>
     ea_data (drop_bit k w AND 7) (drop_bit j w AND 7) \<and> \<not> (drop_bit k w AND 7 = 7 \<and> drop_bit j w AND 7 = 4)"
  unfolding category_defs by (simp add: word_bits; argo?)+

lemma decode_register_logical_good:
  assumes "10 \<le> cx_available cx" "m68k_decode_general_bcd_pair cx w = None" "m68k_decode_general_exg cx w = None"
  shows "claim_good cx w (decode_register_logical cx w (if and_line then 0xC000 else 0x8000)
           (if and_line then K_logical_and else K_logical_or) False)"
proof (cases "w AND 0xF000 = (if and_line then 0xC000 else 0x8000) \<and> field16 w 6 7 \<noteq> 3 \<and> field16 w 6 7 \<noteq> 7 \<and>
              m68k_classify_primary_word w = Class_legal")
  case False
  then show ?thesis by (auto simp: decode_register_logical_def claim_good_def Let_def split: if_splits)
next
  case True
  then have c: "w AND 0xF000 = (if and_line then 0xC000 else 0x8000)" "m68k_classify_primary_word w = Class_legal"
    "field16 w 6 7 \<noteq> 3" "field16 w 6 7 \<noteq> 7" by auto
  have n: "\<not> (w AND 0xF1F0 = 0xC100 \<or> w AND 0xF1F0 = 0x8100)"
    "\<not> (w AND 0xF1F8 = 0xC140 \<or> w AND 0xF1F8 = 0xC148 \<or> w AND 0xF1F8 = 0xC188)"
    using assms(2,3) by (auto simp: m68k_decode_general_bcd_pair_def m68k_decode_general_exg_def Let_def split: if_splits)
  have o: "4 \<le> field16 w 6 7" if "\<not> field16 w 6 7 \<le> 2" using that c(3) by (auto simp: word_bits)
  note F = and_or_forward [OF c(1,2)] and R = and_or_reverse [OF c(1,2) n _ c(4)]
  have p: "field16 w 6 7 \<le> 2 \<Longrightarrow> field_permitted (field16 w 3 7) (field16 w 0 7) m68k_ea_and_or_source"
    "\<not> field16 w 6 7 \<le> 2 \<Longrightarrow> field_permitted (field16 w 3 7) (field16 w 0 7) m68k_ea_and_or_reverse_destination"
    using F(1) R(1) o unfolding permitted_more by auto
  show ?thesis
    unfolding decode_register_logical_def Let_def
    using assms(1) c p F(2) R(2) o
    by (intro m68k_good; simp add: has_indexed_def)
qed

lemma line_b_class:
  assumes "w AND 0xF000 = 0xB000" "m68k_classify_primary_word w = Class_legal" "4 \<le> field16 w 6 7" "field16 w 6 7 \<le> 6"
    and "w AND 0xC0 \<noteq> 0xC0 \<longrightarrow> w AND 0xF138 \<noteq> 0xB108"
  shows "ea_data_alterable (drop_bit 3 w AND 7) (drop_bit 0 w AND 7)" "opcode_kind w = K_eor"
proof -
  have l: "drop_bit 12 w = 11" using assms(1) by (simp add: word_bits)
  have o: "drop_bit 6 w AND 7 = 4 \<or> drop_bit 6 w AND 7 = 5 \<or> drop_bit 6 w AND 7 = 6" "w AND 0xC0 \<noteq> 0xC0"
    using assms(3,4) by (auto simp: word_bits)
  have m: "drop_bit 3 w AND 7 \<noteq> 1" using assms(1,3,5) o(2) by (auto simp: word_bits)
  show "ea_data_alterable (drop_bit 3 w AND 7) (drop_bit 0 w AND 7)"
    using assms(2) l o m by (auto simp: m68k_classify_primary_word_def Let_def verdict_legal line_b_legal_def)
  show "opcode_kind w = K_eor" using l o m by (auto simp: opcode_kind_def line_b_kind_def Let_def)
qed

lemma eor_good:
  assumes "10 \<le> cx_available cx" "m68k_decode_general_extended_pair cx w = None"
  shows "claim_good cx w (decode_register_logical cx w 0xB000 K_eor True)"
proof (cases "w AND 0xF000 = 0xB000 \<and> 4 \<le> field16 w 6 7 \<and> field16 w 6 7 \<le> 6 \<and> m68k_classify_primary_word w = Class_legal")
  case False
  then show ?thesis by (auto simp: decode_register_logical_def claim_good_def Let_def not_less not_le split: if_splits)
next
  case True
  have n: "w AND 0xC0 \<noteq> 0xC0 \<longrightarrow> w AND 0xF138 \<noteq> 0xB108"
    using assms(2) by (auto simp: m68k_decode_general_extended_pair_def Let_def split: if_splits)
  have c: "w AND 0xF000 = 0xB000" "m68k_classify_primary_word w = Class_legal" "4 \<le> field16 w 6 7" "field16 w 6 7 \<le> 6"
    using True by auto
  note M = line_b_class [OF c n]
  have p: "field_permitted (field16 w 3 7) (field16 w 0 7) m68k_ea_eor_destination" "\<not> field16 w 6 7 \<le> 2"
    using M(1) permitted_category(2) [of w 3 0] c(3) by (auto simp: m68k_ea_eor_destination_def word_bits)
  show ?thesis
    unfolding decode_register_logical_def Let_def
    using assms(1) c p M(2)
    by (intro m68k_good; simp add: has_indexed_def)
qed

lemma claim_good_first [m68k_good]:
  "claim_good cx w c \<Longrightarrow> (c = None \<Longrightarrow> claim_good cx w (first_claim cs)) \<Longrightarrow> claim_good cx w (first_claim (c # cs))"
  by (cases c) (simp_all add: claim_good_def)

lemma claim_good_first_Nil [m68k_good]: "claim_good cx w (first_claim [])"
  by (simp add: claim_good_def)

lemma logical_good:
  assumes "10 \<le> cx_available cx" "m68k_decode_general_bcd_pair cx w = None" "m68k_decode_general_exg cx w = None"
    "m68k_decode_general_extended_pair cx w = None"
  shows "claim_good cx w (m68k_decode_general_logical cx w)"
  unfolding m68k_decode_general_logical_def
  using decode_register_logical_good [OF assms(1-3), of True] decode_register_logical_good [OF assms(1-3), of False]
    eor_good [OF assms(1,4)] status_logical_good [OF assms(1)] multiply_divide_good [OF assms(1)]
    ordinary_immediate_good [OF assms(1)]
  by (intro claim_good_first claim_good_first_Nil; simp)

lemma line0_bit_class:
  assumes "w AND 0xF000 = 0" "m68k_classify_primary_word w = Class_legal" "drop_bit 3 w AND 7 \<noteq> 1 \<or> w AND 0x0100 = 0"
    and "w AND 0x0100 \<noteq> 0 \<or> w AND 0x0F00 = 0x0800"
  shows "drop_bit 6 w AND 3 \<noteq> 0 \<Longrightarrow> ea_data_alterable (drop_bit 3 w AND 7) (drop_bit 0 w AND 7)"
    "ea_data (drop_bit 3 w AND 7) (drop_bit 0 w AND 7)"
    "w AND 0x0100 = 0 \<Longrightarrow> drop_bit 6 w AND 3 = 0 \<Longrightarrow> \<not> (drop_bit 3 w AND 7 = 7 \<and> drop_bit 0 w AND 7 = 4)"
    "opcode_kind w = bit_kind (drop_bit 6 w AND 3)"
proof -
  have l: "drop_bit 12 w = 0" using assms(1) by (simp add: word_bits)
  have o: "w AND 0x0100 = 0 \<Longrightarrow> drop_bit 9 w AND 7 = 4" using assms(1,4) by (auto simp: word_bits)
  have b: "bit w 8 \<longleftrightarrow> w AND 0x0100 \<noteq> 0" by (simp add: word_bits)
  have da: "ea_data_alterable m r \<Longrightarrow> ea_data m r" for m r
    by (auto simp: category_defs word_le_nat_alt)
  have L: "line0_legal w (drop_bit 3 w AND 7) (w AND 7)"
    using assms(2) l by (simp add: m68k_classify_primary_word_def Let_def verdict_legal)
  show "drop_bit 6 w AND 3 \<noteq> 0 \<Longrightarrow> ea_data_alterable (drop_bit 3 w AND 7) (drop_bit 0 w AND 7)"
    "ea_data (drop_bit 3 w AND 7) (drop_bit 0 w AND 7)"
    "w AND 0x0100 = 0 \<Longrightarrow> drop_bit 6 w AND 3 = 0 \<Longrightarrow> \<not> (drop_bit 3 w AND 7 = 7 \<and> drop_bit 0 w AND 7 = 4)"
    using L o assms(3) da by (auto simp: line0_legal_def Let_def split: if_splits)
  show "opcode_kind w = bit_kind (drop_bit 6 w AND 3)"
    using l o b assms(3) by (auto simp: opcode_kind_def line0_kind_def Let_def)
qed

lemma bit_field_eq: "field16 w 6 3 = 0 \<longleftrightarrow> drop_bit 6 w AND 3 = 0" "field16 w 6 3 = 1 \<longleftrightarrow> drop_bit 6 w AND 3 = 1"
  "field16 w 6 3 = 2 \<longleftrightarrow> drop_bit 6 w AND 3 = 2"
  by (simp_all add: word_bits)

lemma bit_dynamic:
  assumes "w AND 0xF1C0 = 0x0100 \<or> w AND 0xF1C0 = 0x0140 \<or> w AND 0xF1C0 = 0x0180 \<or> w AND 0xF1C0 = 0x01C0"
  shows "w AND 0xF000 = 0" "w AND 0x0100 \<noteq> 0"
    "field16 w 6 7 = 4 \<longleftrightarrow> drop_bit 6 w AND 3 = 0" "field16 w 6 7 = 5 \<longleftrightarrow> drop_bit 6 w AND 3 = 1"
    "field16 w 6 7 = 6 \<longleftrightarrow> drop_bit 6 w AND 3 = 2" "field16 w 6 7 = 7 \<longleftrightarrow> drop_bit 6 w AND 3 = 3"
  using assms by (auto simp: word_bits)

lemma bit_static: "w AND 0xFF00 = 0x0800 \<Longrightarrow> w AND 0xF000 = 0 \<and> w AND 0x0100 = 0 \<and> w AND 0x0F00 = (0x0800 :: u16)"
  by (simp add: word_bits)

lemma bit_operation_good:
  assumes a: "10 \<le> cx_available cx" and m: "w AND 0xF138 \<noteq> 0x0108"
  shows "claim_good cx w (m68k_decode_general_bit_operation cx w)"
proof (cases "m68k_classify_primary_word w = Class_legal")
  case False
  then show ?thesis by (simp add: claim_good_def)
next
  case legal: True
  let ?sz = "drop_bit 6 w AND 3"
  show ?thesis
  proof (cases "w AND 0xF1C0 = 0x0100 \<or> w AND 0xF1C0 = 0x0140 \<or> w AND 0xF1C0 = 0x0180 \<or> w AND 0xF1C0 = 0x01C0")
    case True
    note D = bit_dynamic [OF True]
    have nm: "drop_bit 3 w AND 7 \<noteq> 1 \<or> w AND 0x0100 = 0" using m D(1,2) by (auto simp: word_bits)
    note M = line0_bit_class [OF D(1) legal nm disjI1 [OF D(2)]]
    have p: "field_permitted (field16 w 3 7) (field16 w 0 7) m68k_ea_bit_test_dynamic_destination"
      "?sz \<noteq> 0 \<Longrightarrow> field_permitted (field16 w 3 7) (field16 w 0 7) m68k_ea_bit_modify_destination"
      using M(1,2) permitted_category(2) [of w 3 0] by (simp_all add: permitted_more m68k_ea_bit_modify_destination_def)
    show ?thesis
      unfolding m68k_decode_general_bit_operation_def Let_def
      using a True D(3-6) p M(4)
      by (simp; intro m68k_good conjI impI; simp add: bit_kind_def mk_ea_def)
  next
    case dyn: False
    show ?thesis
    proof (cases "w AND 0xFF00 = 0x0800")
      case False
      with dyn show ?thesis by (simp add: m68k_decode_general_bit_operation_def Let_def claim_good_def)
    next
      case True
      note B = bit_static [OF True]
      have M: "?sz \<noteq> 0 \<Longrightarrow> ea_data_alterable (drop_bit 3 w AND 7) (drop_bit 0 w AND 7)"
        "ea_data (drop_bit 3 w AND 7) (drop_bit 0 w AND 7)"
        "?sz = 0 \<Longrightarrow> \<not> (drop_bit 3 w AND 7 = 7 \<and> drop_bit 0 w AND 7 = 4)"
        "opcode_kind w = bit_kind ?sz"
        using line0_bit_class [of w] B legal by auto
      have p: "?sz = 0 \<Longrightarrow> field_permitted (field16 w 3 7) (field16 w 0 7) m68k_ea_bit_test_destination"
        "?sz \<noteq> 0 \<Longrightarrow> field_permitted (field16 w 3 7) (field16 w 0 7) m68k_ea_bit_modify_destination"
        "field_permitted (field16 w 3 7) (field16 w 0 7) m68k_ea_bit_test_dynamic_destination"
        using M(1-3) permitted_category(2) [of w 3 0] unfolding permitted_more m68k_ea_bit_modify_destination_def by auto
      show ?thesis
        unfolding m68k_decode_general_bit_operation_def Let_def
        using a True dyn p M(4)
        by (simp add: bit_field_eq; intro m68k_good conjI impI;
          simp add: bit_kind_def field_permitted_const indexed_field_def mask_val)
    qed
  qed
qed

section \<open>Which words are claimed\<close>

lemma move_None [simp]: "m68k_decode_general_move cx w = None \<longleftrightarrow> w AND 0xC000 \<noteq> 0 \<or> field16 w 12 3 = 0"
  by (auto simp: m68k_decode_general_move_def m68k_size_from_move_field_def word_bits Let_def split: if_splits)

lemma move_to_sr_None [simp]: "m68k_decode_general_move_to_sr cx w = None \<longleftrightarrow> w AND 0xFFC0 \<noteq> 0x46C0"
  by (auto simp: m68k_decode_general_move_to_sr_def Let_def split: if_splits)

lemma move_from_sr_None [simp]: "m68k_decode_general_move_from_sr cx w = None \<longleftrightarrow> w AND 0xFFC0 \<noteq> 0x40C0"
  by (auto simp: m68k_decode_general_move_from_sr_def Let_def split: if_splits)

lemma move_to_ccr_None [simp]: "m68k_decode_general_move_to_ccr cx w = None \<longleftrightarrow> w AND 0xFFC0 \<noteq> 0x44C0"
  by (auto simp: m68k_decode_general_move_to_ccr_def Let_def split: if_splits)

lemma clr_None [simp]: "m68k_decode_general_clr cx w = None \<longleftrightarrow> w AND 0xFF00 \<noteq> 0x4200 \<or> w AND 0xC0 = 0xC0"
  by (auto simp: m68k_decode_general_clr_def Let_def split: if_splits)

lemma not_None [simp]: "m68k_decode_general_not cx w = None \<longleftrightarrow> w AND 0xFF00 \<noteq> 0x4600 \<or> w AND 0xC0 = 0xC0"
  by (auto simp: m68k_decode_general_not_def Let_def split: if_splits)

lemma negate_word_None [simp]: "m68k_decode_general_negate_word cx w = None \<longleftrightarrow> w AND 0xFF00 \<noteq> 0x4400 \<or> w AND 0xC0 = 0xC0"
  by (auto simp: m68k_decode_general_negate_word_def Let_def split: if_splits)

lemma negx_None [simp]: "m68k_decode_general_negx cx w = None \<longleftrightarrow> w AND 0xFF00 \<noteq> 0x4000 \<or> w AND 0xC0 = 0xC0"
  by (auto simp: m68k_decode_general_negx_def Let_def split: if_splits)

lemma nbcd_None [simp]: "m68k_decode_general_nbcd cx w = None \<longleftrightarrow> w AND 0xFFC0 \<noteq> 0x4800"
  by (auto simp: m68k_decode_general_nbcd_def Let_def split: if_splits)

lemma bcd_pair_None [simp]: "m68k_decode_general_bcd_pair cx w = None \<longleftrightarrow> w AND 0xF1F0 \<noteq> 0xC100 \<and> w AND 0xF1F0 \<noteq> 0x8100"
  by (auto simp: m68k_decode_general_bcd_pair_def Let_def split: if_splits)

lemma tas_None [simp]: "m68k_decode_general_tas cx w = None \<longleftrightarrow> w AND 0xFFC0 \<noteq> 0x4AC0"
  by (auto simp: m68k_decode_general_tas_def Let_def split: if_splits)

lemma exg_None [simp]: "m68k_decode_general_exg cx w = None \<longleftrightarrow> w AND 0xF1F8 \<noteq> 0xC140 \<and> w AND 0xF1F8 \<noteq> 0xC148 \<and> w AND 0xF1F8 \<noteq> 0xC188"
  by (auto simp: m68k_decode_general_exg_def Let_def split: if_splits)

lemma movep_None [simp]: "m68k_decode_general_movep cx w = None \<longleftrightarrow> w AND 0xF138 \<noteq> 0x0108"
  by (auto simp: m68k_decode_general_movep_def Let_def split: if_splits)

lemma scc_None [simp]: "m68k_decode_general_scc cx w = None \<longleftrightarrow> w AND 0xF0C0 \<noteq> 0x50C0 \<or> field16 w 3 7 = 1"
  by (auto simp: m68k_decode_general_scc_def Let_def split: if_splits)

lemma extended_pair_None [simp]: "m68k_decode_general_extended_pair cx w = None \<longleftrightarrow> w AND 0xC0 = 0xC0 \<or> w AND 0xF130 \<noteq> 0xD100 \<and> w AND 0xF130 \<noteq> 0x9100 \<and> w AND 0xF138 \<noteq> 0xB108"
  by (auto simp: m68k_decode_general_extended_pair_def Let_def split: if_splits)

lemma swap_ext_None [simp]: "m68k_decode_general_swap_ext cx w = None \<longleftrightarrow> w AND 0xFFF8 \<noteq> 0x4840 \<and> w AND 0xFFF8 \<noteq> 0x4880 \<and> w AND 0xFFF8 \<noteq> 0x48C0"
  by (auto simp: m68k_decode_general_swap_ext_def Let_def split: if_splits)

lemma pea_None [simp]: "m68k_decode_general_pea cx w = None \<longleftrightarrow> w AND 0xFFC0 \<noteq> 0x4840"
  by (auto simp: m68k_decode_general_pea_def Let_def split: if_splits)

lemma lea_None [simp]: "m68k_decode_general_lea cx w = None \<longleftrightarrow> w AND 0xF1C0 \<noteq> 0x41C0"
  by (auto simp: m68k_decode_general_lea_def Let_def split: if_splits)

lemma jmp_None [simp]: "m68k_decode_general_jmp cx w = None \<longleftrightarrow> w AND 0xFFC0 \<noteq> 0x4EC0"
  by (auto simp: m68k_decode_general_jmp_def Let_def split: if_splits)

lemma jsr_None [simp]: "m68k_decode_general_jsr cx w = None \<longleftrightarrow> w AND 0xFFC0 \<noteq> 0x4E80"
  by (auto simp: m68k_decode_general_jsr_def Let_def split: if_splits)

lemma link_unlk_None [simp]: "m68k_decode_general_link_unlk cx w = None \<longleftrightarrow> w AND 0xFFF8 \<noteq> 0x4E58 \<and> w AND 0xFFF8 \<noteq> 0x4E50"
  by (auto simp: m68k_decode_general_link_unlk_def Let_def split: if_splits)

lemma branch_None [simp]: "m68k_decode_general_branch cx w = None \<longleftrightarrow> w AND 0xF000 \<noteq> 0x6000 \<or> field16 w 8 15 = 1"
  by (auto simp: m68k_decode_general_branch_def Let_def split: if_splits)

lemma bsr_None [simp]: "m68k_decode_general_bsr cx w = None \<longleftrightarrow> w AND 0xFF00 \<noteq> 0x6100"
  by (auto simp: m68k_decode_general_bsr_def Let_def split: if_splits)

lemma dbcc_None [simp]: "m68k_decode_general_dbcc cx w = None \<longleftrightarrow> w AND 0xF0F8 \<noteq> 0x50C8"
  by (auto simp: m68k_decode_general_dbcc_def Let_def split: if_splits)

lemma movem_None [simp]: "m68k_decode_general_movem cx w = None \<longleftrightarrow> w AND 0xFB80 \<noteq> 0x4880"
  by (auto simp: m68k_decode_general_movem_def Let_def split: if_splits)

lemma shift_rotate_None [simp]: "m68k_decode_general_shift_rotate cx w = None \<longleftrightarrow> w AND 0xF000 \<noteq> 0xE000 \<or> w AND 0x00C0 = 0x00C0"
  by (auto simp: m68k_decode_general_shift_rotate_def shift_rotate_kind_def field16_3 tri_eq Let_def split: if_splits)

lemma shift_rotate_memory_None [simp]:
  "m68k_decode_general_shift_rotate_memory cx w = None \<longleftrightarrow> w AND 0xF0C0 \<noteq> 0xE0C0 \<or> bit w 11"
  by (auto simp: m68k_decode_general_shift_rotate_memory_def shift_rotate_kind_def field16_7 tri_eq Let_def split: if_splits)

lemma add_None:
  "m68k_decode_general_add cx w = None \<Longrightarrow> w AND 0xF000 \<noteq> 0xD000"
  "m68k_decode_general_add cx w = None \<Longrightarrow> w AND 0xC0 \<noteq> 0xC0 \<Longrightarrow> w AND 0xFF00 \<noteq> 0x0600"
  "m68k_decode_general_add cx w = None \<Longrightarrow> w AND 0xC0 \<noteq> 0xC0 \<Longrightarrow> w AND 0xF100 = 0x5000 \<Longrightarrow> field16 w 3 7 = 1 \<and> drop_bit 6 w AND 3 = 0"
  by (auto simp: m68k_decode_general_add_def m68k_size_from_tst_clr_field_def word_bits Let_def split: if_splits)

lemma subtract_None:
  "m68k_decode_general_subtract cx w = None \<Longrightarrow> w AND 0xF000 \<noteq> 0x9000"
  "m68k_decode_general_subtract cx w = None \<Longrightarrow> w AND 0xC0 \<noteq> 0xC0 \<Longrightarrow> w AND 0xFF00 \<noteq> 0x0400"
  "m68k_decode_general_subtract cx w = None \<Longrightarrow> w AND 0xC0 \<noteq> 0xC0 \<Longrightarrow> w AND 0xF100 = 0x5100 \<Longrightarrow> field16 w 3 7 = 1 \<and> drop_bit 6 w AND 3 = 0"
  by (auto simp: m68k_decode_general_subtract_def m68k_size_from_tst_clr_field_def word_bits Let_def split: if_splits)

lemma compare_None:
  "m68k_decode_general_compare cx w = None \<Longrightarrow> w AND 0xF000 = 0xB000 \<Longrightarrow> 4 \<le> field16 w 6 7 \<and> field16 w 6 7 \<le> 6"
  "m68k_decode_general_compare cx w = None \<Longrightarrow> w AND 0xC0 \<noteq> 0xC0 \<Longrightarrow> w AND 0xFF00 \<noteq> 0x0C00"
  by (auto simp: m68k_decode_general_compare_def word_bits Let_def split: if_splits)

lemma first_claim_None: "first_claim cs = None \<longleftrightarrow> list_all (\<lambda>c. c = None) cs"
  by (induction cs rule: first_claim.induct) auto

lemma register_logical_None:
  "decode_register_logical cx w f k e = None \<Longrightarrow> w AND 0xF000 = f \<Longrightarrow>
   (if e then field16 w 6 7 < 4 \<or> 6 < field16 w 6 7 else field16 w 6 7 = 3 \<or> field16 w 6 7 = 7)"
  by (auto simp: decode_register_logical_def Let_def word_bits split: if_splits)

lemma logical_None:
  assumes "m68k_decode_general_logical cx w = None"
  shows "w AND 0xC0 \<noteq> 0xC0 \<Longrightarrow> w AND 0xFF00 \<noteq> 0x0200" "w AND 0xC0 \<noteq> 0xC0 \<Longrightarrow> w AND 0xFF00 \<noteq> 0"
    "w AND 0xC0 \<noteq> 0xC0 \<Longrightarrow> w AND 0xFF00 \<noteq> 0x0A00"
    "w AND 0xF000 \<noteq> 0xC000" "w AND 0xF000 \<noteq> 0x8000"
    "w AND 0xF000 = 0xB000 \<Longrightarrow> field16 w 6 7 < 4 \<or> 6 < field16 w 6 7"
proof -
  note N = assms [unfolded m68k_decode_general_logical_def first_claim_None]
  from N have "ordinary_immediate cx w 0x0200 K_andi = None" "ordinary_immediate cx w 0 K_ori = None"
    "ordinary_immediate cx w 0x0A00 K_eori = None" by simp_all
  then show "w AND 0xC0 \<noteq> 0xC0 \<Longrightarrow> w AND 0xFF00 \<noteq> 0x0200" "w AND 0xC0 \<noteq> 0xC0 \<Longrightarrow> w AND 0xFF00 \<noteq> 0"
    "w AND 0xC0 \<noteq> 0xC0 \<Longrightarrow> w AND 0xFF00 \<noteq> 0x0A00"
    by (auto simp: ordinary_immediate_def Let_def split: if_splits)
  from N have R: "decode_register_logical cx w 0xC000 K_logical_and False = None" "decode_register_logical cx w 0x8000 K_logical_or False = None"
    "decode_register_logical cx w 0xB000 K_eor True = None" by simp_all
  from N have M: "w AND 0xF1C0 \<noteq> 0xC1C0" "w AND 0xF1C0 \<noteq> 0xC0C0" "w AND 0xF1C0 \<noteq> 0x81C0" "w AND 0xF1C0 \<noteq> 0x80C0"
    by (auto simp: multiply_divide_def split: if_splits)
  show "w AND 0xF000 \<noteq> 0xC000"
    using register_logical_None [OF R(1)] M(1,2) by (auto simp: word_bits)
  show "w AND 0xF000 \<noteq> 0x8000"
    using register_logical_None [OF R(2)] M(3,4) by (auto simp: word_bits)
  show "w AND 0xF000 = 0xB000 \<Longrightarrow> field16 w 6 7 < 4 \<or> 6 < field16 w 6 7"
    using register_logical_None [OF R(3)] by simp
qed

lemma bit_operation_None:
  "m68k_decode_general_bit_operation cx w = None \<Longrightarrow> w AND 0xFF00 \<noteq> 0x0800"
  "m68k_decode_general_bit_operation cx w = None \<Longrightarrow> w AND 0xF100 \<noteq> 0x0100"
  by (auto simp: m68k_decode_general_bit_operation_def Let_def word_bits split: if_splits)

section \<open>The decoders in order\<close>

lemma after_claims:
  assumes "10 \<le> cx_available cx"
  shows "m68k_decode_general_swap_ext cx w = None \<Longrightarrow> claim_good cx w (m68k_decode_general_pea cx w)"
    "m68k_decode_general_swap_ext cx w = None \<Longrightarrow> claim_good cx w (m68k_decode_general_movem cx w)"
    "m68k_decode_general_extended_pair cx w = None \<Longrightarrow> claim_good cx w (m68k_decode_general_add cx w)"
    "m68k_decode_general_extended_pair cx w = None \<Longrightarrow> claim_good cx w (m68k_decode_general_subtract cx w)"
    "m68k_decode_general_movep cx w = None \<Longrightarrow> claim_good cx w (m68k_decode_general_bit_operation cx w)"
  using assms by (auto intro: pea_good movem_good add_good subtract_good bit_operation_good)

lemma general_forms_good:
  assumes "10 \<le> cx_available cx" "w \<noteq> 0x4AFC"
  shows "claim_good cx w (general_forms cx w)"
  unfolding general_forms_def
  by (insert assms, intro claim_good_first claim_good_first_Nil;
    (rule move_good extended_pair_good bcd_pair_good exg_good compare_good after_claims
      logical_good clr_good not_good negate_word_good negx_good nbcd_good tas_good move_to_sr_good
      move_from_sr_good move_to_ccr_good swap_ext_good link_unlk_good movep_good
      branch_good bsr_good dbcc_good scc_good shift_rotate_good shift_rotate_memory_good
      lea_good jmp_good jsr_good); assumption)

section \<open>Every legal word is claimed\<close>

lemma general_None:
  assumes "general_forms cx w = None"
  shows "m68k_decode_general_move cx w = None" "m68k_decode_general_extended_pair cx w = None"
    "m68k_decode_general_bcd_pair cx w = None" "m68k_decode_general_exg cx w = None"
    "m68k_decode_general_compare cx w = None" "m68k_decode_general_add cx w = None"
    "m68k_decode_general_subtract cx w = None" "m68k_decode_general_logical cx w = None"
    "m68k_decode_general_clr cx w = None" "m68k_decode_general_not cx w = None"
    "m68k_decode_general_negate_word cx w = None" "m68k_decode_general_negx cx w = None"
    "m68k_decode_general_nbcd cx w = None" "m68k_decode_general_tas cx w = None"
    "m68k_decode_general_move_to_sr cx w = None" "m68k_decode_general_move_from_sr cx w = None"
    "m68k_decode_general_move_to_ccr cx w = None" "m68k_decode_general_swap_ext cx w = None"
    "m68k_decode_general_pea cx w = None" "m68k_decode_general_link_unlk cx w = None"
    "m68k_decode_general_movep cx w = None" "m68k_decode_general_bit_operation cx w = None"
    "m68k_decode_general_branch cx w = None" "m68k_decode_general_bsr cx w = None"
    "m68k_decode_general_dbcc cx w = None" "m68k_decode_general_scc cx w = None"
    "m68k_decode_general_movem cx w = None" "m68k_decode_general_shift_rotate cx w = None"
    "m68k_decode_general_shift_rotate_memory cx w = None" "m68k_decode_general_lea cx w = None"
    "m68k_decode_general_jmp cx w = None" "m68k_decode_general_jsr cx w = None"
  using assms [unfolded general_forms_def first_claim_None list.pred_inject] by blast+

lemma legal_line:
  assumes "m68k_classify_primary_word w = Class_legal"
  shows "drop_bit 12 w = 0 \<Longrightarrow> line0_legal w (drop_bit 3 w AND 7) (w AND 7)"
    "drop_bit 12 w = 4 \<Longrightarrow> line4_legal w (drop_bit 3 w AND 7) (w AND 7)"
    "drop_bit 12 w = 5 \<Longrightarrow> line5_legal w (drop_bit 3 w AND 7) (w AND 7)"
    "drop_bit 12 w = 7 \<Longrightarrow> w AND 0x0100 = 0"
    "drop_bit 12 w = 14 \<Longrightarrow> line_e_legal w (drop_bit 3 w AND 7) (w AND 7)"
    "drop_bit 12 w \<noteq> 10" "drop_bit 12 w \<noteq> 15"
  using assms by (auto simp: m68k_classify_primary_word_def Let_def split: if_splits)

lemma line0_claimed:
  assumes "general_forms cx w = None" "m68k_classify_primary_word w = Class_legal"
  shows "drop_bit 12 w \<noteq> 0"
proof
  assume l: "drop_bit 12 w = 0"
  note L = legal_line(1) [OF assms(2) l] and N = general_None [OF assms(1)]
  have hi: "\<not> bit w 12" "\<not> bit w 13" "\<not> bit w 14" "\<not> bit w 15" using l by (simp_all add: word_bits)
  have b8: "\<not> bit w 8" using bit_operation_None(2) [OF N(22)] hi by (simp add: word_bits)
  have "w AND 0x0100 = 0" using b8 by (simp add: word_bits)
  then have s: "drop_bit 6 w AND 3 \<noteq> 3 \<or> drop_bit 9 w AND 7 = 4" "drop_bit 9 w AND 7 \<noteq> 7"
    using L by (auto simp: line0_legal_def Let_def split: if_splits)
  have o: "drop_bit 9 w AND 7 \<noteq> 4" using bit_operation_None(1) [OF N(22)] hi b8 by (auto simp: word_bits)
  show False
    using s o hi b8 add_None(2) [OF N(6)] subtract_None(2) [OF N(7)] logical_None(1-3) [OF N(8)] compare_None(2) [OF N(5)]
    by (auto simp: word_bits)
qed

lemma line4_claimed:
  assumes "general_forms cx w = None" "m68k_classify_primary_word w = Class_legal" "drop_bit 12 w = 4"
    "w AND 0xF1C0 \<noteq> 0x4180" "w AND 0xFF00 = 0x4A00 \<longrightarrow> w AND 0xC0 = 0xC0"
  shows "w AND 0xFFC0 = 0x4E40"
proof -
  note L = legal_line(2) [OF assms(2,3)] and N = general_None [OF assms(1)]
  have hi: "\<not> bit w 12" "\<not> bit w 13" "bit w 14" "\<not> bit w 15" using assms(3) by (simp_all add: word_bits)
  have "w AND 0x0100 \<noteq> 0 \<Longrightarrow> drop_bit 6 w AND 3 = 3 \<or> drop_bit 6 w AND 3 = 2"
    using L by (auto simp: line4_legal_def Let_def split: if_splits)
  then have b8: "\<not> bit w 8" using assms(4) N(30) [simplified] hi by (auto simp: word_bits)
  then have z: "w AND 0x0100 = 0" by (simp add: word_bits)
  have L1: "drop_bit 9 w AND 7 = 1 \<longrightarrow> drop_bit 6 w AND 3 \<noteq> 3"
    "drop_bit 9 w AND 7 = 6 \<longrightarrow> \<not> drop_bit 6 w AND 3 < 2"
    "drop_bit 9 w AND 7 = 7 \<longrightarrow> drop_bit 6 w AND 3 \<noteq> 0"
    using L z by (auto simp: line4_legal_def Let_def split: if_splits)
  note rules = word_bits hi b8
  note F = L1 [simplified word_bits, simplified, simplified hi b8 simp_thms]
    N(9,10,11,12,13,14,15,16,17,18,19,27,31,32) [simplified, simplified word_bits, simplified, simplified hi b8 simp_thms]
    assms(5) [simplified word_bits, simplified, simplified hi b8 simp_thms]
  have "w AND 0xFFC0 = 0x4E40 \<longleftrightarrow> bit w 11 \<and> bit w 10 \<and> bit w 9 \<and> \<not> bit w 7 \<and> bit w 6"
    by (auto simp: rules)
  with F show ?thesis
    by satx
qed

lemma line5_claimed:
  assumes "general_forms cx w = None" "m68k_classify_primary_word w = Class_legal"
  shows "drop_bit 12 w \<noteq> 5"
proof
  assume l: "drop_bit 12 w = 5"
  note L = legal_line(3) [OF assms(2) l] and N = general_None [OF assms(1)]
  have hi: "bit w 12" "\<not> bit w 13" "bit w 14" "\<not> bit w 15" using l by (simp_all add: word_bits)
  have s: "w AND 0xC0 \<noteq> 0xC0" using N(25,26) hi by (auto simp: word_bits)
  have m: "drop_bit 3 w AND 7 = 1 \<Longrightarrow> drop_bit 6 w AND 3 \<noteq> 0"
    using L by (auto simp: line5_legal_def Let_def split: if_splits)
  show False
    using s m hi add_None(3) [OF N(6)] subtract_None(3) [OF N(7)]
    by (cases "bit w 8"; auto simp: word_bits)
qed

lemma other_lines_claimed:
  assumes "general_forms cx w = None" "m68k_classify_primary_word w = Class_legal"
  shows "drop_bit 12 w = 4 \<or> drop_bit 12 w = 7"
proof -
  note L = legal_line [OF assms(2)] and N = general_None [OF assms(1)]
  have "drop_bit 12 w \<noteq> 0" "drop_bit 12 w \<noteq> 5" using line0_claimed line5_claimed assms by auto
  moreover have "drop_bit 12 w \<noteq> 1 \<and> drop_bit 12 w \<noteq> 2 \<and> drop_bit 12 w \<noteq> 3" using N(1) by (auto simp: word_bits)
  moreover have "drop_bit 12 w \<noteq> 6" using N(23,24) by (auto simp: word_bits)
  moreover have "drop_bit 12 w \<noteq> 8 \<and> drop_bit 12 w \<noteq> 12" using logical_None(4,5) [OF N(8)] by (auto simp: word_bits)
  moreover have "drop_bit 12 w \<noteq> 9 \<and> drop_bit 12 w \<noteq> 13" using add_None(1) [OF N(6)] subtract_None(1) [OF N(7)] by (auto simp: word_bits)
  moreover have "drop_bit 12 w \<noteq> 11" using compare_None(1) [OF N(5)] logical_None(6) [OF N(8)] by (auto simp: word_bits)
  moreover have "drop_bit 12 w \<noteq> 14"
  proof
    assume l: "drop_bit 12 w = 14"
    have "drop_bit 6 w AND 3 = 3 \<Longrightarrow> w AND 0x0800 = 0"
      using L(5) [OF l] by (auto simp: line_e_legal_def split: if_splits)
    then show False using N(28,29) l by (auto simp: word_bits)
  qed
  moreover note L(6,7)
  ultimately show ?thesis
    by (cases "bit w 12"; cases "bit w 13"; cases "bit w 14"; cases "bit w 15"; simp add: drop_12 quad_eq)
qed


section \<open>The fixed forms\<close>

lemma select_good: "10 \<le> cx_available cx \<Longrightarrow> len \<le> 10 \<Longrightarrow> kind = kd \<Longrightarrow> good cx w kd (select_kind cx w kind len)"
  by (auto simp: good_def select_kind_def primary_instruction_def instruction_init_def Let_def)

lemma on_decoded_good:
  assumes "10 \<le> cx_available cx" "len \<le> 10" "kind = kd" "\<And>i. di_kind (f i) = di_kind i"
  shows "good cx w kd (on_decoded f (select_kind cx w kind len))"
  using assms by (auto simp: good_def on_decoded_def select_kind_def primary_instruction_def instruction_init_def Let_def)

lemma drop_bit_range:
  "drop_bit k (w :: u16) = c \<longleftrightarrow> unat w div 2 ^ k = unat c"
  unfolding word_unat_eq_iff unat_drop_bit_eq by (simp only: drop_bit_eq_div)

lemma u16_no_bit: "\<not> bit (w :: u16) 16" "\<not> bit w 17" "\<not> bit w 18" "\<not> bit w 19"
  by (auto dest: bit_imp_le_length)

lemma u16_ranges:
  "(w :: u16) \<ge> 0x4E40 \<and> w \<le> 0x4E4F \<longleftrightarrow> w AND 0xFFF0 = 0x4E40"
  "(w :: u16) \<ge> 0x4E60 \<and> w \<le> 0x4E67 \<longleftrightarrow> w AND 0xFFF8 = 0x4E60"
  "(w :: u16) \<ge> 0x4E68 \<and> w \<le> 0x4E6F \<longleftrightarrow> w AND 0xFFF8 = 0x4E68"
proof -
  have "w AND 0xFFF0 = 0x4E40 \<longleftrightarrow> drop_bit 4 w = 0x4E4" "w AND 0xFFF8 = 0x4E60 \<longleftrightarrow> drop_bit 3 w = 0x9CC"
    "w AND 0xFFF8 = 0x4E68 \<longleftrightarrow> drop_bit 3 w = 0x9CD"
    unfolding u16_eq_bits by (simp_all add: bit_and_iff bit_drop_bit_eq u16_no_bit)
  then show "(w :: u16) \<ge> 0x4E40 \<and> w \<le> 0x4E4F \<longleftrightarrow> w AND 0xFFF0 = 0x4E40"
    "(w :: u16) \<ge> 0x4E60 \<and> w \<le> 0x4E67 \<longleftrightarrow> w AND 0xFFF8 = 0x4E60"
    "(w :: u16) \<ge> 0x4E68 \<and> w \<le> 0x4E6F \<longleftrightarrow> w AND 0xFFF8 = 0x4E68"
    unfolding drop_bit_range by (auto simp: word_le_nat_alt)
qed

lemma fixed_kinds:
  "w AND 0xFFF0 = 0x4E40 \<Longrightarrow> opcode_kind w = K_trap"
  "w AND 0xFFF8 = 0x4E60 \<Longrightarrow> opcode_kind w = K_move_an_to_usp"
  "w AND 0xFFF8 = 0x4E68 \<Longrightarrow> opcode_kind w = K_move_usp_to_an"
  "w AND 0xF1C0 = 0x4180 \<Longrightarrow> opcode_kind w = K_chk"
  "w AND 0xFF00 = 0x7000 \<Longrightarrow> opcode_kind w = K_moveq"
  "w AND 0xF100 = 0x7000 \<Longrightarrow> opcode_kind w = K_moveq"
  "opcode_kind 0x4E75 = K_rts" "opcode_kind 0x4E73 = K_rte" "opcode_kind 0x4E71 = K_nop"
  "opcode_kind 0x4E72 = K_stop" "opcode_kind 0x4E76 = K_trapv" "opcode_kind 0x4E77 = K_rtr"
  "opcode_kind 0x4AFC = K_instruction_exception"
  by (simp_all add: kind_defs word_bits)

lemma chk_good:
  assumes "10 \<le> cx_available cx" "w AND 0xF1C0 = 0x4180" "m68k_classify_primary_word w = Class_legal"
  shows "good cx w K_chk (decode_chk cx w)"
proof -
  have "drop_bit 12 w = 4" "w AND 0x0100 \<noteq> 0" "drop_bit 6 w AND 3 = 2" using assms(2) by (simp_all add: word_bits)
  with legal_line(2) [OF assms(3)] have "ea_data (drop_bit 3 w AND 7) (drop_bit 0 w AND 7)" by (simp add: line4_legal_def Let_def)
  then have "field_permitted (field16 w 3 7) (field16 w 0 7) m68k_ea_chk_source"
    using permitted_more(1) [of w 3 0] by (simp add: m68k_ea_chk_source_def m68k_ea_and_or_source_def)
  then show ?thesis
    unfolding decode_chk_def using assms(1) by (intro m68k_good; simp add: has_indexed_def)
qed

lemma exception_forms_good:
  assumes "10 \<le> cx_available cx"
  shows "claim_good cx w (exception_forms cx w)"
  unfolding exception_forms_def Let_def u16_ranges
  using assms
  by (intro claim_good_if claim_good_Some claim_good_None; (elim disjE)?;
    auto intro!: on_decoded_good select_good chk_good simp: fixed_kinds)

lemma stop_good: 
  assumes "10 \<le> cx_available cx"
  shows "good cx w K_stop (with_ea (m68k_decode_one_ea cx 0 7 4 m68k_ea_immediate Width_word) (\<lambda>imm ext.
          Decoded (m68k_finish_general_decode cx K_stop Width_word imm ea_init ext)))"
  using assms by (intro m68k_good) (simp_all add: field_permitted_const mask_val indexed_field_def)

lemma system_forms_good:
  assumes "10 \<le> cx_available cx" "w \<noteq> 0x4E70"
  shows "claim_good cx w (system_forms cx w True)"
  unfolding system_forms_def Let_def u16_ranges simp_thms if_True
  using assms
  by (intro claim_good_if claim_good_Some claim_good_None; (elim conjE)?;
    auto intro!: on_decoded_good select_good stop_good tst_good simp: fixed_kinds)

section \<open>The whole decoder\<close>

lemma legal_claimed:
  assumes "m68k_classify_primary_word w = Class_legal" "exception_forms cx w = None" "system_forms cx w True = None"
  shows "general_forms cx w \<noteq> None"
proof
  assume g: "general_forms cx w = None"
  have e: "w AND 0xFFF0 \<noteq> 0x4E40" "w AND 0xF1C0 \<noteq> 0x4180" "w \<noteq> 0x4E76" "w \<noteq> 0x4E77"
    using assms(1,2) unfolding exception_forms_def Let_def u16_ranges by (auto split: if_splits)
  have s: "w AND 0xF100 \<noteq> 0x7000" "w \<noteq> 0x4E75" "w \<noteq> 0x4E73" "w \<noteq> 0x4E71" "w \<noteq> 0x4E72" "w \<noteq> 0x4E70"
    "w AND 0xFFF8 \<noteq> 0x4E68" "w AND 0xFFF8 \<noteq> 0x4E60" "w AND 0xFF00 = 0x4A00 \<longrightarrow> w AND 0xC0 = 0xC0"
    using assms(3) unfolding system_forms_def Let_def u16_ranges by (auto split: if_splits)
  from other_lines_claimed [OF g assms(1)] show False
  proof
    assume l: "drop_bit 12 w = 7"
    from legal_line(4) [OF assms(1) l] l s(1) show False by (simp add: word_bits)
  next
    assume l: "drop_bit 12 w = 4"
    have b: "w AND 0xFFC0 = 0x4E40" by (rule line4_claimed [OF g assms(1) l e(2) s(9)])
    then have "w AND 0x0100 = 0" "drop_bit 6 w AND 3 = 1" "drop_bit 9 w AND 7 = 7" by (simp_all add: word_bits)
    with legal_line(2) [OF assms(1) l] have r: "w \<le> 0x4E73 \<or> w = 0x4E75 \<or> w = 0x4E76 \<or> w = 0x4E77"
      by (auto simp: line4_legal_def Let_def split: if_splits)
    have "w AND 0xFFF8 \<noteq> 0x4E50" "w AND 0xFFF8 \<noteq> 0x4E58" using general_None(20) [OF g] by auto
    with b e(1) s(7,8) have "w AND 0xFFF0 = 0x4E70" by (auto simp: word_bits)
    then have "unat w div 2 ^ 4 = unat (0x4E7 :: u16)"
      unfolding drop_bit_range [symmetric] u16_eq_bits by (simp add: bit_and_iff bit_drop_bit_eq u16_no_bit)
    with r s e show False by (auto simp: word_le_nat_alt word_unat_eq_iff)
  qed
qed

lemma startup_good:
  assumes "10 \<le> cx_available cx" "m68k_classify_primary_word w = Class_legal" "w \<noteq> 0x4E70"
  shows "\<exists>r. startup_forms cx w Profile_general_startup = Some r \<and> good cx w (opcode_kind w) r"
proof -
  have g: "claim_good cx w (startup_forms cx w Profile_general_startup)"
    unfolding startup_forms_def Let_def simp_thms if_True
    using exception_forms_good [OF assms(1), of w] system_forms_good [OF assms(1,3)] general_forms_good [OF assms(1), of w]
    by (intro claim_good_first claim_good_first_Nil) (auto simp: exception_forms_def claim_good_None Let_def split: if_splits)
  have "startup_forms cx w Profile_general_startup \<noteq> None"
    unfolding startup_forms_def Let_def simp_thms if_True first_claim_None list.pred_inject
    using legal_claimed [OF assms(2), of cx] by blast
  with g assms(2) show ?thesis by (auto simp: claim_good_def)
qed


text \<open>Applied to \<^verbatim>\<open>MOVE.W #$1234,(A0)+\<close>.\<close>

definition move_image :: bytes where
  "move_image = [0x30, 0xFC, 0x12, 0x34, 0, 0, 0, 0, 0, 0]"

definition move_source :: DecodeSource where
  "move_source = \<lparr>ds_cpu_variant = Cpu_mc68000, ds_address = \<lparr>pa_space = m68k_program, pa_value = 0\<rparr>,
                  ds_image_offset = 0\<rparr>"


section \<open>Illegal words\<close>

text \<open>
  C32. A word outside the legal encodings never disappears: with two bytes available the
  \<^verbatim>\<open>general_startup\<close> decoder turns it into an exception instruction with the vector of its class, 4 for
  an illegal word, 10 and 11 for the lines A and F, and a length of two bytes.
\<close>

theorem general_startup_exceptions:
  fixes img :: bytes and source :: DecodeSource
  defines "w \<equiv> read16 img (unat (ds_image_offset source))"
  assumes "ds_cpu_variant source = Cpu_mc68000" "pa_space (ds_address source) = m68k_program"
    "pa_value (ds_address source) AND 1 = 0" "unat (ds_image_offset source) + 2 \<le> length img"
    "m68k_classify_primary_word w \<noteq> Class_legal"
  shows "\<exists>i. decode_m68k_instruction img source Profile_general_startup = Decoded i \<and>
             di_kind i = K_instruction_exception \<and> pv_length (di_provenance i) = 2 \<and>
             di_exception_vector i = (if drop_bit 12 w = 0xA then 10 else if drop_bit 12 w = 0xF then 11 else 4)"
proof -
  let ?cx = "decode_context img source"
  have cx: "cx_offset ?cx = unat (ds_image_offset source)" "2 \<le> cx_available ?cx"
    using assms(5) by (simp_all add: decode_context_def Let_def)
  have v: "m68k_primary_word_exception_vector (m68k_classify_primary_word w) =
      (if drop_bit 12 w = 0xA then 10 else if drop_bit 12 w = 0xF then 11 else 4)"
    using assms(6) unfolding m68k_classify_primary_word_def m68k_primary_word_exception_vector_def Let_def drop_12
    by (cases "bit w 12"; cases "bit w 13"; cases "bit w 14"; cases "bit w 15"; simp add: quad_eq split: if_splits)
  have "m68k_classify_primary_word 0x4AFC = Class_legal" by code_simp
  with assms(6) have n: "w \<noteq> 0x4AFC" by auto
  have "startup_forms ?cx w Profile_general_startup =
      Some (on_decoded (\<lambda>i. i\<lparr>di_exception_vector := m68k_primary_word_exception_vector (m68k_classify_primary_word w)\<rparr>)
              (select_kind ?cx w K_instruction_exception 2))"
    using n assms(6) by (simp add: startup_forms_def exception_forms_def Let_def)
  then show ?thesis
    unfolding decode_m68k_instruction_context Let_def cx(1) w_def [symmetric] using assms(2-4) cx(2) n
    by (simp add: select_kind_def on_decoded_def v)
qed

theorem general_startup_exceptions_witness:
  "\<exists>i. decode_m68k_instruction [0xA0, 0x01] move_source Profile_general_startup = Decoded i \<and>
       di_kind i = K_instruction_exception \<and> pv_length (di_provenance i) = 2 \<and> di_exception_vector i = 10"
proof -
  have w: "read16 [0xA0, 0x01] (unat (ds_image_offset move_source)) = 0xA001"
    by (simp add: move_source_def read16_def)
  have c: "m68k_classify_primary_word 0xA001 \<noteq> Class_legal" by code_simp
  show ?thesis
    using general_startup_exceptions [of move_source "[0xA0, 0x01]", unfolded w] c
    by (simp add: move_source_def)
qed

end
