(* ===== verification/M68k_Alu.thy ===== *)
theory M68k_Alu
  imports M68k_Types
begin

text \<open>
  The MC68000 arithmetic of \<^verbatim>\<open>src/libs/cpu/m68k/include/segarecomp/cpu/m68k/effects.hpp\<close>: the
  \<^verbatim>\<open>evaluate\<close> and \<^verbatim>\<open>apply\<close> members of its specification structs, which the host semantics and the
  constant folding of the analyses call through the functions of \<^verbatim>\<open>effects.cpp\<close>. The result structs
  are records, the status register is a \<open>u16\<close> and values are \<open>u32\<close>, as in the source.
\<close>

section \<open>Results\<close>

datatype M68kExtendFlagPolicy = Extend_preserve | Extend_from_carry

record M68kSubtractionResult =
  sub_result :: u32
  sub_negative :: bool
  sub_zero :: bool
  sub_overflow :: bool
  sub_carry :: bool

record M68kAdditionResult =
  add_result :: u32
  add_negative :: bool
  add_zero :: bool
  add_overflow :: bool
  add_carry :: bool

record M68kLogicalResult =
  log_result :: u32
  log_negative :: bool
  log_zero :: bool

datatype M68kBitOperationKind = Bit_test | Bit_change | Bit_clear | Bit_set

record M68kBitOperationResult =
  bit_result :: u32
  bit_original_set :: bool

record M68kDbccDecrementResult =
  dbcc_updated_register :: u32
  dbcc_expired :: bool

datatype M68kMovemTransferOrder = Order_ascending | Order_predecrement

record M68kShiftRotateResult =
  sr_result :: u32
  sr_negative :: bool
  sr_zero :: bool
  sr_overflow :: bool
  sr_carry :: bool
  sr_extend_written :: bool
  sr_extend_value :: bool

datatype M68kExtendedArithmeticKind = Ext_add | Ext_subtract

record M68kExtendedArithmeticResult =
  ext_result :: u32
  ext_negative :: bool
  ext_overflow :: bool
  ext_carry :: bool

datatype M68kDecimalArithmeticKind = Dec_add | Dec_subtract | Dec_negate

record M68kDecimalArithmeticResult =
  dec_result :: u8
  dec_carry :: bool
  dec_negative :: bool
  dec_overflow :: bool
  dec_clears_zero :: bool

record M68kDivisionResult =
  div_result :: u32
  div_overflow :: bool
  div_negative :: bool
  div_zero :: bool

section \<open>Moves, additions and subtractions\<close>

text \<open>\<^verbatim>\<open>(flag ? bit : 0)\<close>, the shape in which every status register update is written.\<close>

definition flag :: "bool \<Rightarrow> u16 \<Rightarrow> u16" where
  "flag b bit_mask = (if b then bit_mask else 0)"

definition m68k_move_result_ccr :: "u16 \<Rightarrow> u32 \<Rightarrow> u16" where
  "m68k_move_result_ccr status_register result =
     ((status_register AND 0xFFF0) OR flag (result = 0) 0x0004 OR flag (result AND 0x80000000 \<noteq> 0) 0x0008)"

definition width_bits :: "M68kMemoryAccessWidth \<Rightarrow> nat" where
  "width_bits width = (if width = Width_byte then 8 else if width = Width_word then 16 else 32)"

definition m68k_evaluate_subtraction :: "u32 \<Rightarrow> u32 \<Rightarrow> M68kMemoryAccessWidth \<Rightarrow> M68kSubtractionResult" where
  "m68k_evaluate_subtraction source destination width =
     (let bits = width_bits width;
          m = (if bits = 32 then 0xFFFFFFFF else push_bit bits 1 - 1);
          s = source AND m;
          d = destination AND m;
          result = (d - s) AND m;
          sign = push_bit (bits - 1) 1
      in \<lparr>sub_result = result, sub_negative = (result AND sign \<noteq> 0), sub_zero = (result = 0),
          sub_overflow = ((d XOR s) AND (d XOR result) AND sign \<noteq> 0), sub_carry = (s > d)\<rparr>)"

definition m68k_subtraction_ccr ::
  "u16 \<Rightarrow> u32 \<Rightarrow> u32 \<Rightarrow> M68kMemoryAccessWidth \<Rightarrow> M68kExtendFlagPolicy \<Rightarrow> u16" where
  "m68k_subtraction_ccr status_register source destination width policy =
     (let r = m68k_evaluate_subtraction source destination width;
          x_flag = (if policy = Extend_preserve then status_register AND 0x0010 else flag (sub_carry r) 0x0010)
      in (status_register AND 0xFFE0) OR x_flag OR flag (sub_negative r) 0x0008 OR flag (sub_zero r) 0x0004
           OR flag (sub_overflow r) 0x0002 OR flag (sub_carry r) 0x0001)"

definition width_mask :: "M68kMemoryAccessWidth \<Rightarrow> u32" where
  "width_mask width = (if width = Width_byte then 0x000000FF else if width = Width_word then 0x0000FFFF else 0xFFFFFFFF)"

definition width_sign :: "M68kMemoryAccessWidth \<Rightarrow> u32" where
  "width_sign width = (if width = Width_byte then 0x00000080 else if width = Width_word then 0x00008000 else 0x80000000)"

definition m68k_evaluate_addition :: "u32 \<Rightarrow> u32 \<Rightarrow> M68kMemoryAccessWidth \<Rightarrow> M68kAdditionResult" where
  "m68k_evaluate_addition source destination width =
     (let m = width_mask width;
          src = source AND m;
          dst = destination AND m;
          result = (dst + src) AND m;
          s = width_sign width;
          sum = (ucast dst + ucast src :: u64)
      in \<lparr>add_result = result, add_negative = (result AND s \<noteq> 0), add_zero = (result = 0),
          add_overflow = (NOT (dst XOR src) AND (dst XOR result) AND s \<noteq> 0), add_carry = (sum > ucast m)\<rparr>)"

definition m68k_addition_ccr :: "u16 \<Rightarrow> u32 \<Rightarrow> u32 \<Rightarrow> M68kMemoryAccessWidth \<Rightarrow> u16" where
  "m68k_addition_ccr status_register source destination width =
     (let r = m68k_evaluate_addition source destination width
      in (status_register AND 0xFFE0) OR flag (add_carry r) 0x0011 OR flag (add_negative r) 0x0008
           OR flag (add_zero r) 0x0004 OR flag (add_overflow r) 0x0002)"

section \<open>Extended arithmetic\<close>

definition m68k_evaluate_extended_arithmetic ::
  "M68kExtendedArithmeticKind \<Rightarrow> u32 \<Rightarrow> u32 \<Rightarrow> bool \<Rightarrow> M68kMemoryAccessWidth \<Rightarrow> M68kExtendedArithmeticResult" where
  "m68k_evaluate_extended_arithmetic kind source0 destination0 x_in width =
     (let m = width_mask width;
          s = width_sign width;
          source = source0 AND m;
          destination = destination0 AND m;
          x = (if x_in then 1 else 0);
          result = (if kind = Ext_add then destination + source + x else destination - source - x) AND m;
          carry = (if kind = Ext_add
                   then ((source AND destination) OR (NOT result AND destination) OR (source AND NOT result)) AND s \<noteq> 0
                   else ((source AND NOT destination) OR (result AND NOT destination) OR (source AND result)) AND s \<noteq> 0);
          overflow = (if kind = Ext_add
                      then ((source AND destination AND NOT result) OR (NOT source AND NOT destination AND result)) AND s \<noteq> 0
                      else ((NOT source AND destination AND NOT result) OR (source AND NOT destination AND result)) AND s \<noteq> 0)
      in \<lparr>ext_result = result, ext_negative = (result AND s \<noteq> 0), ext_overflow = overflow, ext_carry = carry\<rparr>)"

definition m68k_extended_arithmetic_ccr ::
  "u16 \<Rightarrow> M68kExtendedArithmeticKind \<Rightarrow> u32 \<Rightarrow> u32 \<Rightarrow> M68kMemoryAccessWidth \<Rightarrow> u16" where
  "m68k_extended_arithmetic_ccr status_register kind source destination width =
     (let r = m68k_evaluate_extended_arithmetic kind source destination (status_register AND 0x0010 \<noteq> 0) width;
          zero = (ext_result r = 0 \<and> status_register AND 0x0004 \<noteq> 0)
      in (status_register AND 0xFFE0) OR flag (ext_carry r) 0x0011 OR flag (ext_negative r) 0x0008
           OR flag zero 0x0004 OR flag (ext_overflow r) 0x0002)"

section \<open>Packed decimal arithmetic\<close>

definition m68k_evaluate_decimal_arithmetic ::
  "M68kDecimalArithmeticKind \<Rightarrow> u32 \<Rightarrow> u32 \<Rightarrow> bool \<Rightarrow> M68kDecimalArithmeticResult" where
  "m68k_evaluate_decimal_arithmetic kind source destination x_in =
     (let x = (if x_in then 1 else 0) in
      if kind = Dec_negate then
        (let dst = destination AND 0xFF;
             res = (0x9A - dst - x) AND 0xFF
         in if res = 0x9A
            then \<lparr>dec_result = ucast dst, dec_carry = False, dec_negative = True, dec_overflow = False, dec_clears_zero = False\<rparr>
            else let v0 = NOT res;
                     res1 = (if res AND 0x0F = 0x0A then (res AND 0xF0) + 0x10 else res) AND 0xFF
                 in \<lparr>dec_result = ucast res1, dec_carry = True, dec_negative = (res1 AND 0x80 \<noteq> 0),
                     dec_overflow = (v0 AND res1 AND 0x80 \<noteq> 0), dec_clears_zero = (res1 \<noteq> 0)\<rparr>)
      else
        let add = (kind = Dec_add);
            src = source AND 0xFF;
            dst = destination AND 0xFF;
            res0 = (if add then (src AND 0x0F) + (dst AND 0x0F) + x else (dst AND 0x0F) - (src AND 0x0F) - x);
            v0 = NOT res0;
            res1 = (if res0 > 9 then (if add then res0 + 6 else res0 - 6) else res0);
            res2 = (if add then res1 + (src AND 0xF0) + (dst AND 0xF0) else res1 + (dst AND 0xF0) - (src AND 0xF0));
            carry = (res2 > 0x99);
            res3 = (if carry then (if add then res2 - 0xA0 else res2 + 0xA0) else res2);
            masked = res3 AND 0xFF
        in \<lparr>dec_result = ucast masked, dec_carry = carry, dec_negative = (masked AND 0x80 \<noteq> 0),
            dec_overflow = (v0 AND masked AND 0x80 \<noteq> 0), dec_clears_zero = (masked \<noteq> 0)\<rparr>)"

definition m68k_decimal_arithmetic_ccr :: "u16 \<Rightarrow> M68kDecimalArithmeticKind \<Rightarrow> u32 \<Rightarrow> u32 \<Rightarrow> u16" where
  "m68k_decimal_arithmetic_ccr status_register kind source destination =
     (let r = m68k_evaluate_decimal_arithmetic kind source destination (status_register AND 0x0010 \<noteq> 0);
          zero = (\<not> dec_clears_zero r \<and> status_register AND 0x0004 \<noteq> 0)
      in (status_register AND 0xFFE0) OR flag (dec_carry r) 0x0011 OR flag (dec_negative r) 0x0008
           OR flag zero 0x0004 OR flag (dec_overflow r) 0x0002)"

section \<open>Logical operations, divisions and bits\<close>

definition m68k_evaluate_logical :: "u32 \<Rightarrow> M68kMemoryAccessWidth \<Rightarrow> M68kLogicalResult" where
  "m68k_evaluate_logical result width =
     (let sized = result AND width_mask width
      in \<lparr>log_result = sized, log_negative = (sized AND width_sign width \<noteq> 0), log_zero = (sized = 0)\<rparr>)"

definition m68k_logical_ccr :: "u16 \<Rightarrow> u32 \<Rightarrow> M68kMemoryAccessWidth \<Rightarrow> u16" where
  "m68k_logical_ccr status_register result width =
     (let r = m68k_evaluate_logical result width
      in (status_register AND 0xFFF0) OR flag (log_negative r) 8 OR flag (log_zero r) 4)"

text \<open>
  The C++ division truncates towards zero; its remainder has the sign of the dividend. The quotient
  of two 32-bit values is computed in 64 bits and never wraps. The divisor is not zero: the callers
  raise the exception before they divide.
\<close>

definition tdiv :: "int \<Rightarrow> int \<Rightarrow> int" where
  "tdiv a b = sgn a * sgn b * (\<bar>a\<bar> div \<bar>b\<bar>)"

definition tmod :: "int \<Rightarrow> int \<Rightarrow> int" where
  "tmod a b = sgn a * (\<bar>a\<bar> mod \<bar>b\<bar>)"

definition m68k_evaluate_division :: "u32 \<Rightarrow> u16 \<Rightarrow> bool \<Rightarrow> M68kDivisionResult" where
  "m68k_evaluate_division dividend divisor is_signed =
     (if is_signed then
        (let quotient = tdiv (sint dividend) (sint divisor);
             remainder = tmod (sint dividend) (sint divisor)
         in if quotient < - 32768 \<or> quotient > 32767
            then \<lparr>div_result = dividend, div_overflow = True, div_negative = False, div_zero = False\<rparr>
            else let q16 = (of_int quotient :: u16); r16 = (of_int remainder :: u16)
                 in \<lparr>div_result = push_bit 16 (ucast r16) OR ucast q16, div_overflow = False,
                     div_negative = (quotient < 0), div_zero = (quotient = 0)\<rparr>)
      else
        (let divisor_u = (ucast divisor :: u32);
             quotient = dividend div divisor_u;
             remainder = dividend mod divisor_u
         in if quotient > 0xFFFF
            then \<lparr>div_result = dividend, div_overflow = True, div_negative = False, div_zero = False\<rparr>
            else \<lparr>div_result = push_bit 16 remainder OR (quotient AND 0xFFFF), div_overflow = False,
                  div_negative = (quotient AND 0x8000 \<noteq> 0), div_zero = (quotient = 0)\<rparr>))"

definition m68k_division_ccr :: "u16 \<Rightarrow> u32 \<Rightarrow> u16 \<Rightarrow> bool \<Rightarrow> u16" where
  "m68k_division_ccr status_register dividend divisor is_signed =
     (let r = m68k_evaluate_division dividend divisor is_signed
      in (status_register AND 0xFFF0) OR
         (if div_overflow r then 0x0002 else flag (div_negative r) 0x0008 OR flag (div_zero r) 0x0004))"

definition m68k_evaluate_bit_operation ::
  "M68kBitOperationKind \<Rightarrow> u32 \<Rightarrow> u32 \<Rightarrow> M68kMemoryAccessWidth \<Rightarrow> M68kBitOperationResult" where
  "m68k_evaluate_bit_operation kind original bit_number destination_width =
     (let bit_index = bit_number AND (if destination_width = Width_long_word then 31 else 7);
          bit_mask = (push_bit (unat bit_index) 1 :: u32);
          original_bit_set = (original AND bit_mask \<noteq> 0)
      in \<lparr>bit_result = (case kind of
             Bit_test \<Rightarrow> original
           | Bit_change \<Rightarrow> original XOR bit_mask
           | Bit_clear \<Rightarrow> original AND NOT bit_mask
           | Bit_set \<Rightarrow> original OR bit_mask),
          bit_original_set = original_bit_set\<rparr>)"

definition m68k_bit_test_ccr :: "u16 \<Rightarrow> bool \<Rightarrow> u16" where
  "m68k_bit_test_ccr status_register original_bit_set =
     ((status_register AND 0xFFFB) OR (if original_bit_set then 0 else 0x0004))"

section \<open>Conditions, branches and register lists\<close>

definition m68k_evaluate_condition :: "M68kCondition \<Rightarrow> u16 \<Rightarrow> bool" where
  "m68k_evaluate_condition condition status_register =
     (let n = (status_register AND 0x0008 \<noteq> 0);
          z = (status_register AND 0x0004 \<noteq> 0);
          v = (status_register AND 0x0002 \<noteq> 0);
          c = (status_register AND 0x0001 \<noteq> 0)
      in case condition of
           Cond_always \<Rightarrow> True
         | Cond_never \<Rightarrow> False
         | Cond_hi \<Rightarrow> \<not> c \<and> \<not> z
         | Cond_ls \<Rightarrow> c \<or> z
         | Cond_cc \<Rightarrow> \<not> c
         | Cond_cs \<Rightarrow> c
         | Cond_ne \<Rightarrow> \<not> z
         | Cond_eq \<Rightarrow> z
         | Cond_vc \<Rightarrow> \<not> v
         | Cond_vs \<Rightarrow> v
         | Cond_pl \<Rightarrow> \<not> n
         | Cond_mi \<Rightarrow> n
         | Cond_ge \<Rightarrow> n = v
         | Cond_lt \<Rightarrow> n \<noteq> v
         | Cond_gt \<Rightarrow> \<not> z \<and> n = v
         | Cond_le \<Rightarrow> z \<or> n \<noteq> v)"

text \<open>The displacement is an \<^verbatim>\<open>int32_t\<close>; the sum is computed in 64 bits and cut to 32.\<close>

definition m68k_branch_target :: "u32 \<Rightarrow> int \<Rightarrow> u32" where
  "m68k_branch_target source_address signed_displacement = of_int (uint source_address + 2 + signed_displacement)"

definition m68k_evaluate_dbcc_decrement :: "u32 \<Rightarrow> M68kDbccDecrementResult" where
  "m68k_evaluate_dbcc_decrement original =
     (let low = (ucast ((original AND 0x0000FFFF) - 1) :: u16)
      in \<lparr>dbcc_updated_register = (original AND 0xFFFF0000) OR ucast low, dbcc_expired = (low = 0xFFFF)\<rparr>)"

definition m68k_movem_transfer_order :: "u16 \<Rightarrow> M68kMovemTransferOrder \<Rightarrow> nat list" where
  "m68k_movem_transfer_order register_mask order =
     concat (map (\<lambda>index. if register_mask AND push_bit index 1 \<noteq> 0
                          then [if order = Order_predecrement then 15 - index else index] else []) [0..<16])"

section \<open>Shifts and rotations\<close>

text \<open>The result, the carry, what becomes of X, and the overflow of the families with one shape.\<close>

record shift_outcome =
  so_result :: u32
  so_carry :: bool
  so_extend_written :: bool
  so_extend :: bool
  so_overflow :: bool

definition shift_out :: "u32 \<Rightarrow> bool \<Rightarrow> bool \<Rightarrow> bool \<Rightarrow> shift_outcome" where
  "shift_out r c x v = \<lparr>so_result = r, so_carry = c, so_extend_written = True, so_extend = x, so_overflow = v\<rparr>"

definition shift_lsl :: "u32 \<Rightarrow> nat \<Rightarrow> nat \<Rightarrow> u32 \<Rightarrow> bool \<Rightarrow> shift_outcome" where
  "shift_lsl src count bits m original_extend =
     (if count = 0 then shift_out src False original_extend False
      else if count < bits then
        (let carry = (drop_bit (bits - count) src AND 1 \<noteq> 0) in shift_out (push_bit count src AND m) carry carry False)
      else if count = bits then (let carry = (src AND 1 \<noteq> 0) in shift_out 0 carry carry False)
      else shift_out 0 False False False)"

definition shift_lsr :: "u32 \<Rightarrow> nat \<Rightarrow> nat \<Rightarrow> bool \<Rightarrow> shift_outcome" where
  "shift_lsr src count bits original_extend =
     (if count = 0 then shift_out src False original_extend False
      else if count < bits then
        (let carry = (drop_bit (count - 1) src AND 1 \<noteq> 0) in shift_out (drop_bit count src) carry carry False)
      else if count = bits then (let carry = (drop_bit (bits - 1) src AND 1 \<noteq> 0) in shift_out 0 carry carry False)
      else shift_out 0 False False False)"

definition shift_asr :: "u32 \<Rightarrow> nat \<Rightarrow> nat \<Rightarrow> u32 \<Rightarrow> u32 \<Rightarrow> bool \<Rightarrow> shift_outcome" where
  "shift_asr src count bits m sign original_extend =
     (let negative_src = (src AND sign \<noteq> 0) in
      if count = 0 then shift_out src False original_extend False
      else if count < bits then
        (let result = (if negative_src then drop_bit count src OR (m AND NOT (drop_bit count m)) else drop_bit count src);
             carry = (drop_bit (count - 1) src AND 1 \<noteq> 0)
         in shift_out result carry carry False)
      else if negative_src then shift_out m True True False
      else shift_out 0 False False False)"

definition shift_asl :: "u32 \<Rightarrow> nat \<Rightarrow> nat \<Rightarrow> u32 \<Rightarrow> bool \<Rightarrow> shift_outcome" where
  "shift_asl src count bits m original_extend =
     (if count = 0 then shift_out src False original_extend False
      else if count < bits then
        (let carry = (drop_bit (bits - count) src AND 1 \<noteq> 0);
             region_bits = count + 1;
             region_mask = (if region_bits \<ge> bits then m else m AND NOT (drop_bit region_bits m));
             region = src AND region_mask
         in shift_out (push_bit count src AND m) carry carry (\<not> (region = 0 \<or> region = region_mask)))
      else if count = bits then (let carry = (src AND 1 \<noteq> 0) in shift_out 0 carry carry (src \<noteq> 0))
      else shift_out 0 False False (src \<noteq> 0))"

definition shift_ro :: "bool \<Rightarrow> u32 \<Rightarrow> nat \<Rightarrow> nat \<Rightarrow> u32 \<Rightarrow> u32 \<Rightarrow> shift_outcome" where
  "shift_ro left src count bits m sign =
     (let out = (\<lambda>r c. \<lparr>so_result = r, so_carry = c, so_extend_written = False, so_extend = False, so_overflow = False\<rparr>) in
      if count = 0 then out src False
      else let effective = unat (of_nat count AND (of_nat bits - 1 :: u32));
               result = (if effective = 0 then src
                         else if left then (push_bit effective src OR drop_bit (bits - effective) src) AND m
                         else (drop_bit effective src OR push_bit (bits - effective) src) AND m)
           in out result (if left then result AND 1 \<noteq> 0 else result AND sign \<noteq> 0))"

definition shift_rox :: "bool \<Rightarrow> u32 \<Rightarrow> nat \<Rightarrow> nat \<Rightarrow> u32 \<Rightarrow> bool \<Rightarrow> shift_outcome" where
  "shift_rox left src count bits m original_extend =
     (let ring = push_bit bits (if original_extend then 1 else 0) OR (ucast src :: u64);
          ring_bits = bits + 1;
          ring_mask = push_bit ring_bits 1 - 1;
          effective = count mod ring_bits;
          rotated = (if effective = 0 then ring
                     else if left then (push_bit effective ring OR drop_bit (ring_bits - effective) ring) AND ring_mask
                     else (drop_bit effective ring OR push_bit (ring_bits - effective) ring) AND ring_mask);
          new_extend = (drop_bit bits rotated AND 1 \<noteq> 0)
      in shift_out (ucast (rotated AND ucast m)) new_extend new_extend False)"

definition m68k_evaluate_shift_rotate ::
  "M68kShiftRotateKind \<Rightarrow> u32 \<Rightarrow> u32 \<Rightarrow> M68kMemoryAccessWidth \<Rightarrow> bool \<Rightarrow> M68kShiftRotateResult" where
  "m68k_evaluate_shift_rotate kind original count0 width original_extend =
     (let bits = width_bits width;
          m = width_mask width;
          sign = width_sign width;
          src = original AND m;
          count = unat count0;
          o' = (case kind of
                 Sr_lsl \<Rightarrow> shift_lsl src count bits m original_extend
               | Sr_lsr \<Rightarrow> shift_lsr src count bits original_extend
               | Sr_asr \<Rightarrow> shift_asr src count bits m sign original_extend
               | Sr_asl \<Rightarrow> shift_asl src count bits m original_extend
               | Sr_rol \<Rightarrow> shift_ro True src count bits m sign
               | Sr_ror \<Rightarrow> shift_ro False src count bits m sign
               | Sr_roxl \<Rightarrow> shift_rox True src count bits m original_extend
               | Sr_roxr \<Rightarrow> shift_rox False src count bits m original_extend)
      in \<lparr>sr_result = so_result o', sr_negative = (so_result o' AND sign \<noteq> 0), sr_zero = (so_result o' = 0),
          sr_overflow = so_overflow o', sr_carry = so_carry o', sr_extend_written = so_extend_written o',
          sr_extend_value = so_extend o'\<rparr>)"

definition m68k_shift_rotate_ccr :: "u16 \<Rightarrow> M68kShiftRotateResult \<Rightarrow> u16" where
  "m68k_shift_rotate_ccr status_register r =
     (let updated = (status_register AND 0xFFE0) OR flag (sr_negative r) 0x08 OR flag (sr_zero r) 0x04
                      OR flag (sr_overflow r) 0x02 OR flag (sr_carry r) 0x01
      in if sr_extend_written r then (updated AND NOT 0x10) OR flag (sr_extend_value r) 0x10
         else (updated AND NOT 0x10) OR (status_register AND 0x10))"

end
