(* ===== verification/M68k_Arith.thy ===== *)
theory M68k_Arith
  imports M68k_Alu
begin

text \<open>
  The arithmetic results and condition codes against integer arithmetic: unsigned and two's
  complement values of an operand at its width, decimal values of packed bytes, and numbers of
  several words.
\<close>

section \<open>Operands at a width\<close>

definition unsigned_at :: "M68kMemoryAccessWidth \<Rightarrow> u32 \<Rightarrow> int" where
  "unsigned_at width x = uint x mod 2 ^ width_bits width"

definition signed_at :: "M68kMemoryAccessWidth \<Rightarrow> u32 \<Rightarrow> int" where
  "signed_at width x = signed_take_bit (width_bits width - 1) (uint x)"

text \<open>Half the range of a width.\<close>

definition half :: "M68kMemoryAccessWidth \<Rightarrow> int" where
  "half width = 2 ^ (width_bits width - 1)"

lemma width_bits_cases: "width_bits w = 8 \<or> width_bits w = 16 \<or> width_bits w = 32"
  by (simp add: width_bits_def)

lemma width_bits_pos [simp]: "0 < width_bits w" "width_bits w \<le> 32" "width_bits w \<noteq> 0" "width_bits w - Suc 0 < 32"
  by (simp_all add: width_bits_def)

lemma power_half: "2 ^ width_bits w = 2 * half w" "0 < half w" "half w \<le> 2147483648" "128 \<le> half w"
  by (simp_all add: half_def width_bits_def)

lemma width_mask_take: "x AND width_mask w = take_bit (width_bits w) x"
  by (simp add: width_mask_def width_bits_def take_bit_eq_mask mask_eq_exp_minus_1)

lemma width_sign_bit: "x AND width_sign w \<noteq> 0 \<longleftrightarrow> bit x (width_bits w - 1)"
proof -
  have s: "width_sign w = push_bit (width_bits w - 1) 1" by (simp add: width_sign_def width_bits_def)
  show ?thesis unfolding s by (simp add: bit_iff_and_push_bit_not_eq_0)
qed

lemma bit_of_half:
  fixes u :: int assumes "0 \<le> u" "u < 2 * 2 ^ k" shows "bit u k \<longleftrightarrow> 2 ^ k \<le> u"
proof -
  have "u div 2 ^ k = (if 2 ^ k \<le> u then 1 else 0)"
    using assms by (auto simp: div_pos_pos_trivial intro!: div_pos_geq [THEN trans])
  then show ?thesis by (simp add: bit_iff_odd)
qed

lemma unsigned_at_range: "0 \<le> unsigned_at w x" "unsigned_at w x < 2 * half w"
  by (simp_all add: unsigned_at_def power_half(1) [symmetric])

lemma uint_masked: "uint (x AND width_mask w) = unsigned_at w x"
  unfolding width_mask_take unsigned_take_bit_eq by (simp only: unsigned_at_def take_bit_eq_mod)

lemma unsigned_at_masked [simp]: "unsigned_at w (x AND width_mask w) = unsigned_at w x"
  unfolding unsigned_at_def uint_masked by (simp add: unsigned_at_def)

lemma bit_at_half: "bit x (width_bits w - 1) \<longleftrightarrow> half w \<le> unsigned_at w x"
proof -
  have "bit x (width_bits w - 1) \<longleftrightarrow> bit (unsigned_at w x) (width_bits w - 1)"
    by (simp add: unsigned_at_def bit_uint_iff take_bit_eq_mod [symmetric] bit_take_bit_iff)
  also have "\<dots> \<longleftrightarrow> half w \<le> unsigned_at w x"
    using unsigned_at_range [of w x] unfolding half_def by (rule bit_of_half)
  finally show ?thesis .
qed

lemma bit_masked [simp]: "bit (x AND width_mask w) (width_bits w - 1) \<longleftrightarrow> bit x (width_bits w - 1)"
  unfolding bit_at_half by simp

lemma signed_at_half: "signed_at w x = unsigned_at w x - (if half w \<le> unsigned_at w x then 2 * half w else 0)"
proof -
  have "signed_at w x = take_bit (width_bits w) (uint x) - 2 ^ width_bits w * of_bool (bit (uint x) (width_bits w - 1))"
    unfolding signed_at_def signed_take_bit_eq_take_bit_minus by simp
  then show ?thesis
    using bit_at_half [of x w] by (simp add: unsigned_at_def take_bit_eq_mod bit_uint_iff power_half(1))
qed

lemma signed_at_masked [simp]: "signed_at w (x AND width_mask w) = signed_at w x"
  unfolding signed_at_half by simp

lemma uint_u32_add: "uint (a + b :: u32) = (uint a + uint b) mod 2 ^ 32"
  by (simp add: uint_word_ariths)

lemma uint_u32_diff: "uint (a - b :: u32) = (uint a - uint b) mod 2 ^ 32"
  by (simp add: uint_word_ariths)

lemma mod_32_at: "(k mod 2 ^ 32) mod (2 ^ width_bits w) = k mod (2 ^ width_bits w :: int)"
  by (rule mod_mod_cancel) (simp add: width_bits_def)

lemma unsigned_at_arith:
  "unsigned_at w (a + b) = (unsigned_at w a + unsigned_at w b) mod (2 * half w)"
  "unsigned_at w (a - b) = (unsigned_at w a - unsigned_at w b) mod (2 * half w)"
  unfolding power_half(1) [symmetric] unsigned_at_def uint_u32_add uint_u32_diff mod_32_at
  by (simp_all add: mod_simps)

lemma uint_ucast_64: "uint (ucast (x :: u32) :: u64) = uint x"
  using uint_bounded [of x] by (simp add: unsigned_ucast_eq take_bit_eq_mod)

lemma mod_once: "0 \<le> a \<Longrightarrow> a < 2 * m \<Longrightarrow> a mod m = (if m \<le> a then a - m else (a :: int))"
  by (auto simp: mod_pos_pos_trivial) (smt (verit) mod_pos_pos_trivial minus_mod_self2)

lemma mod_once_neg: "- m \<le> a \<Longrightarrow> a < m \<Longrightarrow> a mod m = (if a < 0 then a + m else (a :: int))"
  by (auto simp: mod_pos_pos_trivial) (smt (verit) mod_pos_pos_trivial mod_add_self2)

section \<open>The condition codes\<close>

text \<open>The flags of a status register, and registers that agree outside the condition codes.\<close>

definition ccr_C :: "u16 \<Rightarrow> bool" where "ccr_C sr = bit sr 0"
definition ccr_V :: "u16 \<Rightarrow> bool" where "ccr_V sr = bit sr 1"
definition ccr_Z :: "u16 \<Rightarrow> bool" where "ccr_Z sr = bit sr 2"
definition ccr_N :: "u16 \<Rightarrow> bool" where "ccr_N sr = bit sr 3"
definition ccr_X :: "u16 \<Rightarrow> bool" where "ccr_X sr = bit sr 4"

lemmas ccr_defs = ccr_C_def ccr_V_def ccr_Z_def ccr_N_def ccr_X_def

definition system_part :: "u16 \<Rightarrow> u16" where
  "system_part sr = sr AND 0xFFE0"

lemma bit_flag: "bit (flag b m) k \<longleftrightarrow> b \<and> bit m k"
  by (simp add: flag_def)

lemma ccr_mask: "(sr :: u16) AND 0x0010 \<noteq> 0 \<longleftrightarrow> ccr_X sr" "sr AND 0x0008 \<noteq> 0 \<longleftrightarrow> ccr_N sr"
  "sr AND 0x0004 \<noteq> 0 \<longleftrightarrow> ccr_Z sr" "sr AND 0x0002 \<noteq> 0 \<longleftrightarrow> ccr_V sr" "sr AND 0x0001 \<noteq> 0 \<longleftrightarrow> ccr_C sr"
  using bit_iff_and_push_bit_not_eq_0 [of sr 4] bit_iff_and_push_bit_not_eq_0 [of sr 3]
    bit_iff_and_push_bit_not_eq_0 [of sr 2] bit_iff_and_push_bit_not_eq_0 [of sr 1] bit_iff_and_push_bit_not_eq_0 [of sr 0]
  by (simp_all add: ccr_defs)

lemma system_part_flags:
  "system_part ((sr AND 0xFFE0) OR flag c 0x0011 OR flag n 0x0008 OR flag z 0x0004 OR flag v 0x0002) = system_part sr"
  "system_part ((sr AND 0xFFE0) OR flag x 0x0010 OR flag n 0x0008 OR flag z 0x0004 OR flag v 0x0002 OR flag c 0x0001) = system_part sr"
  "system_part ((sr AND 0xFFE0) OR (sr AND 0x0010) OR flag n 0x0008 OR flag z 0x0004 OR flag v 0x0002 OR flag c 0x0001) = system_part sr"
  by (simp_all add: system_part_def flag_def and.assoc and.left_commute bit.conj_disj_distrib2)

section \<open>Addition and subtraction\<close>

text \<open>What the flags of a sized result say: \<open>exact\<close> is the result in unbounded integers.\<close>

definition result_flags :: "M68kMemoryAccessWidth \<Rightarrow> u32 \<Rightarrow> int \<Rightarrow> int \<Rightarrow> bool \<Rightarrow> bool \<Rightarrow> bool \<Rightarrow> bool" where
  "result_flags width r exact_unsigned exact_signed n v c \<longleftrightarrow>
     uint r = exact_unsigned mod 2 ^ width_bits width \<and>
     (c \<longleftrightarrow> exact_unsigned < 0 \<or> 2 ^ width_bits width \<le> exact_unsigned) \<and>
     (v \<longleftrightarrow> exact_signed < - half width \<or> half width \<le> exact_signed) \<and>
     (n \<longleftrightarrow> signed_at width r < 0)"

lemma addition_flags:
  fixes src dst :: u32 and w :: M68kMemoryAccessWidth
  defines "r \<equiv> m68k_evaluate_addition src dst w"
  shows "result_flags w (add_result r) (unsigned_at w dst + unsigned_at w src) (signed_at w dst + signed_at w src)
           (add_negative r) (add_overflow r) (add_carry r)"
    and "add_zero r \<longleftrightarrow> add_result r = 0"
proof -
  let ?m = "width_mask w" and ?h = "half w"
  let ?S = "unsigned_at w src" and ?D = "unsigned_at w dst"
  have R: "add_result r = ((dst AND ?m) + (src AND ?m)) AND ?m" by (simp add: r_def m68k_evaluate_addition_def Let_def)
  note S = unsigned_at_range [of w src] and D = unsigned_at_range [of w dst]
  have h: "0 < ?h" by (rule power_half)
  have u: "uint (add_result r) = (?D + ?S) mod (2 * ?h)" "unsigned_at w (add_result r) = (?D + ?S) mod (2 * ?h)"
    unfolding R uint_masked unsigned_at_masked unsigned_at_arith by simp_all
  have U: "unsigned_at w (add_result r) = (if 2 * ?h \<le> ?D + ?S then ?D + ?S - 2 * ?h else ?D + ?S)"
    unfolding u(2) by (rule mod_once) (use S D in simp_all)
  have c: "add_carry r \<longleftrightarrow> 2 * ?h \<le> ?D + ?S"
  proof -
    have "add_carry r \<longleftrightarrow> uint ?m < uint (ucast (dst AND ?m) + ucast (src AND ?m) :: u64)"
      by (simp add: r_def m68k_evaluate_addition_def Let_def word_less_def uint_ucast_64)
    moreover have "uint (ucast (dst AND ?m) + ucast (src AND ?m) :: u64) = ?D + ?S"
      using S D power_half(3) [of w] by (simp add: uint_word_ariths uint_ucast_64 uint_masked mod_pos_pos_trivial)
    moreover have "uint ?m = 2 * ?h - 1" by (simp add: width_mask_def half_def width_bits_def)
    ultimately show ?thesis by auto
  qed
  have n: "add_negative r \<longleftrightarrow> ?h \<le> unsigned_at w (add_result r)"
    by (simp only: r_def m68k_evaluate_addition_def Let_def M68kAdditionResult.simps width_sign_bit bit_at_half)
  have v: "add_overflow r \<longleftrightarrow> (?h \<le> ?D \<longleftrightarrow> ?h \<le> ?S) \<and> (?h \<le> ?D) \<noteq> (?h \<le> unsigned_at w (add_result r))"
  proof -
    have "add_overflow r \<longleftrightarrow> bit (NOT ((dst AND ?m) XOR (src AND ?m)) AND ((dst AND ?m) XOR add_result r)) (width_bits w - 1)"
      unfolding R width_sign_bit [symmetric] by (simp add: r_def m68k_evaluate_addition_def Let_def and.assoc)
    also have "\<dots> \<longleftrightarrow> \<not> (bit (dst AND ?m) (width_bits w - 1) \<noteq> bit (src AND ?m) (width_bits w - 1)) \<and>
        bit (dst AND ?m) (width_bits w - 1) \<noteq> bit (add_result r) (width_bits w - 1)"
      by (simp add: bit_and_iff bit_xor_iff bit_not_iff possible_bit_word)
    finally show ?thesis unfolding bit_at_half by auto
  qed
  show "result_flags w (add_result r) (?D + ?S) (signed_at w dst + signed_at w src) (add_negative r) (add_overflow r) (add_carry r)"
    unfolding result_flags_def power_half(1) c n v u(1) signed_at_half U using S D h by auto
  show "add_zero r \<longleftrightarrow> add_result r = 0" by (simp add: r_def m68k_evaluate_addition_def Let_def)
qed

lemma sub_mask: "(if width_bits w = 32 then 0xFFFFFFFF else push_bit (width_bits w) 1 - 1) = width_mask w"
  "push_bit (width_bits w - 1) 1 = width_sign w"
  by (simp_all add: width_bits_def width_mask_def width_sign_def)

lemma subtraction_flags:
  fixes src dst :: u32 and w :: M68kMemoryAccessWidth
  defines "r \<equiv> m68k_evaluate_subtraction src dst w"
  shows "result_flags w (sub_result r) (unsigned_at w dst - unsigned_at w src) (signed_at w dst - signed_at w src)
           (sub_negative r) (sub_overflow r) (sub_carry r)"
    and "sub_zero r \<longleftrightarrow> sub_result r = 0"
proof -
  let ?m = "width_mask w" and ?h = "half w"
  let ?S = "unsigned_at w src" and ?D = "unsigned_at w dst"
  have E: "r = (let s = src AND ?m; d = dst AND ?m; result = (d - s) AND ?m; sign = width_sign w in
      \<lparr>sub_result = result, sub_negative = (result AND sign \<noteq> 0), sub_zero = (result = 0),
          sub_overflow = ((d XOR s) AND (d XOR result) AND sign \<noteq> 0), sub_carry = (s > d)\<rparr>)"
    unfolding r_def m68k_evaluate_subtraction_def by (simp only: Let_def sub_mask)
  have R: "sub_result r = ((dst AND ?m) - (src AND ?m)) AND ?m" by (simp add: E Let_def)
  note S = unsigned_at_range [of w src] and D = unsigned_at_range [of w dst]
  have h: "0 < ?h" by (rule power_half)
  have u: "uint (sub_result r) = (?D - ?S) mod (2 * ?h)" "unsigned_at w (sub_result r) = (?D - ?S) mod (2 * ?h)"
    unfolding R uint_masked unsigned_at_masked unsigned_at_arith by simp_all
  have U: "unsigned_at w (sub_result r) = (if ?D - ?S < 0 then ?D - ?S + 2 * ?h else ?D - ?S)"
    unfolding u(2) by (rule mod_once_neg) (use S D in simp_all)
  have c: "sub_carry r \<longleftrightarrow> ?D - ?S < 0" by (simp add: E Let_def word_less_def uint_masked)
  have n: "sub_negative r \<longleftrightarrow> ?h \<le> unsigned_at w (sub_result r)"
    by (simp only: E Let_def M68kSubtractionResult.simps width_sign_bit bit_at_half)
  have v: "sub_overflow r \<longleftrightarrow> (?h \<le> ?D) \<noteq> (?h \<le> ?S) \<and> (?h \<le> ?D) \<noteq> (?h \<le> unsigned_at w (sub_result r))"
  proof -
    have "sub_overflow r \<longleftrightarrow> bit (((dst AND ?m) XOR (src AND ?m)) AND ((dst AND ?m) XOR sub_result r)) (width_bits w - 1)"
      unfolding R width_sign_bit [symmetric] by (simp add: E Let_def and.assoc)
    also have "\<dots> \<longleftrightarrow> bit (dst AND ?m) (width_bits w - 1) \<noteq> bit (src AND ?m) (width_bits w - 1) \<and>
        bit (dst AND ?m) (width_bits w - 1) \<noteq> bit (sub_result r) (width_bits w - 1)"
      by (simp add: bit_and_iff bit_xor_iff)
    finally show ?thesis unfolding bit_at_half by auto
  qed
  show "result_flags w (sub_result r) (?D - ?S) (signed_at w dst - signed_at w src) (sub_negative r) (sub_overflow r) (sub_carry r)"
    unfolding result_flags_def power_half(1) c n v u(1) signed_at_half U using S D h by auto
  show "sub_zero r \<longleftrightarrow> sub_result r = 0" by (simp add: E Let_def)
qed

lemma addition_ccr:
  fixes sr :: u16 and src dst :: u32 and w :: M68kMemoryAccessWidth
  defines "sr' \<equiv> m68k_addition_ccr sr src dst w" and "r \<equiv> m68k_evaluate_addition src dst w"
  shows "ccr_X sr' = add_carry r" "ccr_C sr' = add_carry r" "ccr_N sr' = add_negative r" "ccr_Z sr' = add_zero r"
    "ccr_V sr' = add_overflow r" "system_part sr' = system_part sr"
  unfolding sr'_def m68k_addition_ccr_def Let_def r_def system_part_flags
  by (simp_all add: ccr_defs bit_or_iff bit_flag bit_and_iff)

lemma subtraction_ccr:
  fixes sr :: u16 and src dst :: u32 and w :: M68kMemoryAccessWidth and policy :: M68kExtendFlagPolicy
  defines "sr' \<equiv> m68k_subtraction_ccr sr src dst w policy" and "r \<equiv> m68k_evaluate_subtraction src dst w"
  shows "ccr_X sr' = (if policy = Extend_preserve then ccr_X sr else sub_carry r)" "ccr_C sr' = sub_carry r"
    "ccr_N sr' = sub_negative r" "ccr_Z sr' = sub_zero r" "ccr_V sr' = sub_overflow r" "system_part sr' = system_part sr"
proof -
  show "system_part sr' = system_part sr"
    unfolding sr'_def m68k_subtraction_ccr_def Let_def if_distrib [of "\<lambda>x. system_part (_ OR x OR _ OR _ OR _ OR _)"]
    by (cases policy) (simp_all add: system_part_flags)
qed (simp_all add: sr'_def m68k_subtraction_ccr_def Let_def r_def ccr_defs bit_or_iff bit_flag bit_and_iff)

text \<open>
  C33. Addition and its condition codes are those of integer arithmetic at every width: the result is
  the sum modulo the width, C and X are set exactly when the unsigned sum does not fit, V exactly when
  the signed sum does not fit, N is the sign of the result, Z its being zero, and the system byte of
  the status register is untouched.
\<close>

theorem addition_correct:
  "let r = m68k_evaluate_addition src dst w; sr' = m68k_addition_ccr sr src dst w in
   result_flags w (add_result r) (unsigned_at w dst + unsigned_at w src) (signed_at w dst + signed_at w src)
     (ccr_N sr') (ccr_V sr') (ccr_C sr') \<and>
   ccr_X sr' = ccr_C sr' \<and> ccr_Z sr' = (add_result r = 0) \<and> system_part sr' = system_part sr"
  unfolding Let_def using addition_flags [where w = w and src = src and dst = dst] by (simp add: addition_ccr)

section \<open>Comparisons\<close>

text \<open>What each condition means after a comparison of \<open>dst\<close> with \<open>src\<close>; V and the sign alone say whether the difference fits.\<close>

definition compare_means :: "M68kCondition \<Rightarrow> M68kMemoryAccessWidth \<Rightarrow> u32 \<Rightarrow> u32 \<Rightarrow> bool" where
  "compare_means condition w src dst =
     (let S = unsigned_at w src; D = unsigned_at w dst; s = signed_at w src; d = signed_at w dst in
      case condition of
        Cond_always \<Rightarrow> True | Cond_never \<Rightarrow> False
      | Cond_hi \<Rightarrow> S < D | Cond_ls \<Rightarrow> D \<le> S | Cond_cc \<Rightarrow> S \<le> D | Cond_cs \<Rightarrow> D < S
      | Cond_ne \<Rightarrow> D \<noteq> S | Cond_eq \<Rightarrow> D = S
      | Cond_vc \<Rightarrow> - half w \<le> d - s \<and> d - s < half w | Cond_vs \<Rightarrow> d - s < - half w \<or> half w \<le> d - s
      | Cond_pl \<Rightarrow> (D - S) mod (2 * half w) < half w | Cond_mi \<Rightarrow> half w \<le> (D - S) mod (2 * half w)
      | Cond_ge \<Rightarrow> s \<le> d | Cond_lt \<Rightarrow> d < s | Cond_gt \<Rightarrow> s < d | Cond_le \<Rightarrow> d \<le> s)"

lemma compare_facts:
  fixes src dst :: u32 and w :: M68kMemoryAccessWidth
  defines "r \<equiv> m68k_evaluate_subtraction src dst w" and "S \<equiv> unsigned_at w src" and "D \<equiv> unsigned_at w dst"
  shows "sub_carry r \<longleftrightarrow> D < S" "sub_zero r \<longleftrightarrow> D = S" "sub_negative r \<longleftrightarrow> half w \<le> (D - S) mod (2 * half w)"
    "sub_overflow r \<longleftrightarrow> signed_at w dst - signed_at w src < - half w \<or> half w \<le> signed_at w dst - signed_at w src"
    "(sub_negative r \<noteq> sub_overflow r) \<longleftrightarrow> signed_at w dst < signed_at w src"
    "signed_at w dst = signed_at w src \<longleftrightarrow> D = S"
proof -
  note F = subtraction_flags [where w = w and src = src and dst = dst, folded r_def S_def D_def, unfolded result_flags_def power_half(1)]
  note S = unsigned_at_range [of w src, folded S_def] and D = unsigned_at_range [of w dst, folded D_def]
  have h: "0 < half w" by (rule power_half)
  have m: "(D - S) mod (2 * half w) = (if D - S < 0 then D - S + 2 * half w else D - S)"
    by (rule mod_once_neg) (use S D in simp_all)
  show "sub_carry r \<longleftrightarrow> D < S" using F S D by auto
  have "sub_result r = 0 \<longleftrightarrow> uint (sub_result r) = 0" by (simp only: uint_0_iff)
  with F show z: "sub_zero r \<longleftrightarrow> D = S" using m S D by auto
  have "unsigned_at w (sub_result r) = uint (sub_result r)"
    using F(1) unfolding unsigned_at_def power_half(1) by simp
  with F show n: "sub_negative r \<longleftrightarrow> half w \<le> (D - S) mod (2 * half w)"
    using m S D unfolding signed_at_half by auto
  from F show v: "sub_overflow r \<longleftrightarrow> signed_at w dst - signed_at w src < - half w \<or> half w \<le> signed_at w dst - signed_at w src"
    by blast
  have s: "signed_at w src = S - (if half w \<le> S then 2 * half w else 0)" "signed_at w dst = D - (if half w \<le> D then 2 * half w else 0)"
    unfolding S_def D_def signed_at_half by simp_all
  show "(sub_negative r \<noteq> sub_overflow r) \<longleftrightarrow> signed_at w dst < signed_at w src"
    unfolding n v m s using S D h by auto
  show "signed_at w dst = signed_at w src \<longleftrightarrow> D = S" unfolding s using S D h by auto
qed

text \<open>
  C34. The condition codes of a comparison decide every condition as the comparison it is named after:
  after comparing at any width, HI, LS, CC and CS order the operands as unsigned numbers, GE, LT, GT
  and LE as two's complement ones, NE and EQ tell whether they are equal, VC and VS whether the signed
  difference fits the width; X keeps its value.
\<close>

theorem compare_decides_conditions:
  "let sr' = m68k_subtraction_ccr sr src dst w Extend_preserve in
   m68k_evaluate_condition condition sr' = compare_means condition w src dst \<and> ccr_X sr' = ccr_X sr"
proof -
  let ?r = "m68k_evaluate_subtraction src dst w"
  note f = compare_facts [where w = w and src = src and dst = dst]
  have nv: "sub_negative ?r = sub_overflow ?r \<longleftrightarrow> \<not> signed_at w dst < signed_at w src" using f(5) by blast
  have gt: "signed_at w src < signed_at w dst \<longleftrightarrow> \<not> signed_at w dst < signed_at w src \<and> \<not> unsigned_at w dst = unsigned_at w src"
    using f(6) by auto
  have le: "signed_at w dst \<le> signed_at w src \<longleftrightarrow> unsigned_at w dst = unsigned_at w src \<or> signed_at w dst < signed_at w src"
    using f(6) by auto
  show ?thesis
  proof (cases "condition \<in> {Cond_ge, Cond_lt, Cond_gt, Cond_le}")
    case True
    then show ?thesis
      unfolding Let_def m68k_evaluate_condition_def ccr_mask subtraction_ccr compare_means_def
      by (auto simp: nv f(2) gt le not_less [symmetric])
  next
    case False
    then show ?thesis
      unfolding Let_def m68k_evaluate_condition_def ccr_mask subtraction_ccr compare_means_def
      by (cases condition) (auto simp: f(1-4))
  qed
qed

section \<open>Numbers of several words\<close>

lemma unsigned_at_const [simp]: "unsigned_at w 0 = 0" "unsigned_at w 1 = 1"
  by (simp_all add: unsigned_at_def width_bits_def)

lemma mask_top: "bit (width_mask w) (width_bits w - 1)"
  by (simp add: width_mask_def width_bits_def)

lemma extended_flags:
  fixes src dst :: u32 and w :: M68kMemoryAccessWidth and kind :: M68kExtendedArithmeticKind and x :: bool
  defines "r \<equiv> m68k_evaluate_extended_arithmetic kind src dst x w" and "s \<equiv> if kind = Ext_add then 1 else - 1"
  shows "result_flags w (ext_result r) (unsigned_at w dst + s * (unsigned_at w src + of_bool x))
           (signed_at w dst + s * (signed_at w src + of_bool x)) (ext_negative r) (ext_overflow r) (ext_carry r)"
proof -
  let ?m = "width_mask w" and ?h = "half w" and ?x = "of_bool x :: int" and ?X = "if x then 1 else 0 :: u32"
  let ?S = "unsigned_at w src" and ?D = "unsigned_at w dst" and ?R = "unsigned_at w (ext_result r)"
  have R: "ext_result r = (if kind = Ext_add then (dst AND ?m) + (src AND ?m) + ?X else (dst AND ?m) - (src AND ?m) - ?X) AND ?m"
    by (simp add: r_def m68k_evaluate_extended_arithmetic_def Let_def)
  note S = unsigned_at_range [of w src] and D = unsigned_at_range [of w dst]
  have h: "0 < ?h" by (rule power_half)
  have X: "unsigned_at w ?X = ?x" by (simp add: unsigned_at_def width_bits_def)
  have u: "uint (ext_result r) = (?D + s * (?S + ?x)) mod (2 * ?h)"
    unfolding R uint_masked
    by (cases kind; cases x; simp add: unsigned_at_arith X s_def mod_simps; (simp add: algebra_simps)?)
  then have u': "?R = (?D + s * (?S + ?x)) mod (2 * ?h)"
    unfolding unsigned_at_def power_half(1) by simp
  have U: "?R = (if kind = Ext_add then (if 2 * ?h \<le> ?D + ?S + ?x then ?D + ?S + ?x - 2 * ?h else ?D + ?S + ?x)
                 else (if ?D - ?S - ?x < 0 then ?D - ?S - ?x + 2 * ?h else ?D - ?S - ?x))"
  proof (cases kind)
    case Ext_add
    then show ?thesis unfolding u' using mod_once [of "?D + ?S + ?x" "2 * ?h"] S D by (simp add: s_def add.assoc)
  next
    case Ext_subtract
    have e: "?D + s * (?S + ?x) = ?D - ?S - ?x" using Ext_subtract by (simp add: s_def)
    have "(?D - ?S - ?x) mod (2 * ?h) = (if ?D - ?S - ?x < 0 then ?D - ?S - ?x + 2 * ?h else ?D - ?S - ?x)"
      by (rule mod_once_neg) (use S D in \<open>cases x; simp\<close>)+
    then show ?thesis unfolding u' e using Ext_subtract by simp
  qed
  let ?b = "\<lambda>y. bit y (width_bits w - 1)"
  have not: "?b (NOT y) \<longleftrightarrow> \<not> ?b y" for y :: u32 by (simp add: bit_not_iff possible_bit_word)
  have n: "ext_negative r \<longleftrightarrow> ?h \<le> ?R"
    by (simp only: r_def m68k_evaluate_extended_arithmetic_def Let_def M68kExtendedArithmeticResult.simps width_sign_bit bit_at_half)
  have c: "ext_carry r \<longleftrightarrow> (if kind = Ext_add then ?b src \<and> ?b dst \<or> \<not> ?b (ext_result r) \<and> ?b dst \<or> ?b src \<and> \<not> ?b (ext_result r)
      else ?b src \<and> \<not> ?b dst \<or> ?b (ext_result r) \<and> \<not> ?b dst \<or> ?b src \<and> ?b (ext_result r))"
    unfolding R by (simp only: r_def m68k_evaluate_extended_arithmetic_def Let_def M68kExtendedArithmeticResult.simps
      width_sign_bit bit_and_iff bit_or_iff not mask_top simp_thms)
  have v: "ext_overflow r \<longleftrightarrow> (if kind = Ext_add then ?b src \<and> ?b dst \<and> \<not> ?b (ext_result r) \<or> \<not> ?b src \<and> \<not> ?b dst \<and> ?b (ext_result r)
      else \<not> ?b src \<and> ?b dst \<and> \<not> ?b (ext_result r) \<or> ?b src \<and> \<not> ?b dst \<and> ?b (ext_result r))"
    unfolding R by (simp only: r_def m68k_evaluate_extended_arithmetic_def Let_def M68kExtendedArithmeticResult.simps
      width_sign_bit bit_and_iff bit_or_iff not mask_top simp_thms)
  show ?thesis
    unfolding result_flags_def power_half(1) u n c v signed_at_half bit_at_half U
    using S D h by (cases kind; cases x) (auto simp: s_def)
qed

lemma extended_ccr:
  fixes sr :: u16 and src dst :: u32 and w :: M68kMemoryAccessWidth and kind :: M68kExtendedArithmeticKind
  defines "sr' \<equiv> m68k_extended_arithmetic_ccr sr kind src dst w"
    and "r \<equiv> m68k_evaluate_extended_arithmetic kind src dst (ccr_X sr) w"
  shows "ccr_X sr' = ext_carry r" "ccr_C sr' = ext_carry r" "ccr_N sr' = ext_negative r"
    "ccr_Z sr' = (ext_result r = 0 \<and> ccr_Z sr)" "ccr_V sr' = ext_overflow r" "system_part sr' = system_part sr"
  unfolding sr'_def m68k_extended_arithmetic_ccr_def Let_def r_def system_part_flags ccr_mask
  by (simp_all add: ccr_defs bit_or_iff bit_flag bit_and_iff)

text \<open>
  The execution of one ADDX or SUBX after the other on the words of two numbers, from the least
  significant word on, each reading the X its predecessor left.
\<close>

fun extended_chain ::
  "M68kExtendedArithmeticKind \<Rightarrow> M68kMemoryAccessWidth \<Rightarrow> (u32 \<times> u32) list \<Rightarrow> u16 \<Rightarrow> u32 list \<times> u16" where
  "extended_chain kind w [] sr = ([], sr)"
| "extended_chain kind w ((src, dst) # words) sr =
     (let r = m68k_evaluate_extended_arithmetic kind src dst (sr AND 0x0010 \<noteq> 0) w;
          (rs, sr') = extended_chain kind w words (m68k_extended_arithmetic_ccr sr kind src dst w)
      in (ext_result r # rs, sr'))"

fun number :: "M68kMemoryAccessWidth \<Rightarrow> u32 list \<Rightarrow> int" where
  "number w [] = 0"
| "number w (d # ds) = unsigned_at w d + 2 ^ width_bits w * number w ds"

lemma number_zero: "0 \<le> number w ds" "list_all (\<lambda>d. unsigned_at w d = 0) ds \<longleftrightarrow> number w ds = 0"
  by (induction ds) (auto simp: unsigned_at_range add_nonneg_eq_0_iff)

lemma carry_step:
  fixes r e B N :: int and c :: bool and s :: int
  assumes "r = e mod B" "c \<longleftrightarrow> e < 0 \<or> B \<le> e" "- B \<le> e" "e < 2 * B" "0 < B" "s = 1 \<and> 0 \<le> e \<or> s = - 1 \<and> e < B"
  shows "r + s * B * of_bool c = e"
proof (cases c)
  case False
  then show ?thesis using assms by (simp add: mod_pos_pos_trivial)
next
  case True
  with assms(2) consider "e < 0" | "B \<le> e" by blast
  then show ?thesis
  proof cases
    case 1
    have "e mod B = e + B" by (subst mod_once_neg) (use 1 assms(3-5) in auto)
    then show ?thesis using 1 assms(1,6) True by auto
  next
    case 2
    have "e mod B = e - B" by (subst mod_once) (use 2 assms(3-5) in auto)
    then show ?thesis using 2 assms(1,6) True by auto
  qed
qed

lemma extended_step:
  fixes src dst :: u32 and w :: M68kMemoryAccessWidth and kind :: M68kExtendedArithmeticKind and x :: bool
  defines "r \<equiv> m68k_evaluate_extended_arithmetic kind src dst x w" and "s \<equiv> if kind = Ext_add then 1 else - 1"
  shows "unsigned_at w (ext_result r) + s * 2 ^ width_bits w * of_bool (ext_carry r) =
           unsigned_at w dst + s * (unsigned_at w src + of_bool x)"
    and "ext_result r = 0 \<longleftrightarrow> unsigned_at w (ext_result r) = 0"
proof -
  note F = extended_flags [where w = w and src = src and dst = dst and x = x and kind = kind, folded r_def s_def, unfolded result_flags_def]
  have u: "unsigned_at w (ext_result r) = uint (ext_result r)" using F unfolding unsigned_at_def by simp
  show "unsigned_at w (ext_result r) + s * 2 ^ width_bits w * of_bool (ext_carry r) =
      unsigned_at w dst + s * (unsigned_at w src + of_bool x)"
    unfolding u using F unsigned_at_range [of w src] unsigned_at_range [of w dst] power_half(2) [of w]
    by (intro carry_step) (cases kind; cases x; auto simp: s_def power_half(1))+
  show "ext_result r = 0 \<longleftrightarrow> unsigned_at w (ext_result r) = 0" unfolding u by (simp only: uint_0_iff)
qed

lemma extended_chain_number:
  fixes sr :: u16 and kind :: M68kExtendedArithmeticKind
  defines "s \<equiv> if kind = Ext_add then 1 else - 1 :: int"
  assumes "extended_chain kind w words sr = (rs, sr')"
  shows "length rs = length words \<and>
    number w rs + s * of_bool (ccr_X sr') * 2 ^ (width_bits w * length words) =
      number w (map snd words) + s * (number w (map fst words) + of_bool (ccr_X sr)) \<and>
    ccr_Z sr' = (ccr_Z sr \<and> number w rs = 0) \<and> system_part sr' = system_part sr"
  using assms(2)
proof (induction words arbitrary: sr rs)
  case Nil
  then show ?case by simp
next
  case (Cons p words)
  obtain src dst where p: "p = (src, dst)" by (cases p)
  let ?B = "2 ^ width_bits w :: int"
  let ?r = "m68k_evaluate_extended_arithmetic kind src dst (ccr_X sr) w"
    and ?sr = "m68k_extended_arithmetic_ccr sr kind src dst w"
  obtain rs1 where c: "extended_chain kind w words ?sr = (rs1, sr')" and rs: "rs = ext_result ?r # rs1"
    using Cons.prems by (auto simp: p ccr_mask Let_def split: prod.splits)
  note IH = Cons.IH [OF c]
  note E = extended_step [where w = w and kind = kind and src = src and dst = dst and x = "ccr_X sr", folded s_def]
  have n: "number w rs = unsigned_at w (ext_result ?r) + ?B * number w rs1" by (simp add: rs)
  have "number w rs + s * of_bool (ccr_X sr') * ?B ^ length (p # words) =
      unsigned_at w (ext_result ?r) + ?B * (number w rs1 + s * of_bool (ccr_X sr') * ?B ^ length words)"
    unfolding n by (simp add: algebra_simps)
  also have "\<dots> = unsigned_at w (ext_result ?r) + s * ?B * of_bool (ext_carry ?r) +
      ?B * (number w (map snd words) + s * number w (map fst words))"
    using IH by (simp add: power_mult extended_ccr algebra_simps)
  also have "\<dots> = number w (map snd (p # words)) + s * (number w (map fst (p # words)) + of_bool (ccr_X sr))"
    unfolding E(1) by (simp add: p algebra_simps)
  finally have "number w rs + s * of_bool (ccr_X sr') * 2 ^ (width_bits w * length (p # words)) =
      number w (map snd (p # words)) + s * (number w (map fst (p # words)) + of_bool (ccr_X sr))"
    by (simp only: power_mult)
  moreover have "ccr_Z sr' = (ccr_Z sr \<and> number w rs = 0)"
    using IH E(2) number_zero(1) [of w rs1] unsigned_at_range(1) [of w "ext_result ?r"]
    by (auto simp: n extended_ccr add_nonneg_eq_0_iff)
  ultimately show ?case using IH by (simp add: rs extended_ccr)
qed

text \<open>
  C35. A chain of ADDX or SUBX computes on numbers of any length: started with X as the carry or
  borrow in, the words it leaves and the final X are the sum or the difference of the two numbers, Z
  stays set exactly when it was set before and every word of the result is zero, and the system byte
  is untouched.
\<close>

theorem extended_chain_correct:
  "case extended_chain kind w words sr of (rs, sr') \<Rightarrow>
     (let s = if kind = Ext_add then 1 else - 1 in
      length rs = length words \<and>
      number w rs + s * of_bool (ccr_X sr') * 2 ^ (width_bits w * length words) =
        number w (map snd words) + s * (number w (map fst words) + of_bool (ccr_X sr)) \<and>
      ccr_Z sr' = (ccr_Z sr \<and> number w rs = 0) \<and> system_part sr' = system_part sr)"
proof -
  obtain rs sr' where c: "extended_chain kind w words sr = (rs, sr')" by fastforce
  show ?thesis unfolding c prod.case Let_def by (rule extended_chain_number [OF c])
qed

section \<open>Packed decimal numbers\<close>

text \<open>The low byte of a word as two decimal digits, and its value.\<close>

definition high_digit :: "u32 \<Rightarrow> int" where "high_digit b = uint b div 16 mod 16"
definition low_digit :: "u32 \<Rightarrow> int" where "low_digit b = uint b mod 16"

definition is_bcd :: "u32 \<Rightarrow> bool" where
  "is_bcd b \<longleftrightarrow> high_digit b \<le> 9 \<and> low_digit b \<le> 9"

definition bcd_value :: "u32 \<Rightarrow> int" where
  "bcd_value b = 10 * high_digit b + low_digit b"

lemma low_nibble: "b AND 0x0F = (of_int (low_digit b) :: u32)"
proof -
  have "b AND 0x0F = take_bit 4 b" by (simp add: take_bit_eq_mask mask_eq_exp_minus_1)
  then have "uint (b AND 0x0F) = low_digit b"
    unfolding low_digit_def by (simp only: unsigned_take_bit_eq) (simp add: take_bit_eq_mod)
  then show ?thesis by (metis word_of_int_uint)
qed

lemma high_nibble: "b AND 0xF0 = (of_int (16 * high_digit b) :: u32)"
proof -
  have m: "(0xF0 :: u32) = push_bit 4 (mask 4)" by (simp add: mask_eq_exp_minus_1)
  have "b AND 0xF0 = push_bit 4 (take_bit 4 (drop_bit 4 b))"
    unfolding m by (rule bit_word_eqI) (auto simp: bit_simps)
  moreover have "take_bit 4 (drop_bit 4 b) = of_int (high_digit b)"
  proof -
    have "uint (take_bit 4 (drop_bit 4 b)) = high_digit b"
      unfolding unsigned_take_bit_eq unsigned_drop_bit_eq high_digit_def
      using uint_bounded [of b] by (simp add: take_bit_eq_mod drop_bit_eq_div)
    then show ?thesis by (metis word_of_int_uint)
  qed
  ultimately show ?thesis by (simp add: push_bit_eq_mult)
qed

lemma digit_range: "0 \<le> low_digit b" "0 \<le> high_digit b"
  by (simp_all add: low_digit_def high_digit_def)

lemma less_of_int:
  assumes "- 2147483648 \<le> k" "k < 2147483648" "0 \<le> c" "c < 2147483648"
  shows "(of_int c :: u32) < of_int k \<longleftrightarrow> k < 0 \<or> c < k"
proof -
  have "uint (of_int k :: u32) = k mod 4294967296" by (simp add: uint_word_of_int)
  also have "\<dots> = (if k < 0 then k + 4294967296 else k)"
    by (rule mod_once_neg) (use assms(1,2) in simp_all)
  finally have "uint (of_int k :: u32) = (if k < 0 then k + 4294967296 else k)" .
  moreover have "uint (of_int c :: u32) = c" using assms(3,4) by (simp add: uint_word_of_int)
  ultimately show ?thesis using assms by (auto simp: word_less_def)
qed

lemma byte_of_int: "ucast (of_int k AND 0xFF :: u32) = (of_int k :: u8)"
proof -
  have m: "of_int k AND 0xFF = take_bit 8 (of_int k :: u32)" by (simp add: take_bit_eq_mask mask_eq_exp_minus_1)
  show ?thesis unfolding m
    by (rule bit_word_eqI) (auto simp: bit_simps)
qed

lemma bcd_byte:
  assumes "0 \<le> hi" "hi \<le> 9" "0 \<le> lo" "lo \<le> 9"
  shows "is_bcd (ucast (of_int (16 * hi + lo) :: u8))" "bcd_value (ucast (of_int (16 * hi + lo) :: u8)) = 10 * hi + lo"
    "(of_int (16 * hi + lo) :: u8) = 0 \<longleftrightarrow> 10 * hi + lo = 0"
proof -
  have "uint (ucast (of_int (16 * hi + lo) :: u8) :: u32) = 16 * hi + lo" "uint (of_int (16 * hi + lo) :: u8) = 16 * hi + lo"
    using assms by (simp_all add: unsigned_ucast_eq uint_word_of_int take_bit_eq_mod del: of_int_add of_int_mult)
  note u = this
  have d: "high_digit (ucast (of_int (16 * hi + lo) :: u8)) = hi" "low_digit (ucast (of_int (16 * hi + lo) :: u8)) = lo"
    unfolding high_digit_def low_digit_def u using assms by auto
  show "is_bcd (ucast (of_int (16 * hi + lo) :: u8))" "bcd_value (ucast (of_int (16 * hi + lo) :: u8)) = 10 * hi + lo"
    unfolding is_bcd_def bcd_value_def d using assms by simp_all
  show "(of_int (16 * hi + lo) :: u8) = 0 \<longleftrightarrow> 10 * hi + lo = 0"
    unfolding uint_0_iff [symmetric] u(2)
    using assms add_nonneg_eq_0_iff [of "16 * hi" lo] add_nonneg_eq_0_iff [of "10 * hi" lo] by simp
qed

lemma byte_nibbles:
  "(b AND 0xFF) AND 0x0F = (of_int (low_digit b) :: u32)" "(b AND 0xFF) AND 0xF0 = (of_int (16 * high_digit b) :: u32)"
  unfolding low_nibble [symmetric] high_nibble [symmetric] by (simp_all add: and.assoc)

lemma decimal_steps:
  fixes k :: int
  assumes "- 2147483648 \<le> k" "k < 2147483648"
  shows "(of_int k :: u32) > 9 \<longleftrightarrow> k < 0 \<or> 9 < k" "(of_int k :: u32) > 0x99 \<longleftrightarrow> k < 0 \<or> 0x99 < k"
  using less_of_int [OF assms, where c = 9] less_of_int [OF assms, where c = 153] by simp_all

lemma masked_zero: "of_int k AND 0xFF = (0 :: u32) \<longleftrightarrow> (of_int k :: u8) = 0"
proof -
  have m: "of_int k AND 0xFF = take_bit 8 (of_int k :: u32)" by (simp add: take_bit_eq_mask mask_eq_exp_minus_1)
  have "take_bit 8 (of_int k :: u32) = 0 \<longleftrightarrow> (ucast (take_bit 8 (of_int k :: u32)) :: u8) = 0"
    by (auto simp: bit_eq_iff bit_simps)
  then show ?thesis using byte_of_int [of k] m by simp
qed

definition decimal_mid :: "bool \<Rightarrow> int \<Rightarrow> int \<Rightarrow> int" where
  "decimal_mid add low high =
     low + (if low < 0 \<or> 9 < low then (if add then 6 else - 6) else 0) + 16 * high"

lemma decimal_int:
  fixes src dst :: u32 and x add :: bool
  defines "r \<equiv> m68k_evaluate_decimal_arithmetic (if add then Dec_add else Dec_subtract) src dst x"
    and "low \<equiv> if add then low_digit src + low_digit dst + of_bool x else low_digit dst - low_digit src - of_bool x"
    and "high \<equiv> if add then high_digit src + high_digit dst else high_digit dst - high_digit src"
  defines "mid \<equiv> decimal_mid add low high"
  assumes "is_bcd src" "is_bcd dst"
  shows "dec_carry r \<longleftrightarrow> mid < 0 \<or> 0x99 < mid"
    "dec_result r = of_int (mid - (if mid < 0 \<or> 0x99 < mid then if add then 0xA0 else - 0xA0 else 0))"
    "dec_clears_zero r \<longleftrightarrow> dec_result r \<noteq> 0"
proof -
  note D = assms(5,6)[unfolded is_bcd_def] digit_range[of src] digit_range[of dst]
  have low: "- 10 \<le> low" "low \<le> 19" using D by (auto simp: low_def)
  have high: "- 9 \<le> high" "high \<le> 18" using D by (auto simp: high_def)
  have mid: "- 1000 \<le> mid" "mid < 1000" using low high by (auto simp: mid_def decimal_mid_def)
  have r0: "(if add then ((src AND 0xFF) AND 0x0F) + ((dst AND 0xFF) AND 0x0F) + (if x then 1 else 0)
      else ((dst AND 0xFF) AND 0x0F) - ((src AND 0xFF) AND 0x0F) - (if x then 1 else 0)) = (of_int low :: u32)"
    unfolding byte_nibbles by (simp add: low_def)
  let ?low = "low + (if low < 0 \<or> 9 < low then (if add then 6 else - 6) else 0)"
  have r1: "(if (of_int low :: u32) > 9 then (if add then of_int low + 6 else of_int low - 6) else of_int low) = (of_int ?low :: u32)"
    using low by (subst decimal_steps) auto
  have r2: "(if add then (of_int ?low :: u32) + ((src AND 0xFF) AND 0xF0) + ((dst AND 0xFF) AND 0xF0)
      else of_int ?low + ((dst AND 0xFF) AND 0xF0) - ((src AND 0xFF) AND 0xF0)) = of_int mid"
    unfolding byte_nibbles mid_def decimal_mid_def high_def by (simp add: algebra_simps)
  have r3: "(of_int mid :: u32) > 0x99 \<longleftrightarrow> mid < 0 \<or> 0x99 < mid" using mid by (subst decimal_steps) auto
  have k: "((if add then Dec_add else Dec_subtract) = Dec_add) = add" "((if add then Dec_add else Dec_subtract) = Dec_negate) = False"
    by simp_all
  let ?res = "mid - (if mid < 0 \<or> 0x99 < mid then if add then 0xA0 else - 0xA0 else 0)"
  have r4: "(if mid < 0 \<or> 0x99 < mid then if add then of_int mid - 0xA0 else of_int mid + 0xA0 else (of_int mid :: u32)) = of_int ?res"
    by simp
  have "r = (let res0 = (of_int low :: u32); masked = (of_int ?res :: u32) AND 0xFF in
      \<lparr>dec_result = ucast masked, dec_carry = (mid < 0 \<or> 0x99 < mid), dec_negative = (masked AND 0x80 \<noteq> 0),
            dec_overflow = (NOT res0 AND masked AND 0x80 \<noteq> 0), dec_clears_zero = (masked \<noteq> 0)\<rparr>)"
    unfolding r_def m68k_evaluate_decimal_arithmetic_def Let_def k if_False r0 r1 r2 r3 r4 ..
  then show "dec_carry r \<longleftrightarrow> mid < 0 \<or> 0x99 < mid" "dec_result r = of_int ?res" "dec_clears_zero r \<longleftrightarrow> dec_result r \<noteq> 0"
    by (simp_all only: Let_def M68kDecimalArithmeticResult.simps byte_of_int masked_zero)
qed

lemma decimal_digits:
  fixes la lb ha hb x :: int and add :: bool
  defines "mid \<equiv> decimal_mid add (if add then la + lb + x else lb - la - x) (if add then ha + hb else hb - ha)"
    and "s \<equiv> if add then 1 else - 1 :: int"
  assumes "0 \<le> la" "la \<le> 9" "0 \<le> lb" "lb \<le> 9" "0 \<le> ha" "ha \<le> 9" "0 \<le> hb" "hb \<le> 9" "x = 0 \<or> x = 1"
  shows "\<exists>hi lo. 0 \<le> hi \<and> hi \<le> 9 \<and> 0 \<le> lo \<and> lo \<le> 9 \<and>
    mid - (if mid < 0 \<or> 0x99 < mid then if add then 0xA0 else - 0xA0 else 0) = 16 * hi + lo \<and>
    10 * hi + lo + s * 100 * of_bool (mid < 0 \<or> 0x99 < mid) = 10 * hb + lb + s * (10 * ha + la + x)"
proof (cases add)
  case True
  define c where "c = (if 9 < la + lb + x then 1 else 0 :: int)"
  have m: "mid = la + lb + x - 10 * c + 16 * (ha + hb + c)" using True assms(3-) by (auto simp: mid_def decimal_mid_def c_def)
  have lo: "0 \<le> la + lb + x - 10 * c" "la + lb + x - 10 * c \<le> 9" using assms(3-) by (auto simp: c_def)
  have b: "(mid < 0 \<or> 0x99 < mid) \<longleftrightarrow> 10 \<le> ha + hb + c"
    using m lo assms(3-) by (auto simp: c_def split: if_splits)
  show ?thesis
    by (rule exI [of _ "ha + hb + c - (if 10 \<le> ha + hb + c then 10 else 0)"], rule exI [of _ "la + lb + x - 10 * c"])
      (use True m lo assms(3-) in \<open>unfold b, auto simp: s_def c_def\<close>)
next
  case False
  define c where "c = (if lb - la - x < 0 then 1 else 0 :: int)"
  have m: "mid = lb - la - x + 10 * c + 16 * (hb - ha - c)" using False assms(3-) by (auto simp: mid_def decimal_mid_def c_def)
  have lo: "0 \<le> lb - la - x + 10 * c" "lb - la - x + 10 * c \<le> 9" using assms(3-) by (auto simp: c_def)
  have b: "(mid < 0 \<or> 0x99 < mid) \<longleftrightarrow> hb - ha - c < 0"
    using m lo assms(3-) by (auto simp: c_def split: if_splits)
  show ?thesis
    by (rule exI [of _ "hb - ha - c + (if hb - ha - c < 0 then 10 else 0)"], rule exI [of _ "lb - la - x + 10 * c"])
      (use False m lo assms(3-) in \<open>unfold b, auto simp: s_def c_def\<close>)
qed

lemma decimal_add_sub:
  fixes src dst :: u32 and x add :: bool
  defines "r \<equiv> m68k_evaluate_decimal_arithmetic (if add then Dec_add else Dec_subtract) src dst x"
    and "s \<equiv> if add then 1 else - 1 :: int"
  assumes "is_bcd src" "is_bcd dst"
  shows "is_bcd (ucast (dec_result r))" "dec_clears_zero r \<longleftrightarrow> bcd_value (ucast (dec_result r)) \<noteq> 0"
    "bcd_value (ucast (dec_result r)) + s * 100 * of_bool (dec_carry r) = bcd_value dst + s * (bcd_value src + of_bool x)"
proof -
  note I = decimal_int [OF assms(3,4), where add = add and x = x, folded r_def]
  note D = assms(3,4)[unfolded is_bcd_def] digit_range[of src] digit_range[of dst]
  let ?low = "if add then low_digit src + low_digit dst + of_bool x else low_digit dst - low_digit src - of_bool x"
    and ?high = "if add then high_digit src + high_digit dst else high_digit dst - high_digit src"
  let ?mid = "decimal_mid add ?low ?high"
  have "\<exists>hi lo. 0 \<le> hi \<and> hi \<le> 9 \<and> 0 \<le> lo \<and> lo \<le> 9 \<and>
    ?mid - (if ?mid < 0 \<or> 0x99 < ?mid then if add then 0xA0 else - 0xA0 else 0) = 16 * hi + lo \<and>
    10 * hi + lo + s * 100 * of_bool (?mid < 0 \<or> 0x99 < ?mid) =
      10 * high_digit dst + low_digit dst + s * (10 * high_digit src + low_digit src + of_bool x)"
    unfolding s_def by (rule decimal_digits) (use D in simp_all)
  then obtain hi lo where d: "0 \<le> hi" "hi \<le> 9" "0 \<le> lo" "lo \<le> 9" "dec_result r = of_int (16 * hi + lo)"
    "10 * hi + lo + s * 100 * of_bool (dec_carry r) =
      10 * high_digit dst + low_digit dst + s * (10 * high_digit src + low_digit src + of_bool x)"
    unfolding I(1,2) by metis
  note B = bcd_byte [OF d(1-4)]
  show "is_bcd (ucast (dec_result r))" unfolding d(5) by (rule B)
  show "dec_clears_zero r \<longleftrightarrow> bcd_value (ucast (dec_result r)) \<noteq> 0" unfolding I(3) d(5) B(2,3) by simp
  show "bcd_value (ucast (dec_result r)) + s * 100 * of_bool (dec_carry r) = bcd_value dst + s * (bcd_value src + of_bool x)"
  proof -
    have "bcd_value (ucast (dec_result r)) = 10 * hi + lo" unfolding d(5) by (rule B(2))
    with d(6) show ?thesis by (simp only: bcd_value_def [of dst] bcd_value_def [of src])
  qed
qed

lemma byte_value: "b AND 0xFF = (of_int (16 * high_digit b + low_digit b) :: u32)"
proof -
  have m: "b AND 0xFF = take_bit 8 b" by (simp add: take_bit_eq_mask mask_eq_exp_minus_1)
  have "uint (b AND 0xFF) = uint b mod 256" unfolding m unsigned_take_bit_eq by (simp add: take_bit_eq_mod)
  also have "\<dots> = 16 * high_digit b + low_digit b" unfolding high_digit_def low_digit_def
    using zmod_zmult2_eq [of 16 "uint b" 16] by simp
  finally show ?thesis by (metis word_of_int_uint)
qed

lemma small_of_int:
  assumes "0 \<le> k" "k < 256"
  shows "high_digit (of_int k) = k div 16" "low_digit (of_int k) = k mod 16" "(of_int k :: u32) AND 0xFF = of_int k"
    "(of_int k :: u32) = 0x9A \<longleftrightarrow> k = 0x9A" "(of_int k :: u32) = 0x0A \<longleftrightarrow> k = 0x0A"
proof -
  have u: "uint (of_int k :: u32) = k" using assms by (simp add: uint_word_of_int)
  show d: "high_digit (of_int k) = k div 16" "low_digit (of_int k) = k mod 16"
    using assms unfolding high_digit_def low_digit_def u by auto
  show "(of_int k :: u32) AND 0xFF = of_int k" unfolding byte_value d by (simp flip: of_int_mult of_int_add)
  show "(of_int k :: u32) = 0x9A \<longleftrightarrow> k = 0x9A" "(of_int k :: u32) = 0x0A \<longleftrightarrow> k = 0x0A"
    unfolding word_uint_eq_iff u by simp_all
qed

lemma decimal_negate:
  fixes src dst :: u32 and x :: bool
  defines "r \<equiv> m68k_evaluate_decimal_arithmetic Dec_negate src dst x"
  assumes "is_bcd dst"
  shows "is_bcd (ucast (dec_result r)) \<and> (dec_clears_zero r \<longleftrightarrow> bcd_value (ucast (dec_result r)) \<noteq> 0) \<and>
    bcd_value (ucast (dec_result r)) = (if dec_carry r then 100 else 0) - bcd_value dst - of_bool x"
proof -
  define h l where "h = high_digit dst" and "l = low_digit dst"
  note D = assms(2)[unfolded is_bcd_def] digit_range[of dst]
  have hl: "0 \<le> h" "h \<le> 9" "0 \<le> l" "l \<le> 9" using D by (simp_all add: h_def l_def)
  define K where "K = 154 - (16 * h + l) - of_bool x"
  have K: "0 \<le> K" "K < 256" using hl by (auto simp: K_def)
  have b: "dst AND 0xFF = of_int (16 * h + l)" by (simp add: byte_value h_def l_def)
  have e: "(0x9A - (of_int (16 * h + l)) - (if x then 1 else 0) :: u32) AND 0xFF = of_int K"
  proof -
    have "(0x9A - (of_int (16 * h + l)) - (if x then 1 else 0) :: u32) = of_int K" by (simp add: K_def)
    then show ?thesis by (simp add: small_of_int(3) [OF K])
  qed
  have v: "bcd_value dst = 10 * h + l" by (simp add: bcd_value_def h_def l_def)
  have lo: "(of_int K :: u32) AND 0x0F = 0x0A \<longleftrightarrow> K mod 16 = 10" "(of_int K :: u32) AND 0xF0 = of_int (16 * (K div 16))"
    unfolding low_nibble high_nibble small_of_int(1,2) [OF K] by (rule small_of_int(5), auto simp: less_trans [OF pos_mod_bound])
  have r: "r = (if K = 154 then \<lparr>dec_result = ucast (of_int (16 * h + l) :: u32), dec_carry = False, dec_negative = True,
        dec_overflow = False, dec_clears_zero = False\<rparr>
      else let v0 = NOT (of_int K); res1 = (if K mod 16 = 10 then of_int (16 * (K div 16)) + 0x10 else of_int K) AND (0xFF :: u32)
        in \<lparr>dec_result = ucast res1, dec_carry = True, dec_negative = (res1 AND 0x80 \<noteq> 0),
            dec_overflow = (v0 AND res1 AND 0x80 \<noteq> 0), dec_clears_zero = (res1 \<noteq> 0)\<rparr>)"
    unfolding r_def m68k_evaluate_decimal_arithmetic_def Let_def b e small_of_int(4) [OF K] lo by simp
  have w: ?thesis if d: "0 \<le> hi" "hi \<le> 9" "0 \<le> lo" "lo \<le> 9" "dec_result r = of_int (16 * hi + lo)"
      "dec_clears_zero r \<longleftrightarrow> dec_result r \<noteq> 0" "10 * hi + lo = (if dec_carry r then 100 else 0) - (10 * h + l) - of_bool x"
    for hi lo
    unfolding d(5,6) v using bcd_byte [OF d(1-4)] d(7) by simp
  have "?thesis"
  proof (cases "K = 154")
    case True
    then have "h = 0" "l = 0" "\<not> x" using hl unfolding K_def by (cases x; simp; arith)+
    then show ?thesis by (intro w [of 0 0]) (simp_all add: r True)
  next
    case False
    define res where "res = (if K mod 16 = 10 then 16 * (K div 16) + 16 else K)"
    have rr: "dec_result r = of_int res" "dec_carry r" "dec_clears_zero r \<longleftrightarrow> dec_result r \<noteq> 0"
    proof -
      have "(if K mod 16 = 10 then of_int (16 * (K div 16)) + 0x10 else of_int K :: u32) = of_int res"
        by (simp add: res_def)
      then have "r = (let res1 = (of_int res AND 0xFF :: u32) in
          \<lparr>dec_result = ucast res1, dec_carry = True, dec_negative = (res1 AND 0x80 \<noteq> 0),
            dec_overflow = (NOT (of_int K) AND res1 AND 0x80 \<noteq> 0), dec_clears_zero = (res1 \<noteq> 0)\<rparr>)"
        unfolding r Let_def using False by simp
      then show "dec_result r = of_int res" "dec_carry r" "dec_clears_zero r \<longleftrightarrow> dec_result r \<noteq> 0"
        by (simp_all only: Let_def M68kDecimalArithmeticResult.simps byte_of_int masked_zero)
    qed
    show ?thesis
    proof (cases "l + of_bool x = 0")
      case True
      have k: "K = 10 + 16 * (9 - h)" using True hl by (simp add: K_def)
      have "K mod 16 = 10" unfolding k mod_mult_self2 by simp
      moreover have "K div 16 = 9 - h" unfolding k by (subst div_mult_self2) simp_all
      ultimately have "res = 16 * (10 - h) + 0" by (simp add: res_def)
      moreover have "1 \<le> h" using False True hl by (cases "h = 0") (auto simp: K_def)
      ultimately show ?thesis using hl True rr by (intro w [of "10 - h" 0]) auto
    next
      case l: False
      define lo where "lo = 10 - l - of_bool x"
      have lo: "0 \<le> lo" "lo \<le> 9" using l hl by (auto simp: lo_def split: if_splits)
      have k: "K = 16 * (9 - h) + lo" by (simp add: K_def lo_def)
      have "K mod 16 = lo" unfolding k add.commute [of "16 * _"] mod_mult_self2 using lo by simp
      then have "res = 16 * (9 - h) + lo" using lo by (simp add: res_def k)
      then show ?thesis using hl lo rr by (intro w [of "9 - h" lo]) (auto simp: lo_def)
    qed
  qed
  then show ?thesis .
qed

text \<open>
  C36. ABCD, SBCD and NBCD are decimal arithmetic: on packed decimal operands the result is packed
  decimal, its value with the decimal carry or borrow is the sum, the difference or the ten's
  complement with X, and Z is cleared exactly when the result is not zero.
\<close>

theorem decimal_arithmetic_correct:
  assumes "is_bcd src" "is_bcd dst"
  shows "let r = m68k_evaluate_decimal_arithmetic kind src dst x; v = bcd_value (ucast (dec_result r)); c = 100 * of_bool (dec_carry r) in
    is_bcd (ucast (dec_result r)) \<and> dec_clears_zero r = (v \<noteq> 0) \<and>
    (case kind of
       Dec_add \<Rightarrow> v + c = bcd_value dst + bcd_value src + of_bool x
     | Dec_subtract \<Rightarrow> v - c = bcd_value dst - bcd_value src - of_bool x
     | Dec_negate \<Rightarrow> v - c = - bcd_value dst - of_bool x)"
proof (cases kind)
  case Dec_add
  then show ?thesis using decimal_add_sub [OF assms, where add = True and x = x] by (simp add: Let_def)
next
  case Dec_subtract
  then show ?thesis using decimal_add_sub [OF assms, where add = False and x = x] by (simp add: Let_def)
next
  case Dec_negate
  then show ?thesis using decimal_negate [OF assms(2), where src = src and x = x] by (simp add: Let_def)
qed

text \<open>Applied to \<open>27 + 58\<close>.\<close>

theorem decimal_arithmetic_correct_witness:
  "bcd_value (ucast (dec_result (m68k_evaluate_decimal_arithmetic Dec_add 0x27 0x58 False))) = 85 \<and>
   dec_result (m68k_evaluate_decimal_arithmetic Dec_add 0x27 0x58 False) = 0x85"
proof -
  have b: "is_bcd 0x27" "is_bcd 0x58" by (simp_all add: is_bcd_def high_digit_def low_digit_def)
  have d: "dec_result (m68k_evaluate_decimal_arithmetic Dec_add 0x27 0x58 False) = 0x85"
    "\<not> dec_carry (m68k_evaluate_decimal_arithmetic Dec_add 0x27 0x58 False)"
    by (simp_all add: m68k_evaluate_decimal_arithmetic_def Let_def)
  show ?thesis
    using decimal_arithmetic_correct [OF b, of Dec_add False] d
    by (simp add: Let_def bcd_value_def high_digit_def low_digit_def)
qed

end
