(* ===== verification/M68k_Counters.thy ===== *)
theory M68k_Counters
  imports M68k_Alu
begin

text \<open>
  Division, the register lists of MOVEM and the loop counter of DBcc: the truncated quotient against
  its defining equation, the transfer order against the set of selected registers, and the number of
  passes of a loop closed by DBcc.
\<close>

section \<open>Division\<close>

text \<open>The quotient and remainder of a division that truncates towards zero, as a relation.\<close>

definition truncated_division :: "int \<Rightarrow> int \<Rightarrow> int \<Rightarrow> int \<Rightarrow> bool" where
  "truncated_division a b q r \<longleftrightarrow> a = q * b + r \<and> \<bar>r\<bar> < \<bar>b\<bar> \<and> (r = 0 \<or> sgn r = sgn a)"

lemma truncated_division_tdiv:
  assumes "b \<noteq> 0"
  shows "truncated_division a b (tdiv a b) (tmod a b)"
proof -
  have m: "0 \<le> \<bar>a\<bar> mod \<bar>b\<bar>" "\<bar>a\<bar> mod \<bar>b\<bar> < \<bar>b\<bar>" using assms by simp_all
  have "sgn a * sgn b * (\<bar>a\<bar> div \<bar>b\<bar>) * b = sgn a * ((\<bar>a\<bar> div \<bar>b\<bar>) * \<bar>b\<bar>)"
    by (simp add: abs_sgn mult_ac)
  then have "tdiv a b * b + tmod a b = sgn a * (\<bar>a\<bar> div \<bar>b\<bar> * \<bar>b\<bar> + \<bar>a\<bar> mod \<bar>b\<bar>)"
    unfolding tdiv_def tmod_def distrib_left by simp
  then have "a = tdiv a b * b + tmod a b" by (simp add: mult_sgn_abs)
  moreover have "\<bar>tmod a b\<bar> < \<bar>b\<bar>" using m assms by (simp add: tmod_def abs_mult sgn_if)
  moreover have "tmod a b = 0 \<or> sgn (tmod a b) = sgn a"
    using m(1) unfolding tmod_def sgn_mult by (cases "\<bar>a\<bar> mod \<bar>b\<bar> = 0") (simp_all only: sgn_if, auto)
  ultimately show ?thesis by (simp add: truncated_division_def)
qed

lemma truncated_division_unique:
  assumes "truncated_division a b q r" "b \<noteq> 0" shows "q = tdiv a b" "r = tmod a b"
proof -
  from assms(1) have e: "a = q * b + r" "\<bar>r\<bar> < \<bar>b\<bar>" "r = 0 \<or> sgn r = sgn a" unfolding truncated_division_def by blast+
  have "\<bar>a\<bar> = \<bar>b\<bar> * (sgn a * sgn b * q) + sgn a * r"
  proof -
    have "\<bar>a\<bar> = sgn a * (q * b + r)" using e(1) by (simp add: abs_sgn mult.commute)
    also have "\<dots> = \<bar>b\<bar> * (sgn a * sgn b * q) + sgn a * r" 
      using assms(2) by (simp add: distrib_left abs_sgn mult_ac)
    finally show ?thesis .
  qed
  moreover have "0 \<le> sgn a * r" "sgn a * r < \<bar>b\<bar>" using e(2,3) by (auto simp: sgn_if split: if_splits)
  ultimately have d: "\<bar>a\<bar> div \<bar>b\<bar> = sgn a * sgn b * q" "\<bar>a\<bar> mod \<bar>b\<bar> = sgn a * r"
    by (auto intro: int_div_pos_eq int_mod_pos_eq)
  show "q = tdiv a b" "r = tmod a b"
  proof -
    have z: "a = 0 \<Longrightarrow> r = 0 \<and> q = 0" using e assms(2) by (auto simp: sgn_if split: if_splits)
    have "tdiv a b = (sgn a * sgn a) * (sgn b * sgn b) * q" "tmod a b = (sgn a * sgn a) * r"
      by (simp_all only: tdiv_def tmod_def d mult_ac)
    then show "q = tdiv a b" "r = tmod a b" using z assms(2) by (cases "a = 0"; simp)+
  qed
qed

lemma tdiv_nonneg: "0 \<le> a \<Longrightarrow> 0 < b \<Longrightarrow> tdiv a b = a div b" "0 \<le> a \<Longrightarrow> 0 < b \<Longrightarrow> tmod a b = a mod b"
  by (auto simp: tdiv_def tmod_def sgn_if)

lemma pack_words:
  fixes hi lo :: u16
  shows "ucast (push_bit 16 (ucast hi) OR ucast lo :: u32) = lo"
    "ucast (drop_bit 16 (push_bit 16 (ucast hi) OR ucast lo :: u32)) = hi"
  by (rule bit_word_eqI, auto simp: bit_simps dest: bit_imp_le_length)+

lemma sint_of_int_u16: "- 32768 \<le> k \<Longrightarrow> k \<le> 32767 \<Longrightarrow> sint (of_int k :: u16) = k"
  by (simp add: int_word_sint)

lemma sint_0_iff: "sint (x :: 'a :: len word) = 0 \<longleftrightarrow> x = 0"
  by (metis signed_0 word_eq_iff_signed)

lemma signed_division:
  fixes dividend :: u32 and divisor :: u16
  assumes "divisor \<noteq> 0"
  defines "q \<equiv> tdiv (sint dividend) (sint divisor)" and "m \<equiv> tmod (sint dividend) (sint divisor)"
    and "r \<equiv> m68k_evaluate_division dividend divisor True"
  shows "div_overflow r \<longleftrightarrow> q < - 32768 \<or> 32767 < q"
    "\<not> div_overflow r \<Longrightarrow> sint (ucast (div_result r) :: u16) = q \<and> sint (ucast (drop_bit 16 (div_result r)) :: u16) = m"
proof -
  have r: "r = (if q < - 32768 \<or> q > 32767 then \<lparr>div_result = dividend, div_overflow = True, div_negative = False, div_zero = False\<rparr>
      else \<lparr>div_result = push_bit 16 (ucast (of_int m :: u16)) OR ucast (of_int q :: u16), div_overflow = False,
            div_negative = (q < 0), div_zero = (q = 0)\<rparr>)"
    unfolding r_def m68k_evaluate_division_def Let_def q_def m_def by simp
  show "div_overflow r \<longleftrightarrow> q < - 32768 \<or> 32767 < q" by (simp add: r)
  assume n: "\<not> div_overflow r"
  have "\<bar>m\<bar> < \<bar>sint divisor\<bar>"
    using truncated_division_tdiv [of "sint divisor" "sint dividend"] assms(1) by (simp add: m_def truncated_division_def sint_0_iff)
  moreover have "\<bar>sint divisor\<bar> \<le> 32768" using sint_ge [of divisor] sint_lt [of divisor] by simp
  ultimately have "- 32768 \<le> m" "m \<le> 32767" by auto
  then show "sint (ucast (div_result r) :: u16) = q \<and> sint (ucast (drop_bit 16 (div_result r)) :: u16) = m"
    using n unfolding r by (simp only: if_split M68kDivisionResult.simps pack_words split: if_splits) (simp add: sint_of_int_u16)
qed

lemma unsigned_division:
  fixes dividend :: u32 and divisor :: u16
  assumes "divisor \<noteq> 0"
  defines "q \<equiv> uint dividend div uint divisor" and "m \<equiv> uint dividend mod uint divisor"
    and "r \<equiv> m68k_evaluate_division dividend divisor False"
  shows "div_overflow r \<longleftrightarrow> 65535 < q"
    "\<not> div_overflow r \<Longrightarrow> uint (ucast (div_result r) :: u16) = q \<and> uint (ucast (drop_bit 16 (div_result r)) :: u16) = m"
proof -
  let ?d = "ucast divisor :: u32"
  have d: "uint ?d = uint divisor" using uint_bounded [of divisor] by (simp add: unsigned_ucast_eq take_bit_eq_mod)
  have q: "uint (dividend div ?d) = q" and m: "uint (dividend mod ?d) = m"
    unfolding q_def m_def d [symmetric] by (simp_all add: uint_div uint_mod)
  have o': "div_overflow r \<longleftrightarrow> 65535 < q"
    unfolding r_def m68k_evaluate_division_def Let_def by (simp add: word_less_def q)
  then show "div_overflow r \<longleftrightarrow> 65535 < q" .
  assume "\<not> div_overflow r"
  with o' have lq: "q \<le> 65535" by simp
  have "0 < uint divisor" using assms(1) by (metis uint_0_iff uint_ge_0 order_less_le)
  then have lm: "0 \<le> m" "m \<le> 65535"
    using uint_bounded [of divisor] pos_mod_bound [of "uint divisor" "uint dividend"]
    unfolding m_def by (simp_all del: pos_mod_bound)
  have e: "dividend mod ?d = ucast (of_int m :: u16)" "dividend div ?d AND 0xFFFF = ucast (of_int q :: u16)"
  proof -
    show "dividend mod ?d = ucast (of_int m :: u16)"
      using lm by (simp only: word_uint_eq_iff m) (simp add: unsigned_ucast_eq uint_word_of_int take_bit_eq_mod)
    have "dividend div ?d AND 0xFFFF = take_bit 16 (dividend div ?d)" by (simp add: take_bit_eq_mask mask_eq_exp_minus_1)
    then have "uint (dividend div ?d AND 0xFFFF) = take_bit 16 q" by (simp only: unsigned_take_bit_eq q)
    then show "dividend div ?d AND 0xFFFF = ucast (of_int q :: u16)"
      using lq q uint_ge_0 [of "dividend div ?d"]
      by (simp only: word_uint_eq_iff) (simp add: unsigned_ucast_eq uint_word_of_int take_bit_eq_mod)
  qed
  have dr: "div_result r = push_bit 16 (ucast (of_int m :: u16)) OR ucast (of_int q :: u16)"
    unfolding e [symmetric] using o' lq by (simp add: r_def m68k_evaluate_division_def Let_def split: if_splits)
  then show "uint (ucast (div_result r) :: u16) = q \<and> uint (ucast (drop_bit 16 (div_result r)) :: u16) = m"
    unfolding dr pack_words using lq lm q uint_ge_0 [of "dividend div ?d"] by (simp add: uint_word_of_int)
qed

text \<open>Operands and packed halves of a division, signed or not.\<close>

definition div_operand :: "bool \<Rightarrow> 'a :: len word \<Rightarrow> int" where
  "div_operand is_signed x = (if is_signed then sint x else uint x)"

lemma division_tdiv:
  fixes dividend :: u32 and divisor :: u16 and s :: bool
  assumes "divisor \<noteq> 0"
  defines "q \<equiv> tdiv (div_operand s dividend) (div_operand s divisor)" and "m \<equiv> tmod (div_operand s dividend) (div_operand s divisor)"
    and "r \<equiv> m68k_evaluate_division dividend divisor s"
  shows "div_overflow r \<longleftrightarrow> q < (if s then - 32768 else 0) \<or> (if s then 32767 else 65535) < q"
    "\<not> div_overflow r \<Longrightarrow> div_operand s (ucast (div_result r) :: u16) = q \<and> div_operand s (ucast (drop_bit 16 (div_result r)) :: u16) = m"
    "div_overflow r \<Longrightarrow> div_result r = dividend" "div_operand s divisor \<noteq> 0"
proof -
  have p: "0 < uint divisor" using assms(1) by (metis uint_0_iff uint_ge_0 order_less_le)
  show "div_operand s divisor \<noteq> 0" using p assms(1) by (simp add: div_operand_def sint_0_iff)
  have "0 \<le> uint dividend div uint divisor" using p by (simp add: pos_imp_zdiv_nonneg_iff)
  then show "div_overflow r \<longleftrightarrow> q < (if s then - 32768 else 0) \<or> (if s then 32767 else 65535) < q"
    and "\<not> div_overflow r \<Longrightarrow> div_operand s (ucast (div_result r) :: u16) = q \<and> div_operand s (ucast (drop_bit 16 (div_result r)) :: u16) = m"
    using signed_division [OF assms(1), of dividend] unsigned_division [OF assms(1), of dividend] p
    by (cases s; simp add: q_def m_def r_def div_operand_def tdiv_nonneg)+
  show "div_overflow r \<Longrightarrow> div_result r = dividend"
    by (cases s) (auto simp: r_def m68k_evaluate_division_def Let_def split: if_splits)
qed

text \<open>
  C37. The word divisions are exact or refused: with a divisor that is not zero, the quotient and the
  remainder packed into the result satisfy the equation of the division that truncates towards zero,
  with the remainder smaller than the divisor and of the sign of the dividend; overflow is reported
  exactly when no 16-bit quotient exists, and then the dividend is left as it was.
\<close>

theorem division_correct:
  fixes dividend :: u32 and divisor :: u16
  assumes "divisor \<noteq> 0"
  shows "let r = m68k_evaluate_division dividend divisor s; D = div_operand s dividend; d = div_operand s divisor in
    (div_overflow r \<longleftrightarrow>
       \<not> (\<exists>q m. (if s then - 32768 else 0) \<le> q \<and> q \<le> (if s then 32767 else 65535) \<and> truncated_division D d q m)) \<and>
    (if div_overflow r then div_result r = dividend
     else truncated_division D d (div_operand s (ucast (div_result r) :: u16)) (div_operand s (ucast (drop_bit 16 (div_result r)) :: u16)))"
proof -
  let ?D = "div_operand s dividend" and ?d = "div_operand s divisor" and ?r = "m68k_evaluate_division dividend divisor s"
  note T = division_tdiv(1-3) [OF assms, where s = s and dividend = dividend] and nz = division_tdiv(4) [OF assms, where s = s]
  have "(\<exists>q m. (if s then - 32768 else 0) \<le> q \<and> q \<le> (if s then 32767 else 65535) \<and> truncated_division ?D ?d q m) \<longleftrightarrow>
      (if s then - 32768 else 0) \<le> tdiv ?D ?d \<and> tdiv ?D ?d \<le> (if s then 32767 else 65535)"
    using truncated_division_tdiv [OF nz, of ?D] truncated_division_unique [OF _ nz, of ?D] by metis
  then show ?thesis
    unfolding Let_def using T(1-3) truncated_division_tdiv [OF nz, of ?D] by (auto simp: not_le not_less)
qed

text \<open>Applied to \<open>-7 / 2\<close>.\<close>

theorem division_correct_witness:
  "truncated_division (- 7) 2 (- 3) (- 1) \<and> \<not> div_overflow (m68k_evaluate_division 0xFFFFFFF9 2 True) \<and>
   div_result (m68k_evaluate_division 0xFFFFFFF9 2 True) = 0xFFFFFFFD"
proof -
  have r: "m68k_evaluate_division 0xFFFFFFF9 2 True =
      \<lparr>div_result = 0xFFFFFFFD, div_overflow = False, div_negative = True, div_zero = False\<rparr>"
    by code_simp
  show ?thesis
    using division_correct [where divisor = 2 and dividend = "0xFFFFFFF9" and s = True] by (simp add: r div_operand_def)
qed

section \<open>The register lists of MOVEM\<close>

definition mirrored :: "u16 \<Rightarrow> u16" where
  "mirrored m = horner_sum of_bool 2 (map (\<lambda>i. bit m (15 - i)) [0..<16])"

lemma bit_mirrored: "i < 16 \<Longrightarrow> bit (mirrored m) i \<longleftrightarrow> bit m (15 - i)"
  by (simp add: mirrored_def bit_horner_sum_bit_iff del: upt_rec_numeral)

lemma movem_order_filter:
  "m68k_movem_transfer_order m order =
     map (\<lambda>i. if order = Order_predecrement then 15 - i else i) (filter (bit m) [0..<16])"
proof -
  have "concat (map (\<lambda>i. if P i then [f i] else []) xs) = map f (filter P xs)" for P f and xs :: "nat list"
    by (induction xs) auto
  then show ?thesis
    unfolding m68k_movem_transfer_order_def bit_iff_and_push_bit_not_eq_0 [symmetric] by metis
qed

lemma upt_mirror: "map (\<lambda>i. 15 - i) [0..<16] = rev [0..<16 :: nat]"
  by code_simp

lemma movem_predecrement_rev:
  "m68k_movem_transfer_order m Order_predecrement = rev (m68k_movem_transfer_order (mirrored m) Order_ascending)"
proof -
  have "map (\<lambda>i. 15 - i) (filter (bit m) [0..<16]) = map (\<lambda>i. 15 - i) (filter (\<lambda>i. bit (mirrored m) (15 - i)) [0..<16])"
    by (intro arg_cong [where f = "map _"] filter_cong) (auto simp: bit_mirrored)
  also have "\<dots> = filter (bit (mirrored m)) (map (\<lambda>i. 15 - i) [0..<16])"
    by (simp only: filter_map comp_def)
  also have "\<dots> = rev (filter (bit (mirrored m)) [0..<16])" by (simp only: upt_mirror rev_filter)
  finally show ?thesis by (simp add: movem_order_filter)
qed

text \<open>
  C38. MOVEM transfers exactly the selected registers, each once and in the order of the hardware: the
  ascending order is strictly increasing and holds register \<open>i\<close> exactly when bit \<open>i\<close> of the mask is
  set; the order of the predecrement form is the reverse of the ascending order of the mirrored mask,
  so a block stored downwards reads back upwards register for register.
\<close>

theorem movem_transfer_order_correct:
  "sorted_wrt (<) (m68k_movem_transfer_order m Order_ascending) \<and>
   set (m68k_movem_transfer_order m Order_ascending) = {i. bit m i} \<and>
   m68k_movem_transfer_order m Order_predecrement = rev (m68k_movem_transfer_order (mirrored m) Order_ascending)"
  unfolding movem_predecrement_rev
  by (auto simp: movem_order_filter intro!: sorted_wrt_filter dest: bit_imp_le_length)

section \<open>The loop counter of DBcc\<close>

text \<open>A loop closed by DBcc whose condition stays false: it decrements until the counter expires.\<close>

lemma ucast_minus_one: "(ucast (a - 1 :: u32) :: u16) = ucast a - 1"
proof -
  have "(k mod 2 ^ 32) mod 2 ^ 16 = k mod (2 ^ 16 :: int)" for k by (rule mod_mod_cancel) simp
  then show ?thesis
    unfolding word_uint_eq_iff unsigned_ucast_eq take_bit_eq_mod uint_word_ariths by (simp add: mod_simps take_bit_eq_mod)
qed

lemma dbcc_low: "(ucast ((r AND 0xFFFF) - 1 :: u32) :: u16) = ucast r - 1"
proof -
  have m: "r AND 0xFFFF = take_bit 16 (r :: u32)" by (simp add: take_bit_eq_mask mask_eq_exp_minus_1)
  have "(ucast (r AND 0xFFFF) :: u16) = ucast r" unfolding m by (rule bit_word_eqI) (auto simp: bit_simps)
  then show ?thesis by (simp add: ucast_minus_one)
qed

lemma upper_or_low:
  "(ucast ((r AND 0xFFFF0000) OR ucast (l :: u16) :: u32) :: u16) = l" "((r AND 0xFFFF0000) OR ucast (l :: u16)) AND 0xFFFF0000 = r AND (0xFFFF0000 :: u32)"
proof -
  have m: "(0xFFFF0000 :: u32) = NOT (mask 16)" by (simp add: mask_eq_exp_minus_1)
  show "(ucast ((r AND 0xFFFF0000) OR ucast l :: u32) :: u16) = l" "((r AND 0xFFFF0000) OR ucast l) AND 0xFFFF0000 = r AND (0xFFFF0000 :: u32)"
    unfolding m by (rule bit_word_eqI, auto simp: bit_simps dest: bit_imp_le_length)+
qed

lemma dbcc_step:
  defines "next \<equiv> \<lambda>r. dbcc_updated_register (m68k_evaluate_dbcc_decrement r)" and "low \<equiv> \<lambda>r :: u32. unat (ucast r :: u16)"
  shows "dbcc_expired (m68k_evaluate_dbcc_decrement r) \<longleftrightarrow> low r = 0" "(ucast (next r) :: u16) = ucast r - 1"
    "0 < low r \<Longrightarrow> low (next r) = low r - 1" "next r AND 0xFFFF0000 = r AND 0xFFFF0000"
proof -
  have "(ucast r - 1 :: u16) = 0xFFFF \<longleftrightarrow> (ucast r :: u16) = 0" by (auto simp: diff_eq_eq)
  then show "dbcc_expired (m68k_evaluate_dbcc_decrement r) \<longleftrightarrow> low r = 0"
    by (simp add: m68k_evaluate_dbcc_decrement_def Let_def dbcc_low low_def unat_eq_0)
  show l: "(ucast (next r) :: u16) = ucast r - 1" "next r AND 0xFFFF0000 = r AND 0xFFFF0000"
    by (simp_all add: next_def m68k_evaluate_dbcc_decrement_def Let_def dbcc_low upper_or_low)
  assume "0 < low r"
  then show "low (next r) = low r - 1" unfolding low_def l(1) by (simp add: unat_minus_one unat_gt_0)
qed

function dbcc_passes :: "u32 \<Rightarrow> nat \<times> u32" where
  "dbcc_passes r =
     (let d = m68k_evaluate_dbcc_decrement r in
      if dbcc_expired d then (1, dbcc_updated_register d)
      else let (n, final) = dbcc_passes (dbcc_updated_register d) in (Suc n, final))"
  by auto

termination
  by (relation "measure (\<lambda>r. unat (ucast r :: u16))") (auto simp: dbcc_step(1,3))

declare dbcc_passes.simps [simp del]

text \<open>
  C39. A loop closed by DBcc ends: while its condition stays false, it is left after exactly one more
  pass than the low word of the counter register says, with that word at $FFFF and the upper word as
  it was.
\<close>

theorem dbcc_loop_ends:
  "dbcc_passes r = (unat (ucast r :: u16) + 1, (r AND 0xFFFF0000) OR 0xFFFF)"
proof (induction r rule: dbcc_passes.induct)
  case (1 r)
  let ?d = "m68k_evaluate_dbcc_decrement r"
  show ?case
  proof (cases "dbcc_expired ?d")
    case True
    then have "(ucast r :: u16) = 0" by (simp add: dbcc_step(1) unat_eq_0)
    moreover have "dbcc_updated_register ?d = (r AND 0xFFFF0000) OR ucast (ucast r - 1 :: u16)"
      by (simp add: m68k_evaluate_dbcc_decrement_def Let_def dbcc_low)
    moreover have "(ucast (- 1 :: u16) :: u32) = 0xFFFF" by code_simp
    ultimately show ?thesis using True by (subst dbcc_passes.simps) simp
  next
    case False
    with 1 dbcc_step(1) [of r] dbcc_step(3,4) [of r] show ?thesis
      by (subst dbcc_passes.simps) (simp add: Let_def)
  qed
qed

end
