(* ===== verification/M68k_Shift.thy ===== *)
theory M68k_Shift
  imports M68k_Alu
begin

text \<open>
  The shifts and rotations against their definition by single steps: the closed formulas of
  \<^verbatim>\<open>M68kShiftRotateSpecification::evaluate\<close>, with their regions of counts, compute what the
  processor's one-bit operation gives when it is repeated count times.
\<close>

section \<open>One step\<close>

record shift_state =
  ss_value :: u32
  ss_carry :: bool
  ss_extend :: bool
  ss_overflow :: bool

definition shift_step :: "M68kShiftRotateKind \<Rightarrow> nat \<Rightarrow> shift_state \<Rightarrow> shift_state" where
  "shift_step kind n s =
     (let r = ss_value s; top = bit r (n - 1); low = bit r 0;
          left = take_bit n (push_bit 1 r); right = drop_bit 1 r;
          at_low = (\<lambda>b. if b then left OR 1 else left);
          at_top = (\<lambda>b. if b then right OR push_bit (n - 1) 1 else right) in
      case kind of
        Sr_lsl \<Rightarrow> s\<lparr>ss_value := left, ss_carry := top, ss_extend := top\<rparr>
      | Sr_lsr \<Rightarrow> s\<lparr>ss_value := right, ss_carry := low, ss_extend := low\<rparr>
      | Sr_asl \<Rightarrow> s\<lparr>ss_value := left, ss_carry := top, ss_extend := top,
                      ss_overflow := ss_overflow s \<or> bit left (n - 1) \<noteq> top\<rparr>
      | Sr_asr \<Rightarrow> s\<lparr>ss_value := at_top top, ss_carry := low, ss_extend := low\<rparr>
      | Sr_rol \<Rightarrow> s\<lparr>ss_value := at_low top, ss_carry := top\<rparr>
      | Sr_ror \<Rightarrow> s\<lparr>ss_value := at_top low, ss_carry := low\<rparr>
      | Sr_roxl \<Rightarrow> s\<lparr>ss_value := at_low (ss_extend s), ss_carry := top, ss_extend := top\<rparr>
      | Sr_roxr \<Rightarrow> s\<lparr>ss_value := at_top (ss_extend s), ss_carry := low, ss_extend := low\<rparr>)"

text \<open>The state before the first step: the carry is clear, and the rotations through X start it from X.\<close>

definition shift_start :: "M68kShiftRotateKind \<Rightarrow> nat \<Rightarrow> u32 \<Rightarrow> bool \<Rightarrow> shift_state" where
  "shift_start kind n original x =
     \<lparr>ss_value = take_bit n original, ss_carry = (kind \<in> {Sr_roxl, Sr_roxr} \<and> x), ss_extend = x, ss_overflow = False\<rparr>"

definition shift_steps :: "M68kShiftRotateKind \<Rightarrow> nat \<Rightarrow> nat \<Rightarrow> u32 \<Rightarrow> bool \<Rightarrow> shift_state" where
  "shift_steps kind n k original x = (shift_step kind n ^^ k) (shift_start kind n original x)"

lemma shift_steps_0: "shift_steps kind n 0 original x = shift_start kind n original x"
  by (simp add: shift_steps_def)

lemma shift_steps_Suc: "shift_steps kind n (Suc k) original x = shift_step kind n (shift_steps kind n k original x)"
  by (simp add: shift_steps_def)

text \<open>A value of \<open>n\<close> bits, bit by bit.\<close>

lemma bit_left: "n \<le> 32 \<Longrightarrow> bit (take_bit n (push_bit 1 (r :: u32))) i \<longleftrightarrow> i < n \<and> 1 \<le> i \<and> bit r (i - 1)"
  unfolding bit_take_bit_iff bit_push_bit_iff possible_bit_word by auto

lemma bit_right: "bit (drop_bit 1 (r :: u32)) i \<longleftrightarrow> bit r (i + 1)"
  by (simp add: bit_drop_bit_eq)

lemma bit_at_low: "bit (if b then r OR 1 else (r :: u32)) i \<longleftrightarrow> bit r i \<or> b \<and> i = 0"
  by (auto simp: bit_or_iff bit_1_iff)

lemma bit_at_top: "0 < n \<Longrightarrow> n \<le> 32 \<Longrightarrow> bit (if b then r OR push_bit (n - 1) 1 else (r :: u32)) i \<longleftrightarrow> bit r i \<or> b \<and> i = n - 1"
  by (cases b) (simp_all only: if_True if_False bit_or_iff bit_push_bit_iff bit_1_iff possible_bit_word, auto)

lemma bit_value_start: "bit (ss_value (shift_start kind n original x)) i \<longleftrightarrow> i < n \<and> bit original i"
  by (simp add: shift_start_def bit_take_bit_iff)

section \<open>Shifts\<close>

lemma left_steps:
  fixes original :: u32 and x :: bool
  assumes "0 < n" "n \<le> 32" "kind = Sr_lsl \<or> kind = Sr_asl"
  defines "s \<equiv> \<lambda>k. shift_steps kind n k original x"
  shows "bit (ss_value (s k)) i \<longleftrightarrow> i < n \<and> k \<le> i \<and> bit original (i - k)"
    "0 < k \<Longrightarrow> ss_carry (s k) \<longleftrightarrow> k \<le> n \<and> bit original (n - k)"
    "0 < k \<Longrightarrow> ss_extend (s k) = ss_carry (s k)"
proof -
  have v: "bit (ss_value (s k)) i \<longleftrightarrow> i < n \<and> k \<le> i \<and> bit original (i - k)" for k i
  proof (induction k arbitrary: i)
    case 0
    then show ?case by (simp add: s_def shift_steps_0 bit_value_start)
  next
    case (Suc k)
    have "ss_value (s (Suc k)) = take_bit n (push_bit 1 (ss_value (s k)))"
      using assms(3) by (auto simp: s_def shift_steps_Suc shift_step_def Let_def)
    then have "bit (ss_value (s (Suc k))) i \<longleftrightarrow> i < n \<and> 1 \<le> i \<and> bit (ss_value (s k)) (i - 1)"
      by (simp only: bit_left [OF assms(2)])
    then show ?case unfolding Suc by auto
  qed
  then show "bit (ss_value (s k)) i \<longleftrightarrow> i < n \<and> k \<le> i \<and> bit original (i - k)" .
  assume "0 < k"
  then obtain j where j: "k = Suc j" by (cases k) auto
  have c: "ss_carry (s k) = bit (ss_value (s j)) (n - 1)" "ss_extend (s k) = ss_carry (s k)"
    using assms(3) by (auto simp: s_def j shift_steps_Suc shift_step_def Let_def)
  then show "ss_extend (s k) = ss_carry (s k)" by simp
  show "ss_carry (s k) \<longleftrightarrow> k \<le> n \<and> bit original (n - k)" using c v assms(1) by (auto simp: j)
qed

lemma right_steps:
  fixes original :: u32 and x :: bool
  assumes "0 < n" "n \<le> 32"
  defines "s \<equiv> \<lambda>k. shift_steps Sr_lsr n k original x"
  shows "bit (ss_value (s k)) i \<longleftrightarrow> i + k < n \<and> bit original (i + k)"
    "0 < k \<Longrightarrow> ss_carry (s k) \<longleftrightarrow> k \<le> n \<and> bit original (k - 1)"
    "0 < k \<Longrightarrow> ss_extend (s k) = ss_carry (s k)"
proof -
  have v: "bit (ss_value (s k)) i \<longleftrightarrow> i + k < n \<and> bit original (i + k)" for k i
  proof (induction k arbitrary: i)
    case 0
    then show ?case by (simp add: s_def shift_steps_0 bit_value_start)
  next
    case (Suc k)
    have "ss_value (s (Suc k)) = drop_bit 1 (ss_value (s k))"
      by (simp add: s_def shift_steps_Suc shift_step_def Let_def)
    then show ?case using Suc by (simp add: bit_drop_bit_eq)
  qed
  then show "bit (ss_value (s k)) i \<longleftrightarrow> i + k < n \<and> bit original (i + k)" .
  assume "0 < k"
  then obtain j where j: "k = Suc j" by (cases k) auto
  have c: "ss_carry (s k) = bit (ss_value (s j)) 0" "ss_extend (s k) = ss_carry (s k)"
    by (simp_all add: s_def j shift_steps_Suc shift_step_def Let_def)
  then show "ss_extend (s k) = ss_carry (s k)" by simp
  show "ss_carry (s k) \<longleftrightarrow> k \<le> n \<and> bit original (k - 1)" using c(1) v by (auto simp: j)
qed

lemma asr_steps:
  fixes original :: u32 and x :: bool
  assumes "0 < n" "n \<le> 32"
  defines "s \<equiv> \<lambda>k. shift_steps Sr_asr n k original x"
  shows "bit (ss_value (s k)) i \<longleftrightarrow> i < n \<and> bit original (min (i + k) (n - 1))"
    "0 < k \<Longrightarrow> ss_carry (s k) \<longleftrightarrow> bit original (min (k - 1) (n - 1))"
    "0 < k \<Longrightarrow> ss_extend (s k) = ss_carry (s k)"
proof -
  have v: "bit (ss_value (s k)) i \<longleftrightarrow> i < n \<and> bit original (min (i + k) (n - 1))" for k i
  proof (induction k arbitrary: i)
    case 0
    then show ?case by (auto simp: s_def shift_steps_0 bit_value_start min_def)
  next
    case (Suc k)
    have "ss_value (s (Suc k)) = (if bit (ss_value (s k)) (n - 1) then drop_bit 1 (ss_value (s k)) OR push_bit (n - 1) 1
        else drop_bit 1 (ss_value (s k)))"
      by (simp add: s_def shift_steps_Suc shift_step_def Let_def)
    then have "bit (ss_value (s (Suc k))) i \<longleftrightarrow> bit (ss_value (s k)) (i + 1) \<or> bit (ss_value (s k)) (n - 1) \<and> i = n - 1"
      by (simp only: bit_at_top [OF assms(1,2)] bit_right)
    moreover have "bit (ss_value (s k)) (n - 1) = bit original (n - 1)" unfolding Suc using assms(1) by simp
    moreover have "bit (ss_value (s k)) (i + 1) \<longleftrightarrow> i + 1 < n \<and> bit original (min (i + Suc k) (n - 1))"
      unfolding Suc by simp
    ultimately show ?case using assms(1) by (cases "i + 1 < n"; cases "i = n - 1") (auto simp: min_def)
  qed
  then show "bit (ss_value (s k)) i \<longleftrightarrow> i < n \<and> bit original (min (i + k) (n - 1))" .
  assume "0 < k"
  then obtain j where j: "k = Suc j" by (cases k) auto
  have c: "ss_carry (s k) = bit (ss_value (s j)) 0" "ss_extend (s k) = ss_carry (s k)"
    by (simp_all add: s_def j shift_steps_Suc shift_step_def Let_def)
  then show "ss_extend (s k) = ss_carry (s k)" by simp
  show "ss_carry (s k) \<longleftrightarrow> bit original (min (k - 1) (n - 1))" using c(1) v assms(1) by (auto simp: j)
qed

text \<open>The overflow of ASL: the bits that passed through the sign position were not all the same.\<close>

lemma asl_overflow:
  fixes original :: u32 and x :: bool
  assumes "0 < n" "n \<le> 32"
  defines "t \<equiv> \<lambda>j. j < n \<and> bit original (n - 1 - j)"
  shows "ss_overflow (shift_steps Sr_asl n k original x) \<longleftrightarrow> (\<exists>j < k. t j \<noteq> t (Suc j))"
proof (induction k)
  case 0
  then show ?case by (simp add: shift_steps_0 shift_start_def)
next
  case (Suc k)
  have t: "bit (ss_value (shift_steps Sr_asl n k original x)) (n - 1) = t k" for k
    using left_steps(1) [OF assms(1,2), of Sr_asl k original x "n - 1"] assms(1) by (auto simp: t_def)
  have "ss_overflow (shift_steps Sr_asl n (Suc k) original x) \<longleftrightarrow>
      ss_overflow (shift_steps Sr_asl n k original x) \<or> t (Suc k) \<noteq> t k"
    unfolding t [symmetric] by (simp add: shift_steps_Suc shift_step_def Let_def)
  then show ?case unfolding Suc by (auto simp: less_Suc_eq)
qed

lemma no_change: "(\<exists>j < k. t j \<noteq> t (Suc j)) \<longleftrightarrow> \<not> (\<forall>j \<le> k. t j = t (0 :: nat))"
proof (induction k)
  case (Suc k)
  have "(\<exists>j < Suc k. t j \<noteq> t (Suc j)) \<longleftrightarrow> (\<exists>j < k. t j \<noteq> t (Suc j)) \<or> t k \<noteq> t (Suc k)"
    by (auto simp: less_Suc_eq)
  then show ?case unfolding Suc by (metis le_Suc_eq order_refl)
qed simp

lemma asl_overflow_beyond:
  assumes "0 < n" "n \<le> 32" "n \<le> k"
  shows "ss_overflow (shift_steps Sr_asl n k original x) \<longleftrightarrow> take_bit n original \<noteq> 0"
proof -
  let ?t = "\<lambda>j. j < n \<and> bit original (n - 1 - j)"
  have "(\<forall>j \<le> k. ?t j = ?t 0) \<longleftrightarrow> (\<forall>j < n. \<not> ?t j)"
  proof
    assume a: "\<forall>j \<le> k. ?t j = ?t 0"
    then have "?t n = ?t 0" using assms(3) by blast
    then have "\<not> ?t 0" by simp
    with a assms(3) show "\<forall>j < n. \<not> ?t j" by (meson less_imp_le_nat order_trans)
  next
    assume "\<forall>j < n. \<not> ?t j"
    then have "\<not> ?t j" for j by blast
    then show "\<forall>j \<le> k. ?t j = ?t 0" by blast
  qed
  also have "\<dots> \<longleftrightarrow> (\<forall>i < n. \<not> bit original i)"
  proof (intro iffI allI impI)
    fix i assume a: "\<forall>j < n. \<not> ?t j" and i: "i < n"
    have "n - 1 - i < n" "n - 1 - (n - 1 - i) = i" using i by simp_all
    with a show "\<not> bit original i" by metis
  qed (use assms(1) in simp)
  also have "\<dots> \<longleftrightarrow> take_bit n original = 0"
    by (simp only: bit_eq_iff bit_take_bit_iff bit_0_eq possible_bit_word) (use assms(2) in auto)
  finally show ?thesis unfolding asl_overflow [OF assms(1,2)] no_change [where t = ?t] by simp
qed

lemma word_eq_all_bits: "(a :: 'a :: len word) = b \<longleftrightarrow> (\<forall>i. bit a i = bit b i)"
  by (auto intro: bit_word_eqI)

lemma asl_overflow_within:
  fixes original :: u32 and x :: bool
  assumes "0 < n" "n \<le> 32" "k < n"
  defines "src \<equiv> take_bit n original" and "region \<equiv> mask n AND NOT (mask (n - 1 - k)) :: u32"
  shows "ss_overflow (shift_steps Sr_asl n k original x) \<longleftrightarrow> \<not> (src AND region = 0 \<or> src AND region = region)"
proof -
  let ?t = "\<lambda>j. j < n \<and> bit original (n - 1 - j)"
  have r: "bit region i \<longleftrightarrow> n - 1 - k \<le> i \<and> i < n" for i
    using assms(2) by (auto simp: region_def bit_and_iff bit_not_iff bit_mask_iff possible_bit_word)
  have s: "bit (src AND region) i \<longleftrightarrow> n - 1 - k \<le> i \<and> i < n \<and> bit original i" for i
    by (auto simp: bit_and_iff r src_def bit_take_bit_iff)
  have z: "src AND region = 0 \<longleftrightarrow> (\<forall>i. n - 1 - k \<le> i \<and> i < n \<longrightarrow> \<not> bit original i)"
    unfolding word_eq_all_bits s by auto
  have o': "src AND region = region \<longleftrightarrow> (\<forall>i. n - 1 - k \<le> i \<and> i < n \<longrightarrow> bit original i)"
    unfolding word_eq_all_bits s r by auto
  have e: "(\<forall>j \<le> k. ?t j = ?t 0) \<longleftrightarrow> (\<forall>i. n - 1 - k \<le> i \<and> i < n \<longrightarrow> bit original i = bit original (n - 1))"
  proof
    assume a: "\<forall>j \<le> k. ?t j = ?t 0"
    show "\<forall>i. n - 1 - k \<le> i \<and> i < n \<longrightarrow> bit original i = bit original (n - 1)"
    proof (intro allI impI)
      fix i assume i: "n - 1 - k \<le> i \<and> i < n"
      then have f: "n - 1 - i \<le> k" "n - 1 - (n - 1 - i) = i" "n - 1 - i < n" by auto
      have "?t (n - 1 - i) = ?t 0" using a f(1) by blast
      then show "bit original i = bit original (n - 1)" using assms(1) by (simp only: f diff_zero simp_thms)
    qed
  next
    assume a: "\<forall>i. n - 1 - k \<le> i \<and> i < n \<longrightarrow> bit original i = bit original (n - 1)"
    show "\<forall>j \<le> k. ?t j = ?t 0"
    proof (intro allI impI)
      fix j assume "j \<le> k"
      then have "j < n" "n - 1 - k \<le> n - 1 - j \<and> n - 1 - j < n" using assms(1,3) by auto
      moreover from a this(2) have "bit original (n - 1 - j) = bit original (n - 1)" by blast
      ultimately show "?t j = ?t 0" using assms(1) by (simp only: diff_zero simp_thms)
    qed
  qed
  have "n - 1 - k \<le> n - 1 \<and> n - 1 < n" using assms(1) by simp
  then have "(\<forall>j \<le> k. ?t j = ?t 0) \<longleftrightarrow> src AND region = 0 \<or> src AND region = region"
    unfolding e z o' by (cases "bit original (n - 1)") blast+
  then show ?thesis unfolding asl_overflow [OF assms(1,2)] no_change [where t = ?t] by simp
qed

section \<open>Rotations\<close>

text \<open>The place the bit at \<open>i\<close> comes from when a ring of \<open>N\<close> bits is turned left \<open>j\<close> places.\<close>

definition rotated :: "nat \<Rightarrow> int \<Rightarrow> nat \<Rightarrow> nat" where
  "rotated N j i = nat ((int i - j) mod int N)"

lemma rotated_less: "0 < N \<Longrightarrow> rotated N j i < N"
  by (simp add: rotated_def nat_less_iff)

lemma rotated_rotated: "0 < N \<Longrightarrow> rotated N j (rotated N l i) = rotated N (j + l) i"
  by (simp add: rotated_def mod_simps algebra_simps)

lemma rotated_0: "i < N \<Longrightarrow> rotated N 0 i = i"
  by (simp add: rotated_def flip: of_nat_mod)

lemma rotated_mod: "rotated N (int k) i = rotated N (int (k mod N)) i" "rotated N (- int k) i = rotated N (int (N - k mod N)) i" if "0 < N"
proof -
  have "(int i - int k) mod int N = (int i - int (k mod N)) mod int N" by (simp add: of_nat_mod mod_simps)
  then show "rotated N (int k) i = rotated N (int (k mod N)) i" by (simp add: rotated_def)
  have "k mod N \<le> N" using that by (simp add: less_imp_le)
  then have "(int i - int (N - k mod N)) mod int N = (int i + int (k mod N) - int N) mod int N" by (simp add: of_nat_diff algebra_simps)
  also have "\<dots> = (int i + int k) mod int N" by (simp add: of_nat_mod mod_simps)
  finally show "rotated N (- int k) i = rotated N (int (N - k mod N)) i" by (simp add: rotated_def)
qed

lemma rotated_less_eq: "e < N \<Longrightarrow> i < N \<Longrightarrow> rotated N (int e) i = (if e \<le> i then i - e else i + N - e)"
proof (cases "e \<le> i")
  case False
  assume a: "e < N" "i < N"
  have "(int i - int e) mod int N = (int i - int e + int N) mod int N" by simp
  also have "\<dots> = int i - int e + int N" by (rule mod_pos_pos_trivial) (use False a in auto)
  finally show ?thesis using False a by (simp add: rotated_def)
qed (simp add: rotated_def flip: of_nat_diff of_nat_mod)

lemma rotated_one:
  assumes "0 < N" "i < N"
  shows "rotated N 1 i = (if i = 0 then N - 1 else i - 1)" "rotated N (- 1) i = (if i = N - 1 then 0 else i + 1)"
proof -
  show "rotated N 1 i = (if i = 0 then N - 1 else i - 1)"
    using rotated_less_eq [of 1 N i] assms by (cases "N = 1") (auto simp: rotated_def)
  show "rotated N (- 1) i = (if i = N - 1 then 0 else i + 1)"
  proof (cases "i = N - 1")
    case True
    then have "int i - - 1 = int N" using assms by simp
    then show ?thesis using True by (simp only: rotated_def) simp
  next
    case False
    have "(int i - - 1) mod int N = int (i + 1) mod int N" by (simp add: add.commute)
    also have "\<dots> = int (i + 1)" using False assms by (simp flip: of_nat_mod)
    finally show ?thesis using False by (simp only: rotated_def) simp
  qed
qed

lemma rotation_steps:
  fixes original :: u32 and x :: bool
  assumes "0 < n" "n \<le> 32"
  defines "s \<equiv> \<lambda>kind k. shift_steps kind n k original x"
  shows "bit (ss_value (s Sr_rol k)) i \<longleftrightarrow> i < n \<and> bit original (rotated n (int k) i)"
    "bit (ss_value (s Sr_ror k)) i \<longleftrightarrow> i < n \<and> bit original (rotated n (- int k) i)"
proof -
  show "bit (ss_value (s Sr_rol k)) i \<longleftrightarrow> i < n \<and> bit original (rotated n (int k) i)"
  proof (induction k arbitrary: i)
    case 0
    then show ?case by (auto simp: s_def shift_steps_0 bit_value_start rotated_0)
  next
    case (Suc k)
    let ?v = "ss_value (s Sr_rol k)"
    have e: "ss_value (s Sr_rol (Suc k)) = (if bit ?v (n - 1) then take_bit n (push_bit 1 ?v) OR 1 else take_bit n (push_bit 1 ?v))"
      by (simp add: s_def shift_steps_Suc shift_step_def Let_def)
    have "bit (ss_value (s Sr_rol (Suc k))) i \<longleftrightarrow> i < n \<and> bit ?v (rotated n 1 i)"
      unfolding e bit_at_low bit_left [OF assms(2)] using rotated_one(1) [of n i] assms(1) by (cases "i = 0"; cases "i < n"; simp)
    then show ?case unfolding Suc using rotated_less [OF assms(1)] assms(1) by (simp add: rotated_rotated add.commute)
  qed
  show "bit (ss_value (s Sr_ror k)) i \<longleftrightarrow> i < n \<and> bit original (rotated n (- int k) i)"
  proof (induction k arbitrary: i)
    case 0
    then show ?case by (auto simp: s_def shift_steps_0 bit_value_start rotated_0)
  next
    case (Suc k)
    let ?v = "ss_value (s Sr_ror k)"
    have e: "ss_value (s Sr_ror (Suc k)) = (if bit ?v 0 then drop_bit 1 ?v OR push_bit (n - 1) 1 else drop_bit 1 ?v)"
      by (simp add: s_def shift_steps_Suc shift_step_def Let_def)
    have b: "i + 1 < n" if "bit ?v (i + 1)" using Suc [of "i + 1"] that by blast
    have "bit (ss_value (s Sr_ror (Suc k))) i \<longleftrightarrow> i < n \<and> bit ?v (rotated n (- 1) i)"
      unfolding e bit_at_top [OF assms(1,2)] bit_right
      using rotated_one(2) [of n i] assms(1) b by (cases "i + 1 < n"; cases "i = n - 1") auto
    moreover have "- int (Suc k) = - int k + - 1" by simp
    ultimately show ?case unfolding Suc using rotated_less [OF assms(1)] by (simp only: rotated_rotated [OF assms(1)] simp_thms)
  qed
qed

text \<open>The ring of the rotations through X: the value with X as its highest bit.\<close>

definition ring :: "nat \<Rightarrow> shift_state \<Rightarrow> nat \<Rightarrow> bool" where
  "ring n s i = (if i = n then ss_extend s else bit (ss_value s) i)"

lemma ring_step:
  fixes original :: u32 and x :: bool
  assumes "0 < n" "n \<le> 32" "i \<le> n" "\<And>i. bit (ss_value s) i \<Longrightarrow> i < n"
  shows "ring n (shift_step Sr_roxl n s) i = ring n s (rotated (Suc n) 1 i)"
    "ring n (shift_step Sr_roxr n s) i = ring n s (rotated (Suc n) (- 1) i)"
    "bit (ss_value (shift_step Sr_roxl n s)) j \<Longrightarrow> j < n" "bit (ss_value (shift_step Sr_roxr n s)) j \<Longrightarrow> j < n"
    "ss_carry (shift_step Sr_roxl n s) = ss_extend (shift_step Sr_roxl n s)"
    "ss_carry (shift_step Sr_roxr n s) = ss_extend (shift_step Sr_roxr n s)"
proof -
  have l: "ss_value (shift_step Sr_roxl n s) = (if ss_extend s then take_bit n (push_bit 1 (ss_value s)) OR 1 else take_bit n (push_bit 1 (ss_value s)))"
    "ss_extend (shift_step Sr_roxl n s) = bit (ss_value s) (n - 1)"
    and r: "ss_value (shift_step Sr_roxr n s) = (if ss_extend s then drop_bit 1 (ss_value s) OR push_bit (n - 1) 1 else drop_bit 1 (ss_value s))"
    "ss_extend (shift_step Sr_roxr n s) = bit (ss_value s) 0"
    by (simp_all add: shift_step_def Let_def)
  show "ss_carry (shift_step Sr_roxl n s) = ss_extend (shift_step Sr_roxl n s)"
    "ss_carry (shift_step Sr_roxr n s) = ss_extend (shift_step Sr_roxr n s)" by (simp_all add: shift_step_def Let_def)
  have lb: "bit (ss_value (shift_step Sr_roxl n s)) j \<longleftrightarrow> j < n \<and> 1 \<le> j \<and> bit (ss_value s) (j - 1) \<or> ss_extend s \<and> j = 0" for j
    unfolding l(1) bit_at_low bit_left [OF assms(2)] ..
  have rb: "bit (ss_value (shift_step Sr_roxr n s)) j \<longleftrightarrow> bit (ss_value s) (j + 1) \<or> ss_extend s \<and> j = n - 1" for j
    unfolding r(1) bit_at_top [OF assms(1,2)] bit_right ..
  show "bit (ss_value (shift_step Sr_roxl n s)) j \<Longrightarrow> j < n" using assms(1) unfolding lb by auto
  show "bit (ss_value (shift_step Sr_roxr n s)) j \<Longrightarrow> j < n" using assms(1,4) unfolding rb by fastforce
  show "ring n (shift_step Sr_roxl n s) i = ring n s (rotated (Suc n) 1 i)"
    using rotated_one(1) [of "Suc n" i] assms(1,3) l(2) lb [of i] by (cases "i = 0"; cases "i = n"; auto simp: ring_def)
  show "ring n (shift_step Sr_roxr n s) i = ring n s (rotated (Suc n) (- 1) i)"
    using rotated_one(2) [of "Suc n" i] assms(1,3) r(2) rb [of i] assms(4) [of "i + 1"]
    by (cases "i = n"; cases "i + 1 = n"; auto simp: ring_def)
qed

lemma ring_steps:
  fixes original :: u32 and x :: bool
  assumes "0 < n" "n \<le> 32"
  defines "s \<equiv> \<lambda>kind k. shift_steps kind n k original x"
  shows "i \<le> n \<Longrightarrow> ring n (s Sr_roxl k) i = ring n (s Sr_roxl 0) (rotated (Suc n) (int k) i)"
    "i \<le> n \<Longrightarrow> ring n (s Sr_roxr k) i = ring n (s Sr_roxr 0) (rotated (Suc n) (- int k) i)"
    "kind = Sr_roxl \<or> kind = Sr_roxr \<Longrightarrow> bit (ss_value (s kind k)) j \<Longrightarrow> j < n"
    "kind = Sr_roxl \<or> kind = Sr_roxr \<Longrightarrow> ss_carry (s kind k) = ss_extend (s kind k)"
proof -
  have start: "bit (ss_value (s kind 0)) j \<Longrightarrow> j < n" for kind j by (simp add: s_def shift_steps_0 bit_value_start)
  have step: "s kind (Suc k) = shift_step kind n (s kind k)" for kind k by (simp add: s_def shift_steps_Suc)
  have bl: "bit (ss_value (s Sr_roxl k)) j \<Longrightarrow> j < n" for k j
  proof (induction k arbitrary: j)
    case (Suc k)
    show ?case by (rule ring_step(3) [OF assms(1,2) le0 Suc.IH Suc.prems [unfolded step]])
  qed (rule start)
  have br: "bit (ss_value (s Sr_roxr k)) j \<Longrightarrow> j < n" for k j
  proof (induction k arbitrary: j)
    case (Suc k)
    show ?case by (rule ring_step(4) [OF assms(1,2) le0 Suc.IH Suc.prems [unfolded step]])
  qed (rule start)
  show "kind = Sr_roxl \<or> kind = Sr_roxr \<Longrightarrow> bit (ss_value (s kind k)) j \<Longrightarrow> j < n" using bl br by blast
  show "kind = Sr_roxl \<or> kind = Sr_roxr \<Longrightarrow> ss_carry (s kind k) = ss_extend (s kind k)"
    by (cases k) (auto simp: s_def shift_steps_0 shift_steps_Suc shift_start_def shift_step_def Let_def)
  have r: "rotated (Suc n) j i \<le> n" for j i using rotated_less [of "Suc n" j i] by simp
  show "i \<le> n \<Longrightarrow> ring n (s Sr_roxl k) i = ring n (s Sr_roxl 0) (rotated (Suc n) (int k) i)"
  proof (induction k arbitrary: i)
    case 0
    then show ?case by (simp add: rotated_0)
  next
    case (Suc k)
    have "ring n (s Sr_roxl (Suc k)) i = ring n (s Sr_roxl 0) (rotated (Suc n) (int k) (rotated (Suc n) 1 i))"
      unfolding step by (rule trans [OF ring_step(1) [OF assms(1,2) Suc.prems] Suc.IH [OF r]]) (rule bl)
    then show ?case by (simp add: rotated_rotated add.commute)
  qed
  show "i \<le> n \<Longrightarrow> ring n (s Sr_roxr k) i = ring n (s Sr_roxr 0) (rotated (Suc n) (- int k) i)"
  proof (induction k arbitrary: i)
    case 0
    then show ?case by (simp add: rotated_0)
  next
    case (Suc k)
    have "ring n (s Sr_roxr (Suc k)) i = ring n (s Sr_roxr 0) (rotated (Suc n) (- int k) (rotated (Suc n) (- 1) i))"
      unfolding step by (rule trans [OF ring_step(2) [OF assms(1,2) Suc.prems] Suc.IH [OF r]]) (rule br)
    moreover have "- int (Suc k) = - int k + - 1" by simp
    ultimately show ?case by (simp only: rotated_rotated zero_less_Suc)
  qed
qed

section \<open>The closed formulas\<close>

definition agrees :: "shift_outcome \<Rightarrow> shift_state \<Rightarrow> bool \<Rightarrow> bool" where
  "agrees out s x \<longleftrightarrow> so_result out = ss_value s \<and> so_carry out = ss_carry s \<and>
     (if so_extend_written out then so_extend out else x) = ss_extend s \<and> so_overflow out = ss_overflow s"

lemma unchanged_steps:
  "kind \<noteq> Sr_asl \<Longrightarrow> \<not> ss_overflow (shift_steps kind n k original x)"
  "kind \<in> {Sr_rol, Sr_ror} \<Longrightarrow> ss_extend (shift_steps kind n k original x) = x"
  by (induction k; cases kind; simp add: shift_steps_0 shift_steps_Suc shift_start_def shift_step_def Let_def)+

lemma shift_outI:
  "r = ss_value s \<Longrightarrow> c = ss_carry s \<Longrightarrow> e = ss_extend s \<Longrightarrow> v = ss_overflow s \<Longrightarrow> agrees (shift_out r c e v) s x"
  by (simp add: agrees_def shift_out_def)

lemma one_bit: "(drop_bit k (a :: u32) AND 1 \<noteq> 0) = bit a k" "(drop_bit k (b :: u64) AND 1 \<noteq> 0) = bit b k"
  by (simp_all add: and_one_eq odd_iff_mod_2_eq_one [symmetric] bit_iff_odd_drop_bit)

lemma one_bit_0: "((a :: u32) AND 1 \<noteq> 0) = bit a 0"
  using one_bit(1) [of 0 a] by simp

lemma sign_bit: "(a AND push_bit k 1 \<noteq> 0) = bit (a :: u32) k"
  by (simp add: bit_iff_and_push_bit_not_eq_0)

lemma bit_mask_32: "n \<le> 32 \<Longrightarrow> bit (mask n :: u32) i \<longleftrightarrow> i < n"
  by (auto simp: bit_mask_iff possible_bit_word)

lemma bit_src: "bit (take_bit n (original :: u32)) i \<longleftrightarrow> i < n \<and> bit original i"
  by (rule bit_take_bit_iff)

lemma bit_pushed: "bit (push_bit k (a :: u32)) i \<longleftrightarrow> k \<le> i \<and> i < 32 \<and> bit a (i - k)"
  by (auto simp: bit_push_bit_iff possible_bit_word)

lemma left_value:
  fixes original :: u32 and x :: bool
  assumes n: "0 < n" "n \<le> 32" and k: "kind = Sr_lsl \<or> kind = Sr_asl"
  shows "(if k < n then push_bit k (take_bit n original) AND mask n else 0) = ss_value (shift_steps kind n k original x)"
proof (rule bit_word_eqI)
  fix i :: nat
  show "bit (if k < n then push_bit k (take_bit n original) AND mask n else 0) i =
      bit (ss_value (shift_steps kind n k original x)) i"
    unfolding left_steps(1) [OF n k] using n(2)
    by (cases "k < n") (auto simp only: bit_src bit_pushed bit_mask_32 bit_and_iff if_True if_False bit_0_eq)
qed

lemma left_carry:
  fixes original :: u32 and x :: bool
  assumes n: "0 < n" "n \<le> 32" and k: "kind = Sr_lsl \<or> kind = Sr_asl" "0 < k"
  shows "(if k < n then bit (take_bit n original) (n - k) else if k = n then bit (take_bit n original) 0 else False) =
      ss_carry (shift_steps kind n k original x)"
  unfolding left_steps(2) [OF n k] bit_src using n(1) k(2) by auto

lemma start_carry:
  "kind \<notin> {Sr_roxl, Sr_roxr} \<Longrightarrow> agrees (shift_out (take_bit n original) False x False) (shift_steps kind n 0 original x) x"
  by (simp add: shift_steps_0 shift_start_def agrees_def shift_out_def)

lemma left_agrees:
  fixes original :: u32 and x :: bool
  assumes n: "0 < n" "n \<le> 32"
  defines "src \<equiv> take_bit n original"
  shows "agrees (shift_lsl src k n (mask n) x) (shift_steps Sr_lsl n k original x) x"
    "agrees (shift_asl src k n (mask n) x) (shift_steps Sr_asl n k original x) x"
proof -
  show "agrees (shift_lsl src k n (mask n) x) (shift_steps Sr_lsl n k original x) x"
  proof (cases "k = 0")
    case False
    then show ?thesis
      using left_value [OF n, of Sr_lsl k original x] left_carry [OF n, of Sr_lsl k original x]
        left_steps(3) [OF n, of Sr_lsl k original x] unchanged_steps(1) [of Sr_lsl n k original x]
      unfolding shift_lsl_def Let_def src_def unfolding one_bit unfolding one_bit_0 by (auto intro!: shift_outI split: if_splits)
  qed (simp add: shift_lsl_def src_def start_carry)
  show "agrees (shift_asl src k n (mask n) x) (shift_steps Sr_asl n k original x) x"
  proof (cases "k = 0")
    case False
    have region: "(if k + 1 \<ge> n then mask n else mask n AND NOT (drop_bit (k + 1) (mask n))) =
        (mask n AND NOT (mask (n - 1 - k)) :: u32)" if "k < n"
      using that n(2) by (intro bit_word_eqI)
        (auto simp: bit_and_iff bit_not_iff bit_mask_iff possible_bit_word bit_drop_bit_eq)
    show ?thesis
      using False left_value [OF n, of Sr_asl k original x] left_carry [OF n, of Sr_asl k original x]
        left_steps(3) [OF n, of Sr_asl k original x] asl_overflow_within [OF n, of k original x]
        asl_overflow_beyond [OF n, of k original x] region
      unfolding shift_asl_def Let_def src_def unfolding one_bit unfolding one_bit_0 by (auto intro!: shift_outI split: if_splits)
  qed (simp add: shift_asl_def src_def start_carry)
qed

lemma right_agrees:
  fixes original :: u32 and x :: bool
  assumes n: "0 < n" "n \<le> 32"
  defines "src \<equiv> take_bit n original"
  shows "agrees (shift_lsr src k n x) (shift_steps Sr_lsr n k original x) x"
    "agrees (shift_asr src k n (mask n) (push_bit (n - 1) 1) x) (shift_steps Sr_asr n k original x) x"
proof -
  show "agrees (shift_lsr src k n x) (shift_steps Sr_lsr n k original x) x"
  proof (cases "k = 0")
    case False
    have "(if k < n then drop_bit k src else 0) = ss_value (shift_steps Sr_lsr n k original x)"
      by (rule bit_word_eqI) (simp add: right_steps(1) [OF n] src_def bit_src bit_drop_bit_eq add.commute)
    moreover have "(if k \<le> n then bit src (k - 1) else False) = ss_carry (shift_steps Sr_lsr n k original x)"
      using False right_steps(2) [OF n, of k original x] by (auto simp: src_def bit_src)
    ultimately show ?thesis
      using False right_steps(3) [OF n, of k original x] unchanged_steps(1) [of Sr_lsr n k original x]
      unfolding shift_lsr_def Let_def unfolding one_bit by (auto intro!: shift_outI split: if_splits)
  qed (simp add: shift_lsr_def src_def start_carry)
  show "agrees (shift_asr src k n (mask n) (push_bit (n - 1) 1) x) (shift_steps Sr_asr n k original x) x"
  proof (cases "k = 0")
    case False
    have top: "bit src (n - 1) = bit original (n - 1)" using n by (simp add: src_def bit_src)
    have "(if k < n then if bit src (n - 1) then drop_bit k src OR (mask n AND NOT (drop_bit k (mask n))) else drop_bit k src
        else if bit src (n - 1) then mask n else 0) = ss_value (shift_steps Sr_asr n k original x)" (is "?v = _")
    proof (rule bit_word_eqI)
      fix i :: nat assume i: "i < LENGTH(32)"
      show "bit ?v i = bit (ss_value (shift_steps Sr_asr n k original x)) i"
        unfolding asr_steps(1) [OF n] top using i n
        by (cases "k < n"; cases "bit original (n - 1)"; cases "i + k < n - 1"; cases "i + k = n - 1")
          (auto simp: src_def bit_src bit_or_iff bit_and_iff bit_not_iff bit_mask_32 bit_drop_bit_eq possible_bit_word
            add.commute min_def)
    qed
    moreover have "(if k < n then bit src (k - 1) else bit src (n - 1)) = ss_carry (shift_steps Sr_asr n k original x)"
      using False n asr_steps(2) [OF n, of k original x]
      by (cases "k < n") (simp_all add: src_def bit_src min_absorb1 min_absorb2 less_imp_diff_less)
    ultimately show ?thesis
      using False asr_steps(3) [OF n, of k original x] unchanged_steps(1) [of Sr_asr n k original x]
      unfolding shift_asr_def Let_def unfolding one_bit sign_bit by (auto intro!: shift_outI split: if_splits)
  qed (simp add: shift_asr_def src_def start_carry)
qed

lemma rotation_carry:
  assumes "0 < n" "n \<le> 32" "0 < k"
  shows "ss_carry (shift_steps Sr_rol n k original x) = bit (ss_value (shift_steps Sr_rol n k original x)) 0"
    "ss_carry (shift_steps Sr_ror n k original x) = bit (ss_value (shift_steps Sr_ror n k original x)) (n - 1)"
proof -
  obtain j where j: "k = Suc j" using assms(3) by (cases k) auto
  have c: "bit (ss_value (shift_step Sr_rol n s)) 0 = ss_carry (shift_step Sr_rol n s)" for s
    unfolding shift_step_def Let_def using bit_at_low [of _ "take_bit n (push_bit 1 (ss_value s))" 0] bit_left [OF assms(2), of "ss_value s" 0]
    by simp
  then show "ss_carry (shift_steps Sr_rol n k original x) = bit (ss_value (shift_steps Sr_rol n k original x)) 0"
    by (simp add: j shift_steps_Suc)
  have "\<not> bit (ss_value (shift_steps Sr_ror n j original x)) n"
    using rotation_steps(2) [OF assms(1,2)] by blast
  then have "bit (ss_value (shift_step Sr_ror n (shift_steps Sr_ror n j original x))) (n - 1) =
      ss_carry (shift_step Sr_ror n (shift_steps Sr_ror n j original x))"
    unfolding shift_step_def Let_def
    using bit_at_top [OF assms(1,2), of _ "drop_bit 1 (ss_value (shift_steps Sr_ror n j original x))" "n - 1"]
      bit_right [of "ss_value (shift_steps Sr_ror n j original x)" "n - 1"] assms(1) by simp
  then show "ss_carry (shift_steps Sr_ror n k original x) = bit (ss_value (shift_steps Sr_ror n k original x)) (n - 1)"
    by (simp add: j shift_steps_Suc)
qed

lemma rotate_formula:
  fixes src :: "'a :: len word"
  assumes "e < n" "n \<le> LENGTH('a)" "i < n" "\<And>j. bit src j \<Longrightarrow> j < n"
  shows "bit (if e = 0 then src else (push_bit e src OR drop_bit (n - e) src) AND mask n) i = bit src (rotated n (int e) i)"
    "bit (if e = 0 then src else (drop_bit e src OR push_bit (n - e) src) AND mask n) i = bit src (rotated n (int (n - e)) i)"
proof -
  have m: "bit (mask n :: 'a word) i" using assms(2,3) by (simp add: bit_mask_iff possible_bit_word)
  show "bit (if e = 0 then src else (push_bit e src OR drop_bit (n - e) src) AND mask n) i = bit src (rotated n (int e) i)"
    unfolding rotated_less_eq [OF assms(1,3)]
    using assms(1,2,3) m assms(4) [of "n - e + i"]
    by (cases "e = 0"; cases "e \<le> i")
      (auto simp: bit_and_iff bit_or_iff bit_push_bit_iff possible_bit_word bit_drop_bit_eq algebra_simps)
  show "bit (if e = 0 then src else (drop_bit e src OR push_bit (n - e) src) AND mask n) i = bit src (rotated n (int (n - e)) i)"
  proof (cases "e = 0")
    case True
    then show ?thesis using assms(3) by (simp add: rotated_def flip: of_nat_mod)
  next
    case False
    then have "n - e < n" using assms(1) by simp
    show ?thesis
      unfolding rotated_less_eq [OF \<open>n - e < n\<close> assms(3)]
      using assms(1,2,3) m False assms(4) [of "e + i"]
      by (cases "n - e \<le> i") (auto simp: bit_and_iff bit_or_iff bit_push_bit_iff possible_bit_word bit_drop_bit_eq algebra_simps)
  qed
qed

lemma rotations_agree:
  fixes original :: u32 and x :: bool
  assumes n: "0 < n" "n \<le> 32" and e: "unat (of_nat k AND (of_nat n - 1 :: u32)) = k mod n"
  defines "src \<equiv> take_bit n original"
  shows "agrees (shift_ro True src k n (mask n) (push_bit (n - 1) 1)) (shift_steps Sr_rol n k original x) x"
    "agrees (shift_ro False src k n (mask n) (push_bit (n - 1) 1)) (shift_steps Sr_ror n k original x) x"
proof -
  let ?e = "k mod n"
  have en: "?e < n" using n by simp
  have src: "bit src j \<Longrightarrow> j < n" for j by (simp add: src_def bit_src)
  have out: "bit v i \<Longrightarrow> i < n" if "v = (if ?e = 0 then src else w AND mask n)" for v w :: u32 and i
    using that src n(2) by (auto simp: bit_and_iff bit_mask_32 split: if_splits)
  have orig: "i < n \<Longrightarrow> bit src (rotated n j i) = bit original (rotated n j i)" for i j
    using rotated_less [OF n(1)] by (simp add: src_def bit_src)
  have l: "(if ?e = 0 then src else (push_bit ?e src OR drop_bit (n - ?e) src) AND mask n) =
      ss_value (shift_steps Sr_rol n k original x)" (is "?l = _")
  proof (rule bit_word_eqI)
    fix i :: nat
    have "i < n \<Longrightarrow> bit ?l i = bit src (rotated n (int (?e)) i)"
      by (rule rotate_formula(1) [OF en]) (use n(2) src in simp_all)
    then show "bit ?l i = bit (ss_value (shift_steps Sr_rol n k original x)) i"
      using out [OF refl, of _ i] orig [of i]
      unfolding rotation_steps(1) [OF n] rotated_mod(1) [OF n(1), of k] by (cases "i < n") auto
  qed
  have r: "(if ?e = 0 then src else (drop_bit ?e src OR push_bit (n - ?e) src) AND mask n) =
      ss_value (shift_steps Sr_ror n k original x)" (is "?r = _")
  proof (rule bit_word_eqI)
    fix i :: nat
    have "i < n \<Longrightarrow> bit ?r i = bit src (rotated n (int (n - ?e)) i)"
      by (rule rotate_formula(2) [OF en]) (use n(2) src in simp_all)
    then show "bit ?r i = bit (ss_value (shift_steps Sr_ror n k original x)) i"
      using out [OF refl, of _ i] orig [of i]
      unfolding rotation_steps(2) [OF n] rotated_mod(2) [OF n(1), of k] by (cases "i < n") auto
  qed
  have zero: "agrees \<lparr>so_result = src, so_carry = False, so_extend_written = False, so_extend = False, so_overflow = False\<rparr>
      (shift_steps kind n 0 original x) x" if "kind \<in> {Sr_rol, Sr_ror}" for kind
    using that by (auto simp: shift_steps_0 shift_start_def agrees_def src_def)
  show "agrees (shift_ro True src k n (mask n) (push_bit (n - 1) 1)) (shift_steps Sr_rol n k original x) x"
    using zero rotation_carry(1) [OF n, of k original x] unchanged_steps [of Sr_rol n k original x]
    unfolding shift_ro_def Let_def e if_True l unfolding one_bit_0 by (auto simp: agrees_def)
  show "agrees (shift_ro False src k n (mask n) (push_bit (n - 1) 1)) (shift_steps Sr_ror n k original x) x"
    using zero rotation_carry(2) [OF n, of k original x] unchanged_steps [of Sr_ror n k original x]
    unfolding shift_ro_def Let_def e if_False r unfolding sign_bit by (auto simp: agrees_def)
qed

lemma ring_word:
  fixes original :: u32 and x :: bool
  assumes n: "0 < n" "n \<le> 32"
  defines "R \<equiv> push_bit n (if x then 1 else 0) OR ucast (take_bit n original) :: u64"
  shows "bit R i \<Longrightarrow> i < Suc n"
    "i \<le> n \<Longrightarrow> kind = Sr_roxl \<or> kind = Sr_roxr \<Longrightarrow> bit R i = ring n (shift_steps kind n 0 original x) i"
proof -
  have R: "bit R i \<longleftrightarrow> i = n \<and> x \<or> i < n \<and> bit original i" for i
    using n(2) by (auto simp: R_def bit_or_iff bit_push_bit_iff possible_bit_word bit_unsigned_iff bit_take_bit_iff bit_1_iff
        dest: bit_imp_le_length)
  show "bit R i \<Longrightarrow> i < Suc n" unfolding R by auto
  show "i \<le> n \<Longrightarrow> kind = Sr_roxl \<or> kind = Sr_roxr \<Longrightarrow> bit R i = ring n (shift_steps kind n 0 original x) i"
    unfolding R ring_def shift_steps_0 bit_value_start by (auto simp: shift_start_def)
qed

lemma ring_outcome:
  fixes original :: u32 and x :: bool
  assumes n: "0 < n" "n \<le> 32" and kind: "kind = Sr_roxl \<or> kind = Sr_roxr"
    and W: "\<And>i. i \<le> n \<Longrightarrow> bit (W :: u64) i = ring n (shift_steps kind n k original x) i"
  shows "agrees (shift_out (ucast (W AND ucast (mask n :: u32))) (drop_bit n W AND 1 \<noteq> 0) (drop_bit n W AND 1 \<noteq> 0) False)
      (shift_steps kind n k original x) x"
proof (rule shift_outI)
  have e: "bit W n = ss_extend (shift_steps kind n k original x)" using W [of n] by (simp add: ring_def)
  then show "(drop_bit n W AND 1 \<noteq> 0) = ss_extend (shift_steps kind n k original x)" unfolding one_bit .
  with ring_steps(4) [OF n kind, of k original x]
  show "(drop_bit n W AND 1 \<noteq> 0) = ss_carry (shift_steps kind n k original x)" by simp
  show "False = ss_overflow (shift_steps kind n k original x)" using unchanged_steps(1) [of kind n k original x] kind by auto
  show "ucast (W AND ucast (mask n :: u32)) = ss_value (shift_steps kind n k original x)"
  proof (rule bit_word_eqI)
    fix i :: nat assume i: "i < LENGTH(32)"
    have "bit (ucast (W AND ucast (mask n :: u32)) :: u32) i \<longleftrightarrow> i < n \<and> bit W i"
      using i n(2) by (auto simp: bit_unsigned_iff bit_and_iff bit_mask_iff possible_bit_word)
    also have "\<dots> \<longleftrightarrow> bit (ss_value (shift_steps kind n k original x)) i"
      using W [of i] ring_steps(3) [OF n kind, of k original x i] by (auto simp: ring_def)
    finally show "bit (ucast (W AND ucast (mask n :: u32)) :: u32) i = bit (ss_value (shift_steps kind n k original x)) i" .
  qed
qed

lemma extended_rotations_agree:
  fixes original :: u32 and x :: bool
  assumes n: "0 < n" "n \<le> 32"
  defines "src \<equiv> take_bit n original"
  shows "agrees (shift_rox True src k n (mask n) x) (shift_steps Sr_roxl n k original x) x"
    "agrees (shift_rox False src k n (mask n) x) (shift_steps Sr_roxr n k original x) x"
proof -
  let ?N = "Suc n" and ?e = "k mod Suc n" and ?R = "push_bit n (if x then 1 else 0) OR ucast src :: u64"
  have m: "push_bit ?N 1 - 1 = (mask ?N :: u64)" by (simp add: mask_eq_exp_minus_1 push_bit_eq_mult)
  have eN: "?e < ?N" and N: "?N \<le> LENGTH(64)" using n by simp_all
  have R: "bit ?R i \<Longrightarrow> i < ?N" for i using ring_word(1) [OF n] by (simp add: src_def)
  have S: "bit ?R (rotated ?N j i) = ring n (shift_steps kind n 0 original x) (rotated ?N j i)"
    if "kind = Sr_roxl \<or> kind = Sr_roxr" for kind i j
    using ring_word(2) [OF n _ that] rotated_less [of ?N j i] by (simp add: src_def)
  show "agrees (shift_rox True src k n (mask n) x) (shift_steps Sr_roxl n k original x) x"
    unfolding shift_rox_def Let_def Suc_eq_plus1 [symmetric] m if_True
  proof (rule ring_outcome [OF n])
    fix i assume i: "i \<le> n"
    have "bit (if ?e = 0 then ?R else (push_bit ?e ?R OR drop_bit (?N - ?e) ?R) AND mask ?N) i = bit ?R (rotated ?N (int ?e) i)"
      by (rule rotate_formula(1) [OF eN N]) (use i R in auto)
    then show "bit (if ?e = 0 then ?R else (push_bit ?e ?R OR drop_bit (?N - ?e) ?R) AND mask ?N) i =
        ring n (shift_steps Sr_roxl n k original x) i"
      by (simp only: ring_steps(1) [OF n i, of k] rotated_mod(1) [of ?N k, OF zero_less_Suc] S [OF disjI1 [OF refl]])
  qed simp
  show "agrees (shift_rox False src k n (mask n) x) (shift_steps Sr_roxr n k original x) x"
    unfolding shift_rox_def Let_def Suc_eq_plus1 [symmetric] m if_False
  proof (rule ring_outcome [OF n])
    fix i assume i: "i \<le> n"
    have "bit (if ?e = 0 then ?R else (drop_bit ?e ?R OR push_bit (?N - ?e) ?R) AND mask ?N) i =
        bit ?R (rotated ?N (int (?N - ?e)) i)"
      by (rule rotate_formula(2) [OF eN N]) (use i R in auto)
    then show "bit (if ?e = 0 then ?R else (drop_bit ?e ?R OR push_bit (?N - ?e) ?R) AND mask ?N) i =
        ring n (shift_steps Sr_roxr n k original x) i"
      by (simp only: ring_steps(2) [OF n i, of k] rotated_mod(2) [of ?N k, OF zero_less_Suc] S [OF disjI2 [OF refl]])
  qed simp
qed

section \<open>The specification\<close>

lemma width_values:
  "width_mask w = mask (width_bits w)" "width_sign w = push_bit (width_bits w - 1) 1"
  "0 < width_bits w" "width_bits w \<le> 32"
  by (cases w; simp add: width_mask_def width_sign_def width_bits_def mask_eq_exp_minus_1)+

lemma effective_count:
  "unat (of_nat (unat (c :: u32)) AND (of_nat (width_bits w) - 1 :: u32)) = unat c mod width_bits w"
proof -
  obtain j where j: "of_nat (width_bits w) - 1 = (mask j :: u32)" "width_bits w = 2 ^ j"
  proof
    let ?j = "case w of Width_byte \<Rightarrow> 3 | Width_word \<Rightarrow> 4 | Width_long_word \<Rightarrow> (5 :: nat)"
    show "of_nat (width_bits w) - 1 = (mask ?j :: u32)" "width_bits w = 2 ^ ?j"
      by (cases w; simp add: width_bits_def mask_eq_exp_minus_1)+
  qed
  show ?thesis unfolding j(1) unfolding j(2) of_nat_unat ucast_id take_bit_eq_mask [symmetric] unsigned_take_bit_eq unfolding take_bit_eq_mod ..
qed

lemma evaluate_agrees:
  "\<exists>out. agrees out (shift_steps kind (width_bits w) (unat count) original x) x \<and>
     m68k_evaluate_shift_rotate kind original count w x =
       \<lparr>sr_result = so_result out, sr_negative = bit (so_result out) (width_bits w - 1), sr_zero = (so_result out = 0),
        sr_overflow = so_overflow out, sr_carry = so_carry out, sr_extend_written = so_extend_written out,
        sr_extend_value = so_extend out\<rparr>"
proof -
  note n = width_values(3,4) [of w]
  have src: "original AND mask (width_bits w) = take_bit (width_bits w) original" by (simp add: take_bit_eq_mask)
  note agree = left_agrees [OF n, of original "unat count" x] right_agrees [OF n, of original "unat count" x]
    rotations_agree [OF n effective_count, where original = original and x = x] extended_rotations_agree [OF n, of original "unat count" x]
  show ?thesis
    unfolding m68k_evaluate_shift_rotate_def Let_def width_values(1,2) src sign_bit
    by (cases kind) (simp only: M68kShiftRotateKind.case; rule exI; rule conjI; rule agree refl)+
qed

text \<open>
  C40. For every kind of shift and rotation, every count, width, operand and value of X, the closed
  formulas of \<^verbatim>\<open>M68kShiftRotateSpecification::evaluate\<close> give what count single steps give: the
  result, the carry, the overflow that remembers every change of the sign on the way, X (kept where the
  specification does not write it), and N and Z of the result.
\<close>

theorem shift_rotate_is_repeated_steps:
  fixes kind :: M68kShiftRotateKind and original count :: u32 and w :: M68kMemoryAccessWidth and x :: bool
  defines "r \<equiv> m68k_evaluate_shift_rotate kind original count w x"
    and "s \<equiv> shift_steps kind (width_bits w) (unat count) original x"
  shows "sr_result r = ss_value s \<and> sr_carry r = ss_carry s \<and> sr_overflow r = ss_overflow s \<and>
    (if sr_extend_written r then sr_extend_value r else x) = ss_extend s \<and>
    sr_negative r = bit (ss_value s) (width_bits w - 1) \<and> sr_zero r = (ss_value s = 0)"
  using evaluate_agrees [of kind w count original x] unfolding r_def s_def by (auto simp: agrees_def)

end
