(* ===== verification/M68k_Ir.thy ===== *)
theory M68k_Ir
  imports M68k_Alu
begin

text \<open>
  The lifted operations of \<^verbatim>\<open>cpu/m68k/ir.hpp\<close>, the lifting of \<^verbatim>\<open>ir.cpp\<close>, the address rules of
  \<^verbatim>\<open>effective_address.cpp\<close>, and the effect that \<^verbatim>\<open>m68k_operation_effect\<close> of \<^verbatim>\<open>effects.cpp\<close> states
  of each operation: its operands, its flags, its stack and program counter effects and the footprint
  of the registers it writes. The one big switch of the code is cut into the parts
  \<open>effect_system\<close> to \<open>effect_flow\<close>, each the identity on the kinds of the others.
\<close>

section \<open>Operations\<close>

datatype (plugins only:) M68kIrKind =
    Ir_write_moveq | Ir_subtract_quick_long_d0 | Ir_branch_ne_short | Ir_branch_always_short
    | Ir_return_from_subroutine | Ir_return_from_exception | Ir_test_operand | Ir_compare
    | Ir_compare_immediate | Ir_compare_address | Ir_add | Ir_add_address | Ir_add_immediate
    | Ir_add_quick | Ir_subtract | Ir_subtract_address | Ir_subtract_immediate | Ir_subtract_quick
    | Ir_logical_and | Ir_logical_and_immediate | Ir_logical_or | Ir_logical_or_immediate
    | Ir_exclusive_or | Ir_exclusive_or_immediate | Ir_write_move | Ir_write_movea | Ir_write_clr
    | Ir_load_effective_address | Ir_jump_general | Ir_call_general | Ir_write_swap | Ir_sign_extend_word
    | Ir_sign_extend_long | Ir_push_effective_address | Ir_link_frame | Ir_unlink_frame | Ir_bit_test
    | Ir_bit_change | Ir_bit_clear | Ir_bit_set | Ir_general_branch | Ir_bsr_call | Ir_dbcc_loop
    | Ir_movem_transfer | Ir_shift_rotate_register | Ir_shift_rotate_memory | Ir_write_user_stack_pointer
    | Ir_read_user_stack_pointer | Ir_logical_immediate_to_ccr | Ir_logical_immediate_to_sr
    | Ir_write_status_register | Ir_no_operation | Ir_read_status_register | Ir_write_condition_codes
    | Ir_logical_not | Ir_negate_word | Ir_negate_extended | Ir_add_extended | Ir_subtract_extended
    | Ir_compare_memory | Ir_add_decimal | Ir_subtract_decimal | Ir_negate_decimal
    | Ir_exchange_registers | Ir_movep_transfer | Ir_set_conditional | Ir_test_and_set
    | Ir_multiply_signed_word | Ir_multiply_unsigned_word | Ir_divide_signed_word
    | Ir_divide_unsigned_word | Ir_trap_exception | Ir_trap_on_overflow | Ir_check_bounds
    | Ir_return_restore_condition_codes | Ir_instruction_exception | Ir_stop_until_interrupt

record M68kIrOperation =
  ir_provenance :: InstructionProvenance
  ir_kind :: M68kIrKind
  ir_destination :: DataRegister
  ir_operand :: u8
  ir_raw_bytes :: bytes
  ir_extension :: u32
  ir_size :: M68kMemoryAccessWidth
  ir_source_ea :: M68kEffectiveAddress
  ir_destination_ea :: M68kEffectiveAddress
  ir_condition :: M68kCondition
  ir_movem_direction :: M68kMovemDirection
  ir_movem_register_mask :: u16
  ir_shift_rotate_kind :: M68kShiftRotateKind
  ir_status_operation :: M68kStatusLogicalOperation
  ir_exception_vector :: u8

definition operation_init :: M68kIrOperation where
  "operation_init = \<lparr>ir_provenance = provenance_init, ir_kind = Ir_write_moveq, ir_destination = 0, ir_operand = 0,
     ir_raw_bytes = [], ir_extension = 0, ir_size = Width_long_word, ir_source_ea = ea_init, ir_destination_ea = ea_init,
     ir_condition = Cond_always, ir_movem_direction = Registers_to_memory, ir_movem_register_mask = 0,
     ir_shift_rotate_kind = Sr_lsl, ir_status_operation = Status_and_op, ir_exception_vector = 0\<rparr>"

definition lift_m68k_instruction :: "M68kDecodedInstruction \<Rightarrow> M68kIrOperation" where
  "lift_m68k_instruction i =
    \<lparr>ir_provenance = di_provenance i,
     ir_kind = (case di_kind i of
        K_moveq \<Rightarrow> Ir_write_moveq
      | K_subq_l_1_d0 \<Rightarrow> Ir_subtract_quick_long_d0
      | K_bne_short \<Rightarrow> Ir_branch_ne_short
      | K_bra_short \<Rightarrow> Ir_branch_always_short
      | K_rts \<Rightarrow> Ir_return_from_subroutine
      | K_rte \<Rightarrow> Ir_return_from_exception
      | K_tst \<Rightarrow> Ir_test_operand
      | K_cmp \<Rightarrow> Ir_compare
      | K_cmpi \<Rightarrow> Ir_compare_immediate
      | K_cmpa \<Rightarrow> Ir_compare_address
      | K_add \<Rightarrow> Ir_add
      | K_adda \<Rightarrow> Ir_add_address
      | K_addi \<Rightarrow> Ir_add_immediate
      | K_addq \<Rightarrow> Ir_add_quick
      | K_sub \<Rightarrow> Ir_subtract
      | K_suba \<Rightarrow> Ir_subtract_address
      | K_subi \<Rightarrow> Ir_subtract_immediate
      | K_subq \<Rightarrow> Ir_subtract_quick
      | K_logical_and \<Rightarrow> Ir_logical_and
      | K_andi \<Rightarrow> Ir_logical_and_immediate
      | K_logical_or \<Rightarrow> Ir_logical_or
      | K_ori \<Rightarrow> Ir_logical_or_immediate
      | K_eor \<Rightarrow> Ir_exclusive_or
      | K_eori \<Rightarrow> Ir_exclusive_or_immediate
      | K_move \<Rightarrow> Ir_write_move
      | K_movea \<Rightarrow> Ir_write_movea
      | K_clr \<Rightarrow> Ir_write_clr
      | K_not_operand \<Rightarrow> Ir_logical_not
      | K_negate_word \<Rightarrow> Ir_negate_word
      | K_negate_extended \<Rightarrow> Ir_negate_extended
      | K_add_extended \<Rightarrow> Ir_add_extended
      | K_subtract_extended \<Rightarrow> Ir_subtract_extended
      | K_compare_memory \<Rightarrow> Ir_compare_memory
      | K_add_decimal \<Rightarrow> Ir_add_decimal
      | K_subtract_decimal \<Rightarrow> Ir_subtract_decimal
      | K_negate_decimal \<Rightarrow> Ir_negate_decimal
      | K_exchange_registers \<Rightarrow> Ir_exchange_registers
      | K_movep \<Rightarrow> Ir_movep_transfer
      | K_set_conditional \<Rightarrow> Ir_set_conditional
      | K_test_and_set \<Rightarrow> Ir_test_and_set
      | K_lea \<Rightarrow> Ir_load_effective_address
      | K_jmp \<Rightarrow> Ir_jump_general
      | K_jsr \<Rightarrow> Ir_call_general
      | K_swap \<Rightarrow> Ir_write_swap
      | K_ext_w \<Rightarrow> Ir_sign_extend_word
      | K_ext_l \<Rightarrow> Ir_sign_extend_long
      | K_pea \<Rightarrow> Ir_push_effective_address
      | K_link \<Rightarrow> Ir_link_frame
      | K_unlk \<Rightarrow> Ir_unlink_frame
      | K_btst \<Rightarrow> Ir_bit_test
      | K_bchg \<Rightarrow> Ir_bit_change
      | K_bclr \<Rightarrow> Ir_bit_clear
      | K_bset \<Rightarrow> Ir_bit_set
      | K_branch \<Rightarrow> Ir_general_branch
      | K_bsr \<Rightarrow> Ir_bsr_call
      | K_dbcc \<Rightarrow> Ir_dbcc_loop
      | K_movem \<Rightarrow> Ir_movem_transfer
      | K_move_an_to_usp \<Rightarrow> Ir_write_user_stack_pointer
      | K_move_to_sr \<Rightarrow> Ir_write_status_register
      | K_move_usp_to_an \<Rightarrow> Ir_read_user_stack_pointer
      | K_logical_immediate_to_ccr \<Rightarrow> Ir_logical_immediate_to_ccr
      | K_logical_immediate_to_sr \<Rightarrow> Ir_logical_immediate_to_sr
      | K_nop \<Rightarrow> Ir_no_operation
      | K_move_from_sr \<Rightarrow> Ir_read_status_register
      | K_move_to_ccr \<Rightarrow> Ir_write_condition_codes
      | K_multiply_signed_word \<Rightarrow> Ir_multiply_signed_word
      | K_multiply_unsigned_word \<Rightarrow> Ir_multiply_unsigned_word
      | K_divide_signed_word \<Rightarrow> Ir_divide_signed_word
      | K_divide_unsigned_word \<Rightarrow> Ir_divide_unsigned_word
      | K_trap \<Rightarrow> Ir_trap_exception
      | K_trapv \<Rightarrow> Ir_trap_on_overflow
      | K_chk \<Rightarrow> Ir_check_bounds
      | K_rtr \<Rightarrow> Ir_return_restore_condition_codes
      | K_instruction_exception \<Rightarrow> Ir_instruction_exception
      | K_stop \<Rightarrow> Ir_stop_until_interrupt
      | K_shift_rotate \<Rightarrow> (if ea_mode (di_destination_ea i) = Ea_data_register then Ir_shift_rotate_register
                           else Ir_shift_rotate_memory)),
     ir_destination = di_destination i, ir_operand = di_operand i, ir_raw_bytes = di_raw_bytes i,
     ir_extension = di_extension i, ir_size = di_size i, ir_source_ea = di_source_ea i,
     ir_destination_ea = di_destination_ea i, ir_condition = di_condition i,
     ir_movem_direction = di_movem_direction i, ir_movem_register_mask = di_movem_register_mask i,
     ir_shift_rotate_kind = di_shift_rotate_kind i, ir_status_operation = di_status_operation i,
     ir_exception_vector = di_exception_vector i\<rparr>"

definition m68k_ir_is_transfer :: "M68kIrOperation \<Rightarrow> bool" where
  "m68k_ir_is_transfer op \<longleftrightarrow>
     ir_kind op \<in> {Ir_branch_ne_short, Ir_branch_always_short, Ir_return_from_subroutine, Ir_return_from_exception,
       Ir_return_restore_condition_codes, Ir_instruction_exception, Ir_jump_general, Ir_call_general}"

section \<open>Effective addresses\<close>

definition m68k_is_statically_foldable_control_ea :: "M68kEffectiveAddress \<Rightarrow> bool" where
  "m68k_is_statically_foldable_control_ea ea \<longleftrightarrow>
     ea_mode ea = Ea_absolute_word \<or> ea_mode ea = Ea_absolute_long \<or> ea_mode ea = Ea_pc_disp16"

definition m68k_is_supported_computed_control_ea :: "M68kEffectiveAddress \<Rightarrow> bool" where
  "m68k_is_supported_computed_control_ea ea \<longleftrightarrow>
     (if ea_mode ea = Ea_pc_index8 \<or> ea_mode ea = Ea_address_index8 then True
      else ea_mode ea = Ea_address_indirect \<and> ea_displacement ea = 0 \<and> ea_extension_words ea = 0)"

datatype AlignmentDiagnostic = Effective_address_not_24bit | Odd_effective_address

definition m68k_startup_absolute_operand_alignment :: "u32 \<Rightarrow> M68kMemoryAccessWidth \<Rightarrow> AlignmentDiagnostic option" where
  "m68k_startup_absolute_operand_alignment address width =
     (if address AND 0xFF000000 \<noteq> 0 then Some Effective_address_not_24bit
      else if width \<noteq> Width_byte \<and> address AND 1 \<noteq> 0 then Some Odd_effective_address
      else None)"

definition m68k_canonical_ea_address :: "M68kEffectiveAddress \<Rightarrow> u32" where
  "m68k_canonical_ea_address ea =
     (if ea_mode ea = Ea_absolute_word then ea_absolute_address ea AND 0x00FFFFFF else ea_absolute_address ea)"

definition m68k_data_access_ea_address :: "M68kEffectiveAddress \<Rightarrow> u32" where
  "m68k_data_access_ea_address ea =
     (if ea_mode ea = Ea_absolute_long \<and> ea_absolute_address ea AND 0xFF800000 = 0xFF800000
      then ea_absolute_address ea AND 0x00FFFFFF else m68k_canonical_ea_address ea)"

section \<open>Effects\<close>

datatype M68kMemoryEffectKind = Mem_none | Mem_absolute_store | Mem_absolute_load | Mem_absolute_test

datatype M68kStackEffectKind =
    Stack_none | Stack_push_static_continuation | Stack_pop_static_return | Stack_push_data_long
  | Stack_pop_data_long | Stack_pop_exception_frame

datatype M68kPcEffectKind =
    Pc_none | Pc_advance | Pc_direct_target | Pc_observed_stack_return | Pc_observed_exception_return
  | Pc_exception_entry

type_synonym AddressRegister = u8

record M68kRegisterWrite =
  rw_reg :: DataRegister
  rw_value :: u32

record M68kOperationEffect =
  fx_complete :: bool
  fx_data_mask :: u8
  fx_address_mask :: u8
  fx_register_write :: "M68kRegisterWrite option"
  fx_memory :: M68kMemoryEffectKind
  fx_memory_register :: DataRegister
  fx_memory_address :: u32
  fx_affects_ccr :: bool
  fx_extend_policy :: M68kExtendFlagPolicy
  fx_stack :: M68kStackEffectKind
  fx_stack_width :: u32
  fx_pc :: M68kPcEffectKind
  fx_pc_delta :: u32
  fx_direct_target :: u32
  fx_address_write :: "AddressRegister option"
  fx_operand_size :: M68kMemoryAccessWidth
  fx_source_ea :: "M68kEffectiveAddress option"
  fx_destination_ea :: "M68kEffectiveAddress option"
  fx_usp_source :: "AddressRegister option"
  fx_may_raise :: bool
  fx_vector :: u8

definition effect_init :: M68kOperationEffect where
  "effect_init = \<lparr>fx_complete = False, fx_data_mask = 0, fx_address_mask = 0, fx_register_write = None,
     fx_memory = Mem_none, fx_memory_register = 0, fx_memory_address = 0, fx_affects_ccr = False,
     fx_extend_policy = Extend_preserve, fx_stack = Stack_none, fx_stack_width = 0, fx_pc = Pc_none,
     fx_pc_delta = 0, fx_direct_target = 0, fx_address_write = None, fx_operand_size = Width_long_word,
     fx_source_ea = None, fx_destination_ea = None, fx_usp_source = None, fx_may_raise = False, fx_vector = 0\<rparr>"

text \<open>The assignments that many cases share.\<close>

definition fx_next :: "M68kIrOperation \<Rightarrow> M68kOperationEffect \<Rightarrow> M68kOperationEffect" where
  "fx_next op e = e\<lparr>fx_pc := Pc_advance, fx_pc_delta := pv_length (ir_provenance op)\<rparr>"

definition fx_source :: "M68kIrOperation \<Rightarrow> M68kOperationEffect \<Rightarrow> M68kOperationEffect" where
  "fx_source op e = e\<lparr>fx_operand_size := ir_size op, fx_source_ea := Some (ir_source_ea op)\<rparr>"

definition fx_both :: "M68kIrOperation \<Rightarrow> M68kOperationEffect \<Rightarrow> M68kOperationEffect" where
  "fx_both op e = (fx_source op e)\<lparr>fx_destination_ea := Some (ir_destination_ea op)\<rparr>"

definition fx_modify :: "M68kIrOperation \<Rightarrow> M68kOperationEffect \<Rightarrow> M68kOperationEffect" where
  "fx_modify op e = e\<lparr>fx_operand_size := ir_size op, fx_source_ea := Some (ir_destination_ea op),
     fx_destination_ea := Some (ir_destination_ea op)\<rparr>"

text \<open>A destination that is read, the value discarded, before it is written, when it is in memory.\<close>

definition fx_discard :: "M68kIrOperation \<Rightarrow> M68kOperationEffect \<Rightarrow> M68kOperationEffect" where
  "fx_discard op e =
     (let e = e\<lparr>fx_operand_size := ir_size op\<rparr>;
          e = (if ea_mode (ir_destination_ea op) \<noteq> Ea_data_register then e\<lparr>fx_source_ea := Some (ir_destination_ea op)\<rparr> else e)
      in e\<lparr>fx_destination_ea := Some (ir_destination_ea op)\<rparr>)"

definition fx_ccr :: "M68kOperationEffect \<Rightarrow> M68kOperationEffect" where
  "fx_ccr e = e\<lparr>fx_affects_ccr := True\<rparr>"

definition fx_raises :: "u8 \<Rightarrow> M68kOperationEffect \<Rightarrow> M68kOperationEffect" where
  "fx_raises vector e = e\<lparr>fx_may_raise := True, fx_vector := vector\<rparr>"

definition fx_a7 :: "M68kOperationEffect \<Rightarrow> M68kOperationEffect" where
  "fx_a7 e = e\<lparr>fx_address_mask := fx_address_mask e OR 0x80\<rparr>"

definition effect_system :: "M68kIrOperation \<Rightarrow> M68kOperationEffect \<Rightarrow> M68kOperationEffect" where
  "effect_system op e = (case ir_kind op of
      Ir_write_moveq \<Rightarrow>
        e\<lparr>fx_register_write := Some \<lparr>rw_reg = 0, rw_value = scast (ir_operand op)\<rparr>, fx_affects_ccr := True,
          fx_pc := Pc_advance, fx_pc_delta := 2\<rparr>
    | Ir_return_from_subroutine \<Rightarrow>
        e\<lparr>fx_stack := Stack_pop_static_return, fx_stack_width := 4, fx_pc := Pc_observed_stack_return\<rparr>
    | Ir_return_from_exception \<Rightarrow>
        fx_raises 8 (e\<lparr>fx_stack := Stack_pop_exception_frame, fx_stack_width := 6, fx_pc := Pc_observed_exception_return\<rparr>)
    | Ir_write_user_stack_pointer \<Rightarrow>
        (let e = e\<lparr>fx_source_ea := Some (ir_source_ea op)\<rparr>;
             e = (if ea_mode (ir_source_ea op) = Ea_address_register \<and> ea_reg (ir_source_ea op) < 8
                  then e\<lparr>fx_usp_source := Some (ea_reg (ir_source_ea op))\<rparr> else e)
         in fx_next op (fx_raises 8 e))
    | Ir_read_user_stack_pointer \<Rightarrow>
        (let e = e\<lparr>fx_destination_ea := Some (ir_destination_ea op)\<rparr>;
             e = (if ea_mode (ir_destination_ea op) = Ea_address_register \<and> ea_reg (ir_destination_ea op) < 8
                  then e\<lparr>fx_address_write := Some (ea_reg (ir_destination_ea op))\<rparr> else e)
         in fx_next op (fx_raises 8 e))
    | Ir_logical_immediate_to_ccr \<Rightarrow> fx_next op (fx_ccr (fx_source op e))
    | Ir_logical_immediate_to_sr \<Rightarrow> fx_next op (fx_a7 (fx_raises 8 (fx_ccr (fx_source op e))))
    | Ir_stop_until_interrupt \<Rightarrow> fx_next op (fx_a7 (fx_raises 8 (fx_ccr (fx_source op e))))
    | Ir_write_status_register \<Rightarrow> fx_next op (fx_a7 (fx_raises 8 (fx_ccr (fx_source op e))))
    | Ir_read_status_register \<Rightarrow> fx_next op ((fx_discard op e)\<lparr>fx_affects_ccr := False\<rparr>)
    | Ir_write_condition_codes \<Rightarrow> fx_next op (fx_ccr (fx_source op e))
    | Ir_no_operation \<Rightarrow> fx_next op e
    | _ \<Rightarrow> e)"

definition effect_arithmetic :: "M68kIrOperation \<Rightarrow> M68kOperationEffect \<Rightarrow> M68kOperationEffect" where
  "effect_arithmetic op e =
    (let to_address = (ea_mode (ir_destination_ea op) = Ea_address_register);
         register = ea_reg (ir_destination_ea op);
         sum = (let e = (fx_both op e)\<lparr>fx_affects_ccr := \<not> to_address\<rparr>
                in if to_address then e\<lparr>fx_address_write := Some register\<rparr> else e)
     in case ir_kind op of
      Ir_test_operand \<Rightarrow> fx_next op (fx_ccr (fx_source op e))
    | Ir_compare \<Rightarrow> fx_next op ((fx_ccr (fx_both op e))\<lparr>fx_extend_policy := Extend_preserve\<rparr>)
    | Ir_compare_immediate \<Rightarrow> fx_next op ((fx_ccr (fx_both op e))\<lparr>fx_extend_policy := Extend_preserve\<rparr>)
    | Ir_compare_address \<Rightarrow> fx_next op ((fx_ccr (fx_both op e))\<lparr>fx_extend_policy := Extend_preserve\<rparr>)
    | Ir_add \<Rightarrow> fx_next op sum
    | Ir_add_immediate \<Rightarrow> fx_next op sum
    | Ir_add_quick \<Rightarrow> fx_next op sum
    | Ir_add_address \<Rightarrow> fx_next op ((fx_both op e)\<lparr>fx_address_write := Some register\<rparr>)
    | Ir_subtract \<Rightarrow> fx_next op (sum\<lparr>fx_extend_policy := Extend_from_carry\<rparr>)
    | Ir_subtract_immediate \<Rightarrow> fx_next op (sum\<lparr>fx_extend_policy := Extend_from_carry\<rparr>)
    | Ir_subtract_quick \<Rightarrow> fx_next op (sum\<lparr>fx_extend_policy := Extend_from_carry\<rparr>)
    | Ir_subtract_address \<Rightarrow> fx_next op ((fx_both op e)\<lparr>fx_address_write := Some register\<rparr>)
    | Ir_logical_and \<Rightarrow> fx_next op (fx_ccr (fx_both op e))
    | Ir_logical_and_immediate \<Rightarrow> fx_next op (fx_ccr (fx_both op e))
    | Ir_logical_or \<Rightarrow> fx_next op (fx_ccr (fx_both op e))
    | Ir_logical_or_immediate \<Rightarrow> fx_next op (fx_ccr (fx_both op e))
    | Ir_exclusive_or \<Rightarrow> fx_next op (fx_ccr (fx_both op e))
    | Ir_exclusive_or_immediate \<Rightarrow> fx_next op (fx_ccr (fx_both op e))
    | _ \<Rightarrow> e)"

definition effect_moves :: "M68kIrOperation \<Rightarrow> M68kOperationEffect \<Rightarrow> M68kOperationEffect" where
  "effect_moves op e = (case ir_kind op of
      Ir_write_move \<Rightarrow> fx_next op (fx_ccr (fx_both op e))
    | Ir_write_movea \<Rightarrow> fx_next op ((fx_both op e)\<lparr>fx_address_write := Some (ea_reg (ir_destination_ea op))\<rparr>)
    | Ir_write_clr \<Rightarrow> fx_next op (fx_ccr (fx_discard op e))
    | Ir_logical_not \<Rightarrow> fx_next op (fx_ccr (fx_modify op e))
    | Ir_negate_word \<Rightarrow> fx_next op ((fx_ccr (fx_modify op e))\<lparr>fx_extend_policy := Extend_from_carry\<rparr>)
    | Ir_negate_extended \<Rightarrow> fx_next op ((fx_ccr (fx_modify op e))\<lparr>fx_extend_policy := Extend_from_carry\<rparr>)
    | Ir_add_extended \<Rightarrow> fx_next op ((fx_ccr (fx_both op e))\<lparr>fx_extend_policy := Extend_from_carry\<rparr>)
    | Ir_subtract_extended \<Rightarrow> fx_next op ((fx_ccr (fx_both op e))\<lparr>fx_extend_policy := Extend_from_carry\<rparr>)
    | Ir_compare_memory \<Rightarrow> fx_next op ((fx_ccr (fx_both op e))\<lparr>fx_extend_policy := Extend_preserve\<rparr>)
    | _ \<Rightarrow> e)"

text \<open>\<^verbatim>\<open>1U << reg\<close> in a mask of eight registers, nothing for a register number beyond them.\<close>

definition register_bit :: "u8 \<Rightarrow> u8" where
  "register_bit reg = (if reg < 8 then push_bit (unat reg) 1 else 0)"

definition note_exchange :: "M68kEffectiveAddress \<Rightarrow> M68kOperationEffect \<Rightarrow> M68kOperationEffect" where
  "note_exchange operand e =
     (if ea_mode operand = Ea_data_register then e\<lparr>fx_data_mask := fx_data_mask e OR register_bit (ea_reg operand)\<rparr>
      else if ea_mode operand = Ea_address_register then e\<lparr>fx_address_mask := fx_address_mask e OR register_bit (ea_reg operand)\<rparr>
      else e)"

definition effect_decimal_exchange :: "M68kIrOperation \<Rightarrow> M68kOperationEffect \<Rightarrow> M68kOperationEffect" where
  "effect_decimal_exchange op e = (case ir_kind op of
      Ir_negate_decimal \<Rightarrow> fx_next op ((fx_ccr (fx_modify op e))\<lparr>fx_extend_policy := Extend_from_carry\<rparr>)
    | Ir_add_decimal \<Rightarrow> fx_next op ((fx_ccr (fx_both op e))\<lparr>fx_extend_policy := Extend_from_carry\<rparr>)
    | Ir_subtract_decimal \<Rightarrow> fx_next op ((fx_ccr (fx_both op e))\<lparr>fx_extend_policy := Extend_from_carry\<rparr>)
    | Ir_exchange_registers \<Rightarrow>
        fx_next op (note_exchange (ir_destination_ea op) (note_exchange (ir_source_ea op) (fx_both op e)))
    | Ir_movep_transfer \<Rightarrow> fx_next op (fx_both op e)
    | Ir_set_conditional \<Rightarrow> fx_next op (fx_discard op e)
    | Ir_test_and_set \<Rightarrow> fx_next op (fx_ccr (fx_modify op e))
    | _ \<Rightarrow> e)"

definition effect_multiply_exception :: "M68kIrOperation \<Rightarrow> M68kOperationEffect \<Rightarrow> M68kOperationEffect" where
  "effect_multiply_exception op e = (case ir_kind op of
      Ir_multiply_signed_word \<Rightarrow> fx_next op (fx_ccr (fx_both op e))
    | Ir_multiply_unsigned_word \<Rightarrow> fx_next op (fx_ccr (fx_both op e))
    | Ir_divide_signed_word \<Rightarrow> fx_next op (fx_raises 5 (fx_ccr (fx_both op e)))
    | Ir_divide_unsigned_word \<Rightarrow> fx_next op (fx_raises 5 (fx_ccr (fx_both op e)))
    | Ir_trap_exception \<Rightarrow> fx_next op (fx_a7 (fx_raises (ir_exception_vector op) e))
    | Ir_trap_on_overflow \<Rightarrow> fx_next op (fx_a7 (fx_raises (ir_exception_vector op) e))
    | Ir_check_bounds \<Rightarrow> fx_next op (fx_a7 (fx_raises (ir_exception_vector op) (fx_ccr (fx_source op e))))
    | Ir_return_restore_condition_codes \<Rightarrow>
        (fx_a7 (fx_ccr (e\<lparr>fx_stack := Stack_pop_exception_frame, fx_stack_width := 6\<rparr>)))\<lparr>fx_pc := Pc_observed_exception_return\<rparr>
    | Ir_instruction_exception \<Rightarrow> (fx_a7 (fx_raises (ir_exception_vector op) e))\<lparr>fx_pc := Pc_exception_entry\<rparr>
    | _ \<Rightarrow> e)"

definition effect_stack_bits :: "M68kIrOperation \<Rightarrow> M68kOperationEffect \<Rightarrow> M68kOperationEffect" where
  "effect_stack_bits op e =
    (let address_write = (\<lambda>e. e\<lparr>fx_address_write := Some (ea_reg (ir_destination_ea op))\<rparr>);
         register_only = e\<lparr>fx_operand_size := ir_size op, fx_destination_ea := Some (ir_destination_ea op)\<rparr>
     in case ir_kind op of
      Ir_load_effective_address \<Rightarrow> fx_next op (address_write (e\<lparr>fx_source_ea := Some (ir_source_ea op)\<rparr>))
    | Ir_write_swap \<Rightarrow> fx_next op (fx_ccr register_only)
    | Ir_sign_extend_word \<Rightarrow> fx_next op (fx_ccr register_only)
    | Ir_sign_extend_long \<Rightarrow> fx_next op (fx_ccr register_only)
    | Ir_push_effective_address \<Rightarrow>
        fx_next op (e\<lparr>fx_operand_size := Width_long_word, fx_source_ea := Some (ir_source_ea op),
          fx_stack := Stack_push_data_long, fx_stack_width := 4\<rparr>)
    | Ir_link_frame \<Rightarrow>
        fx_next op ((address_write (e\<lparr>fx_operand_size := Width_long_word, fx_source_ea := Some (ir_source_ea op),
          fx_destination_ea := Some (ir_destination_ea op)\<rparr>))\<lparr>fx_stack := Stack_push_data_long, fx_stack_width := 4\<rparr>)
    | Ir_unlink_frame \<Rightarrow>
        fx_next op ((address_write (e\<lparr>fx_operand_size := Width_long_word,
          fx_destination_ea := Some (ir_destination_ea op)\<rparr>))\<lparr>fx_stack := Stack_pop_data_long, fx_stack_width := 4\<rparr>)
    | Ir_bit_test \<Rightarrow> fx_next op (fx_ccr (fx_both op e))
    | Ir_bit_change \<Rightarrow> fx_next op (fx_ccr (fx_both op e))
    | Ir_bit_clear \<Rightarrow> fx_next op (fx_ccr (fx_both op e))
    | Ir_bit_set \<Rightarrow> fx_next op (fx_ccr (fx_both op e))
    | _ \<Rightarrow> e)"

definition branch_displacement :: "M68kMemoryAccessWidth \<Rightarrow> u32 \<Rightarrow> int" where
  "branch_displacement width raw =
     (if width = Width_byte then sint (ucast raw :: u8) else sint (ucast raw :: u16))"

definition effect_flow :: "M68kIrOperation \<Rightarrow> M68kOperationEffect \<Rightarrow> M68kOperationEffect" where
  "effect_flow op e =
    (let target = (\<lambda>width. m68k_branch_target (pa_value (ds_address (pv_source (ir_provenance op))))
           (branch_displacement width (ea_immediate_value (ir_source_ea op))));
         general = (\<lambda>call. let e = e\<lparr>fx_source_ea := Some (ir_source_ea op)\<rparr>;
             e = (if call then e\<lparr>fx_stack := Stack_push_static_continuation, fx_stack_width := 4\<rparr> else e)
           in if m68k_is_statically_foldable_control_ea (ir_source_ea op)
              then e\<lparr>fx_pc := Pc_direct_target, fx_direct_target := m68k_canonical_ea_address (ir_source_ea op)\<rparr> else e)
     in case ir_kind op of
      Ir_general_branch \<Rightarrow>
        e\<lparr>fx_source_ea := Some (ir_source_ea op), fx_pc := Pc_direct_target, fx_direct_target := target (ir_size op)\<rparr>
    | Ir_bsr_call \<Rightarrow>
        e\<lparr>fx_source_ea := Some (ir_source_ea op), fx_pc := Pc_direct_target, fx_direct_target := target (ir_size op),
          fx_stack := Stack_push_static_continuation, fx_stack_width := 4\<rparr>
    | Ir_dbcc_loop \<Rightarrow>
        e\<lparr>fx_source_ea := Some (ir_source_ea op), fx_destination_ea := Some (ir_destination_ea op),
          fx_pc := Pc_direct_target, fx_direct_target := target Width_word\<rparr>
    | Ir_movem_transfer \<Rightarrow> fx_next op (fx_both op e)
    | Ir_shift_rotate_register \<Rightarrow> fx_next op (fx_ccr (fx_both op e))
    | Ir_shift_rotate_memory \<Rightarrow> fx_next op (fx_ccr (fx_modify op e))
    | Ir_jump_general \<Rightarrow> general False
    | Ir_call_general \<Rightarrow> general True
    | _ \<Rightarrow> e)"

definition footprint_complete_kinds :: "M68kIrKind list" where
  "footprint_complete_kinds =
     [Ir_no_operation, Ir_add_quick, Ir_add_immediate, Ir_add, Ir_add_address, Ir_subtract, Ir_subtract_immediate,
      Ir_subtract_quick, Ir_subtract_address, Ir_compare_immediate, Ir_logical_and, Ir_logical_and_immediate,
      Ir_logical_or, Ir_logical_or_immediate, Ir_exclusive_or, Ir_exclusive_or_immediate, Ir_bit_test, Ir_bit_change,
      Ir_bit_clear, Ir_bit_set, Ir_write_move, Ir_shift_rotate_register, Ir_shift_rotate_memory, Ir_write_movea,
      Ir_write_clr, Ir_logical_not, Ir_test_operand, Ir_negate_word, Ir_negate_extended, Ir_add_extended,
      Ir_subtract_extended, Ir_compare_memory, Ir_negate_decimal, Ir_add_decimal, Ir_subtract_decimal,
      Ir_exchange_registers, Ir_movep_transfer, Ir_set_conditional, Ir_test_and_set, Ir_compare, Ir_compare_address,
      Ir_write_status_register, Ir_read_status_register, Ir_write_condition_codes, Ir_logical_immediate_to_ccr,
      Ir_logical_immediate_to_sr, Ir_stop_until_interrupt, Ir_write_user_stack_pointer, Ir_read_user_stack_pointer,
      Ir_trap_exception, Ir_trap_on_overflow, Ir_check_bounds, Ir_return_restore_condition_codes,
      Ir_instruction_exception, Ir_general_branch]"

definition note_ea_auto_update :: "M68kEffectiveAddress \<Rightarrow> M68kOperationEffect \<Rightarrow> M68kOperationEffect" where
  "note_ea_auto_update ea e =
     (if (ea_mode ea = Ea_address_postinc \<or> ea_mode ea = Ea_address_predec) \<and> ea_reg ea < 8
      then e\<lparr>fx_address_mask := fx_address_mask e OR register_bit (ea_reg ea)\<rparr> else e)"

definition note_register_write :: "M68kOperationEffect \<Rightarrow> M68kOperationEffect" where
  "note_register_write e =
     (case fx_register_write e of Some w \<Rightarrow> e\<lparr>fx_data_mask := fx_data_mask e OR register_bit (rw_reg w)\<rparr> | None \<Rightarrow> e)"

definition note_subtract_quick :: "M68kIrOperation \<Rightarrow> M68kOperationEffect \<Rightarrow> M68kOperationEffect" where
  "note_subtract_quick op e =
     (if ir_kind op = Ir_subtract_quick_long_d0 then e\<lparr>fx_data_mask := fx_data_mask e OR 0x01\<rparr> else e)"

definition note_address_write :: "M68kOperationEffect \<Rightarrow> M68kOperationEffect" where
  "note_address_write e =
     (case fx_address_write e of Some r \<Rightarrow> e\<lparr>fx_address_mask := fx_address_mask e OR register_bit r\<rparr> | None \<Rightarrow> e)"

definition note_destination :: "M68kIrOperation \<Rightarrow> M68kOperationEffect \<Rightarrow> M68kOperationEffect" where
  "note_destination op e =
     (if ea_mode (ir_destination_ea op) = Ea_data_register \<and> ea_reg (ir_destination_ea op) < 8 \<and>
         ir_kind op \<notin> {Ir_compare, Ir_compare_immediate, Ir_compare_address, Ir_compare_memory, Ir_test_operand,
           Ir_bit_test, Ir_check_bounds}
      then e\<lparr>fx_data_mask := fx_data_mask e OR register_bit (ea_reg (ir_destination_ea op))\<rparr> else e)"

definition note_stack_pointer :: "M68kIrOperation \<Rightarrow> M68kOperationEffect \<Rightarrow> M68kOperationEffect" where
  "note_stack_pointer op e =
     (if ir_kind op \<in> {Ir_push_effective_address, Ir_return_from_subroutine, Ir_link_frame, Ir_unlink_frame,
           Ir_bsr_call, Ir_call_general}
      then fx_a7 e else e)"

definition effect_footprint :: "M68kIrOperation \<Rightarrow> M68kOperationEffect \<Rightarrow> M68kOperationEffect" where
  "effect_footprint op e =
    (let e = note_ea_auto_update (ir_destination_ea op) (note_ea_auto_update (ir_source_ea op) e);
         e = note_destination op (note_address_write (note_subtract_quick op (note_register_write e)))
     in note_stack_pointer op (e\<lparr>fx_complete := ir_kind op \<in> set footprint_complete_kinds\<rparr>))"

definition m68k_operation_effect :: "M68kIrOperation \<Rightarrow> M68kOperationEffect" where
  "m68k_operation_effect op =
     effect_footprint op (effect_flow op (effect_stack_bits op (effect_multiply_exception op
       (effect_decimal_exchange op (effect_moves op (effect_arithmetic op (effect_system op effect_init)))))))"

definition m68k_compare_ccr :: "u16 \<Rightarrow> u32 \<Rightarrow> u32 \<Rightarrow> M68kMemoryAccessWidth \<Rightarrow> u16" where
  "m68k_compare_ccr status_register source destination width =
     m68k_subtraction_ccr status_register source destination width
       (fx_extend_policy (m68k_operation_effect (operation_init\<lparr>ir_kind := Ir_compare\<rparr>)))"

end
