(* ===== verification/M68k_Finite.thy ===== *)
theory M68k_Finite
  imports M68k_Ir "HOL-Library.Monad_Syntax"
begin

text \<open>
  The finite value domain of \<^verbatim>\<open>cpu/m68k/finite_register_values.cpp\<close>: what one lifted operation does
  to the known values of a data register, and what a conditional branch tells of them. The inputs
  of the transfer, the virtual class \<^verbatim>\<open>M68kFiniteValueInputs\<close>, are two functions that may change a
  state of their own; the value of a register may also be out of reach (\<open>None\<close>), which stands for an
  evaluation that has not ended.
\<close>

section \<open>Values\<close>

definition m68k_finite_values_limit :: nat where
  "m68k_finite_values_limit = 4096"

record M68kFiniteValues =
  fv_known :: bool
  fv_values :: "u32 list"
  fv_width_derived :: bool

definition fv_unknown :: M68kFiniteValues where
  "fv_unknown = \<lparr>fv_known = False, fv_values = [], fv_width_derived = False\<rparr>"

definition low_mask :: "nat \<Rightarrow> u32" where
  "low_mask width = (if width \<ge> 32 then 0xFFFFFFFF else push_bit width 1 - 1)"

definition sign_extend :: "u32 \<Rightarrow> nat \<Rightarrow> u32" where
  "sign_extend value bits =
     (if bits \<ge> 32 then value
      else let sign = push_bit (bits - 1) 1; value = value AND (push_bit bits 1 - 1) in (value XOR sign) - sign)"

definition is_data_register :: "M68kEffectiveAddress \<Rightarrow> nat \<Rightarrow> bool" where
  "is_data_register ea reg \<longleftrightarrow> ea_mode ea = Ea_data_register \<and> unat (ea_reg ea) = reg"

definition fv_of :: "u32 list \<Rightarrow> nat \<Rightarrow> M68kFiniteValues" where
  "fv_of values width =
     (let masked = map (\<lambda>value. value AND low_mask width) values;
          sorted = remdups_adj (sort masked)
      in if length sorted > m68k_finite_values_limit then fv_unknown
         else \<lparr>fv_known = True, fv_values = sorted, fv_width_derived = False\<rparr>)"

definition m68k_finite_union :: "M68kFiniteValues \<Rightarrow> M68kFiniteValues \<Rightarrow> nat \<Rightarrow> M68kFiniteValues" where
  "m68k_finite_union left right width =
     (if \<not> fv_known left \<or> \<not> fv_known right then fv_unknown
      else let result = fv_of (fv_values left @ fv_values right) width
           in result\<lparr>fv_width_derived := fv_known result \<and> (fv_width_derived left \<or> fv_width_derived right)\<rparr>)"

definition map_values :: "M68kFiniteValues \<Rightarrow> nat \<Rightarrow> (u32 \<Rightarrow> u32) \<Rightarrow> M68kFiniteValues" where
  "map_values input width f =
     (if \<not> fv_known input then fv_unknown
      else let result = fv_of (map f (fv_values input)) width
           in result\<lparr>fv_width_derived := fv_known result \<and> fv_width_derived input\<rparr>)"

definition narrow :: "M68kFiniteValues \<Rightarrow> M68kFiniteValues \<Rightarrow> M68kFiniteValues" where
  "narrow before after =
     (if \<not> fv_known after then after
      else after\<lparr>fv_width_derived := fv_width_derived before \<and>
        \<not> (fv_known before \<and> fv_values before \<noteq> [] \<and> fv_values after \<noteq> [] \<and>
           last (fv_values after) < last (fv_values before))\<rparr>)"

definition combine_values :: "M68kFiniteValues \<Rightarrow> M68kFiniteValues \<Rightarrow> nat \<Rightarrow> (u32 \<Rightarrow> u32 \<Rightarrow> u32) \<Rightarrow> M68kFiniteValues" where
  "combine_values left right width f =
     (if \<not> fv_known left \<or> \<not> fv_known right then fv_unknown
      else if length (fv_values left) * length (fv_values right) > m68k_finite_values_limit * 16 then fv_unknown
      else let result = fv_of (concat (map (\<lambda>a. map (f a) (fv_values right)) (fv_values left))) width
           in result\<lparr>fv_width_derived := fv_known result \<and> (fv_width_derived left \<or> fv_width_derived right)\<rparr>)"

text \<open>The proof ingredients, one bit each.\<close>

definition proof_constant :: u32 where "proof_constant = push_bit 0 1"
definition proof_mask :: u32 where "proof_mask = push_bit 1 1"
definition proof_byte_load :: u32 where "proof_byte_load = push_bit 2 1"
definition proof_immutable_load :: u32 where "proof_immutable_load = push_bit 3 1"
definition proof_shift :: u32 where "proof_shift = push_bit 4 1"
definition proof_add_sub :: u32 where "proof_add_sub = push_bit 5 1"
definition proof_sign_extend :: u32 where "proof_sign_extend = push_bit 6 1"
definition proof_guard :: u32 where "proof_guard = push_bit 7 1"
definition proof_register_copy :: u32 where "proof_register_copy = push_bit 8 1"
definition proof_logical :: u32 where "proof_logical = push_bit 9 1"
definition proof_call_edge :: u32 where "proof_call_edge = push_bit 10 1"
definition proof_dynamic_edge :: u32 where "proof_dynamic_edge = push_bit 11 1"

section \<open>Operands\<close>

type_synonym ('s, 'a) evaluation = "'s \<Rightarrow> ('a \<times> 's) option"

record M68kFiniteTransfer =
  ft_writes :: bool
  ft_values :: M68kFiniteValues
  ft_proof :: u32
  ft_read_failed :: bool
  ft_table_reads :: nat
  ft_misaligned :: nat

definition transfer_init :: M68kFiniteTransfer where
  "transfer_init = \<lparr>ft_writes = False, ft_values = fv_unknown, ft_proof = 0, ft_read_failed = False,
     ft_table_reads = 0, ft_misaligned = 0\<rparr>"

record finite_source =
  fs_values :: M68kFiniteValues
  fs_proof :: u32
  fs_same_register :: bool

definition source_init :: finite_source where
  "source_init = \<lparr>fs_values = fv_unknown, fs_proof = 0, fs_same_register = False\<rparr>"

definition m68k_pc_index_address :: "M68kEffectiveAddress \<Rightarrow> u32 \<Rightarrow> u32" where
  "m68k_pc_index_address ea index =
     (let offset = (if ea_index_is_long ea then index else sign_extend index 16)
      in (ea_pc_base_address ea + scast (ea_displacement ea) + offset) AND 0x00FFFFFF)"

text \<open>The entries of a table, one read for each value of the index; a read that fails ends the loop.\<close>

fun read_table ::
  "(u32 \<Rightarrow> nat \<Rightarrow> 's \<Rightarrow> u32 option \<times> 's) \<Rightarrow> M68kEffectiveAddress \<Rightarrow> nat \<Rightarrow> u32 \<Rightarrow> u32 list \<Rightarrow> u32 list \<Rightarrow>
   M68kFiniteTransfer \<Rightarrow> 's \<Rightarrow> (u32 list \<times> M68kFiniteTransfer) \<times> 's" where
  "read_table immutable_read ea access_bits m [] out t s = ((out, t), s)"
| "read_table immutable_read ea access_bits m (value # values) out t s =
     (let address = m68k_pc_index_address ea value in
      if access_bits > 8 \<and> address AND 1 \<noteq> 0
      then read_table immutable_read ea access_bits m values out (t\<lparr>ft_misaligned := ft_misaligned t + 1\<rparr>) s
      else case immutable_read address (access_bits div 8) s of
             (read, s) \<Rightarrow>
               let t = t\<lparr>ft_table_reads := ft_table_reads t + 1\<rparr> in
               case read of
                 None \<Rightarrow> ((out, t\<lparr>ft_read_failed := True\<rparr>), s)
               | Some v \<Rightarrow> read_table immutable_read ea access_bits m values (out @ [v AND m]) t s)"

text \<open>A byte of memory that may change.\<close>

definition memory_source :: "M68kEffectiveAddress \<Rightarrow> nat \<Rightarrow> nat \<Rightarrow> finite_source" where
  "memory_source ea width access_bits =
     (if ea_mode ea \<in> {Ea_address_indirect, Ea_address_postinc, Ea_address_predec, Ea_address_disp16, Ea_address_index8,
           Ea_absolute_word, Ea_absolute_long, Ea_pc_disp16} \<and> access_bits = 8
      then \<lparr>fs_values = (fv_of (map of_nat [0..<256]) width)\<lparr>fv_width_derived := True\<rparr>,
            fs_proof = proof_byte_load, fs_same_register = False\<rparr>
      else source_init)"

definition read_source ::
  "(nat \<Rightarrow> nat \<Rightarrow> ('s, M68kFiniteValues) evaluation) \<Rightarrow> (u32 \<Rightarrow> nat \<Rightarrow> 's \<Rightarrow> u32 option \<times> 's) \<Rightarrow>
   M68kEffectiveAddress \<Rightarrow> nat \<Rightarrow> nat \<Rightarrow> nat \<Rightarrow> M68kFiniteTransfer \<Rightarrow> nat \<Rightarrow> ('s, finite_source \<times> M68kFiniteTransfer) evaluation" where
  "read_source data_register_before immutable_read ea reg bits width t access_bits s =
    (let m = low_mask bits in
     if ea_mode ea = Ea_immediate then
       Some ((\<lparr>fs_values = fv_of [ea_immediate_value ea AND m] width, fs_proof = proof_constant, fs_same_register = False\<rparr>, t), s)
     else if ea_mode ea = Ea_data_register then
       (if unat (ea_reg ea) = reg then Some ((source_init\<lparr>fs_same_register := True\<rparr>, t), s)
        else do {
          (values, s) \<leftarrow> data_register_before (unat (ea_reg ea)) width s;
          Some ((\<lparr>fs_values = map_values values width (\<lambda>v. v AND m), fs_proof = proof_register_copy,
                  fs_same_register = False\<rparr>, t), s) })
     else if ea_mode ea = Ea_pc_index8 then
       (if ea_index_is_address ea then Some ((source_init, t), s)
        else do {
          (index, s) \<leftarrow> data_register_before (unat (ea_index_reg ea)) (if ea_index_is_long ea then 32 else 16) s;
          if \<not> fv_known index then Some ((source_init, t), s)
          else case read_table immutable_read ea access_bits m (fv_values index) [] t s of
                 ((values, t), s) \<Rightarrow>
                   if ft_read_failed t then Some ((source_init, t), s)
                   else let out = fv_of values width in
                     Some ((\<lparr>fs_values = out\<lparr>fv_width_derived := fv_known out \<and> fv_width_derived index\<rparr>,
                             fs_proof = proof_immutable_load, fs_same_register = False\<rparr>, t), s) })
     else if ea_mode ea \<in> {Ea_pc_disp16, Ea_absolute_word, Ea_absolute_long} then
       (let address = ea_absolute_address ea AND 0x00FFFFFF in
        if access_bits > 8 \<and> address AND 1 \<noteq> 0 then Some ((source_init, t), s)
        else case immutable_read address (access_bits div 8) s of
               (Some v, s) \<Rightarrow>
                 Some ((\<lparr>fs_values = fv_of [v AND m] width, fs_proof = proof_immutable_load, fs_same_register = False\<rparr>,
                        t\<lparr>ft_table_reads := ft_table_reads t + 1\<rparr>), s)
             | (None, s) \<Rightarrow> Some ((memory_source ea width access_bits, t), s))
     else Some ((memory_source ea width access_bits, t), s))"

section \<open>The transfer\<close>

definition merge_low :: "nat \<Rightarrow> nat \<Rightarrow> u32 \<Rightarrow> u32 \<Rightarrow> u32" where
  "merge_low bits width old low = (((old AND NOT (low_mask bits)) OR (low AND low_mask bits)) AND low_mask width)"

text \<open>The register before an operation that defines only its low bits; irrelevant when it defines all.\<close>

definition old_values ::
  "(nat \<Rightarrow> nat \<Rightarrow> ('s, M68kFiniteValues) evaluation) \<Rightarrow> nat \<Rightarrow> nat \<Rightarrow> nat \<Rightarrow> ('s, M68kFiniteValues) evaluation" where
  "old_values data_register_before bits reg width s =
     (if bits \<ge> width then Some (fv_of [0] width, s) else data_register_before reg width s)"

definition transfer_extend ::
  "(nat \<Rightarrow> nat \<Rightarrow> ('s, M68kFiniteValues) evaluation) \<Rightarrow> M68kIrOperation \<Rightarrow> nat \<Rightarrow> nat \<Rightarrow> ('s, M68kFiniteTransfer) evaluation" where
  "transfer_extend data_register_before op reg width s =
     (if \<not> is_data_register (ir_destination_ea op) reg then Some (transfer_init, s)
      else do {
        (old, s) \<leftarrow> data_register_before reg width s;
        let wmask = low_mask width;
        Some (transfer_init\<lparr>ft_writes := True,
          ft_values := (if ir_kind op = Ir_sign_extend_word
            then map_values old width (\<lambda>a. ((a AND NOT 0xFFFF) OR (sign_extend a 8 AND 0xFFFF)) AND wmask)
            else map_values old width (\<lambda>a. sign_extend a 16 AND wmask)),
          ft_proof := proof_sign_extend\<rparr>, s) })"

definition transfer_move ::
  "(nat \<Rightarrow> nat \<Rightarrow> ('s, M68kFiniteValues) evaluation) \<Rightarrow> (u32 \<Rightarrow> nat \<Rightarrow> 's \<Rightarrow> u32 option \<times> 's) \<Rightarrow>
   M68kIrOperation \<Rightarrow> nat \<Rightarrow> nat \<Rightarrow> nat \<Rightarrow> M68kFiniteTransfer \<Rightarrow> ('s, M68kFiniteTransfer) evaluation" where
  "transfer_move data_register_before immutable_read op reg width bits t s =
     do {
       ((source, t), s) \<leftarrow> read_source data_register_before immutable_read (ir_source_ea op) reg bits width t
          (width_bits (ir_size op)) s;
       if ft_read_failed t then Some (t, s)
       else if fs_same_register source then do {
         (values, s) \<leftarrow> data_register_before reg width s;
         Some (t\<lparr>ft_values := values\<rparr>, s) }
       else do {
         (old, s) \<leftarrow> old_values data_register_before bits reg width s;
         Some (t\<lparr>ft_values := combine_values old (fs_values source) width (merge_low bits width),
                 ft_proof := fs_proof source\<rparr>, s) } }"

definition arithmetic_op :: "M68kIrKind \<Rightarrow> u32 \<Rightarrow> u32 \<Rightarrow> u32" where
  "arithmetic_op kind a b =
     (if kind \<in> {Ir_logical_and, Ir_logical_and_immediate} then a AND b
      else if kind \<in> {Ir_logical_or, Ir_logical_or_immediate} then a OR b
      else if kind \<in> {Ir_exclusive_or, Ir_exclusive_or_immediate} then a XOR b
      else if kind \<in> {Ir_add, Ir_add_immediate, Ir_add_quick} then a + b
      else a - b)"

definition arithmetic_proof :: "M68kIrKind \<Rightarrow> u32" where
  "arithmetic_proof kind =
     (if kind \<in> {Ir_logical_and, Ir_logical_and_immediate} then proof_mask
      else if kind \<in> {Ir_logical_or, Ir_logical_or_immediate, Ir_exclusive_or, Ir_exclusive_or_immediate} then proof_logical
      else proof_add_sub)"

text \<open>The loop over the submasks of a constant, from the constant down to zero.\<close>

function submasks :: "u32 \<Rightarrow> u32 \<Rightarrow> u32 list" where
  "submasks limit_mask sub = sub # (if sub = 0 then [] else submasks limit_mask ((sub - 1) AND limit_mask))"
  by pat_completeness auto
termination
proof (relation "measure (\<lambda>(_, sub). unat sub)")
  fix limit_mask sub :: u32
  assume "sub \<noteq> 0"
  then have "unat (sub - 1) < unat sub" by (simp add: unat_minus_one unat_gt_0)
  moreover have "unat ((sub - 1) AND limit_mask) \<le> unat (sub - 1)"
    by (simp add: word_and_le2 flip: word_le_nat_alt)
  ultimately show "((limit_mask, (sub - 1) AND limit_mask), (limit_mask, sub)) \<in> measure (\<lambda>(_, sub). unat sub)"
    by simp
qed simp

definition popcount :: "u32 \<Rightarrow> nat" where
  "popcount w = length (filter (bit w) [0..<32])"

text \<open>
  The values after an arithmetic operation. The first branch is the known mask: an unknown register that
  is masked with a constant over the whole tracked width takes exactly the submasks of the constant.
\<close>

definition is_and_kind :: "M68kIrKind \<Rightarrow> bool" where
  "is_and_kind kind \<longleftrightarrow> kind = Ir_logical_and \<or> kind = Ir_logical_and_immediate"

definition arithmetic_step :: "M68kIrKind \<Rightarrow> nat \<Rightarrow> nat \<Rightarrow> u32 \<Rightarrow> u32 \<Rightarrow> u32" where
  "arithmetic_step kind bits width a b = merge_low bits width a (arithmetic_op kind a b)"

definition is_known_mask :: "M68kIrKind \<Rightarrow> nat \<Rightarrow> nat \<Rightarrow> M68kFiniteValues \<Rightarrow> M68kFiniteValues \<Rightarrow> bool" where
  "is_known_mask kind bits width old source \<longleftrightarrow>
     is_and_kind kind \<and> \<not> fv_known old \<and> bits \<ge> width \<and> fv_known source \<and> length (fv_values source) = 1"

definition masked_values :: "M68kFiniteValues \<Rightarrow> M68kFiniteValues \<Rightarrow> M68kFiniteValues \<Rightarrow> M68kFiniteValues" where
  "masked_values old source after =
     (let cut = narrow old after
      in if fv_known cut \<and> fv_width_derived source then cut\<lparr>fv_width_derived := True\<rparr> else cut)"

definition arithmetic_outcome ::
  "M68kIrKind \<Rightarrow> nat \<Rightarrow> nat \<Rightarrow> finite_source \<Rightarrow> M68kFiniteValues \<Rightarrow> M68kFiniteTransfer \<Rightarrow> M68kFiniteTransfer" where
  "arithmetic_outcome kind bits width source old t =
     (let f = arithmetic_step kind bits width; proof_bit = arithmetic_proof kind in
      if is_known_mask kind bits width old (fs_values source)
      then (let limit_mask = hd (fv_values (fs_values source)) AND low_mask width in
            if 2 ^ popcount limit_mask > m68k_finite_values_limit then t
            else t\<lparr>ft_values := fv_of (submasks limit_mask limit_mask) width, ft_proof := ft_proof t OR proof_bit\<rparr>)
      else if fs_same_register source
      then t\<lparr>ft_values := map_values old width (\<lambda>a. f a a), ft_proof := ft_proof t OR proof_bit\<rparr>
      else (let combined = combine_values old (fs_values source) width f
            in t\<lparr>ft_values := (if is_and_kind kind then masked_values old (fs_values source) combined else combined),
                 ft_proof := (fs_proof source AND NOT proof_constant) OR proof_bit\<rparr>))"

definition transfer_arithmetic ::
  "(nat \<Rightarrow> nat \<Rightarrow> ('s, M68kFiniteValues) evaluation) \<Rightarrow> (u32 \<Rightarrow> nat \<Rightarrow> 's \<Rightarrow> u32 option \<times> 's) \<Rightarrow>
   M68kIrOperation \<Rightarrow> nat \<Rightarrow> nat \<Rightarrow> nat \<Rightarrow> M68kFiniteTransfer \<Rightarrow> ('s, M68kFiniteTransfer) evaluation" where
  "transfer_arithmetic data_register_before immutable_read op reg width bits t s =
     do {
       ((source, t), s) \<leftarrow> read_source data_register_before immutable_read (ir_source_ea op) reg bits width t
          (width_bits (ir_size op)) s;
       if ft_read_failed t then Some (t, s)
       else do {
         (old, s) \<leftarrow> data_register_before reg width s;
         Some (arithmetic_outcome (ir_kind op) bits width source old t, s) } }"

definition shift_value :: "M68kShiftRotateKind \<Rightarrow> nat \<Rightarrow> nat \<Rightarrow> nat \<Rightarrow> u32 \<Rightarrow> u32" where
  "shift_value kind op_bits count width a =
     (let opmask = low_mask op_bits; wmask = low_mask width;
          result = (if kind = Sr_lsl \<or> kind = Sr_asl then if count \<ge> 32 then 0 else push_bit count a
            else if kind = Sr_lsr then if count \<ge> 32 then 0 else drop_bit count (a AND opmask)
            else signed_drop_bit (if count \<ge> 31 then 31 else count) (sign_extend (a AND opmask) op_bits))
      in if op_bits \<ge> width then result AND wmask else ((a AND NOT opmask) OR (result AND opmask)) AND wmask)"

definition transfer_shift ::
  "(nat \<Rightarrow> nat \<Rightarrow> ('s, M68kFiniteValues) evaluation) \<Rightarrow> M68kIrOperation \<Rightarrow> nat \<Rightarrow> nat \<Rightarrow> M68kFiniteTransfer \<Rightarrow>
   ('s, M68kFiniteTransfer) evaluation" where
  "transfer_shift data_register_before op reg width t s =
     (let kind = ir_shift_rotate_kind op;
          op_bits = width_bits (ir_size op);
          count = unat (ea_immediate_value (ir_source_ea op));
          left = (kind = Sr_lsl \<or> kind = Sr_asl);
          right = (kind = Sr_lsr \<or> kind = Sr_asr)
      in if ea_mode (ir_source_ea op) \<noteq> Ea_immediate then Some (t, s)
         else if \<not> left \<and> \<not> (right \<and> op_bits \<le> width) then Some (t, s)
         else do {
           (old, s) \<leftarrow> data_register_before reg width s;
           let values = map_values old width (shift_value kind op_bits count width);
           Some (t\<lparr>ft_values := (if right then narrow old values else values), ft_proof := proof_shift\<rparr>, s) })"

definition control_or_nop :: "M68kIrKind list" where
  "control_or_nop = [Ir_jump_general, Ir_call_general, Ir_bsr_call, Ir_general_branch, Ir_branch_ne_short,
     Ir_branch_always_short, Ir_no_operation]"

definition arithmetic_kinds :: "M68kIrKind list" where
  "arithmetic_kinds = [Ir_logical_and, Ir_logical_and_immediate, Ir_logical_or, Ir_logical_or_immediate, Ir_exclusive_or,
     Ir_exclusive_or_immediate, Ir_add, Ir_add_immediate, Ir_add_quick, Ir_subtract, Ir_subtract_immediate,
     Ir_subtract_quick]"

definition m68k_finite_register_after ::
  "(nat \<Rightarrow> nat \<Rightarrow> ('s, M68kFiniteValues) evaluation) \<Rightarrow> (u32 \<Rightarrow> nat \<Rightarrow> 's \<Rightarrow> u32 option \<times> 's) \<Rightarrow>
   M68kIrOperation \<Rightarrow> nat \<Rightarrow> nat \<Rightarrow> ('s, M68kFiniteTransfer) evaluation" where
  "m68k_finite_register_after data_register_before immutable_read op reg width s =
    (let t = transfer_init\<lparr>ft_writes := True\<rparr>;
         effect = m68k_operation_effect op;
         bits = min (width_bits (ir_size op)) width
     in
     if ir_kind op = Ir_write_moveq then
       (if unat (ir_destination op) \<noteq> reg then Some (transfer_init, s)
        else Some (t\<lparr>ft_values := fv_of [sign_extend (ucast (ir_operand op)) 8] width, ft_proof := proof_constant\<rparr>, s))
     else if ir_kind op \<in> set control_or_nop then Some (transfer_init, s)
     else if ir_kind op = Ir_sign_extend_word \<or> ir_kind op = Ir_sign_extend_long then
       transfer_extend data_register_before op reg width s
     else if fx_complete effect \<and> drop_bit reg (fx_data_mask effect) AND 1 = 0 then Some (transfer_init, s)
     else if \<not> fx_complete effect then Some (t, s)
     else if ir_kind op = Ir_write_clr then
       (if \<not> is_data_register (ir_destination_ea op) reg then Some (t, s)
        else do {
          (old, s) \<leftarrow> old_values data_register_before bits reg width s;
          Some (t\<lparr>ft_values := map_values old width (\<lambda>old. merge_low bits width old 0), ft_proof := proof_constant\<rparr>, s) })
     else if ir_kind op = Ir_write_move then
       (if \<not> is_data_register (ir_destination_ea op) reg then Some (t, s)
        else transfer_move data_register_before immutable_read op reg width bits t s)
     else if ir_kind op \<in> set arithmetic_kinds then
       (if \<not> is_data_register (ir_destination_ea op) reg then Some (t, s)
        else transfer_arithmetic data_register_before immutable_read op reg width bits t s)
     else if ir_kind op = Ir_shift_rotate_register then
       (if \<not> is_data_register (ir_destination_ea op) reg then Some (t, s)
        else transfer_shift data_register_before op reg width t s)
     else Some (t, s))"

section \<open>Branches\<close>

definition filter_flags :: "M68kIrOperation \<Rightarrow> bool \<Rightarrow> nat \<Rightarrow> u32 \<Rightarrow> u16" where
  "filter_flags flag_setter test bits value =
     (if test then
        (let v = value AND low_mask bits
         in flag (v = 0) 0x4 OR flag (drop_bit (bits - 1) v AND 1 \<noteq> 0) 0x8)
      else (let r = m68k_evaluate_subtraction (ea_immediate_value (ir_source_ea flag_setter)) value (ir_size flag_setter)
            in flag (sub_negative r) 0x8 OR flag (sub_zero r) 0x4 OR flag (sub_overflow r) 0x2 OR flag (sub_carry r) 0x1))"

definition m68k_finite_branch_filter ::
  "M68kIrOperation \<Rightarrow> M68kIrOperation \<Rightarrow> bool \<Rightarrow> nat \<Rightarrow> nat \<Rightarrow> M68kFiniteValues \<Rightarrow> M68kFiniteValues option" where
  "m68k_finite_branch_filter flag_setter branch taken reg width values =
     (let bits = width_bits (ir_size flag_setter);
          compare = ((ir_kind flag_setter = Ir_compare_immediate \<or> ir_kind flag_setter = Ir_compare) \<and>
            is_data_register (ir_destination_ea flag_setter) reg \<and> ea_mode (ir_source_ea flag_setter) = Ea_immediate);
          test = (ir_kind flag_setter = Ir_test_operand \<and> is_data_register (ir_source_ea flag_setter) reg)
      in if \<not> fv_known values \<or> ir_kind branch \<noteq> Ir_general_branch \<or> ir_condition branch = Cond_always \<or>
            ir_condition branch = Cond_never then None
         else if bits > width then None
         else if \<not> compare \<and> \<not> test then None
         else Some (narrow values (fv_of
           (filter (\<lambda>value. m68k_evaluate_condition (ir_condition branch) (filter_flags flag_setter (\<not> compare) bits value) = taken)
             (fv_values values)) width)))"

end
