(* ===== verification/M68k_Finite_Sound.thy ===== *)
theory M68k_Finite_Sound
  imports M68k_Finite M68k_Shift M68k_Arith
begin

text \<open>
  The transfer of \<^verbatim>\<open>finite_register_values.cpp\<close> is sound: against the effect of an operation on the
  data registers as the processor has it, for any inputs that keep the contract of
  \<^verbatim>\<open>M68kFiniteValueInputs\<close>, the locale \<open>finite_inputs\<close>.
\<close>

section \<open>Values modulo a width\<close>

text \<open>A set of values covers a register: unknown, or it holds the low bits of the register.\<close>

definition covers :: "nat \<Rightarrow> M68kFiniteValues \<Rightarrow> u32 \<Rightarrow> bool" where
  "covers w vs x \<longleftrightarrow> (fv_known vs \<longrightarrow> take_bit w x \<in> set (fv_values vs))"

lemma low_mask: "w \<le> 32 \<Longrightarrow> low_mask w = mask w"
  by (auto simp: low_mask_def mask_eq_exp_minus_1 push_bit_eq_mult)

lemma and_low_mask: "w \<le> 32 \<Longrightarrow> x AND low_mask w = take_bit w x"
  by (simp add: low_mask take_bit_eq_mask)

lemma covers_unknown [simp]: "covers w fv_unknown x"
  by (simp add: covers_def fv_unknown_def)

lemma covers_width_derived [simp]: "covers w (vs\<lparr>fv_width_derived := b\<rparr>) x = covers w vs x"
  by (simp add: covers_def)

lemma covers_narrow [simp]: "covers w (narrow before after) x = covers w after x"
  by (simp add: narrow_def covers_def)

lemma covers_of:
  assumes "w \<le> 32" "v \<in> set vs" "take_bit w v = take_bit w x"
  shows "covers w (fv_of vs w) x"
proof -
  have "take_bit w x \<in> (\<lambda>v. take_bit w v) ` set vs" using assms(2,3) by (intro image_eqI [of _ _ v]) simp_all
  then show ?thesis using assms(1) by (simp add: covers_def fv_of_def Let_def and_low_mask fv_unknown_def)
qed

lemma covers_map:
  assumes "w \<le> 32" "covers w vs x" "take_bit w (f (take_bit w x)) = take_bit w y"
  shows "covers w (map_values vs w f) y"
proof (cases "fv_known vs")
  case True
  then have "f (take_bit w x) \<in> set (map f (fv_values vs))" using assms(2) by (simp add: covers_def)
  then show ?thesis using covers_of [OF assms(1) _ assms(3)] True by (simp add: map_values_def Let_def)
qed (simp add: map_values_def)

lemma covers_combine:
  assumes "w \<le> 32" "fv_known left \<Longrightarrow> a \<in> set (fv_values left)" "fv_known right \<Longrightarrow> b \<in> set (fv_values right)"
    "take_bit w (f a b) = take_bit w y"
  shows "covers w (combine_values left right w f) y"
proof (cases "fv_known left \<and> fv_known right")
  case True
  then have "f a b \<in> set (concat (map (\<lambda>a. map (f a) (fv_values right)) (fv_values left)))"
    using assms(2,3) by auto
  then show ?thesis using covers_of [OF assms(1) _ assms(4)] True
    by (simp add: combine_values_def Let_def)
qed (auto simp: combine_values_def)

lemma covers_union:
  assumes "w \<le> 32" "covers w left x \<and> covers w right x \<or> fv_known left \<and> take_bit w x \<in> set (fv_values left) \<or>
      fv_known right \<and> take_bit w x \<in> set (fv_values right)"
  shows "covers w (m68k_finite_union left right w) x"
proof (cases "fv_known left \<and> fv_known right")
  case True
  then have "take_bit w x \<in> set (fv_values left @ fv_values right)" using assms(2) by (auto simp: covers_def)
  then show ?thesis using covers_of [OF assms(1), of "take_bit w x"] True by (simp add: m68k_finite_union_def Let_def)
qed (auto simp: m68k_finite_union_def)

text \<open>A register whose low \<open>b\<close> bits an operation replaces.\<close>

definition insert_low :: "nat \<Rightarrow> u32 \<Rightarrow> u32 \<Rightarrow> u32" where
  "insert_low b x low = ((x AND NOT (mask b)) OR take_bit b low)"

lemma merge_insert:
  fixes x :: u32
  assumes "w \<le> 32" "b \<le> 32" "b < w \<Longrightarrow> take_bit w a = take_bit w x"
    "take_bit (min b w) low = take_bit (min b w) low'"
  shows "merge_low (min b w) w a low = take_bit w (insert_low b x low')"
proof (rule bit_word_eqI)
  fix i :: nat assume i: "i < LENGTH(32)"
  have m: "low_mask (min b w) = mask (min b w)" using assms(1) by (simp add: low_mask)
  have l: "i < min b w \<Longrightarrow> bit low i = bit low' i" using assms(4) bit_take_bit_iff by metis
  have a: "b < w \<Longrightarrow> i < w \<Longrightarrow> bit a i = bit x i" using assms(3) bit_take_bit_iff by metis
  show "bit (merge_low (min b w) w a low) i = bit (take_bit w (insert_low b x low')) i"
    unfolding merge_low_def insert_low_def m low_mask [OF assms(1)] take_bit_eq_mask [symmetric]
    using i l a by (auto simp: bit_take_bit_iff bit_or_iff bit_and_iff bit_not_iff bit_mask_iff possible_bit_word)
qed

lemma bit_sign_extend:
  assumes "0 < n" "n \<le> 32" "i < 32"
  shows "bit (sign_extend v n) i = bit v (min i (n - 1))"
proof (cases "n = 32")
  case True
  then show ?thesis using assms by (simp add: sign_extend_def)
next
  case False
  let ?s = "push_bit (n - 1) 1 :: u32" and ?low = "take_bit (n - 1) v"
  have e: "sign_extend v n = (take_bit n v XOR ?s) - ?s"
    using assms False by (simp add: sign_extend_def Let_def take_bit_eq_mask mask_eq_exp_minus_1 push_bit_eq_mult)
  have s: "- ?s = NOT (mask (n - 1))" by (simp add: push_bit_eq_mult minus_exp_eq_not_mask)
  show ?thesis
  proof (cases "bit v (n - 1)")
    case True
    have "take_bit n v XOR ?s = ?low"
      using assms True by (intro bit_word_eqI)
        (auto simp: bit_xor_iff bit_take_bit_iff bit_exp_iff possible_bit_word)
    then have "sign_extend v n = ?low + NOT (mask (n - 1))" using e s by (metis add_uminus_conv_diff)
    also have "\<dots> = ?low OR NOT (mask (n - 1))"
      by (rule disjunctive_add_eq_or) (auto intro!: bit_word_eqI simp: bit_and_iff bit_not_iff bit_mask_iff bit_take_bit_iff)
    finally show ?thesis using assms True
      by (auto simp: bit_or_iff bit_not_iff bit_mask_iff bit_take_bit_iff possible_bit_word min_def)
  next
    case False
    have "take_bit n v XOR ?s = take_bit n v OR ?s"
      using assms False by (intro bit_word_eqI)
        (auto simp: bit_xor_iff bit_or_iff bit_take_bit_iff bit_exp_iff possible_bit_word)
    also have "\<dots> = take_bit n v + ?s"
      using False by (intro disjunctive_add_eq_or [symmetric] bit_word_eqI)
        (auto simp: bit_and_iff bit_take_bit_iff bit_exp_iff)
    finally have "sign_extend v n = take_bit n v" using e by simp
    then show ?thesis using False assms by (cases "i < n - 1") (auto simp: bit_take_bit_iff min_def)
  qed
qed

lemma sign_extend_8: "sign_extend v 8 = scast (ucast v :: u8)"
  and sign_extend_16: "sign_extend v 16 = scast (ucast v :: u16)"
  by (rule bit_word_eqI; simp add: bit_sign_extend bit_signed_iff bit_unsigned_iff min_def)+

section \<open>The data registers after an operation\<close>

text \<open>
  The reference: what the processor leaves in a data register when an operation completes without an
  exception. A value of memory reached through an address register is any value of the operand's size;
  the bytes behind a fixed address are those of the memory.
\<close>

definition mem_read :: "(u32 \<Rightarrow> u8) \<Rightarrow> u32 \<Rightarrow> nat \<Rightarrow> u32" where
  "mem_read mem address n = foldl (\<lambda>v i. push_bit 8 v OR ucast (mem ((address + of_nat i) AND 0x00FFFFFF))) 0 [0..<n]"

definition aligned :: "u32 \<Rightarrow> nat \<Rightarrow> bool" where
  "aligned address b \<longleftrightarrow> (b > 8 \<longrightarrow> even address)"

definition pc_index_target :: "M68kEffectiveAddress \<Rightarrow> u32 \<Rightarrow> u32" where
  "pc_index_target ea x =
     take_bit 24 (ea_pc_base_address ea + scast (ea_displacement ea) + (if ea_index_is_long ea then x else scast (ucast x :: u16)))"

definition operand_value :: "(u32 \<Rightarrow> u8) \<Rightarrow> (nat \<Rightarrow> u32) \<Rightarrow> M68kEffectiveAddress \<Rightarrow> nat \<Rightarrow> u32 \<Rightarrow> bool" where
  "operand_value mem d ea b v \<longleftrightarrow>
     (case ea_mode ea of
        Ea_immediate \<Rightarrow> v = take_bit b (ea_immediate_value ea)
      | Ea_data_register \<Rightarrow> unat (ea_reg ea) < 8 \<and> v = take_bit b (d (unat (ea_reg ea)))
      | Ea_pc_index8 \<Rightarrow>
          (if ea_index_is_address ea then v = take_bit b v
           else let address = pc_index_target ea (d (unat (ea_index_reg ea)))
                in unat (ea_index_reg ea) < 8 \<and> aligned address b \<and> v = mem_read mem address (b div 8))
      | Ea_pc_disp16 \<Rightarrow> aligned (ea_absolute_address ea) b \<and> v = mem_read mem (take_bit 24 (ea_absolute_address ea)) (b div 8)
      | Ea_absolute_word \<Rightarrow> aligned (ea_absolute_address ea) b \<and> v = mem_read mem (take_bit 24 (ea_absolute_address ea)) (b div 8)
      | Ea_absolute_long \<Rightarrow> aligned (ea_absolute_address ea) b \<and> v = mem_read mem (take_bit 24 (ea_absolute_address ea)) (b div 8)
      | _ \<Rightarrow> v = take_bit b v)"

definition writes_destination_only :: "M68kIrKind list" where
  "writes_destination_only =
     [Ir_bit_change, Ir_bit_clear, Ir_bit_set, Ir_logical_not, Ir_negate_word, Ir_negate_extended, Ir_add_extended,
      Ir_subtract_extended, Ir_add_decimal, Ir_subtract_decimal, Ir_negate_decimal, Ir_movep_transfer,
      Ir_set_conditional, Ir_test_and_set, Ir_read_status_register, Ir_write_swap, Ir_multiply_signed_word,
      Ir_multiply_unsigned_word, Ir_divide_signed_word, Ir_divide_unsigned_word, Ir_dbcc_loop]"

definition writes_no_data_register :: "M68kIrKind list" where
  "writes_no_data_register =
     [Ir_jump_general, Ir_call_general, Ir_bsr_call, Ir_general_branch, Ir_branch_ne_short, Ir_branch_always_short,
      Ir_no_operation, Ir_test_operand, Ir_compare, Ir_compare_immediate, Ir_compare_address, Ir_compare_memory,
      Ir_bit_test, Ir_check_bounds, Ir_add_address, Ir_subtract_address, Ir_write_movea, Ir_load_effective_address,
      Ir_push_effective_address, Ir_link_frame, Ir_unlink_frame, Ir_return_from_subroutine, Ir_return_from_exception,
      Ir_return_restore_condition_codes, Ir_shift_rotate_memory, Ir_write_user_stack_pointer,
      Ir_read_user_stack_pointer, Ir_logical_immediate_to_ccr, Ir_logical_immediate_to_sr, Ir_write_status_register,
      Ir_write_condition_codes, Ir_stop_until_interrupt, Ir_trap_exception, Ir_trap_on_overflow,
      Ir_instruction_exception]"

definition alu_result :: "M68kIrOperation \<Rightarrow> u32 \<Rightarrow> u32 \<Rightarrow> u32" where
  "alu_result op x v =
     (let w = ir_size op in
      if ir_kind op \<in> {Ir_add, Ir_add_immediate, Ir_add_quick} then add_result (m68k_evaluate_addition v x w)
      else if ir_kind op \<in> {Ir_subtract, Ir_subtract_immediate, Ir_subtract_quick} then sub_result (m68k_evaluate_subtraction v x w)
      else log_result (m68k_evaluate_logical
        (if ir_kind op \<in> {Ir_logical_and, Ir_logical_and_immediate} then x AND v
         else if ir_kind op \<in> {Ir_logical_or, Ir_logical_or_immediate} then x OR v else x XOR v) w))"

definition shift_count :: "(nat \<Rightarrow> u32) \<Rightarrow> M68kEffectiveAddress \<Rightarrow> u32" where
  "shift_count d ea =
     (if ea_mode ea = Ea_immediate then ea_immediate_value ea else d (unat (ea_reg ea)) AND 0x3F)"

definition data_after :: "M68kIrOperation \<Rightarrow> u16 \<Rightarrow> (u32 \<Rightarrow> u8) \<Rightarrow> (nat \<Rightarrow> u32) \<Rightarrow> nat \<Rightarrow> u32 \<Rightarrow> bool" where
  "data_after op sr mem d r v' \<longleftrightarrow>
     (let b = width_bits (ir_size op); dest = ir_destination_ea op; to = is_data_register dest r; kind = ir_kind op in
      if kind = Ir_write_moveq then v' = (if unat (ir_destination op) = r then scast (ir_operand op) else d r)
      else if kind = Ir_subtract_quick_long_d0 then r \<noteq> 0 \<longrightarrow> v' = d r
      else if kind = Ir_movem_transfer then True
      else if kind = Ir_exchange_registers then
        \<not> to \<longrightarrow> \<not> is_data_register (ir_source_ea op) r \<longrightarrow> v' = d r
      else if kind \<in> set writes_no_data_register then v' = d r
      else if \<not> to then v' = d r
      else if kind = Ir_sign_extend_word then v' = insert_low 16 (d r) (scast (ucast (d r) :: u8))
      else if kind = Ir_sign_extend_long then v' = scast (ucast (d r) :: u16)
      else if kind = Ir_write_clr then v' = insert_low b (d r) 0
      else if kind = Ir_write_move then \<exists>v. operand_value mem d (ir_source_ea op) b v \<and> v' = insert_low b (d r) v
      else if kind \<in> set arithmetic_kinds then
        \<exists>v. operand_value mem d (ir_source_ea op) b v \<and> v' = insert_low b (d r) (alu_result op (d r) v)
      else if kind = Ir_shift_rotate_register then
        v' = insert_low b (d r) (sr_result (m68k_evaluate_shift_rotate (ir_shift_rotate_kind op) (d r)
          (shift_count d (ir_source_ea op)) (ir_size op) (ccr_X sr)))
      else kind \<in> set writes_destination_only)"

lemma take_bit_add_cong: "take_bit n a = take_bit n x \<Longrightarrow> take_bit n c = take_bit n v \<Longrightarrow> take_bit n (a + c) = take_bit n (x + v)"
  and take_bit_diff_cong: "take_bit n a = take_bit n x \<Longrightarrow> take_bit n c = take_bit n v \<Longrightarrow> take_bit n (a - c) = take_bit n (x - v)"
  for a c x v :: u32
  by (transfer; simp; metis take_bit_add take_bit_diff)+

lemma alu_result_low:
  assumes "ir_kind op \<in> set arithmetic_kinds" "n \<le> width_bits (ir_size op)" "take_bit n a = take_bit n x" "take_bit n c = take_bit n v"
  shows "take_bit n (arithmetic_op (ir_kind op) a c) = take_bit n (alu_result op x v)"
proof -
  have w: "width_bits (ir_size op) \<le> 32" by (rule width_values(4))
  have t: "take_bit n (take_bit (width_bits (ir_size op)) y) = take_bit n y" for y :: u32 using assms(2) by simp
  have m: "y AND mask (width_bits (ir_size op)) = take_bit (width_bits (ir_size op)) y" for y :: u32
    by (simp add: take_bit_eq_mask)
  have sub_mask: "(if width_bits (ir_size op) = 32 then 0xFFFFFFFF else push_bit (width_bits (ir_size op)) 1 - 1) =
      (mask (width_bits (ir_size op)) :: u32)"
    by (cases "ir_size op") (simp_all add: width_bits_def mask_eq_exp_minus_1)
  let ?b = "width_bits (ir_size op)"
  have cong: "take_bit n (take_bit ?b p + take_bit ?b q) = take_bit n (p + q)"
    "take_bit n (take_bit ?b p - take_bit ?b q) = take_bit n (p - q)" for p q :: u32
    by (rule take_bit_add_cong take_bit_diff_cong; simp only: t)+
  have add: "take_bit n (add_result (m68k_evaluate_addition v x (ir_size op))) = take_bit n (x + v)"
    by (simp only: m68k_evaluate_addition_def Let_def width_values(1) m M68kAdditionResult.simps t cong)
  have sub: "take_bit n (sub_result (m68k_evaluate_subtraction v x (ir_size op))) = take_bit n (x - v)"
    by (simp only: m68k_evaluate_subtraction_def Let_def sub_mask m M68kSubtractionResult.simps t cong)
  have log: "take_bit n (log_result (m68k_evaluate_logical y (ir_size op))) = take_bit n y" for y
    by (simp only: m68k_evaluate_logical_def Let_def width_values(1) m M68kLogicalResult.simps t)
  have "take_bit n (a AND c) = take_bit n (x AND v)" "take_bit n (a OR c) = take_bit n (x OR v)"
    "take_bit n (a XOR c) = take_bit n (x XOR v)"
    by (simp_all only: take_bit_and take_bit_or take_bit_xor assms(3,4))
  moreover have "take_bit n (a + c) = take_bit n (x + v)" by (rule take_bit_add_cong [OF assms(3,4)])
  moreover have "take_bit n (a - c) = take_bit n (x - v)" by (rule take_bit_diff_cong [OF assms(3,4)])
  ultimately show ?thesis
    using assms(1) unfolding arithmetic_op_def alu_result_def Let_def arithmetic_kinds_def
    by (auto simp: add sub log)
qed

section \<open>The footprint\<close>

lemmas footprint_step_defs = note_ea_auto_update_def note_register_write_def note_subtract_quick_def
  note_address_write_def note_stack_pointer_def fx_a7_def

lemma footprint_step_grows:
  "bit (fx_data_mask e) i \<Longrightarrow> bit (fx_data_mask (note_ea_auto_update ea e)) i"
  "bit (fx_data_mask e) i \<Longrightarrow> bit (fx_data_mask (note_register_write e)) i"
  "bit (fx_data_mask e) i \<Longrightarrow> bit (fx_data_mask (note_subtract_quick op e)) i"
  "bit (fx_data_mask e) i \<Longrightarrow> bit (fx_data_mask (note_address_write e)) i"
  "bit (fx_data_mask e) i \<Longrightarrow> bit (fx_data_mask (note_destination op e)) i"
  "bit (fx_data_mask (note_stack_pointer op e)) i = bit (fx_data_mask e) i"
  by (simp_all add: footprint_step_defs note_destination_def bit_or_iff split: option.split)

lemma footprint_grows: "bit (fx_data_mask e) i \<Longrightarrow> bit (fx_data_mask (effect_footprint op e)) i"
  unfolding effect_footprint_def Let_def
  by (simp add: footprint_step_grows)

lemma footprint_destination_step:
  assumes "ea_mode (ir_destination_ea op) = Ea_data_register" "unat (ea_reg (ir_destination_ea op)) < 8"
    "ir_kind op \<notin> {Ir_compare, Ir_compare_immediate, Ir_compare_address, Ir_compare_memory, Ir_test_operand,
      Ir_bit_test, Ir_check_bounds}"
  shows "bit (fx_data_mask (effect_footprint op e)) (unat (ea_reg (ir_destination_ea op)))"
proof -
  have "ea_reg (ir_destination_ea op) < 8" using assms(2) by (simp add: word_less_nat_alt)
  then have "bit (fx_data_mask (note_destination op e)) (unat (ea_reg (ir_destination_ea op)))" for e
    using assms unfolding note_destination_def by (simp add: bit_or_iff register_bit_def bit_exp_iff)
  then show ?thesis unfolding effect_footprint_def Let_def by (simp add: footprint_step_grows(6))
qed

lemma footprint_exchange:
  assumes "ir_kind op = Ir_exchange_registers" "ea_mode (ir_source_ea op) = Ea_data_register" "unat (ea_reg (ir_source_ea op)) < 8"
  shows "bit (fx_data_mask (m68k_operation_effect op)) (unat (ea_reg (ir_source_ea op)))"
proof -
  have "ea_reg (ir_source_ea op) < 8" using assms(3) by (simp add: word_less_nat_alt)
  then show ?thesis
    unfolding m68k_operation_effect_def using assms
    by (intro footprint_grows)
      (simp add: effect_flow_def effect_stack_bits_def effect_multiply_exception_def effect_decimal_exchange_def
        fx_next_def note_exchange_def bit_or_iff register_bit_def bit_exp_iff Let_def)
qed

lemma footprint_complete:
  "fx_complete (m68k_operation_effect op) \<longleftrightarrow> ir_kind op \<in> set footprint_complete_kinds"
  unfolding m68k_operation_effect_def effect_footprint_def Let_def note_stack_pointer_def fx_a7_def by simp

lemma footprint_moveq:
  "ir_kind op = Ir_write_moveq \<Longrightarrow> \<not> fx_complete (m68k_operation_effect op)"
  by (simp add: footprint_complete footprint_complete_kinds_def)

lemma footprint_sound:
  assumes "r < 8" "fx_complete (m68k_operation_effect op)" "\<not> bit (fx_data_mask (m68k_operation_effect op)) r"
    "data_after op sr mem d r v'"
  shows "v' = d r"
proof (cases "is_data_register (ir_destination_ea op) r \<and>
    ir_kind op \<notin> {Ir_compare, Ir_compare_immediate, Ir_compare_address, Ir_compare_memory, Ir_test_operand,
      Ir_bit_test, Ir_check_bounds}")
  case True
  then show ?thesis using footprint_destination_step [of op] assms(1,3) by (auto simp: is_data_register_def m68k_operation_effect_def)
next
  case False
  have c: "ir_kind op \<in> set footprint_complete_kinds" using assms(2) by (simp add: footprint_complete)
  have x: "ir_kind op = Ir_exchange_registers \<Longrightarrow> \<not> is_data_register (ir_source_ea op) r"
    using footprint_exchange [of op] assms(1,3) by (auto simp: is_data_register_def)
  show ?thesis
  proof (cases "ir_kind op \<in> set writes_no_data_register")
    case True
    then show ?thesis using assms(4) unfolding data_after_def Let_def writes_no_data_register_def by auto
  next
    case no: False
    then have to: "\<not> is_data_register (ir_destination_ea op) r" using False by (auto simp: writes_no_data_register_def)
    have "ir_kind op \<notin> {Ir_write_moveq, Ir_subtract_quick_long_d0, Ir_movem_transfer}"
      using c by (auto simp: footprint_complete_kinds_def)
    then show ?thesis using assms(4) x to no unfolding data_after_def Let_def by (auto split: if_splits)
  qed
qed

section \<open>Shifts\<close>

lemma shift_value_steps:
  assumes n: "0 < n" "n \<le> 32" and w: "w \<le> 32"
    and kinds: "kind = Sr_lsl \<or> kind = Sr_asl \<or> kind = Sr_lsr \<and> n \<le> w \<or> kind = Sr_asr \<and> n \<le> w"
  shows "take_bit w (shift_value kind n k w (take_bit w x)) = take_bit w (insert_low n x (ss_value (shift_steps kind n k x xf)))"
proof (rule bit_word_eqI)
  fix i :: nat assume "i < LENGTH(32)"
  then have i: "i < 32" by simp
  have ins: "bit (insert_low n x v) i = (if i < n then bit v i else bit x i)" for v
    using i by (auto simp: insert_low_def bit_or_iff bit_and_iff bit_not_iff bit_mask_iff bit_take_bit_iff possible_bit_word)
  have merge: "bit (if n \<ge> w then v AND low_mask w else ((take_bit w x AND NOT (low_mask n)) OR (v AND low_mask n)) AND low_mask w) i =
      (i < w \<and> (if i < n then bit v i else bit x i))" for v
    using i w n(2)
    by (auto simp: low_mask bit_or_iff bit_and_iff bit_not_iff bit_mask_iff bit_take_bit_iff possible_bit_word)
  have "bit (shift_value kind n k w (take_bit w x)) i =
      (i < w \<and> (if i < n then bit (ss_value (shift_steps kind n k x xf)) i else bit x i))" if "i < w"
    using kinds
  proof (elim disjE conjE)
    assume k: "kind = Sr_lsl"
    show ?thesis unfolding shift_value_def Let_def merge k using left_steps(1) [OF n, of Sr_lsl k x xf i] that i
      by (auto simp: bit_push_bit_iff bit_take_bit_iff possible_bit_word)
  next
    assume k: "kind = Sr_asl"
    show ?thesis unfolding shift_value_def Let_def merge k using left_steps(1) [OF n, of Sr_asl k x xf i] that i
      by (auto simp: bit_push_bit_iff bit_take_bit_iff possible_bit_word)
  next
    assume k: "kind = Sr_lsr" "n \<le> w"
    have v: "bit (if 32 \<le> k then 0 else drop_bit k (take_bit w x AND low_mask n)) i \<longleftrightarrow> i + k < n \<and> bit x (i + k)"
      using k(2) n unfolding low_mask [OF n(2)] take_bit_eq_mask [symmetric]
      by (auto simp: bit_drop_bit_eq bit_take_bit_iff add.commute)
    show ?thesis unfolding shift_value_def Let_def merge k(1) using v right_steps(1) [OF n, of k x xf i] that k(2) by simp
  next
    assume k: "kind = Sr_asr" "n \<le> w"
    have s: "bit (sign_extend (take_bit w x AND low_mask n) n) j = bit x (min j (n - 1))" if "j < 32" for j
      using bit_sign_extend [OF n that, of "take_bit w x AND low_mask n"] n k(2)
      unfolding low_mask [OF n(2)] take_bit_eq_mask [symmetric] by (auto simp: bit_take_bit_iff min_def)
    have v: "bit (signed_drop_bit (if 31 \<le> k then 31 else k) (sign_extend (take_bit w x AND low_mask n) n)) i = bit x (min (i + k) (n - 1))"
    proof -
      define m where "m = (if 31 \<le> k then 31 else k)"
      define j where "j = (if 32 - m \<le> i \<and> i < 32 then 31 else m + i)"
      have "j < 32" using i unfolding j_def m_def by auto
      moreover have "min j (n - 1) = min (i + k) (n - 1)" using i n unfolding j_def m_def by auto
      moreover have "bit (signed_drop_bit m z) i = bit z j" for z :: u32 unfolding bit_signed_drop_bit_iff j_def by simp
      ultimately show ?thesis using s [of j] unfolding m_def [symmetric] by simp
    qed
    show ?thesis unfolding shift_value_def Let_def merge k(1) using v asr_steps(1) [OF n, of k x xf i] that k(2) by simp
  qed
  then show "bit (take_bit w (shift_value kind n k w (take_bit w x))) i =
      bit (take_bit w (insert_low n x (ss_value (shift_steps kind n k x xf)))) i"
    unfolding bit_take_bit_iff ins by blast
qed

lemma shift_value_sound:
  assumes "w \<le> 32" "kind \<in> {Sr_lsl, Sr_asl} \<or> kind \<in> {Sr_lsr, Sr_asr} \<and> width_bits sz \<le> w"
  shows "take_bit w (shift_value kind (width_bits sz) (unat count) w (take_bit w x)) =
    take_bit w (insert_low (width_bits sz) x (sr_result (m68k_evaluate_shift_rotate kind x count sz xf)))"
proof -
  have "sr_result (m68k_evaluate_shift_rotate kind x count sz xf) = ss_value (shift_steps kind (width_bits sz) (unat count) x xf)"
    using evaluate_agrees [of kind sz count x xf] by (auto simp: agrees_def)
  then show ?thesis
    using shift_value_steps [OF width_values(3,4) [of sz] assms(1), of kind "unat count" x xf] assms(2) by auto
qed

text \<open>Counting down through the submasks of a mask skips none.\<close>

lemma submask_below:
  fixes y sub m :: nat
  assumes "y AND m = y" "sub AND m = sub" "y < sub"
  shows "y \<le> (sub - 1) AND m"
  using assms
proof (induction sub arbitrary: y m rule: less_induct)
  case (less sub)
  have half: "x div 2 AND m div 2 = x div 2" "odd x \<Longrightarrow> odd m" if "x AND m = x" for x
  proof -
    have x: "x = of_bool (odd x \<and> odd m) + 2 * (x div 2 AND m div 2)" using and_rec [of x m] that by simp
    have "x = of_bool (odd x) + 2 * (x div 2)" by simp
    with x show "odd x \<Longrightarrow> odd m" by (metis add_0 dvd_triv_left of_bool_eq(1))
    define q where "q = x div 2 AND m div 2"
    have "x = of_bool (odd x) + 2 * q" using x \<open>odd x \<Longrightarrow> odd m\<close> unfolding q_def by (cases "odd x") simp_all
    then have "q = x div 2" by (cases "odd x") auto
    then show "x div 2 AND m div 2 = x div 2" by (simp only: q_def)
  qed
  have r: "(sub - 1) AND m = of_bool (odd (sub - 1) \<and> odd m) + 2 * ((sub - 1) div 2 AND m div 2)" by (rule and_rec)
  show ?case
  proof (cases "odd sub")
    case True
    then have "(sub - 1) div 2 = sub div 2" by presburger
    then have "(sub - 1) AND m = 2 * (sub div 2)" using r half(1) [OF less.prems(2)] True by simp
    then show ?thesis using less.prems(3) True by presburger
  next
    case False
    have "y div 2 < sub div 2" using less.prems(3) False by presburger
    moreover have "sub div 2 < sub" using less.prems(3) by simp
    ultimately have "y div 2 \<le> (sub div 2 - 1) AND m div 2"
      using less.IH [of "sub div 2" "y div 2" "m div 2"] half(1) less.prems(1,2) by blast
    moreover have "(sub - 1) div 2 = sub div 2 - 1" "odd (sub - 1)" using False less.prems(3) by presburger+
    ultimately have "2 * (y div 2) + of_bool (odd m) \<le> (sub - 1) AND m" using r by simp
    moreover have "y \<le> 2 * (y div 2) + of_bool (odd m)" using half(2) [OF less.prems(1)] by (cases "odd y") (auto; presburger)+
    ultimately show ?thesis by (rule order_trans [rotated])
  qed
qed

lemma submasks_all: "y AND m = y \<Longrightarrow> y \<le> sub \<Longrightarrow> sub AND m = sub \<Longrightarrow> y \<in> set (submasks m sub)"
proof (induction m sub rule: submasks.induct)
  case (1 m sub)
  show ?case
  proof (cases "y = sub")
    case True
    then show ?thesis by (subst submasks.simps) simp
  next
    case False
    then have nz: "sub \<noteq> 0" and lt: "y < sub" using "1.prems"(2) by auto
    have "unat y AND unat m = unat y" "unat sub AND unat m = unat sub" "unat y < unat sub"
      using "1.prems" lt by (simp_all add: word_less_nat_alt flip: unsigned_and_eq)
    from submask_below [OF this] have "y \<le> (sub - 1) AND m"
      using nz by (simp add: word_le_nat_alt unsigned_and_eq unat_minus_one)
    then have "y \<in> set (submasks m ((sub - 1) AND m))"
      using "1.IH" [OF nz "1.prems"(1)] by (simp add: and.assoc)
    then show ?thesis using nz by (subst submasks.simps) simp
  qed
qed

lemma and_24: "(a AND 0x00FFFFFF :: u32) = take_bit 24 a"
  by (simp only: take_bit_eq_mask mask_numeral) (simp add: mask_eq_exp_minus_1)

lemma take_16: "ucast (take_bit 16 x) = (ucast (x :: u32) :: u16)" "take_bit 32 x = x"
  by (rule bit_word_eqI; simp add: bit_unsigned_iff bit_take_bit_iff)+

lemma index_address:
  "m68k_pc_index_address ea (take_bit (if ea_index_is_long ea then 32 else 16) x) = pc_index_target ea x"
  unfolding m68k_pc_index_address_def pc_index_target_def Let_def sign_extend_16 and_24
  by (cases "ea_index_is_long ea") (simp_all only: if_True if_False take_16)

lemma aligned_24: "aligned (a AND 0x00FFFFFF) b = aligned a b" "(b > 8 \<and> (a AND 0x00FFFFFF) AND 1 \<noteq> 0) \<longleftrightarrow> \<not> aligned a b"
proof -
  have e: "even (a AND 0x00FFFFFF) = even a" unfolding and_24 by (simp only: even_take_bit_eq) simp
  then show "aligned (a AND 0x00FFFFFF) b = aligned a b" by (simp add: aligned_def)
  have "(a AND 0x00FFFFFF) AND 1 \<noteq> 0 \<longleftrightarrow> odd (a AND 0x00FFFFFF)"
    by (simp only: one_bit_0 bit_0)
  then show "(b > 8 \<and> (a AND 0x00FFFFFF) AND 1 \<noteq> 0) \<longleftrightarrow> \<not> aligned a b" using e by (auto simp: aligned_def and.assoc)
qed

text \<open>What the source operand contributes: covered by its values, or the register itself.\<close>

definition source_covers :: "nat \<Rightarrow> nat \<Rightarrow> finite_source \<Rightarrow> u32 \<Rightarrow> bool" where
  "source_covers w bits src v \<longleftrightarrow> \<not> fs_same_register src \<and> covers w (fs_values src) (take_bit bits v)"

lemma source_init_covers [simp]: "source_covers w bits source_init v"
  by (simp add: source_covers_def source_init_def)

lemma source_known:
  "fs_values src = fv_of vs w \<or> fs_values src = (fv_of vs w)\<lparr>fv_width_derived := c\<rparr> \<Longrightarrow> \<not> fs_same_register src \<Longrightarrow> w \<le> 32 \<Longrightarrow>
   take_bit bits v \<in> set vs \<Longrightarrow> source_covers w bits src v"
  unfolding source_covers_def by (auto intro: covers_of)

lemma memory_source_covers:
  assumes "w \<le> 32" "bits \<le> b"
  shows "source_covers w bits (memory_source ea w b) v"
proof (cases "b = 8")
  case True
  have "unat (take_bit bits v) < 2 ^ bits" by (simp only: unsigned_take_bit_eq take_bit_nat_less_exp)
  also have "(2 :: nat) ^ bits \<le> 2 ^ 8" using assms(2) True by (intro power_increasing) simp_all
  finally have "take_bit bits v \<in> set (map of_nat [0..<256])"
    by (auto simp: image_iff intro!: bexI [of _ "unat (take_bit bits v)"])
  then show ?thesis using source_known [OF disjI2 _ assms(1)] by (simp add: memory_source_def)
qed (simp add: memory_source_def)

section \<open>The inputs\<close>

text \<open>
  What a transfer relies on: \<open>config\<close> holds of the registers and the memory that are possible before
  the operation; the answers of the inputs cover them, and their own state keeps its invariant.
\<close>

locale finite_inputs =
  fixes data_register_before :: "nat \<Rightarrow> nat \<Rightarrow> ('s, M68kFiniteValues) evaluation"
    and immutable_read :: "u32 \<Rightarrow> nat \<Rightarrow> 's \<Rightarrow> u32 option \<times> 's"
    and inv :: "'s \<Rightarrow> bool"
    and config :: "(nat \<Rightarrow> u32) \<Rightarrow> (u32 \<Rightarrow> u8) \<Rightarrow> bool"
  assumes before: "inv s \<Longrightarrow> w = 16 \<or> w = 32 \<Longrightarrow> data_register_before r w s = Some (vs, s') \<Longrightarrow>
      inv s' \<and> (r < 8 \<and> config d mem \<longrightarrow> covers w vs (d r))"
    and reads: "inv s \<Longrightarrow> immutable_read a n s = (v, s') \<Longrightarrow>
      inv s' \<and> (\<forall>x. v = Some x \<longrightarrow> config d mem \<longrightarrow> mem_read mem a n = x)"
begin

lemma read_table_sound:
  "inv s \<Longrightarrow> read_table immutable_read ea b m vs out t s = ((out', t'), s') \<Longrightarrow>
   inv s' \<and> ft_writes t' = ft_writes t \<and> ft_values t' = ft_values t \<and>
   (\<not> ft_read_failed t' \<longrightarrow> config d mem \<longrightarrow> set out \<subseteq> set out' \<and>
     (\<forall>x \<in> set vs. aligned (m68k_pc_index_address ea x) b \<longrightarrow>
        mem_read mem (m68k_pc_index_address ea x) (b div 8) AND m \<in> set out'))"
proof (induction vs arbitrary: out t s)
  case Nil
  then show ?case by auto
next
  case (Cons x vs)
  let ?a = "m68k_pc_index_address ea x"
  have al: "(b > 8 \<and> ?a AND 1 \<noteq> 0) \<longleftrightarrow> \<not> aligned ?a b"
    by (auto simp: aligned_def and_one_eq odd_iff_mod_2_eq_one even_iff_mod_2_eq_zero)
  show ?case
  proof (cases "aligned ?a b")
    case False
    have "read_table immutable_read ea b m vs out (t\<lparr>ft_misaligned := ft_misaligned t + 1\<rparr>) s = ((out', t'), s')"
      using Cons.prems(2) False unfolding read_table.simps Let_def al by simp
    from Cons.IH [OF Cons.prems(1) this] show ?thesis using False by simp
  next
    case True
    obtain v s1 where r: "immutable_read ?a (b div 8) s = (v, s1)" by fastforce
    note rs = reads [OF Cons.prems(1) r]
    show ?thesis
    proof (cases v)
      case None
      then show ?thesis using Cons.prems(2) True rs unfolding read_table.simps Let_def al r by auto
    next
      case (Some y)
      have "read_table immutable_read ea b m vs (out @ [y AND m]) (t\<lparr>ft_table_reads := ft_table_reads t + 1\<rparr>) s1 = ((out', t'), s')"
        using Cons.prems(2) True unfolding read_table.simps Let_def al r Some by simp
      from Cons.IH [OF _ this] show ?thesis using rs Some by auto
    qed
  qed
qed

lemma read_source_sound:
  assumes "inv s" "w = 16 \<or> w = 32" "bits = min b w" "b \<in> {8, 16, 32}"
    and run: "read_source data_register_before immutable_read ea r bits w t b s = Some ((src, t'), s')"
  shows "inv s' \<and> ft_writes t' = ft_writes t \<and> ft_values t' = ft_values t \<and>
    (fs_same_register src \<longrightarrow> is_data_register ea r \<and> \<not> fv_known (fs_values src)) \<and>
    (config d mem \<longrightarrow> operand_value mem d ea b v \<longrightarrow> \<not> fs_same_register src \<longrightarrow> source_covers w bits src v)"
proof -
  have w32: "w \<le> 32" and bits: "bits \<le> w" "bits \<le> 32" "bits \<le> b" using assms(2,3) by auto
  have m: "x AND low_mask bits = take_bit bits x" for x using bits(2) by (rule and_low_mask)
  have tt: "take_bit bits (take_bit b x) = take_bit bits x" for x :: u32 using bits(3) by simp
  have mem_source: "source_covers w bits (memory_source ea w b) v" by (rule memory_source_covers [OF w32 bits(3)])
  consider (imm) "ea_mode ea = Ea_immediate" | (dn) "ea_mode ea = Ea_data_register" | (ix) "ea_mode ea = Ea_pc_index8"
    | (abs) "ea_mode ea \<in> {Ea_pc_disp16, Ea_absolute_word, Ea_absolute_long}"
    | (other) "ea_mode ea \<notin> {Ea_immediate, Ea_data_register, Ea_pc_index8, Ea_pc_disp16, Ea_absolute_word, Ea_absolute_long}"
    by blast
  then show ?thesis
  proof cases
    case imm
    then show ?thesis using run assms(1) w32 tt
      by (auto simp: read_source_def Let_def m operand_value_def intro!: source_known)
  next
    case dn
    show ?thesis
    proof (cases "unat (ea_reg ea) = r")
      case True
      then show ?thesis using run dn assms(1)
        by (auto simp: read_source_def Let_def is_data_register_def source_init_def fv_unknown_def)
    next
      case False
      then obtain vs where b: "data_register_before (unat (ea_reg ea)) w s = Some (vs, s')"
        and out: "src = \<lparr>fs_values = map_values vs w (\<lambda>v. v AND low_mask bits), fs_proof = proof_register_copy, fs_same_register = False\<rparr>" "t' = t"
        using run dn by (auto simp: read_source_def Let_def split: Option.bind_splits)
      note B = before [OF assms(1,2) b, of d mem]
      have "covers w (map_values vs w (\<lambda>v. v AND low_mask bits)) (take_bit bits (d (unat (ea_reg ea))))" if "unat (ea_reg ea) < 8" "config d mem"
        using B that w32 bits(1) by (intro covers_map [of w vs "d (unat (ea_reg ea))"]) (simp_all add: m)
      then show ?thesis using B out dn tt by (auto simp: operand_value_def source_covers_def)
    qed
  next
    case ix
    show ?thesis
    proof (cases "ea_index_is_address ea")
      case True
      then show ?thesis using run ix assms(1) by (auto simp: read_source_def Let_def source_init_def source_covers_def)
    next
      case False
      let ?iw = "if ea_index_is_long ea then 32 else 16"
      obtain index s1 where b: "data_register_before (unat (ea_index_reg ea)) ?iw s = Some (index, s1)"
        using run ix False by (auto simp: read_source_def Let_def split: Option.bind_splits)
      have iw: "?iw = 16 \<or> ?iw = (32 :: nat)" by simp
      note B = before [OF assms(1) iw b, of d mem]
      show ?thesis
      proof (cases "fv_known index")
        case unknown: False
        then show ?thesis using run ix False b B by (auto simp: read_source_def Let_def source_init_def source_covers_def)
      next
        case True
        obtain entries t1 s2 where tab: "read_table immutable_read ea b (low_mask bits) (fv_values index) [] t s1 = ((entries, t1), s2)"
          by (metis surj_pair)
        have o': "s' = s2 \<and> t' = t1 \<and> src = (if ft_read_failed t1 then source_init else
            \<lparr>fs_values = (fv_of entries w)\<lparr>fv_width_derived := fv_known (fv_of entries w) \<and> fv_width_derived index\<rparr>,
             fs_proof = proof_immutable_load, fs_same_register = False\<rparr>)"
          using run ix False b True tab by (auto simp: read_source_def Let_def split: if_splits)
        have T: "inv s2 \<and> ft_writes t1 = ft_writes t \<and> ft_values t1 = ft_values t \<and>
           (\<not> ft_read_failed t1 \<longrightarrow> config d mem \<longrightarrow> (\<forall>x \<in> set (fv_values index). aligned (m68k_pc_index_address ea x) b \<longrightarrow>
              mem_read mem (m68k_pc_index_address ea x) (b div 8) AND low_mask bits \<in> set entries))"
          using read_table_sound [OF _ tab, of d mem] B by blast
        have "source_covers w bits src v" if c: "config d mem" "operand_value mem d ea b v"
        proof (cases "ft_read_failed t1")
          case ok: False
          let ?x = "take_bit ?iw (d (unat (ea_index_reg ea)))"
          have "?x \<in> set (fv_values index)" using B c True ix False by (simp add: covers_def operand_value_def Let_def)
          moreover have "m68k_pc_index_address ea ?x = pc_index_target ea (d (unat (ea_index_reg ea)))" by (rule index_address)
          moreover have "aligned (pc_index_target ea (d (unat (ea_index_reg ea)))) b"
            "v = mem_read mem (pc_index_target ea (d (unat (ea_index_reg ea)))) (b div 8)"
            using c(2) ix False by (simp_all add: operand_value_def Let_def)
          ultimately have "take_bit bits v \<in> set entries" using T ok c(1) m by metis
          then show ?thesis using o' ok w32 by (intro source_known [OF disjI2]) auto
        qed (use o' in simp)
        then show ?thesis using T o' by (auto simp: source_init_def)
      qed
    qed
  next
    case abs
    let ?a = "ea_absolute_address ea AND 0x00FFFFFF"
    show ?thesis
    proof (cases "aligned (ea_absolute_address ea) b")
      case False
      then have "src = source_init \<and> t' = t \<and> s' = s"
        using run abs unfolding read_source_def Let_def aligned_24 by auto
      then show ?thesis using assms(1) by (simp add: source_init_def source_covers_def)
    next
      case True
      obtain x s1 where r: "immutable_read ?a (b div 8) s = (x, s1)" by fastforce
      note R = reads [OF assms(1) r]
      have v: "v = mem_read mem ?a (b div 8)" if "operand_value mem d ea b v"
        using that abs by (auto simp: operand_value_def and_24)
      show ?thesis
      proof (cases x)
        case None
        then have "src = memory_source ea w b \<and> t' = t \<and> s' = s1"
          using run abs True r unfolding read_source_def Let_def aligned_24 by auto
        then show ?thesis using R mem_source by (auto simp: memory_source_def source_init_def split: if_splits)
      next
        case (Some y)
        then have "src = \<lparr>fs_values = fv_of [y AND low_mask bits] w, fs_proof = proof_immutable_load, fs_same_register = False\<rparr> \<and>
            t' = t\<lparr>ft_table_reads := ft_table_reads t + 1\<rparr> \<and> s' = s1"
          using run abs True r unfolding read_source_def Let_def aligned_24 by auto
        moreover have "config d mem \<Longrightarrow> operand_value mem d ea b v \<Longrightarrow> take_bit bits v \<in> set [y AND low_mask bits]"
          using v R Some m by simp
        ultimately show ?thesis using R w32 by (auto intro!: source_known)
      qed
    qed
  next
    case other
    then have "src = memory_source ea w b \<and> t' = t \<and> s' = s"
      using run unfolding read_source_def Let_def by auto
    then show ?thesis using assms(1) mem_source by (auto simp: memory_source_def source_init_def split: if_splits)
  qed
qed

lemma old_values_sound:
  assumes "inv s" "w = 16 \<or> w = 32" "bits = min b w" "old_values data_register_before bits r w s = Some (old, s')"
  shows "inv s' \<and> (r < 8 \<and> config d mem \<longrightarrow> (\<exists>a. (b < w \<longrightarrow> take_bit w a = take_bit w (d r)) \<and> (fv_known old \<longrightarrow> a \<in> set (fv_values old))))"
proof (cases "bits \<ge> w")
  case True
  then have "\<not> b < w" using assms(3) by simp
  then show ?thesis using assms True
    by (auto simp: old_values_def fv_of_def Let_def m68k_finite_values_limit_def)
next
  case False
  have "data_register_before r w s = Some (old, s')" using assms(4) False by (simp add: old_values_def)
  from before [OF assms(1,2) this, of d mem] show ?thesis
    by (auto simp: covers_def intro!: exI [of _ "take_bit w (d r)"])
qed

lemma transfer_extend_sound:
  assumes "inv s" "w = 16 \<or> w = 32" "ir_kind op = Ir_sign_extend_word \<or> ir_kind op = Ir_sign_extend_long"
    "transfer_extend data_register_before op r w s = Some (t, s')"
  shows "inv s' \<and> (r < 8 \<and> config d mem \<longrightarrow> data_after op sr mem d r v' \<longrightarrow> (if ft_writes t then covers w (ft_values t) v' else v' = d r))"
proof (cases "is_data_register (ir_destination_ea op) r")
  case False
  then show ?thesis using assms
    by (auto simp: transfer_extend_def transfer_init_def data_after_def Let_def writes_no_data_register_def)
next
  case True
  obtain old s1 where b: "data_register_before r w s = Some (old, s1)"
    using assms(4) True by (auto simp: transfer_extend_def split: Option.bind_splits)
  note B = before [OF assms(1,2) b, of d mem]
  have w: "w \<le> 32" "16 \<le> w" using assms(2) by auto
  let ?x = "d r"
  have "ft_values t = (if ir_kind op = Ir_sign_extend_word
      then map_values old w (\<lambda>a. ((a AND NOT 0xFFFF) OR (sign_extend a 8 AND 0xFFFF)) AND low_mask w)
      else map_values old w (\<lambda>a. sign_extend a 16 AND low_mask w)) \<and> ft_writes t \<and> s' = s1"
    using assms(4) True b by (auto simp: transfer_extend_def)
  moreover have "take_bit w (((take_bit w ?x AND NOT 0xFFFF) OR (sign_extend (take_bit w ?x) 8 AND 0xFFFF)) AND low_mask w) =
      take_bit w (insert_low 16 ?x (scast (ucast ?x :: u8)))"
  proof (rule bit_word_eqI)
    fix i :: nat assume i: "i < LENGTH(32)"
    have m: "(0xFFFF :: u32) = mask 16" by (simp add: mask_eq_exp_minus_1)
    have se: "bit (sign_extend (take_bit w ?x) 8) i = bit (scast (ucast ?x :: u8) :: u32) i"
      using i w unfolding sign_extend_8 by (simp add: bit_signed_iff bit_unsigned_iff bit_take_bit_iff min_def)
    show "bit (take_bit w (((take_bit w ?x AND NOT 0xFFFF) OR (sign_extend (take_bit w ?x) 8 AND 0xFFFF)) AND low_mask w)) i =
        bit (take_bit w (insert_low 16 ?x (scast (ucast ?x :: u8)))) i"
      using i w se unfolding m low_mask [OF w(1)] insert_low_def
      by (auto simp: bit_take_bit_iff bit_or_iff bit_and_iff bit_not_iff bit_mask_iff possible_bit_word)
  qed
  moreover have "take_bit w (sign_extend (take_bit w ?x) 16 AND low_mask w) = take_bit w (scast (ucast ?x :: u16))"
  proof -
    have "ucast (take_bit w ?x) = (ucast ?x :: u16)"
      using w by (intro bit_word_eqI) (auto simp: bit_unsigned_iff bit_take_bit_iff)
    then show ?thesis using w by (simp add: and_low_mask sign_extend_16)
  qed
  ultimately show ?thesis
    using B assms(3) True w(1)
    by (auto simp: data_after_def Let_def writes_no_data_register_def intro!: covers_map [of w old "d r"])
qed

lemma transfer_move_sound:
  assumes "inv s" "w = 16 \<or> w = 32" "bits = min b w" "b = width_bits (ir_size op)" "fv_known (ft_values t) = False"
    "transfer_move data_register_before immutable_read op r w bits t s = Some (t', s')"
  shows "inv s' \<and> ft_writes t' = ft_writes t \<and> (r < 8 \<and> config d mem \<longrightarrow> operand_value mem d (ir_source_ea op) b v \<longrightarrow>
    covers w (ft_values t') (insert_low b (d r) v))"
proof -
  have b: "b \<in> {8, 16, 32}" "b \<le> 32" by (auto simp: assms(4) width_bits_def)
  have w: "w \<le> 32" using assms(2) by auto
  obtain src t1 s1 where rs: "read_source data_register_before immutable_read (ir_source_ea op) r bits w t b s = Some ((src, t1), s1)"
    using assms(6) unfolding transfer_move_def assms(4) by (auto split: Option.bind_splits)
  note S = read_source_sound [OF assms(1-3) b(1) rs, of d mem v]
  show ?thesis
  proof (cases "ft_read_failed t1")
    case True
    then have "t' = t1 \<and> s' = s1" using assms(6) rs unfolding transfer_move_def assms(4) by auto
    then show ?thesis using S assms(5) by (simp add: covers_def)
  next
    case ok: False
    show ?thesis
    proof (cases "fs_same_register src")
      case True
      then obtain vs where dr: "data_register_before r w s1 = Some (vs, s')" and t': "t' = t1\<lparr>ft_values := vs\<rparr>"
        using assms(6) rs ok unfolding transfer_move_def assms(4) by (auto split: Option.bind_splits)
      note B = before [OF conjunct1 [OF S] assms(2) dr, of d mem]
      have "insert_low b (d r) v = d r" if "operand_value mem d (ir_source_ea op) b v"
      proof -
        have "v = take_bit b (d r)" using S True that by (auto simp: operand_value_def is_data_register_def)
        then show ?thesis by (intro bit_word_eqI)
          (auto simp: insert_low_def bit_or_iff bit_and_iff bit_not_iff bit_mask_iff bit_take_bit_iff possible_bit_word)
      qed
      then show ?thesis using B S t' by auto
    next
      case False
      then obtain old s2 where ov: "old_values data_register_before bits r w s1 = Some (old, s2)"
        and t': "t' = t1\<lparr>ft_values := combine_values old (fs_values src) w (merge_low bits w), ft_proof := fs_proof src\<rparr>" "s' = s2"
        using assms(6) rs ok unfolding transfer_move_def assms(4) by (auto split: Option.bind_splits)
      note O = old_values_sound [OF conjunct1 [OF S] assms(2,3) ov, of d mem]
      have "covers w (ft_values t') (insert_low b (d r) v)" if c: "r < 8 \<and> config d mem" "operand_value mem d (ir_source_ea op) b v"
      proof -
        obtain a where a: "b < w \<longrightarrow> take_bit w a = take_bit w (d r)" "fv_known old \<longrightarrow> a \<in> set (fv_values old)"
          using O c(1) by blast
        have "fv_known (fs_values src) \<longrightarrow> take_bit bits v \<in> set (fv_values (fs_values src))"
          using S c False assms(3) by (auto simp: source_covers_def covers_def)
        moreover have "take_bit w (merge_low bits w a (take_bit bits v)) = take_bit w (insert_low b (d r) v)"
          using merge_insert [OF w b(2), of a "d r" "take_bit bits v" v] a(1) assms(3) by simp
        ultimately show ?thesis unfolding t' using a(2) by (auto intro!: covers_combine [OF w])
      qed
      then show ?thesis using O S t' by auto
    qed
  qed
qed

lemma arithmetic_outcome_sound:
  assumes w: "w \<le> 32" and b: "b \<le> 32" "bits = min b w" "b = width_bits (ir_size op)"
    and kind: "ir_kind op \<in> set arithmetic_kinds" and t: "\<not> fv_known (ft_values t)" and old: "covers w old x"
    and same: "fs_same_register src \<Longrightarrow> v = take_bit b x \<and> \<not> fv_known (fs_values src)"
    and other: "\<not> fs_same_register src \<Longrightarrow> source_covers w bits src v"
  shows "covers w (ft_values (arithmetic_outcome (ir_kind op) bits w src old t)) (insert_low b x (alu_result op x v))"
proof -
  let ?f = "arithmetic_step (ir_kind op) bits w" and ?y = "insert_low b x (alu_result op x v)"
  have merged: "take_bit w (?f (take_bit w x) y) = take_bit w ?y" if "take_bit bits y = take_bit bits v" for y
  proof -
    have "take_bit bits (arithmetic_op (ir_kind op) (take_bit w x) y) = take_bit bits (alu_result op x v)"
      using that b by (intro alu_result_low [OF kind]) auto
    then show ?thesis
      using merge_insert [OF w b(1), of "take_bit w x" x "arithmetic_op (ir_kind op) (take_bit w x) y" "alu_result op x v"] b(2)
      by (simp add: arithmetic_step_def)
  qed
  have sv: "take_bit bits v \<in> set (fv_values (fs_values src))" if "fv_known (fs_values src)" "\<not> fs_same_register src"
    using other [OF that(2)] that(1) b(2) by (simp add: source_covers_def covers_def)
  show ?thesis
  proof (cases "is_known_mask (ir_kind op) bits w old (fs_values src)")
    case True
    then have k: "is_and_kind (ir_kind op)" "bits = w" "w \<le> b" "fv_known (fs_values src)" "length (fv_values (fs_values src)) = 1"
      using b(2) unfolding is_known_mask_def by auto
    have ns: "\<not> fs_same_register src" using same k(4) by blast
    have one: "fv_values (fs_values src) = [take_bit w v]" using sv [OF k(4) ns] k(2,5) by (cases "fv_values (fs_values src)") auto
    have e: "take_bit w ?y = take_bit w x AND take_bit w v"
    proof -
      have "take_bit w ?y = take_bit w (alu_result op x v)"
        using k(3) by (intro bit_word_eqI) (auto simp: insert_low_def bit_take_bit_iff bit_or_iff bit_and_iff bit_not_iff bit_mask_iff)
      also have "\<dots> = take_bit w (arithmetic_op (ir_kind op) x v)"
        using alu_result_low [OF kind, of w x x v v] k(3) b(3) by simp
      also have "\<dots> = take_bit w x AND take_bit w v" using k(1) by (auto simp: arithmetic_op_def is_and_kind_def)
      finally show ?thesis .
    qed
    have "take_bit w x AND take_bit w v \<in> set (submasks (take_bit w v) (take_bit w v))"
      by (rule submasks_all) (simp_all add: and.assoc word_and_le1)
    then have "covers w (fv_of (submasks (take_bit w v) (take_bit w v)) w) ?y"
      by (rule covers_of [OF w]) (use e in simp)
    moreover have "covers w (ft_values t) ?y" using t by (simp add: covers_def)
    ultimately show ?thesis using True w
      unfolding arithmetic_outcome_def Let_def one list.sel and_low_mask [OF w] by simp
  next
    case False
    show ?thesis
    proof (cases "fs_same_register src")
      case True
      have "covers w (map_values old w (\<lambda>a. ?f a a)) ?y"
        using same [OF True] b(2) by (intro covers_map [OF w old] merged) simp
      then show ?thesis using False True unfolding arithmetic_outcome_def Let_def by simp
    next
      case ns: False
      have "covers w (combine_values old (fs_values src) w ?f) ?y"
        using old sv ns b(2) merged [of "take_bit bits v"] by (intro covers_combine [OF w, of _ "take_bit w x" _ "take_bit bits v"]) (auto simp: covers_def)
      then show ?thesis using False ns unfolding arithmetic_outcome_def masked_values_def Let_def by simp
    qed
  qed
qed

lemma transfer_arithmetic_sound:
  assumes "inv s" "w = 16 \<or> w = 32" "bits = min b w" "b = width_bits (ir_size op)" "\<not> fv_known (ft_values t)"
    "ir_kind op \<in> set arithmetic_kinds"
    "transfer_arithmetic data_register_before immutable_read op r w bits t s = Some (t', s')"
  shows "inv s' \<and> ft_writes t' = ft_writes t \<and> (r < 8 \<and> config d mem \<longrightarrow> operand_value mem d (ir_source_ea op) b v \<longrightarrow>
    covers w (ft_values t') (insert_low b (d r) (alu_result op (d r) v)))"
proof -
  have b: "b \<in> {8, 16, 32}" "b \<le> 32" by (auto simp: assms(4) width_bits_def)
  have w: "w \<le> 32" using assms(2) by auto
  obtain src t1 s1 where rs: "read_source data_register_before immutable_read (ir_source_ea op) r bits w t b s = Some ((src, t1), s1)"
    using assms(7) unfolding transfer_arithmetic_def assms(4) by (auto split: Option.bind_splits)
  note S = read_source_sound [OF assms(1-3) b(1) rs, of d mem v]
  show ?thesis
  proof (cases "ft_read_failed t1")
    case True
    then have "t' = t1 \<and> s' = s1" using assms(7) rs unfolding transfer_arithmetic_def assms(4) by auto
    then show ?thesis using S assms(5) by (simp add: covers_def)
  next
    case ok: False
    obtain old s2 where dr: "data_register_before r w s1 = Some (old, s2)"
      using assms(7) rs ok unfolding transfer_arithmetic_def assms(4) by (auto split: Option.bind_splits)
    note B = before [OF conjunct1 [OF S] assms(2) dr, of d mem]
    have t': "t' = arithmetic_outcome (ir_kind op) bits w src old t1" "s' = s2"
      using assms(7) rs ok dr unfolding transfer_arithmetic_def assms(4) by auto
    have "covers w (ft_values t') (insert_low b (d r) (alu_result op (d r) v))" if c: "r < 8 \<and> config d mem" "operand_value mem d (ir_source_ea op) b v"
      unfolding t'
    proof (rule arithmetic_outcome_sound [OF w b(2) assms(3,4,6)])
      show "\<not> fv_known (ft_values t1)" using S assms(5) by simp
      show "covers w old (d r)" using B c(1) by blast
      show "fs_same_register src \<Longrightarrow> v = take_bit b (d r) \<and> \<not> fv_known (fs_values src)"
        using S c(2) by (auto simp: operand_value_def is_data_register_def)
      show "\<not> fs_same_register src \<Longrightarrow> source_covers w bits src v" using S c by blast
    qed
    moreover have "ft_writes t' = ft_writes t1" unfolding t' arithmetic_outcome_def Let_def by simp
    ultimately show ?thesis using t'(2) S B by simp
  qed
qed

lemma transfer_shift_sound:
  assumes "inv s" "w = 16 \<or> w = 32" "fv_known (ft_values t) = False" "transfer_shift data_register_before op r w t s = Some (t', s')"
  shows "inv s' \<and> ft_writes t' = ft_writes t \<and> (r < 8 \<and> config d mem \<longrightarrow>
    covers w (ft_values t') (insert_low (width_bits (ir_size op)) (d r) (sr_result (m68k_evaluate_shift_rotate (ir_shift_rotate_kind op)
      (d r) (shift_count d (ir_source_ea op)) (ir_size op) x))))"
proof (cases "ea_mode (ir_source_ea op) = Ea_immediate \<and> (ir_shift_rotate_kind op \<in> {Sr_lsl, Sr_asl} \<or>
    ir_shift_rotate_kind op \<in> {Sr_lsr, Sr_asr} \<and> width_bits (ir_size op) \<le> w)")
  case False
  then have "t' = t \<and> s' = s" using assms(4) unfolding transfer_shift_def Let_def by (auto split: if_splits)
  then show ?thesis using assms(1,3) by (simp add: covers_def)
next
  case True
  have w: "w \<le> 32" using assms(2) by auto
  let ?k = "unat (ea_immediate_value (ir_source_ea op))"
  obtain old s1 where dr: "data_register_before r w s = Some (old, s1)"
    using assms(4) True unfolding transfer_shift_def Let_def by (auto split: if_splits Option.bind_splits)
  note B = before [OF assms(1,2) dr, of d mem]
  let ?vals = "map_values old w (shift_value (ir_shift_rotate_kind op) (width_bits (ir_size op)) ?k w)"
  have t': "s' = s1 \<and> ft_writes t' = ft_writes t \<and> (ft_values t' = ?vals \<or> ft_values t' = narrow old ?vals)"
    using assms(4) True dr unfolding transfer_shift_def Let_def by (auto split: if_splits)
  have "shift_count d (ir_source_ea op) = ea_immediate_value (ir_source_ea op)" using True by (simp add: shift_count_def)
  then have "r < 8 \<and> config d mem \<Longrightarrow> covers w ?vals (insert_low (width_bits (ir_size op)) (d r) (sr_result (m68k_evaluate_shift_rotate
      (ir_shift_rotate_kind op) (d r) (shift_count d (ir_source_ea op)) (ir_size op) x)))"
    using B True by (intro covers_map [OF w, of old "d r"]) (simp_all add: shift_value_sound [OF w])
  then show ?thesis using B t' by auto
qed

lemma transfer_clear_sound:
  assumes "inv s" "w = 16 \<or> w = 32" "bits = min b w" "b \<le> 32" "old_values data_register_before bits r w s = Some (old, s')"
  shows "inv s' \<and> (r < 8 \<and> config d mem \<longrightarrow> covers w (map_values old w (\<lambda>old. merge_low bits w old 0)) (insert_low b (d r) 0))"
proof -
  have w: "w \<le> 32" using assms(2) by auto
  note O = old_values_sound [OF assms(1,2,3,5), of d mem]
  have "covers w (map_values old w (\<lambda>old. merge_low bits w old 0)) (insert_low b (d r) 0)" if c: "r < 8 \<and> config d mem"
  proof -
    obtain a where a: "b < w \<longrightarrow> take_bit w a = take_bit w (d r)" "fv_known old \<longrightarrow> a \<in> set (fv_values old)"
      using O c by blast
    show ?thesis
    proof (cases "fv_known old")
      case True
      then have "merge_low bits w a 0 \<in> set (map (\<lambda>old. merge_low bits w old 0) (fv_values old))" using a(2) by simp
      moreover have "take_bit w (merge_low bits w a 0) = take_bit w (insert_low b (d r) 0)"
        using merge_insert [OF w assms(4), of a "d r" 0 0] a(1) assms(3) by simp
      ultimately show ?thesis using covers_of [OF w] True by (simp add: map_values_def Let_def)
    qed (simp add: map_values_def)
  qed
  then show ?thesis using O by blast
qed

lemma transfer_sound:
  assumes "inv s" "w = 16 \<or> w = 32"
    and run: "m68k_finite_register_after data_register_before immutable_read op r w s = Some (t, s')"
  shows "inv s' \<and> (r < 8 \<and> config d mem \<longrightarrow> data_after op sr mem d r v' \<longrightarrow> (if ft_writes t then covers w (ft_values t) v' else v' = d r))"
proof -
  let ?t = "transfer_init\<lparr>ft_writes := True\<rparr>" and ?k = "ir_kind op" and ?b = "width_bits (ir_size op)"
  let ?bits = "min ?b w" and ?to = "is_data_register (ir_destination_ea op) r"
  have w: "w \<le> 32" using assms(2) by auto
  have t0: "\<not> fv_known (ft_values ?t)" "ft_writes ?t" by (simp_all add: transfer_init_def fv_unknown_def)
  have unknown: "inv s' \<and> (r < 8 \<and> config d mem \<longrightarrow> data_after op sr mem d r v' \<longrightarrow> (if ft_writes t then covers w (ft_values t) v' else v' = d r))"
    if "t = ?t \<and> s' = s" using that t0 assms(1) by (simp add: covers_def)
  have unwritten: "inv s' \<and> (r < 8 \<and> config d mem \<longrightarrow> data_after op sr mem d r v' \<longrightarrow> (if ft_writes t then covers w (ft_values t) v' else v' = d r))"
    if "t = transfer_init \<and> s' = s" "r < 8 \<Longrightarrow> data_after op sr mem d r v' \<Longrightarrow> v' = d r" using that assms(1) by (simp add: transfer_init_def)
  note go = run [unfolded m68k_finite_register_after_def Let_def]
  consider (moveq) "?k = Ir_write_moveq" | (control) "?k \<in> set control_or_nop"
    | (extend) "?k = Ir_sign_extend_word \<or> ?k = Ir_sign_extend_long"
    | (rest) "?k \<noteq> Ir_write_moveq" "?k \<notin> set control_or_nop" "\<not> (?k = Ir_sign_extend_word \<or> ?k = Ir_sign_extend_long)" by blast
  then show ?thesis
  proof cases
    case moveq
    then show ?thesis
    proof (cases "unat (ir_destination op) = r")
      case True
      have "ucast (ucast (ir_operand op) :: u32) = ir_operand op" by (rule bit_word_eqI) (simp add: bit_unsigned_iff)
      then have "sign_extend (ucast (ir_operand op)) 8 = scast (ir_operand op)" by (simp only: sign_extend_8)
      then have "t = ?t\<lparr>ft_values := fv_of [scast (ir_operand op)] w, ft_proof := proof_constant\<rparr> \<and> s' = s"
        using go moveq True by simp
      then show ?thesis using moveq True w assms(1) t0
        by (auto simp: data_after_def Let_def intro!: covers_of)
    next
      case False
      then show ?thesis using go moveq by (intro unwritten) (simp_all add: data_after_def Let_def)
    qed
  next
    case control
    then have "?k \<in> set writes_no_data_register" "?k \<noteq> Ir_write_moveq" "?k \<noteq> Ir_subtract_quick_long_d0"
      "?k \<noteq> Ir_movem_transfer" "?k \<noteq> Ir_exchange_registers" by (auto simp: control_or_nop_def writes_no_data_register_def)
    then show ?thesis using go control by (intro unwritten) (simp_all add: data_after_def Let_def)
  next
    case extend
    then have "?k \<noteq> Ir_write_moveq" "?k \<notin> set control_or_nop" by (auto simp: control_or_nop_def)
    then have "transfer_extend data_register_before op r w s = Some (t, s')" using go extend by simp
    from transfer_extend_sound [OF assms(1,2) extend this] show ?thesis .
  next
    case rest
    let ?e = "m68k_operation_effect op"
    have low: "drop_bit r (fx_data_mask ?e) AND 1 = 0 \<longleftrightarrow> \<not> bit (fx_data_mask ?e) r"
      by (simp add: and_one_eq bit_iff_odd_drop_bit mod_2_eq_odd)
    note go = go [unfolded low]
    show ?thesis
    proof (cases "fx_complete ?e \<and> bit (fx_data_mask ?e) r")
      case False
      then show ?thesis
      proof (cases "fx_complete ?e")
        case True
        then show ?thesis using go rest False footprint_sound [of r op sr mem d v'] by (intro unwritten) auto
      next
        case incomplete: False
        then show ?thesis using go rest by (intro unknown) auto
      qed
    next
      case fp: True
      show ?thesis
      proof (cases "?to \<and> (?k = Ir_write_clr \<or> ?k = Ir_write_move \<or> ?k \<in> set arithmetic_kinds \<or> ?k = Ir_shift_rotate_register)")
        case False
        then show ?thesis using go rest fp by (intro unknown) (auto split: if_splits)
      next
        case True
        have nk: "?k \<noteq> Ir_subtract_quick_long_d0" "?k \<noteq> Ir_movem_transfer" "?k \<noteq> Ir_exchange_registers"
          "?k \<notin> set writes_no_data_register"
          using True by (auto simp: arithmetic_kinds_def writes_no_data_register_def)
        have D: "data_after op sr mem d r v' \<longleftrightarrow> (if ?k = Ir_write_clr then v' = insert_low ?b (d r) 0
          else if ?k = Ir_write_move then \<exists>v. operand_value mem d (ir_source_ea op) ?b v \<and> v' = insert_low ?b (d r) v
          else if ?k \<in> set arithmetic_kinds then
            \<exists>v. operand_value mem d (ir_source_ea op) ?b v \<and> v' = insert_low ?b (d r) (alu_result op (d r) v)
          else v' = insert_low ?b (d r) (sr_result (m68k_evaluate_shift_rotate (ir_shift_rotate_kind op) (d r)
            (shift_count d (ir_source_ea op)) (ir_size op) (ccr_X sr))))"
          using rest nk True unfolding data_after_def Let_def by auto
        consider (clr) "?k = Ir_write_clr" | (move) "?k = Ir_write_move" | (arith) "?k \<in> set arithmetic_kinds"
          | (shift) "?k = Ir_shift_rotate_register" using True by blast
        then show ?thesis
        proof cases
          case clr
          then obtain old where ov: "old_values data_register_before ?bits r w s = Some (old, s')"
            and t: "t = ?t\<lparr>ft_values := map_values old w (\<lambda>old. merge_low ?bits w old 0), ft_proof := proof_constant\<rparr>"
            using go rest fp True by (auto split: Option.bind_splits)
          from transfer_clear_sound [OF assms(1,2) refl width_values(4) ov, of d mem] show ?thesis
            using t clr D t0 by simp
        next
          case move
          then have "transfer_move data_register_before immutable_read op r w ?bits ?t s = Some (t, s')"
            using go rest fp True by simp
          from transfer_move_sound [OF assms(1,2) refl refl _ this, of d mem] show ?thesis
            using move D t0 by auto
        next
          case arith
          then have na: "?k \<noteq> Ir_write_clr" "?k \<noteq> Ir_write_move" by (auto simp: arithmetic_kinds_def)
          then have "transfer_arithmetic data_register_before immutable_read op r w ?bits ?t s = Some (t, s')"
            using go rest fp True arith by simp
          from transfer_arithmetic_sound [OF assms(1,2) refl refl t0(1) arith this, of d mem] show ?thesis
            using arith na D t0 by auto
        next
          case shift
          then have ns: "?k \<notin> set arithmetic_kinds" by (simp add: arithmetic_kinds_def)
          then have "transfer_shift data_register_before op r w ?t s = Some (t, s')"
            using go rest fp True shift by simp
          from transfer_shift_sound [OF assms(1,2) _ this, of d mem] show ?thesis
            using shift ns D t0 by auto
        qed
      qed
    qed
  qed
qed

end

section \<open>Branches\<close>

text \<open>The condition codes that a comparison of a data register or a test leaves; the branch leaves them as they are.\<close>

definition flags_after :: "M68kIrOperation \<Rightarrow> (u32 \<Rightarrow> u8) \<Rightarrow> (nat \<Rightarrow> u32) \<Rightarrow> u16 \<Rightarrow> u16 \<Rightarrow> bool" where
  "flags_after op mem d sr sr' \<longleftrightarrow>
     (let b = width_bits (ir_size op); dest = ir_destination_ea op in
      if ir_kind op \<in> {Ir_compare, Ir_compare_immediate} then
        ea_mode dest = Ea_data_register \<longrightarrow>
        (\<exists>v. operand_value mem d (ir_source_ea op) b v \<and> sr' = m68k_compare_ccr sr v (d (unat (ea_reg dest))) (ir_size op))
      else if ir_kind op = Ir_test_operand then
        \<exists>v. operand_value mem d (ir_source_ea op) b v \<and> sr' = m68k_logical_ccr sr v (ir_size op)
      else if ir_kind op \<in> {Ir_general_branch, Ir_no_operation} then sr' = sr
      else True)"

lemma condition_flags:
  assumes "ccr_N a = ccr_N b" "ccr_Z a = ccr_Z b" "ccr_V a = ccr_V b" "ccr_C a = ccr_C b"
  shows "m68k_evaluate_condition c a = m68k_evaluate_condition c b"
  using assms by (cases c; simp add: m68k_evaluate_condition_def ccr_mask Let_def)

lemma flags_word:
  "ccr_N (flag n 8 OR flag z 4 OR flag v 2 OR flag c 1) = n" "ccr_Z (flag n 8 OR flag z 4 OR flag v 2 OR flag c 1) = z"
  "ccr_V (flag n 8 OR flag z 4 OR flag v 2 OR flag c 1) = v" "ccr_C (flag n 8 OR flag z 4 OR flag v 2 OR flag c 1) = c"
  "ccr_N (flag z 4 OR flag n 8) = n" "ccr_Z (flag z 4 OR flag n 8) = z" "\<not> ccr_V (flag z 4 OR flag n 8)"
  "\<not> ccr_C (flag z 4 OR flag n 8)"
  by (simp_all add: ccr_defs bit_or_iff bit_flag)

lemma logical_ccr:
  "ccr_N (m68k_logical_ccr sr v w) = log_negative (m68k_evaluate_logical v w)"
  "ccr_Z (m68k_logical_ccr sr v w) = log_zero (m68k_evaluate_logical v w)"
  "\<not> ccr_V (m68k_logical_ccr sr v w)" "\<not> ccr_C (m68k_logical_ccr sr v w)"
  by (simp_all add: m68k_logical_ccr_def Let_def ccr_defs bit_or_iff bit_and_iff bit_flag)

lemma compare_ccr: "m68k_compare_ccr sr src dst w = m68k_subtraction_ccr sr src dst w Extend_preserve"
proof -
  let ?op = "operation_init\<lparr>ir_kind := Ir_compare\<rparr>"
  have grow: "fx_extend_policy (effect_footprint op e) = fx_extend_policy e" for op e
    unfolding effect_footprint_def Let_def
    by (simp add: footprint_step_defs note_destination_def split: option.split)
  have "fx_extend_policy (m68k_operation_effect ?op) = Extend_preserve"
    unfolding m68k_operation_effect_def grow
    by (simp add: effect_flow_def effect_stack_bits_def effect_multiply_exception_def effect_decimal_exchange_def
        effect_moves_def effect_arithmetic_def fx_next_def Let_def)
  then show ?thesis by (simp add: m68k_compare_ccr_def)
qed

lemma subtraction_low:
  assumes "width_bits sz \<le> w"
  shows "m68k_evaluate_subtraction (take_bit (width_bits sz) s) (take_bit w x) sz = m68k_evaluate_subtraction s x sz"
proof -
  have m: "y AND width_mask sz = take_bit (width_bits sz) y" for y by (simp add: width_values(1) take_bit_eq_mask)
  show ?thesis unfolding m68k_evaluate_subtraction_def Let_def sub_mask m using assms by simp
qed

lemma filter_flags_sound:
  assumes "width_bits (ir_size setter) \<le> w" "flags_after setter mem d sr0 sr"
    "test \<Longrightarrow> ir_kind setter = Ir_test_operand \<and> is_data_register (ir_source_ea setter) r"
    "\<not> test \<Longrightarrow> ir_kind setter \<in> {Ir_compare, Ir_compare_immediate} \<and> is_data_register (ir_destination_ea setter) r \<and>
       ea_mode (ir_source_ea setter) = Ea_immediate"
  shows "m68k_evaluate_condition c (filter_flags setter test (width_bits (ir_size setter)) (take_bit w (d r))) = m68k_evaluate_condition c sr"
proof (cases test)
  case True
  let ?b = "width_bits (ir_size setter)"
  note T = assms(3) [OF True]
  have v: "take_bit w (d r) AND low_mask ?b = take_bit ?b (d r)" using assms(1) by (simp add: and_low_mask)
  have sr: "sr = m68k_logical_ccr sr0 (take_bit ?b (d r)) (ir_size setter)"
    using assms(2) T unfolding flags_after_def Let_def by (auto simp: operand_value_def is_data_register_def)
  have f: "filter_flags setter test ?b (take_bit w (d r)) = flag (take_bit ?b (d r) = 0) 4 OR flag (bit (d r) (?b - 1)) 8"
    using True unfolding filter_flags_def Let_def v one_bit by (simp add: bit_take_bit_iff)
  have l: "log_zero (m68k_evaluate_logical (take_bit ?b (d r)) (ir_size setter)) = (take_bit ?b (d r) = 0)"
    "log_negative (m68k_evaluate_logical (take_bit ?b (d r)) (ir_size setter)) = bit (d r) (?b - 1)"
    unfolding m68k_evaluate_logical_def Let_def width_values(1,2) sign_bit take_bit_eq_mask [symmetric]
    by (simp_all add: bit_take_bit_iff)
  show ?thesis unfolding f sr by (rule condition_flags) (simp_all add: flags_word logical_ccr l)
next
  case False
  let ?b = "width_bits (ir_size setter)"
  note C = assms(4) [OF False]
  let ?r = "m68k_evaluate_subtraction (ea_immediate_value (ir_source_ea setter)) (d r) (ir_size setter)"
  have u: "unat (ea_reg (ir_destination_ea setter)) = r" "ea_mode (ir_destination_ea setter) = Ea_data_register"
    using C by (auto simp: is_data_register_def)
  then obtain v where v: "operand_value mem d (ir_source_ea setter) ?b v" "sr = m68k_compare_ccr sr0 v (d r) (ir_size setter)"
    using assms(2) C unfolding flags_after_def Let_def by auto
  have imm: "v = take_bit ?b (ea_immediate_value (ir_source_ea setter))" using v(1) C by (simp add: operand_value_def)
  have e: "m68k_evaluate_subtraction v (d r) (ir_size setter) = ?r"
    using subtraction_low [of "ir_size setter" 32 "ea_immediate_value (ir_source_ea setter)" "d r"] by (simp add: imm take_16(2))
  have e2: "m68k_evaluate_subtraction (ea_immediate_value (ir_source_ea setter)) (take_bit w (d r)) (ir_size setter) = ?r"
    using subtraction_low [OF assms(1), of "ea_immediate_value (ir_source_ea setter)" "d r"]
      subtraction_low [of "ir_size setter" 32 "ea_immediate_value (ir_source_ea setter)" "take_bit w (d r)"] by (simp add: take_16(2) del: take_bit_take_bit)
  have f: "filter_flags setter test ?b (take_bit w (d r)) =
      flag (sub_negative ?r) 8 OR flag (sub_zero ?r) 4 OR flag (sub_overflow ?r) 2 OR flag (sub_carry ?r) 1"
    using False by (simp add: filter_flags_def Let_def e2)
  show ?thesis unfolding f v(2) compare_ccr by (rule condition_flags) (simp_all add: flags_word subtraction_ccr e)
qed

lemma branch_filter_sound:
  assumes "w = 16 \<or> w = 32" "m68k_finite_branch_filter setter branch taken r w vs = Some vs'" "covers w vs (d r)"
    "flags_after setter mem d sr0 sr" "m68k_evaluate_condition (ir_condition branch) sr = taken"
  shows "covers w vs' (d r)"
proof -
  have w: "w \<le> 32" using assms(1) by auto
  let ?b = "width_bits (ir_size setter)"
  let ?cmp = "(ir_kind setter = Ir_compare_immediate \<or> ir_kind setter = Ir_compare) \<and>
    is_data_register (ir_destination_ea setter) r \<and> ea_mode (ir_source_ea setter) = Ea_immediate"
  let ?keep = "\<lambda>value. m68k_evaluate_condition (ir_condition branch) (filter_flags setter (\<not> ?cmp) ?b value) = taken"
  have c: "fv_known vs" "?b \<le> w" "?cmp \<or> ir_kind setter = Ir_test_operand \<and> is_data_register (ir_source_ea setter) r"
    and vs': "vs' = narrow vs (fv_of (filter ?keep (fv_values vs)) w)"
    using assms(2) unfolding m68k_finite_branch_filter_def Let_def by (auto split: if_splits)
  have "?keep (take_bit w (d r))"
    using filter_flags_sound [OF c(2) assms(4), of "\<not> ?cmp" r "ir_condition branch"] c(3) assms(5) by blast
  moreover have "take_bit w (d r) \<in> set (fv_values vs)" using assms(3) c(1) by (simp add: covers_def)
  ultimately have "take_bit w (d r) \<in> set (filter ?keep (fv_values vs))" by simp
  then show ?thesis unfolding vs' covers_narrow by (rule covers_of [OF w]) simp
qed

end
