(* ===== verification/Genesis_Program.thy ===== *)
theory Genesis_Program
  imports M68k_Finite_Sound
begin

text \<open>
  The Genesis program that the reachability challenger
  (\<^verbatim>\<open>machine/genesis/reachability_challenger.cpp\<close>) is given: the image, the claims that map
  it into the address space, the copies in work RAM. Here are the rule for the bytes that are immutable,
  the vectors the machine delivers and the roots they give.
\<close>

section \<open>The program\<close>

record MappingClaim =
  mc_name :: string
  mc_target_begin :: M68kProgramAddress
  mc_target_end :: M68kProgramAddress
  mc_image_begin :: u64
  mc_image_end :: u64

record ImmutableCopyAlias =
  al_execution_base :: u32
  al_source_base :: u32
  al_length :: u32

record FrontendProgram =
  fp_bytes :: bytes
  fp_claims :: "MappingClaim list"
  fp_startup :: "u32 option"
  fp_aliases :: "ImmutableCopyAlias list"

definition bus_mask :: u32 where "bus_mask = 0x00FFFFFF"

section \<open>Immutable bytes\<close>

definition claim_owns :: "u32 \<Rightarrow> MappingClaim \<Rightarrow> bool" where
  "claim_owns address c \<longleftrightarrow> pa_space (mc_target_begin c) = m68k_program \<and>
     address \<ge> pa_value (mc_target_begin c) \<and> address < pa_value (mc_target_end c)"

definition unique_rom_claim :: "FrontendProgram \<Rightarrow> u32 \<Rightarrow> MappingClaim option" where
  "unique_rom_claim program address =
     (let owners = filter (claim_owns address) (fp_claims program) in
      if length owners \<noteq> 1 then None
      else let found = last owners in
        if mc_name found \<noteq> ''raw_cartridge_rom'' \<or> mc_image_end found < mc_image_begin found \<or>
           unat (mc_image_end found) > length (fp_bytes program) \<or>
           ucast (pa_value (mc_target_end found) - pa_value (mc_target_begin found)) \<noteq> mc_image_end found - mc_image_begin found
        then None else Some found)"

definition claim_offset :: "MappingClaim \<Rightarrow> u32 \<Rightarrow> u64" where
  "claim_offset c address = mc_image_begin c + ucast (address - pa_value (mc_target_begin c))"

text \<open>One byte of \<^verbatim>\<open>immutable_read\<close>, then the loop over the bytes of a big-endian value.\<close>

definition cartridge_byte :: "FrontendProgram \<Rightarrow> u32 \<Rightarrow> u8 option" where
  "cartridge_byte program address = (case unique_rom_claim program address of
       None \<Rightarrow> None
     | Some c \<Rightarrow> if unat (claim_offset c address) \<ge> length (fp_bytes program) then None
                 else Some (fp_bytes program ! unat (claim_offset c address)))"

fun immutable_bytes :: "FrontendProgram \<Rightarrow> u32 \<Rightarrow> nat list \<Rightarrow> u32 \<Rightarrow> u32 option" where
  "immutable_bytes program address [] v = Some v"
| "immutable_bytes program address (i # is) v =
     (let at = (address + of_nat i) AND bus_mask in
      if at < address then None
      else case cartridge_byte program at of
             None \<Rightarrow> None
           | Some b \<Rightarrow> immutable_bytes program address is (push_bit 8 v OR ucast b))"

definition immutable_read :: "FrontendProgram \<Rightarrow> u32 \<Rightarrow> nat \<Rightarrow> u32 option" where
  "immutable_read program address count = immutable_bytes program address [0..<count] 0"

definition alias_holds :: "u32 \<Rightarrow> ImmutableCopyAlias \<Rightarrow> bool" where
  "alias_holds pc a \<longleftrightarrow> pc \<ge> al_execution_base a \<and> unat pc < unat (al_execution_base a) + unat (al_length a)"

definition decoder_mapped :: "FrontendProgram \<Rightarrow> u32 \<Rightarrow> bool" where
  "decoder_mapped program pc \<longleftrightarrow>
     (if pc AND 1 \<noteq> 0 then False
      else case List.find (alias_holds pc) (fp_aliases program) of
             Some a \<Rightarrow> unique_rom_claim program (al_source_base a + (pc - al_execution_base a)) \<noteq> None
           | None \<Rightarrow> unique_rom_claim program pc \<noteq> None)"

text \<open>A memory that holds the cartridge; every other byte of it may be anything.\<close>

definition holds_cartridge :: "FrontendProgram \<Rightarrow> (u32 \<Rightarrow> u8) \<Rightarrow> bool" where
  "holds_cartridge program mem \<longleftrightarrow> (\<forall>a b. cartridge_byte program a = Some b \<longrightarrow> mem a = b)"

lemma immutable_bytes_agree:
  "holds_cartridge program mem \<Longrightarrow> immutable_bytes program a is v = Some x \<Longrightarrow>
   foldl (\<lambda>v i. push_bit 8 v OR ucast (mem ((a + of_nat i) AND 0x00FFFFFF))) v is = x"
  by (induction "is" arbitrary: v)
    (auto simp: Let_def holds_cartridge_def bus_mask_def split: if_splits option.splits)

lemma immutable_read_agrees: "holds_cartridge program mem \<Longrightarrow> immutable_read program a n = Some x \<Longrightarrow> mem_read mem a n = x"
  unfolding immutable_read_def mem_read_def by (rule immutable_bytes_agree)

text \<open>The claimed bytes stay inside the image.\<close>

lemma unat_widen: "unat (ucast (x :: u32) :: u64) = unat x"
proof -
  have "unat x < 2 ^ 64" by (rule less_trans [OF unsigned_less]) simp
  then show ?thesis unfolding unsigned_ucast_eq by (simp add: take_bit_nat_eq_self_iff)
qed

lemma claim_offset_inside:
  assumes "unique_rom_claim program a = Some c"
  shows "unat (claim_offset c a) < length (fp_bytes program)"
proof -
  have c: "claim_owns a c" "mc_image_begin c \<le> mc_image_end c" "unat (mc_image_end c) \<le> length (fp_bytes program)"
    "ucast (pa_value (mc_target_end c) - pa_value (mc_target_begin c)) = mc_image_end c - mc_image_begin c"
  proof -
    obtain l where l: "filter (claim_owns a) (fp_claims program) = [l]"
      using assms unfolding unique_rom_claim_def Let_def
      by (cases "filter (claim_owns a) (fp_claims program)") (auto split: if_splits)
    then have "l \<in> set (filter (claim_owns a) (fp_claims program))" by simp
    then have lo: "claim_owns a l" by simp
    have "c = l" using assms l unfolding unique_rom_claim_def Let_def by (auto split: if_splits)
    then show "claim_owns a c" using lo by simp
    show "mc_image_begin c \<le> mc_image_end c" "unat (mc_image_end c) \<le> length (fp_bytes program)"
      "ucast (pa_value (mc_target_end c) - pa_value (mc_target_begin c)) = mc_image_end c - mc_image_begin c"
      using assms l unfolding unique_rom_claim_def Let_def by (auto split: if_splits)
  qed
  let ?b = "pa_value (mc_target_begin c)" and ?e = "pa_value (mc_target_end c)"
  have o: "?b \<le> a" "a < ?e" using c(1) by (auto simp: claim_owns_def)
  have lt: "unat (a - ?b) < unat (?e - ?b)"
    using o by (simp add: word_less_nat_alt word_le_nat_alt unat_sub_if')
  have "unat (mc_image_end c) = unat (mc_image_begin c) + unat (mc_image_end c - mc_image_begin c)"
    using c(2) by (simp add: unat_sub word_le_nat_alt)
  also have "unat (mc_image_end c - mc_image_begin c) = unat (?e - ?b)"
    unfolding c(4) [symmetric] by (rule unat_widen)
  finally have e: "unat (mc_image_end c) = unat (mc_image_begin c) + unat (?e - ?b)" .
  have "unat (claim_offset c a) \<le> unat (mc_image_begin c) + unat (a - ?b)"
  proof -
    have "unat (x + y) \<le> unat x + unat y" for x y :: u64 by (simp add: unat_word_ariths)
    from this [of "mc_image_begin c" "ucast (a - ?b)"] show ?thesis unfolding claim_offset_def unat_widen .
  qed
  then show ?thesis using e lt c(3) by linarith
qed

section \<open>Roots\<close>

definition machine_delivered_vectors :: "nat list" where
  "machine_delivered_vectors = [30, 5, 8, 4, 6, 7, 10, 11] @ [32..<48]"

definition be32 :: "bytes \<Rightarrow> nat \<Rightarrow> u32" where
  "be32 b at = push_bit 24 (ucast (b ! at)) OR push_bit 16 (ucast (b ! (at + 1))) OR
     push_bit 8 (ucast (b ! (at + 2))) OR ucast (b ! (at + 3))"

definition vector_handler :: "FrontendProgram \<Rightarrow> nat \<Rightarrow> u32 option" where
  "vector_handler program offset =
     (case fp_startup program of
        None \<Rightarrow> None
      | Some entry \<Rightarrow>
          if length (fp_bytes program) < 0x100 \<or> offset + 4 > 0x100 then None
          else if be32 (fp_bytes program) 4 \<noteq> entry then None
          else let w = be32 (fp_bytes program) offset in if w = 0 then None else Some (w AND bus_mask))"

record GenesisReachabilityRoots =
  gr_roots :: "u32 list"
  gr_vector_roots :: nat
  gr_vectors :: "(nat \<times> u32) list"
  gr_potential_interrupts :: "(nat \<times> u32) list"

definition installed_vectors :: "FrontendProgram \<Rightarrow> nat list \<Rightarrow> (nat \<times> u32) list" where
  "installed_vectors program vs =
     concat (map (\<lambda>v. case vector_handler program (v * 4) of None \<Rightarrow> [] | Some h \<Rightarrow> [(v, h)]) vs)"

definition genesis_reachability_roots :: "FrontendProgram \<Rightarrow> GenesisReachabilityRoots" where
  "genesis_reachability_roots program =
     (let entry = (case fp_startup program of None \<Rightarrow> [] | Some e \<Rightarrow> [e AND bus_mask]);
          vectors = installed_vectors program machine_delivered_vectors
      in \<lparr>gr_roots = sort (remdups (entry @ map snd vectors)),
          gr_vector_roots = length vectors,
          gr_vectors = vectors,
          gr_potential_interrupts =
            installed_vectors program (filter (\<lambda>v. v \<notin> set machine_delivered_vectors) [24..<32])\<rparr>)"

lemma roots_on_bus:
  "r \<in> set (gr_roots (genesis_reachability_roots program)) \<Longrightarrow> r AND bus_mask = r"
  by (auto simp: genesis_reachability_roots_def Let_def installed_vectors_def vector_handler_def and.assoc
      split: option.splits if_splits)

end
