(* ===== verification/M68k_Control.thy ===== *)
theory M68k_Control
  imports M68k_Ir
begin

text \<open>
  The fixed control successors of a lifted operation, \<^verbatim>\<open>cpu/m68k/control_successors.cpp\<close>: the program
  counters it can select, the continuation it stacks, the family of a transfer that only the run decides.
  Against them stands \<open>next_pc\<close>, the program counter that follows the operation on the processor.
\<close>

section \<open>The projection\<close>

datatype M68kControlSuccessorKind =
  Succ_fallthrough | Succ_branch_target | Succ_conditional_target | Succ_conditional_fallthrough | Succ_call_target

datatype M68kStackedContinuationKind =
  Cont_none | Cont_call_continuation | Cont_exception_continuation | Cont_pushed_code_address

datatype M68kDynamicControlFamily =
    Fam_none | Fam_return_from_subroutine | Fam_return_from_exception | Fam_return_restore_condition_codes
  | Fam_jump_address_indirect | Fam_call_address_indirect | Fam_jump_address_disp16 | Fam_call_address_disp16
  | Fam_jump_address_index | Fam_call_address_index | Fam_jump_pc_index | Fam_call_pc_index | Fam_unclassified

record M68kControlSuccessors =
  cs_successors :: "(M68kControlSuccessorKind \<times> u32) list"
  cs_stacked :: M68kStackedContinuationKind
  cs_stacked_address :: u32
  cs_dynamic :: M68kDynamicControlFamily
  cs_always_raises :: bool

definition indirect_family :: "M68kIrOperation \<Rightarrow> M68kDynamicControlFamily" where
  "indirect_family op =
    (let call = (ir_kind op = Ir_call_general) in
     case ea_mode (ir_source_ea op) of
       Ea_address_indirect \<Rightarrow> if call then Fam_call_address_indirect else Fam_jump_address_indirect
     | Ea_address_disp16 \<Rightarrow> if call then Fam_call_address_disp16 else Fam_jump_address_disp16
     | Ea_address_index8 \<Rightarrow> if call then Fam_call_address_index else Fam_jump_address_index
     | Ea_pc_index8 \<Rightarrow> if call then Fam_call_pc_index else Fam_jump_pc_index
     | _ \<Rightarrow> Fam_unclassified)"

definition operation_address :: "M68kIrOperation \<Rightarrow> u32" where
  "operation_address op = pa_value (ds_address (pv_source (ir_provenance op)))"

definition operation_next :: "M68kIrOperation \<Rightarrow> u32" where
  "operation_next op = operation_address op + pv_length (ir_provenance op)"

definition control_init :: M68kControlSuccessors where
  "control_init = \<lparr>cs_successors = [], cs_stacked = Cont_none, cs_stacked_address = 0, cs_dynamic = Fam_none,
     cs_always_raises = False\<rparr>"

definition control_call :: "M68kIrOperation \<Rightarrow> M68kControlSuccessors \<Rightarrow> M68kControlSuccessors" where
  "control_call op out =
     (if fx_stack (m68k_operation_effect op) = Stack_push_static_continuation
      then out\<lparr>cs_stacked := Cont_call_continuation, cs_stacked_address := operation_next op\<rparr> else out)"

definition control_advance :: "M68kIrOperation \<Rightarrow> M68kControlSuccessors \<Rightarrow> M68kControlSuccessors" where
  "control_advance op out =
     (let out = out\<lparr>cs_successors := [(Succ_fallthrough, operation_address op + fx_pc_delta (m68k_operation_effect op))]\<rparr>
      in if ir_kind op = Ir_trap_exception \<or> ir_kind op = Ir_trap_on_overflow
         then (let out = out\<lparr>cs_stacked := Cont_exception_continuation, cs_stacked_address := operation_next op\<rparr>
               in if ir_kind op = Ir_trap_exception then out\<lparr>cs_successors := []\<rparr> else out)
         else out)"

definition control_direct :: "M68kIrOperation \<Rightarrow> M68kControlSuccessors \<Rightarrow> M68kControlSuccessors" where
  "control_direct op out =
     (let target = fx_direct_target (m68k_operation_effect op)
      in out\<lparr>cs_successors :=
        (if ir_kind op = Ir_general_branch \<and> ir_condition op = Cond_always then [(Succ_branch_target, target)]
         else if ir_kind op \<in> {Ir_general_branch, Ir_dbcc_loop, Ir_branch_ne_short}
         then [(Succ_conditional_target, target), (Succ_conditional_fallthrough, operation_next op)]
         else if fx_stack (m68k_operation_effect op) = Stack_push_static_continuation then [(Succ_call_target, target)]
         else [(Succ_branch_target, target)])\<rparr>)"

definition control_pc :: "M68kIrOperation \<Rightarrow> M68kControlSuccessors \<Rightarrow> M68kControlSuccessors" where
  "control_pc op out = (case fx_pc (m68k_operation_effect op) of
       Pc_advance \<Rightarrow> control_advance op out
     | Pc_direct_target \<Rightarrow> control_direct op out
     | Pc_observed_stack_return \<Rightarrow> out\<lparr>cs_dynamic := Fam_return_from_subroutine\<rparr>
     | Pc_observed_exception_return \<Rightarrow>
         out\<lparr>cs_dynamic := (if ir_kind op = Ir_return_restore_condition_codes then Fam_return_restore_condition_codes
           else Fam_return_from_exception)\<rparr>
     | Pc_exception_entry \<Rightarrow> out\<lparr>cs_always_raises := True\<rparr>
     | Pc_none \<Rightarrow>
         out\<lparr>cs_dynamic := (if ir_kind op = Ir_jump_general \<or> ir_kind op = Ir_call_general then indirect_family op
           else Fam_unclassified)\<rparr>)"

definition control_pushed :: "M68kIrOperation \<Rightarrow> M68kControlSuccessors \<Rightarrow> M68kControlSuccessors" where
  "control_pushed op out =
     (if ir_kind op = Ir_push_effective_address \<and> m68k_is_statically_foldable_control_ea (ir_source_ea op)
      then out\<lparr>cs_stacked := Cont_pushed_code_address, cs_stacked_address := m68k_canonical_ea_address (ir_source_ea op)\<rparr>
      else out)"

definition m68k_control_successors :: "M68kIrOperation \<Rightarrow> M68kControlSuccessors" where
  "m68k_control_successors op = control_pushed op (control_pc op (control_call op control_init))"

definition m68k_dynamic_control_family_name :: "M68kDynamicControlFamily \<Rightarrow> string" where
  "m68k_dynamic_control_family_name family = (case family of
       Fam_none \<Rightarrow> ''none'' | Fam_return_from_subroutine \<Rightarrow> ''rts'' | Fam_return_from_exception \<Rightarrow> ''rte''
     | Fam_return_restore_condition_codes \<Rightarrow> ''rtr'' | Fam_jump_address_indirect \<Rightarrow> ''jmp_(An)''
     | Fam_call_address_indirect \<Rightarrow> ''jsr_(An)'' | Fam_jump_address_disp16 \<Rightarrow> ''jmp_d16(An)''
     | Fam_call_address_disp16 \<Rightarrow> ''jsr_d16(An)'' | Fam_jump_address_index \<Rightarrow> ''jmp_(d8,An,Xn)''
     | Fam_call_address_index \<Rightarrow> ''jsr_(d8,An,Xn)'' | Fam_jump_pc_index \<Rightarrow> ''jmp_(d8,PC,Xn)''
     | Fam_call_pc_index \<Rightarrow> ''jsr_(d8,PC,Xn)'' | Fam_unclassified \<Rightarrow> ''unclassified'')"

section \<open>What the processor does next\<close>

text \<open>
  The program counter after an operation that completes without a trap, with the status register \<open>sr\<close>
  and the loop counter \<open>n\<close> before it; none when the target comes from a register, the stack or a vector.
\<close>

definition next_pc :: "M68kIrOperation \<Rightarrow> u16 \<Rightarrow> u32 \<Rightarrow> u32 option" where
  "next_pc op sr n =
    (let target = (\<lambda>width. m68k_branch_target (operation_address op)
           (branch_displacement width (ea_immediate_value (ir_source_ea op))))
     in case ir_kind op of
       Ir_general_branch \<Rightarrow>
         Some (if m68k_evaluate_condition (ir_condition op) sr then target (ir_size op) else operation_next op)
     | Ir_bsr_call \<Rightarrow> Some (target (ir_size op))
     | Ir_dbcc_loop \<Rightarrow>
         Some (if m68k_evaluate_condition (ir_condition op) sr \<or> dbcc_expired (m68k_evaluate_dbcc_decrement n)
               then operation_next op else target Width_word)
     | Ir_jump_general \<Rightarrow>
         if m68k_is_statically_foldable_control_ea (ir_source_ea op) then Some (m68k_canonical_ea_address (ir_source_ea op)) else None
     | Ir_call_general \<Rightarrow>
         if m68k_is_statically_foldable_control_ea (ir_source_ea op) then Some (m68k_canonical_ea_address (ir_source_ea op)) else None
     | Ir_write_moveq \<Rightarrow> Some (operation_address op + 2)
     | Ir_return_from_subroutine \<Rightarrow> None
     | Ir_return_from_exception \<Rightarrow> None
     | Ir_return_restore_condition_codes \<Rightarrow> None
     | Ir_trap_exception \<Rightarrow> None
     | Ir_instruction_exception \<Rightarrow> None
     | _ \<Rightarrow> Some (operation_next op))"

text \<open>The three kinds of the first frontend, which the effect layer leaves to that frontend.\<close>

definition early_kinds :: "M68kIrKind list" where
  "early_kinds = [Ir_subtract_quick_long_d0, Ir_branch_ne_short, Ir_branch_always_short]"

lemmas effect_group_defs = effect_flow_def effect_stack_bits_def effect_multiply_exception_def effect_decimal_exchange_def
  effect_moves_def effect_arithmetic_def effect_system_def

lemmas effect_field_defs = fx_next_def fx_source_def fx_both_def fx_modify_def fx_discard_def fx_ccr_def fx_raises_def fx_a7_def
  note_exchange_def effect_init_def

definition pc_view :: "M68kOperationEffect \<Rightarrow> M68kPcEffectKind \<times> u32 \<times> u32 \<times> M68kStackEffectKind" where
  "pc_view e = (fx_pc e, fx_pc_delta e, fx_direct_target e, fx_stack e)"

lemma pc_view_steps:
  "pc_view (note_ea_auto_update ea e) = pc_view e" "pc_view (note_register_write e) = pc_view e"
  "pc_view (note_subtract_quick op e) = pc_view e" "pc_view (note_address_write e) = pc_view e"
  "pc_view (note_destination op e) = pc_view e" "pc_view (note_stack_pointer op e) = pc_view e"
  "pc_view (e\<lparr>fx_complete := b\<rparr>) = pc_view e"
  by (simp_all add: pc_view_def note_ea_auto_update_def note_register_write_def note_subtract_quick_def
      note_address_write_def note_destination_def note_stack_pointer_def fx_a7_def split: option.split)

lemma pc_view_footprint: "pc_view (effect_footprint op e) = pc_view e"
  by (simp add: effect_footprint_def Let_def pc_view_steps)


definition transfer_kinds :: "M68kIrKind list" where
  "transfer_kinds = [Ir_general_branch, Ir_bsr_call, Ir_dbcc_loop, Ir_jump_general, Ir_call_general,
     Ir_return_from_subroutine, Ir_return_from_exception, Ir_return_restore_condition_codes, Ir_instruction_exception]"

lemma advance_kind:
  assumes "ir_kind op \<notin> set transfer_kinds" "ir_kind op \<notin> set early_kinds"
  shows "fx_pc (m68k_operation_effect op) = Pc_advance \<and>
    fx_pc_delta (m68k_operation_effect op) = (if ir_kind op = Ir_write_moveq then 2 else pv_length (ir_provenance op)) \<and>
    fx_stack (m68k_operation_effect op) \<noteq> Stack_push_static_continuation"
proof -
  have "pc_view (m68k_operation_effect op) = (case pc_view (m68k_operation_effect op) of (_, _, x, y) \<Rightarrow>
      (Pc_advance, if ir_kind op = Ir_write_moveq then 2 else pv_length (ir_provenance op), x, y)) \<and>
    snd (snd (snd (pc_view (m68k_operation_effect op)))) \<noteq> Stack_push_static_continuation"
    unfolding m68k_operation_effect_def pc_view_footprint
    using assms unfolding transfer_kinds_def early_kinds_def
    by (cases "ir_kind op"; simp add: effect_group_defs pc_view_def effect_field_defs Let_def)
  then show ?thesis by (simp add: pc_view_def)
qed

lemma transfer_kind:
  fixes op
  defines "e \<equiv> m68k_operation_effect op"
    and "target \<equiv> \<lambda>width. m68k_branch_target (operation_address op) (branch_displacement width (ea_immediate_value (ir_source_ea op)))"
    and "folds \<equiv> m68k_is_statically_foldable_control_ea (ir_source_ea op)"
    and "address \<equiv> m68k_canonical_ea_address (ir_source_ea op)"
  shows "ir_kind op = Ir_general_branch \<Longrightarrow> fx_pc e = Pc_direct_target \<and> fx_direct_target e = target (ir_size op) \<and> fx_stack e = Stack_none"
    and "ir_kind op = Ir_dbcc_loop \<Longrightarrow> fx_pc e = Pc_direct_target \<and> fx_direct_target e = target Width_word \<and> fx_stack e = Stack_none"
    and "ir_kind op = Ir_bsr_call \<Longrightarrow> fx_pc e = Pc_direct_target \<and> fx_direct_target e = target (ir_size op) \<and> fx_stack e = Stack_push_static_continuation"
    and "ir_kind op = Ir_jump_general \<Longrightarrow> fx_pc e = (if folds then Pc_direct_target else Pc_none) \<and> (folds \<longrightarrow> fx_direct_target e = address) \<and> fx_stack e = Stack_none"
    and "ir_kind op = Ir_call_general \<Longrightarrow> fx_pc e = (if folds then Pc_direct_target else Pc_none) \<and> (folds \<longrightarrow> fx_direct_target e = address) \<and> fx_stack e = Stack_push_static_continuation"
    and "ir_kind op = Ir_return_from_subroutine \<Longrightarrow> fx_pc e = Pc_observed_stack_return \<and> fx_stack e = Stack_pop_static_return"
    and "ir_kind op = Ir_return_from_exception \<or> ir_kind op = Ir_return_restore_condition_codes \<Longrightarrow>
      fx_pc e = Pc_observed_exception_return \<and> fx_stack e = Stack_pop_exception_frame"
    and "ir_kind op = Ir_instruction_exception \<Longrightarrow> fx_pc e = Pc_exception_entry \<and> fx_stack e = Stack_none"
    and "ir_kind op \<in> set early_kinds \<Longrightarrow> fx_pc e = Pc_none \<and> fx_stack e = Stack_none"
proof -
  have v: "pc_view e = pc_view (effect_flow op (effect_stack_bits op (effect_multiply_exception op
       (effect_decimal_exchange op (effect_moves op (effect_arithmetic op (effect_system op effect_init)))))))"
    unfolding e_def m68k_operation_effect_def by (rule pc_view_footprint)
  note u = v [unfolded pc_view_def]
  show "ir_kind op = Ir_general_branch \<Longrightarrow> fx_pc e = Pc_direct_target \<and> fx_direct_target e = target (ir_size op) \<and> fx_stack e = Stack_none"
    using u by (simp add: effect_group_defs effect_field_defs target_def operation_address_def)
  show "ir_kind op = Ir_dbcc_loop \<Longrightarrow> fx_pc e = Pc_direct_target \<and> fx_direct_target e = target Width_word \<and> fx_stack e = Stack_none"
    using u by (simp add: effect_group_defs effect_field_defs target_def operation_address_def)
  show "ir_kind op = Ir_bsr_call \<Longrightarrow> fx_pc e = Pc_direct_target \<and> fx_direct_target e = target (ir_size op) \<and> fx_stack e = Stack_push_static_continuation"
    using u by (simp add: effect_group_defs effect_field_defs target_def operation_address_def)
  show "ir_kind op = Ir_jump_general \<Longrightarrow> fx_pc e = (if folds then Pc_direct_target else Pc_none) \<and> (folds \<longrightarrow> fx_direct_target e = address) \<and> fx_stack e = Stack_none"
    using u by (simp add: effect_group_defs effect_field_defs folds_def address_def Let_def)
  show "ir_kind op = Ir_call_general \<Longrightarrow> fx_pc e = (if folds then Pc_direct_target else Pc_none) \<and> (folds \<longrightarrow> fx_direct_target e = address) \<and> fx_stack e = Stack_push_static_continuation"
    using u by (simp add: effect_group_defs effect_field_defs folds_def address_def Let_def)
  show "ir_kind op = Ir_return_from_subroutine \<Longrightarrow> fx_pc e = Pc_observed_stack_return \<and> fx_stack e = Stack_pop_static_return"
    using u by (simp add: effect_group_defs effect_field_defs)
  show "ir_kind op = Ir_return_from_exception \<or> ir_kind op = Ir_return_restore_condition_codes \<Longrightarrow>
      fx_pc e = Pc_observed_exception_return \<and> fx_stack e = Stack_pop_exception_frame"
    using u by (elim disjE) (simp_all add: effect_group_defs effect_field_defs)
  show "ir_kind op = Ir_instruction_exception \<Longrightarrow> fx_pc e = Pc_exception_entry \<and> fx_stack e = Stack_none"
    using u by (simp add: effect_group_defs effect_field_defs)
  show "fx_pc e = Pc_none \<and> fx_stack e = Stack_none" if "ir_kind op \<in> set early_kinds"
  proof -
    have "ir_kind op = Ir_subtract_quick_long_d0 \<or> ir_kind op = Ir_branch_ne_short \<or> ir_kind op = Ir_branch_always_short"
      using that by (simp add: early_kinds_def)
    then show ?thesis using u by (elim disjE) (simp_all add: effect_group_defs effect_field_defs)
  qed
qed

text \<open>The successors, by the kind of the operation.\<close>

lemma control_advancing:
  assumes "ir_kind op \<notin> set transfer_kinds" "ir_kind op \<notin> set early_kinds"
  shows "cs_successors (m68k_control_successors op) = (if ir_kind op = Ir_trap_exception then [] else
      [(Succ_fallthrough, if ir_kind op = Ir_write_moveq then operation_address op + 2 else operation_next op)]) \<and>
    cs_dynamic (m68k_control_successors op) = Fam_none \<and> \<not> cs_always_raises (m68k_control_successors op)"
  using advance_kind [OF assms]
  by (simp add: m68k_control_successors_def control_pc_def control_advance_def control_pushed_def control_call_def
      control_init_def operation_next_def Let_def)

lemmas control_defs = m68k_control_successors_def control_pc_def control_direct_def control_pushed_def control_call_def
  control_init_def Let_def

lemma control_transfer:
  fixes op
  defines "out \<equiv> m68k_control_successors op"
    and "target \<equiv> \<lambda>width. m68k_branch_target (operation_address op) (branch_displacement width (ea_immediate_value (ir_source_ea op)))"
    and "folds \<equiv> m68k_is_statically_foldable_control_ea (ir_source_ea op)"
    and "address \<equiv> m68k_canonical_ea_address (ir_source_ea op)"
  shows "ir_kind op = Ir_general_branch \<Longrightarrow> cs_successors out = (if ir_condition op = Cond_always then [(Succ_branch_target, target (ir_size op))]
      else [(Succ_conditional_target, target (ir_size op)), (Succ_conditional_fallthrough, operation_next op)])"
    and "ir_kind op = Ir_dbcc_loop \<Longrightarrow> cs_successors out =
      [(Succ_conditional_target, target Width_word), (Succ_conditional_fallthrough, operation_next op)]"
    and "ir_kind op = Ir_bsr_call \<Longrightarrow> cs_successors out = [(Succ_call_target, target (ir_size op))]"
    and "ir_kind op = Ir_jump_general \<Longrightarrow> cs_successors out = (if folds then [(Succ_branch_target, address)] else [])"
    and "ir_kind op = Ir_call_general \<Longrightarrow> cs_successors out = (if folds then [(Succ_call_target, address)] else [])"
    and "ir_kind op \<in> {Ir_return_from_subroutine, Ir_return_from_exception, Ir_return_restore_condition_codes,
      Ir_instruction_exception} \<Longrightarrow> cs_successors out = []"
    and "ir_kind op \<in> set early_kinds \<Longrightarrow> cs_successors out = []"
  using transfer_kind [of op] unfolding out_def target_def folds_def address_def
  by (auto simp: control_defs)


section \<open>Completeness and exactness\<close>

lemma advancing_next:
  assumes "ir_kind op \<notin> set transfer_kinds" "ir_kind op \<noteq> Ir_trap_exception"
  shows "next_pc op sr n = Some (if ir_kind op = Ir_write_moveq then operation_address op + 2 else operation_next op)"
  using assms unfolding next_pc_def transfer_kinds_def by (cases "ir_kind op"; simp)

lemma condition_always: "m68k_evaluate_condition Cond_always sr"
  by (simp add: m68k_evaluate_condition_def)

lemma successors_complete:
  assumes "ir_kind op \<notin> set early_kinds" "next_pc op sr n = Some pc"
  shows "pc \<in> snd ` set (cs_successors (m68k_control_successors op))"
proof (cases "ir_kind op \<in> set transfer_kinds")
  case True
  then show ?thesis using assms(2) control_transfer [of op] condition_always
    unfolding transfer_kinds_def by (auto simp: next_pc_def split: if_splits)
next
  case False
  have t: "ir_kind op \<noteq> Ir_trap_exception" using assms(2) by (auto simp: next_pc_def)
  then show ?thesis using control_advancing [OF False assms(1)] advancing_next [OF False t] assms(2) by simp
qed

lemma indirect_family_some: "indirect_family op \<noteq> Fam_none"
  by (cases "ea_mode (ir_source_ea op)"; simp add: indirect_family_def)

lemma unresolved_reported:
  assumes "next_pc op sr n = None"
  shows "cs_successors (m68k_control_successors op) = [] \<and>
    (cs_dynamic (m68k_control_successors op) \<noteq> Fam_none \<or> cs_always_raises (m68k_control_successors op) \<or>
     cs_stacked (m68k_control_successors op) = Cont_exception_continuation \<and>
       cs_stacked_address (m68k_control_successors op) = operation_next op)"
proof -
  have "ir_kind op \<in> {Ir_jump_general, Ir_call_general, Ir_return_from_subroutine, Ir_return_from_exception,
      Ir_return_restore_condition_codes, Ir_trap_exception, Ir_instruction_exception}"
    using assms unfolding next_pc_def by (cases "ir_kind op"; simp add: Let_def)
  then consider (go) "ir_kind op = Ir_jump_general \<or> ir_kind op = Ir_call_general" "\<not> m68k_is_statically_foldable_control_ea (ir_source_ea op)"
    | (trap) "ir_kind op = Ir_trap_exception" | (raise) "ir_kind op = Ir_instruction_exception"
    | (ret) "ir_kind op = Ir_return_from_subroutine \<or> ir_kind op = Ir_return_from_exception \<or> ir_kind op = Ir_return_restore_condition_codes"
    using assms unfolding next_pc_def by (auto split: if_splits)
  then show ?thesis
  proof cases
    case go
    then show ?thesis using transfer_kind(4,5) [of op] indirect_family_some [of op] by (auto simp: control_defs)
  next
    case trap
    then show ?thesis using advance_kind [of op]
      by (simp add: control_defs control_advance_def transfer_kinds_def early_kinds_def operation_next_def)
  next
    case raise
    then show ?thesis using transfer_kind(8) [of op] by (simp add: control_defs)
  next
    case ret
    then show ?thesis using transfer_kind(6,7) [of op] by (auto simp: control_defs)
  qed
qed

lemma condition_can_hold: "c \<noteq> Cond_never \<Longrightarrow> \<exists>sr. m68k_evaluate_condition c sr"
proof -
  assume "c \<noteq> Cond_never"
  then have "m68k_evaluate_condition c 0 \<or> m68k_evaluate_condition c 4 \<or> m68k_evaluate_condition c 1 \<or>
      m68k_evaluate_condition c 2 \<or> m68k_evaluate_condition c 8"
    by (cases c; simp add: m68k_evaluate_condition_def Let_def)
  then show ?thesis by blast
qed

lemma condition_can_fail: "c \<noteq> Cond_always \<Longrightarrow> \<exists>sr. \<not> m68k_evaluate_condition c sr"
proof -
  assume "c \<noteq> Cond_always"
  then have "\<not> m68k_evaluate_condition c 0 \<or> \<not> m68k_evaluate_condition c 4 \<or> \<not> m68k_evaluate_condition c 1 \<or>
      \<not> m68k_evaluate_condition c 2 \<or> \<not> m68k_evaluate_condition c 8"
    by (cases c; simp add: m68k_evaluate_condition_def Let_def)
  then show ?thesis by blast
qed

lemma loop_counter: "dbcc_expired (m68k_evaluate_dbcc_decrement 0)" "\<not> dbcc_expired (m68k_evaluate_dbcc_decrement 1)"
  by code_simp+

lemma successors_exact:
  assumes "pc \<in> snd ` set (cs_successors (m68k_control_successors op))"
    "ir_kind op = Ir_general_branch \<Longrightarrow> ir_condition op \<noteq> Cond_never"
    "ir_kind op = Ir_dbcc_loop \<Longrightarrow> ir_condition op \<noteq> Cond_always"
  shows "\<exists>sr n. next_pc op sr n = Some pc"
proof -
  have early: "ir_kind op \<notin> set early_kinds" using assms(1) control_transfer(7) [of op] by auto
  show ?thesis
  proof (cases "ir_kind op \<in> set transfer_kinds")
    case False
    then have "ir_kind op \<noteq> Ir_trap_exception" using assms(1) control_advancing [OF False early] by auto
    then show ?thesis using assms(1) control_advancing [OF False early] advancing_next [OF False] by auto
  next
    case True
    then consider (br) "ir_kind op = Ir_general_branch" | (db) "ir_kind op = Ir_dbcc_loop"
      | (rest) "ir_kind op \<noteq> Ir_general_branch" "ir_kind op \<noteq> Ir_dbcc_loop" by blast
    then show ?thesis
    proof cases
      case br
      obtain sr where "m68k_evaluate_condition (ir_condition op) sr" using condition_can_hold assms(2) br by blast
      moreover obtain sr' where "ir_condition op \<noteq> Cond_always \<longrightarrow> \<not> m68k_evaluate_condition (ir_condition op) sr'"
        using condition_can_fail by blast
      ultimately show ?thesis using assms(1) control_transfer(1) [OF br] br
        by (auto simp: next_pc_def split: if_splits intro: exI [of _ sr] exI [of _ sr'])
    next
      case db
      obtain sr where "\<not> m68k_evaluate_condition (ir_condition op) sr" using condition_can_fail assms(3) db by blast
      then show ?thesis using assms(1) control_transfer(2) [OF db] db loop_counter
        by (auto simp: next_pc_def intro: exI [of _ sr] exI [of _ 0] exI [of _ 1])
    next
      case rest
      then show ?thesis using assms(1) True control_transfer(3-6) [of op]
        unfolding transfer_kinds_def by (auto simp: next_pc_def split: if_splits)
    qed
  qed
qed


text \<open>
  CHK resumes at the stacked next instruction like TRAPV, after a handler that may change any register,
  but no exception continuation is recorded for it.
\<close>

lemma check_bounds_unrecorded:
  assumes "ir_kind op = Ir_check_bounds"
  shows "cs_stacked (m68k_control_successors op) = Cont_none"
  using assms advance_kind [of op] by (simp add: control_defs control_advance_def transfer_kinds_def early_kinds_def)

text \<open>
  C6. The fixed successors are complete: the program counter that follows an operation is one of its
  successors, or the operation is reported as unclassified; where none is known from the operation
  alone, no successor is listed, and a dynamic family, the entry of an exception or the stacked
  continuation of a trap is reported instead.
\<close>

theorem control_successors_complete:
  "case next_pc op sr n of
     Some pc \<Rightarrow> pc \<in> snd ` set (cs_successors (m68k_control_successors op)) \<or> cs_dynamic (m68k_control_successors op) = Fam_unclassified
   | None \<Rightarrow> cs_successors (m68k_control_successors op) = [] \<and>
       (cs_dynamic (m68k_control_successors op) \<noteq> Fam_none \<or> cs_always_raises (m68k_control_successors op) \<or>
        cs_stacked (m68k_control_successors op) = Cont_exception_continuation \<and>
          cs_stacked_address (m68k_control_successors op) = operation_next op)"
proof (cases "next_pc op sr n")
  case None
  then show ?thesis using unresolved_reported by simp
next
  case (Some pc)
  show ?thesis
  proof (cases "ir_kind op \<in> set early_kinds")
    case True
    then have "cs_dynamic (m68k_control_successors op) = Fam_unclassified"
      using transfer_kind(9) [OF True] by (auto simp: control_defs early_kinds_def)
    then show ?thesis using Some by simp
  next
    case False
    then show ?thesis using successors_complete [OF False Some] Some by simp
  qed
qed

theorem control_successors_complete_witness:
  "operation_address operation_init + 2 \<in> snd ` set (cs_successors (m68k_control_successors operation_init))"
proof -
  have n: "next_pc operation_init 0 0 = Some (operation_address operation_init + 2)"
    by (simp add: next_pc_def operation_init_def Let_def)
  have k: "ir_kind operation_init \<notin> set transfer_kinds" "ir_kind operation_init \<notin> set early_kinds"
    by (simp_all add: operation_init_def transfer_kinds_def early_kinds_def)
  then have "cs_dynamic (m68k_control_successors operation_init) \<noteq> Fam_unclassified" using control_advancing [OF k] by simp
  then show ?thesis using control_successors_complete [of operation_init 0 0] n by simp
qed

text \<open>
  C7. The fixed successors are exact: every one of them follows the operation for some status register and
  loop counter, for branches that the decoder can produce (a branch is not conditional on \<open>never\<close>) and
  loops that can branch (not conditional on \<open>always\<close>).
\<close>

theorem control_successors_exact:
  assumes "pc \<in> snd ` set (cs_successors (m68k_control_successors op))"
    "ir_kind op = Ir_general_branch \<Longrightarrow> ir_condition op \<noteq> Cond_never"
    "ir_kind op = Ir_dbcc_loop \<Longrightarrow> ir_condition op \<noteq> Cond_always"
  shows "\<exists>sr n. next_pc op sr n = Some pc"
  using successors_exact assms by blast

theorem control_successors_exact_witness:
  "\<exists>sr n. next_pc (operation_init\<lparr>ir_kind := Ir_dbcc_loop, ir_condition := Cond_never, ir_source_ea := ea_init\<lparr>ea_immediate_value := 0xFFFE\<rparr>\<rparr>) sr n
     = Some (m68k_branch_target (operation_address operation_init) (- 2))"
proof (rule control_successors_exact)
  show "m68k_branch_target (operation_address operation_init) (- 2) \<in> snd ` set (cs_successors (m68k_control_successors
      (operation_init\<lparr>ir_kind := Ir_dbcc_loop, ir_condition := Cond_never, ir_source_ea := ea_init\<lparr>ea_immediate_value := 0xFFFE\<rparr>\<rparr>)))"
    by (simp add: control_transfer(2) operation_address_def branch_displacement_def)
qed simp_all

end
