(* ===== verification/M68k_Finite_Total.thy ===== *)
theory M68k_Finite_Total
  imports M68k_Finite
begin

text \<open>
  The transfer of \<^verbatim>\<open>finite_register_values.cpp\<close> ends whenever its inputs do: the second contract of
  \<^verbatim>\<open>M68kFiniteValueInputs\<close>, the locale \<open>total_inputs\<close>. Where the inputs answer every question
  and keep a property of their own state, so does the transfer.
\<close>

locale total_inputs =
  fixes data_register_before :: "nat \<Rightarrow> nat \<Rightarrow> ('s, M68kFiniteValues) evaluation"
    and immutable_read :: "u32 \<Rightarrow> nat \<Rightarrow> 's \<Rightarrow> u32 option \<times> 's"
    and ok :: "'s \<Rightarrow> bool"
  assumes before_total: "ok s \<Longrightarrow> \<exists>v s'. data_register_before r w s = Some (v, s') \<and> ok s'"
    and reads_total: "ok s \<Longrightarrow> ok (snd (immutable_read a n s))"
begin

lemma read_table_ok: "ok s \<Longrightarrow> ok (snd (read_table immutable_read ea b m vs out t s))"
proof (induction vs arbitrary: out t s)
  case (Cons v vs)
  obtain x s1 where r: "immutable_read (m68k_pc_index_address ea v) (b div 8) s = (x, s1)" by fastforce
  then have "ok s1" using reads_total [OF Cons.prems] by (metis snd_conv)
  then show ?case using Cons r by (auto simp: Let_def split: option.split)
qed simp

lemma read_source_total:
  assumes "ok s"
  shows "\<exists>src t' s'. read_source data_register_before immutable_read ea r bits w t b s = Some ((src, t'), s') \<and> ok s'"
proof -
  obtain vs s1 where 1: "data_register_before (unat (ea_reg ea)) w s = Some (vs, s1)" "ok s1" using before_total [OF assms] by blast
  obtain ix s2 where 2: "data_register_before (unat (ea_index_reg ea)) (if ea_index_is_long ea then 32 else 16) s = Some (ix, s2)"
    "ok s2" using before_total [OF assms] by blast
  obtain es t3 s3 where 3: "read_table immutable_read ea b (low_mask bits) (fv_values ix) [] t s2 = ((es, t3), s3)"
    by (metis surj_pair)
  then have 33: "ok s3" using read_table_ok [OF 2(2)] by (metis snd_conv)
  obtain x s4 where 4: "immutable_read (ea_absolute_address ea AND 0x00FFFFFF) (b div 8) s = (x, s4)" by fastforce
  then have 44: "ok s4" using reads_total [OF assms] by (metis snd_conv)
  show ?thesis using assms 1(2) 2(2) 33 44
    by (cases x) (simp_all add: read_source_def Let_def 1 2(1) 3 4)
qed

lemma old_values_total: "ok s \<Longrightarrow> \<exists>old s'. old_values data_register_before bits r w s = Some (old, s') \<and> ok s'"
  using before_total by (simp add: old_values_def)

lemma transfer_move_total:
  assumes "ok s"
  shows "\<exists>t' s'. transfer_move data_register_before immutable_read op r w bits t s = Some (t', s') \<and> ok s'"
proof -
  obtain src t1 s1 where 1: "read_source data_register_before immutable_read (ir_source_ea op) r bits w t (width_bits (ir_size op)) s
      = Some ((src, t1), s1)" "ok s1" using read_source_total [OF assms] by blast
  obtain vs s2 where 2: "data_register_before r w s1 = Some (vs, s2)" "ok s2" using before_total [OF 1(2)] by blast
  obtain old s3 where 3: "old_values data_register_before bits r w s1 = Some (old, s3)" "ok s3" using old_values_total [OF 1(2)] by blast
  show ?thesis using 1(2) 2(2) 3(2) by (simp add: transfer_move_def 1(1) 2(1) 3(1))
qed

lemma transfer_arithmetic_total:
  assumes "ok s"
  shows "\<exists>t' s'. transfer_arithmetic data_register_before immutable_read op r w bits t s = Some (t', s') \<and> ok s'"
proof -
  obtain src t1 s1 where 1: "read_source data_register_before immutable_read (ir_source_ea op) r bits w t (width_bits (ir_size op)) s
      = Some ((src, t1), s1)" "ok s1" using read_source_total [OF assms] by blast
  obtain vs s2 where 2: "data_register_before r w s1 = Some (vs, s2)" "ok s2" using before_total [OF 1(2)] by blast
  show ?thesis using 1(2) 2(2) by (simp add: transfer_arithmetic_def 1(1) 2(1))
qed

text \<open>The whole transfer answers.\<close>

lemma register_after_total:
  assumes "ok s"
  shows "\<exists>t s'. m68k_finite_register_after data_register_before immutable_read op r w s = Some (t, s') \<and> ok s'"
proof -
  let ?t = "transfer_init\<lparr>ft_writes := True\<rparr>" and ?bits = "min (width_bits (ir_size op)) w"
  obtain vs s1 where b: "data_register_before r w s = Some (vs, s1)" "ok s1" using before_total [OF assms] by blast
  obtain old s2 where o: "old_values data_register_before ?bits r w s = Some (old, s2)" "ok s2" using old_values_total [OF assms] by blast
  have e: "\<exists>t s'. transfer_extend data_register_before op r w s = Some (t, s') \<and> ok s'"
    using assms b(2) by (simp add: transfer_extend_def b(1) Let_def)
  have sh: "\<exists>t s'. transfer_shift data_register_before op r w ?t s = Some (t, s') \<and> ok s'"
    using assms b(2) by (simp add: transfer_shift_def b(1) Let_def)
  note total = e sh transfer_move_total [OF assms, of op r w ?bits ?t] transfer_arithmetic_total [OF assms, of op r w ?bits ?t]
  show ?thesis unfolding m68k_finite_register_after_def Let_def
    using assms o(2) by (simp add: total o(1))
qed

end

end
