(* ===== verification/Genesis_Evaluator.thy ===== *)
theory Genesis_Evaluator
  imports Genesis_Program M68k_Control M68k_Finite_Total
begin

text \<open>
  The backward evaluation of a data register over the predecessors the challenger knows, the class
  \<^verbatim>\<open>IndexEvaluator\<close> of \<^verbatim>\<open>machine/genesis/reachability_challenger.cpp\<close>, and the resolution of
  a PC-indexed jump with it. The state of the class is the record \<open>index_state\<close>; the recursion runs on
  fuel, and \<open>index_before_total\<close> shows that the step budget of the class bounds it. The reference is \<open>flow\<close>:
  every way the registers can come to an instruction along the edges.
\<close>

section \<open>The graph\<close>

datatype EdgeKind = Edge_fallthrough | Edge_taken | Edge_not_taken | Edge_call | Edge_dynamic

record Edge =
  ed_from :: u32
  ed_kind :: EdgeKind

definition edge_kind :: "M68kControlSuccessorKind \<Rightarrow> EdgeKind" where
  "edge_kind kind = (case kind of
       Succ_fallthrough \<Rightarrow> Edge_fallthrough
     | Succ_branch_target \<Rightarrow> Edge_fallthrough
     | Succ_conditional_target \<Rightarrow> Edge_taken
     | Succ_conditional_fallthrough \<Rightarrow> Edge_not_taken
     | Succ_call_target \<Rightarrow> Edge_call)"

record GenesisReachabilityInstruction =
  gi_operation :: M68kIrOperation
  gi_length :: u32

datatype GenesisPcIndexUnknownOrigin =
    Origin_none | Origin_machine_root | Origin_return_continuation | Origin_no_known_predecessor | Origin_cycle
  | Origin_untracked_load_or_source | Origin_arithmetic_on_unknown | Origin_unsupported_writer | Origin_limit_exceeded

text \<open>What the evaluator refers to, and its roots.\<close>

record index_graph =
  ig_instructions :: "u32 \<rightharpoonup> GenesisReachabilityInstruction"
  ig_predecessors :: "u32 \<rightharpoonup> Edge list"
  ig_opaque :: "u32 set"
  ig_roots :: "u32 set"
  ig_program :: FrontendProgram

section \<open>The evaluator\<close>

record index_state =
  ie_memo :: "nat \<times> nat \<times> u32 \<rightharpoonup> M68kFiniteValues"
  ie_active :: "(nat \<times> nat \<times> u32) set"
  ie_current :: u32
  ie_steps :: nat
  ie_exhausted :: bool
  ie_read_failed :: bool
  ie_proof :: u32
  ie_table_reads :: nat
  ie_misaligned :: nat
  ie_entries :: "u32 set"
  ie_origin :: "GenesisPcIndexUnknownOrigin option"

definition index_init :: index_state where
  "index_init = \<lparr>ie_memo = Map.empty, ie_active = {}, ie_current = 0, ie_steps = 0, ie_exhausted = False,
     ie_read_failed = False, ie_proof = 0, ie_table_reads = 0, ie_misaligned = 0, ie_entries = {}, ie_origin = None\<rparr>"

definition evaluation_budget :: nat where "evaluation_budget = 20000"

definition note_origin :: "GenesisPcIndexUnknownOrigin \<Rightarrow> index_state \<Rightarrow> index_state" where
  "note_origin origin s = (if ie_origin s = None then s\<lparr>ie_origin := Some origin\<rparr> else s)"

definition index_read :: "index_graph \<Rightarrow> u32 \<Rightarrow> nat \<Rightarrow> index_state \<Rightarrow> u32 option \<times> index_state" where
  "index_read g address n s =
     (let v = immutable_read (ig_program g) address n
      in (v, if v = None then s else s\<lparr>ie_entries := insert address (ie_entries s)\<rparr>))"

definition arithmetic_origin_kinds :: "M68kIrKind list" where
  "arithmetic_origin_kinds = [Ir_add, Ir_subtract, Ir_logical_and, Ir_logical_or, Ir_add_immediate,
     Ir_subtract_immediate, Ir_logical_and_immediate]"

definition unknown_origin :: "M68kIrKind \<Rightarrow> GenesisPcIndexUnknownOrigin" where
  "unknown_origin kind = (if kind = Ir_write_move then Origin_untracked_load_or_source
     else if kind \<in> set arithmetic_origin_kinds then Origin_arithmetic_on_unknown else Origin_unsupported_writer)"

text \<open>What a transfer leaves in the state of the evaluator.\<close>

definition index_account :: "u32 \<Rightarrow> M68kFiniteTransfer \<Rightarrow> index_state \<Rightarrow> index_state" where
  "index_account saved t s = s\<lparr>ie_current := saved, ie_proof := ie_proof s OR ft_proof t,
     ie_table_reads := ie_table_reads s + ft_table_reads t, ie_misaligned := ie_misaligned s + ft_misaligned t\<rparr>"

type_synonym register_query = "nat \<Rightarrow> nat \<Rightarrow> u32 \<Rightarrow> (index_state, M68kFiniteValues) evaluation"

definition index_after :: "index_graph \<Rightarrow> register_query \<Rightarrow> register_query" where
  "index_after g before reg width pc s =
     (case ig_instructions g pc of
        None \<Rightarrow> Some (fv_unknown, s)
      | Some found \<Rightarrow> do {
          (t, s1) \<leftarrow> m68k_finite_register_after (\<lambda>reg width s. before reg width (ie_current s) s) (index_read g)
             (gi_operation found) reg width (s\<lparr>ie_current := pc\<rparr>);
          let s2 = index_account (ie_current s) t s1;
          if ft_read_failed t then Some (fv_unknown, s2\<lparr>ie_read_failed := True\<rparr>)
          else if \<not> ft_writes t then before reg width pc s2
          else Some (ft_values t,
            if fv_known (ft_values t) then s2 else note_origin (unknown_origin (ir_kind (gi_operation found))) s2) })"

text \<open>The narrowing by a branch, only where its sole predecessor is the flag setter right before it.\<close>

definition edge_filter :: "index_graph \<Rightarrow> Edge \<Rightarrow> nat \<Rightarrow> nat \<Rightarrow> M68kFiniteValues \<Rightarrow> M68kFiniteValues option" where
  "edge_filter g edge reg width value =
     (if fv_known value \<and> (ed_kind edge = Edge_taken \<or> ed_kind edge = Edge_not_taken) \<and> ed_from edge \<notin> ig_opaque g
      then (case ig_predecessors g (ed_from edge) of
          Some [pred] \<Rightarrow>
            if ed_kind pred \<noteq> Edge_fallthrough then None
            else (case (ig_instructions g (ed_from pred), ig_instructions g (ed_from edge)) of
                (Some setter, Some branch) \<Rightarrow>
                  if ed_from pred + gi_length setter \<noteq> ed_from edge then None
                  else m68k_finite_branch_filter (gi_operation setter) (gi_operation branch) (ed_kind edge = Edge_taken)
                         reg width value
              | _ \<Rightarrow> None)
        | _ \<Rightarrow> None)
      else None)"

definition edge_proof :: "Edge \<Rightarrow> bool \<Rightarrow> u32" where
  "edge_proof edge guarded = (if guarded then proof_guard else 0) OR
     (if ed_kind edge = Edge_call then proof_call_edge else 0) OR (if ed_kind edge = Edge_dynamic then proof_dynamic_edge else 0)"

fun index_edges ::
  "index_graph \<Rightarrow> register_query \<Rightarrow> nat \<Rightarrow> nat \<Rightarrow> Edge list \<Rightarrow> M68kFiniteValues \<Rightarrow> (index_state, M68kFiniteValues) evaluation" where
  "index_edges g before reg width [] acc s = Some (acc, s)"
| "index_edges g before reg width (edge # edges) acc s = do {
     (value, s) \<leftarrow> index_after g before reg width (ed_from edge) s;
     let guarded = edge_filter g edge reg width value;
     let s = s\<lparr>ie_proof := ie_proof s OR edge_proof edge (guarded \<noteq> None)\<rparr>;
     let acc = m68k_finite_union acc (case guarded of None \<Rightarrow> value | Some v \<Rightarrow> v) width;
     if \<not> fv_known acc then Some (acc, s) else index_edges g before reg width edges acc s }"

definition index_predecessors :: "index_graph \<Rightarrow> u32 \<Rightarrow> Edge list" where
  "index_predecessors g pc = (case ig_predecessors g pc of None \<Rightarrow> [] | Some es \<Rightarrow> es)"

definition entry_origin :: "index_graph \<Rightarrow> u32 \<Rightarrow> GenesisPcIndexUnknownOrigin" where
  "entry_origin g pc = (if pc \<in> ig_roots g then Origin_machine_root
     else if pc \<in> ig_opaque g then Origin_return_continuation else Origin_no_known_predecessor)"

definition index_step :: "index_graph \<Rightarrow> register_query \<Rightarrow> register_query" where
  "index_step g before reg width pc s =
    (let key = (reg, width, pc) in
     case ie_memo s key of
       Some v \<Rightarrow> Some (v, s)
     | None \<Rightarrow>
         if key \<in> ie_active s then Some (fv_unknown, note_origin Origin_cycle s)
         else if ie_steps s \<ge> evaluation_budget then Some (fv_unknown, s\<lparr>ie_steps := ie_steps s + 1, ie_exhausted := True\<rparr>)
         else let s = s\<lparr>ie_steps := ie_steps s + 1\<rparr> in
           if pc \<in> ig_opaque g \<or> index_predecessors g pc = []
           then (let s = note_origin (entry_origin g pc) s in Some (fv_unknown, s\<lparr>ie_memo := (ie_memo s)(key \<mapsto> fv_unknown)\<rparr>))
           else do {
             (acc, s) \<leftarrow> index_edges g before reg width (index_predecessors g pc) (fv_of [] width)
                (s\<lparr>ie_active := insert key (ie_active s)\<rparr>);
             Some (acc, s\<lparr>ie_active := ie_active s - {key}, ie_memo := (ie_memo s)(key \<mapsto> acc)\<rparr>) })"

primrec index_before :: "nat \<Rightarrow> index_graph \<Rightarrow> register_query" where
  "index_before 0 g = (\<lambda>reg width pc s. None)"
| "index_before (Suc n) g = index_step g (index_before n g)"

section \<open>A PC-indexed site\<close>

datatype GenesisPcIndexOutcome =
    Outcome_resolved | Outcome_index_unknown | Outcome_resource_limit | Outcome_address_register_index
  | Outcome_entry_outside_immutable_image | Outcome_target_outside_image | Outcome_empty_domain | Outcome_invalidated
  | Outcome_width_only_domain

record GenesisPcIndexSiteRecovery =
  ps_call :: bool
  ps_outcome :: GenesisPcIndexOutcome
  ps_targets :: "u32 list"
  ps_proof :: u32
  ps_table_reads :: nat
  ps_misaligned :: nat
  ps_odd_targets :: nat
  ps_first_round :: nat
  ps_unknown_origin :: GenesisPcIndexUnknownOrigin

definition site_init :: "bool \<Rightarrow> GenesisPcIndexSiteRecovery" where
  "site_init call = \<lparr>ps_call = call, ps_outcome = Outcome_index_unknown, ps_targets = [], ps_proof = 0,
     ps_table_reads = 0, ps_misaligned = 0, ps_odd_targets = 0, ps_first_round = 0, ps_unknown_origin = Origin_none\<rparr>"

text \<open>The loop over the values; the targets, or none when one of them is not mapped, with the odd ones counted.\<close>

fun site_targets :: "FrontendProgram \<Rightarrow> M68kEffectiveAddress \<Rightarrow> u32 list \<Rightarrow> nat \<Rightarrow> u32 list \<Rightarrow> nat \<times> u32 list option" where
  "site_targets program ea [] excluded targets = (excluded, Some targets)"
| "site_targets program ea (v # vs) excluded targets =
     (let target = m68k_pc_index_address ea v in
      if target AND 1 \<noteq> 0 then site_targets program ea vs (excluded + 1) targets
      else if \<not> decoder_mapped program target then (excluded, None)
      else site_targets program ea vs excluded (target # targets))"

definition site_values ::
  "FrontendProgram \<Rightarrow> M68kEffectiveAddress \<Rightarrow> u32 list \<Rightarrow> GenesisPcIndexSiteRecovery \<Rightarrow> GenesisPcIndexSiteRecovery" where
  "site_values program ea vs out =
     (case site_targets program ea vs 0 [] of
        (excluded, None) \<Rightarrow> out\<lparr>ps_odd_targets := excluded, ps_outcome := Outcome_target_outside_image\<rparr>
      | (excluded, Some targets) \<Rightarrow>
          let out = out\<lparr>ps_odd_targets := excluded\<rparr> in
          if targets = [] then out\<lparr>ps_outcome := Outcome_empty_domain\<rparr>
          else out\<lparr>ps_outcome := Outcome_resolved, ps_targets := sort (remdups targets)\<rparr>)"

definition site_verdict ::
  "FrontendProgram \<Rightarrow> M68kEffectiveAddress \<Rightarrow> bool \<Rightarrow> M68kFiniteValues \<Rightarrow> index_state \<Rightarrow> GenesisPcIndexSiteRecovery \<Rightarrow>
   GenesisPcIndexSiteRecovery" where
  "site_verdict program ea accept_width_domains index s out =
     (let out = out\<lparr>ps_proof := ie_proof s, ps_table_reads := ie_table_reads s, ps_misaligned := ie_misaligned s\<rparr> in
      if ie_read_failed s then out\<lparr>ps_outcome := Outcome_entry_outside_immutable_image\<rparr>
      else if ie_exhausted s then out\<lparr>ps_outcome := Outcome_resource_limit\<rparr>
      else if \<not> fv_known index
      then out\<lparr>ps_unknown_origin := (case ie_origin s of None \<Rightarrow> Origin_limit_exceeded | Some origin \<Rightarrow> origin)\<rparr>
      else if fv_width_derived index \<and> \<not> accept_width_domains then out\<lparr>ps_outcome := Outcome_width_only_domain\<rparr>
      else site_values program ea (fv_values index) out)"

definition index_width :: "M68kEffectiveAddress \<Rightarrow> nat" where
  "index_width ea = (if ea_index_is_long ea then 32 else 16)"

text \<open>The site and the entry addresses its proof has read; the fuel is one more than the budget.\<close>

definition resolve_pc_index_site ::
  "GenesisReachabilityInstruction \<Rightarrow> u32 \<Rightarrow> index_graph \<Rightarrow> bool \<Rightarrow> u32 set \<Rightarrow> (GenesisPcIndexSiteRecovery \<times> u32 set) option" where
  "resolve_pc_index_site site pc g accept_width_domains entries =
    (let ea = ir_source_ea (gi_operation site); out = site_init (ir_kind (gi_operation site) = Ir_call_general) in
     if ea_mode ea \<noteq> Ea_pc_index8 then Some (out, entries)
     else if ea_index_is_address ea then Some (out\<lparr>ps_outcome := Outcome_address_register_index\<rparr>, entries)
     else do {
       (index, s) \<leftarrow> index_before (Suc evaluation_budget) g (unat (ea_index_reg ea)) (index_width ea) pc index_init;
       let out = site_verdict (ig_program g) ea accept_width_domains index s out;
       Some (out, if ps_outcome out = Outcome_resolved then entries \<union> ie_entries s else entries) })"

definition is_pc_index_site :: "GenesisReachabilityInstruction \<Rightarrow> bool" where
  "is_pc_index_site site \<longleftrightarrow>
     (ir_kind (gi_operation site) = Ir_jump_general \<or> ir_kind (gi_operation site) = Ir_call_general) \<and>
     ea_mode (ir_source_ea (gi_operation site)) = Ea_pc_index8"

end
