(* ===== verification/Genesis_Challenger.thy ===== *)
theory Genesis_Challenger
  imports Genesis_Evaluator M68k_Decode
begin

text \<open>
  The reachability challenger of \<^verbatim>\<open>machine/genesis/reachability_challenger.cpp\<close>: from the roots it
  decodes one instruction at each reached program counter, follows the fixed successors, resumes
  the continuations that calls and traps stack, and resolves PC-indexed sites, to a fixed point.
  A \<^verbatim>\<open>std::map\<close> is an association list in ascending order, a \<^verbatim>\<open>std::set\<close> that is walked
  is a sorted list, any other one a set.
\<close>

section \<open>The decoder at a program counter\<close>

datatype DecodeFailure = Failure_odd | Failure_unmapped | Failure_rejected

definition claim_overlaps :: "u32 \<Rightarrow> nat \<Rightarrow> MappingClaim \<Rightarrow> bool" where
  "claim_overlaps source len c \<longleftrightarrow> pa_space (mc_target_begin c) = m68k_program \<and>
     source < pa_value (mc_target_end c) \<and> unat (pa_value (mc_target_begin c)) < unat source + len"

text \<open>The other claims are told from this one by value: an equal one would own \<open>source\<close> too.\<close>

definition decode_in ::
  "FrontendProgram \<Rightarrow> MappingClaim \<Rightarrow> u32 \<Rightarrow> u32 \<Rightarrow> nat \<Rightarrow> DecodeFailure + GenesisReachabilityInstruction" where
  "decode_in program claim pc source span_limit =
    (let img = slice (unat (mc_image_begin claim)) (unat (mc_image_end claim - mc_image_begin claim)) (fp_bytes program);
         local = (ucast source - ucast (pa_value (mc_target_begin claim)) :: u64);
         decode_source = \<lparr>ds_cpu_variant = Cpu_mc68000, ds_address = \<lparr>pa_space = m68k_program, pa_value = pc\<rparr>,
           ds_image_offset = local\<rparr>
     in case decode_m68k_instruction img decode_source Profile_general_startup of
          Rejected _ \<Rightarrow> Inl Failure_rejected
        | Decoded i \<Rightarrow>
            let len = unat (pv_length (di_provenance i)) in
            if len < 2 \<or> len > span_limit \<or> unat local + len > length img then Inl Failure_rejected
            else if list_ex (\<lambda>other. other \<noteq> claim \<and> claim_overlaps source len other) (fp_claims program)
            then Inl Failure_unmapped
            else Inr \<lparr>gi_operation = lift_m68k_instruction (i\<lparr>di_provenance := (di_provenance i)\<lparr>pv_source :=
                         (pv_source (di_provenance i))\<lparr>ds_image_offset := mc_image_begin claim + local\<rparr>\<rparr>\<rparr>),
                       gi_length = pv_length (di_provenance i)\<rparr>)"

definition decoder_decode :: "FrontendProgram \<Rightarrow> u32 \<Rightarrow> DecodeFailure + GenesisReachabilityInstruction" where
  "decoder_decode program pc =
    (if pc AND 1 \<noteq> 0 then Inl Failure_odd
     else case List.find (alias_holds pc) (fp_aliases program) of
         Some a \<Rightarrow>
           (let offset = pc - al_execution_base a in
            case unique_rom_claim program (al_source_base a + offset) of
              None \<Rightarrow> Inl Failure_unmapped
            | Some c \<Rightarrow> decode_in program c pc (al_source_base a + offset) (unat (al_length a - offset)))
       | None \<Rightarrow>
           (case unique_rom_claim program pc of
              None \<Rightarrow> Inl Failure_unmapped
            | Some c \<Rightarrow> decode_in program c pc pc (unat (pa_value (mc_target_end c) - pc))))"

section \<open>Push windows\<close>

definition is_long_push_to_a7 :: "M68kIrOperation \<Rightarrow> bool" where
  "is_long_push_to_a7 op \<longleftrightarrow> ir_kind op = Ir_write_move \<and> ir_size op = Width_long_word \<and>
     ea_mode (ir_destination_ea op) = Ea_address_predec \<and> ea_reg (ir_destination_ea op) = 7"

definition push_window :: nat where "push_window = 8"

text \<open>The instructions that a walk goes on to; it stops where the stack pointer may change.\<close>

definition push_next :: "u32 \<Rightarrow> nat \<Rightarrow> GenesisReachabilityInstruction \<Rightarrow> (u32 \<times> nat) list" where
  "push_next address depth found =
    (let op = gi_operation found; effect = m68k_operation_effect op; next = address + gi_length found in
     if \<not> fx_complete effect \<or> fx_address_mask effect AND 0x80 \<noteq> 0 \<or> fx_stack effect \<noteq> Stack_none then []
     else if ir_kind op = Ir_general_branch
     then (fx_direct_target effect AND bus_mask, depth + 1) # (if ir_condition op \<noteq> Cond_always then [(next, depth + 1)] else [])
     else if fx_pc effect = Pc_advance then [(next, depth + 1)] else [])"

text \<open>A program counter that is visited leaves one less to visit.\<close>

lemma fewer_unvisited: "x \<notin> V \<Longrightarrow> card (- insert x (V :: u32 set)) < card (- V)"
  by (rule psubset_card_mono) auto

function push_walk ::
  "(u32 \<rightharpoonup> GenesisReachabilityInstruction) \<Rightarrow> (u32 \<times> nat) list \<Rightarrow> u32 set \<Rightarrow> u32 set \<Rightarrow> u32 set" where
  "push_walk instructions [] visited result = result"
| "push_walk instructions ((address, depth) # walk) visited result =
    (if depth > push_window \<or> address \<in> visited then push_walk instructions walk visited result
     else case instructions address of
         None \<Rightarrow> push_walk instructions walk (insert address visited) result
       | Some found \<Rightarrow>
           if ir_kind (gi_operation found) = Ir_return_from_subroutine
           then push_walk instructions walk (insert address visited) (insert address result)
           else push_walk instructions (walk @ push_next address depth found) (insert address visited) result)"
  by pat_completeness auto

termination
  by (relation "measures [\<lambda>(_, _, visited, _). card (- visited), \<lambda>(_, walk, _, _). length walk]")
    (auto simp: fewer_unvisited simp del: Compl_insert)

definition genesis_push_window_rts :: "(u32 \<times> GenesisReachabilityInstruction) list \<Rightarrow> u32 set" where
  "genesis_push_window_rts instructions =
     foldl (\<lambda>result (address, push).
         if is_long_push_to_a7 (gi_operation push)
         then push_walk (map_of instructions) [(address + gi_length push, 1)] {} result else result)
       {} instructions"

section \<open>The state of a run\<close>

datatype GenesisReachabilityExceptionModel = Model_strict | Model_normal_resumption

record GenesisReachabilityChallengerConfig =
  cf_exception_model :: GenesisReachabilityExceptionModel
  cf_pea_continuations :: bool
  cf_pc_index_recovery :: bool
  cf_pc_index_width_domains :: bool

record challenger_state =
  ch_roots :: "u32 list"
  ch_vector_roots :: nat
  ch_instructions :: "(u32 \<times> GenesisReachabilityInstruction) list"
  ch_visited :: "u32 set"
  ch_queue :: "u32 list"
  ch_rts_sites :: "u32 set"
  ch_rtr_sites :: "u32 set"
  ch_rte_sites :: "u32 set"
  ch_discovered :: "(u32 \<times> u32) list"
  ch_call_continuations :: "u32 list"
  ch_exception_continuations :: "u32 list"
  ch_pushed_code_addresses :: "u32 list"
  ch_sites :: "M68kDynamicControlFamily \<Rightarrow> u32 set"
  ch_push_window_sites :: "u32 set"
  ch_rejected :: "u32 set"
  ch_unmapped :: "u32 set"
  ch_odd :: "u32 set"
  ch_rounds :: nat
  ch_continuations_enabled :: bool
  ch_pc_index_sites :: "(u32 \<times> GenesisPcIndexSiteRecovery) list"
  ch_recovered_targets :: "u32 set"
  ch_recovery_rounds :: nat
  ch_recovery_round :: nat
  ch_recovery_started :: bool
  ch_discovered_before :: nat
  ch_sites_before :: "M68kDynamicControlFamily \<Rightarrow> nat"
  ch_table_entries :: "u32 set"
  ch_exception_raising :: nat
  ch_invalidated :: "u32 set"
  ch_overlapping_starts :: nat
  ch_table_entries_overlapping :: nat

definition challenger_init :: "FrontendProgram \<Rightarrow> challenger_state" where
  "challenger_init program =
    (let roots = genesis_reachability_roots program in
     \<lparr>ch_roots = gr_roots roots, ch_vector_roots = gr_vector_roots roots, ch_instructions = [], ch_visited = {},
      ch_queue = gr_roots roots, ch_rts_sites = {}, ch_rtr_sites = {}, ch_rte_sites = {}, ch_discovered = [],
      ch_call_continuations = [], ch_exception_continuations = [], ch_pushed_code_addresses = [], ch_sites = (\<lambda>_. {}),
      ch_push_window_sites = {}, ch_rejected = {}, ch_unmapped = {}, ch_odd = {}, ch_rounds = 0,
      ch_continuations_enabled = False, ch_pc_index_sites = [], ch_recovered_targets = {}, ch_recovery_rounds = 0,
      ch_recovery_round = 0, ch_recovery_started = False, ch_discovered_before = 0, ch_sites_before = (\<lambda>_. 0),
      ch_table_entries = {}, ch_exception_raising = 0, ch_invalidated = {}, ch_overlapping_starts = 0,
      ch_table_entries_overlapping = 0\<rparr>)"

section \<open>Discovery\<close>

definition note_stacked :: "M68kControlSuccessors \<Rightarrow> challenger_state \<Rightarrow> challenger_state" where
  "note_stacked control s =
    (let address = cs_stacked_address control AND bus_mask in
     case cs_stacked control of
       Cont_call_continuation \<Rightarrow> s\<lparr>ch_call_continuations := insort_insert address (ch_call_continuations s)\<rparr>
     | Cont_exception_continuation \<Rightarrow> s\<lparr>ch_exception_continuations := insort_insert address (ch_exception_continuations s)\<rparr>
     | Cont_pushed_code_address \<Rightarrow> s\<lparr>ch_pushed_code_addresses := insort_insert address (ch_pushed_code_addresses s)\<rparr>
     | Cont_none \<Rightarrow> s)"

definition note_returns :: "u32 \<Rightarrow> M68kDynamicControlFamily \<Rightarrow> challenger_state \<Rightarrow> challenger_state" where
  "note_returns pc family s =
    (if family = Fam_return_from_subroutine then s\<lparr>ch_rts_sites := insert pc (ch_rts_sites s)\<rparr>
     else if family = Fam_return_restore_condition_codes then s\<lparr>ch_rtr_sites := insert pc (ch_rtr_sites s)\<rparr>
     else if family = Fam_return_from_exception then s\<lparr>ch_rte_sites := insert pc (ch_rte_sites s)\<rparr>
     else s)"

definition note_dynamic :: "u32 \<Rightarrow> M68kDynamicControlFamily \<Rightarrow> challenger_state \<Rightarrow> challenger_state" where
  "note_dynamic pc family s =
    (if family \<noteq> Fam_none then s\<lparr>ch_sites := (ch_sites s)(family := insert pc (ch_sites s family))\<rparr> else s)"

definition note_site ::
  "GenesisReachabilityChallengerConfig \<Rightarrow> u32 \<Rightarrow> GenesisReachabilityInstruction \<Rightarrow> challenger_state \<Rightarrow> challenger_state" where
  "note_site config pc decoded s =
    (if cf_pc_index_recovery config \<and> is_pc_index_site decoded
     then s\<lparr>ch_pc_index_sites := insort_key fst
            (pc, (site_init (ir_kind (gi_operation decoded) = Ir_call_general))\<lparr>ps_first_round := ch_recovery_round s\<rparr>)
            (ch_pc_index_sites s)\<rparr>
     else s)"

definition successor_targets :: "M68kIrOperation \<Rightarrow> u32 list" where
  "successor_targets op = map (\<lambda>(kind, target). target AND bus_mask) (cs_successors (m68k_control_successors op))"

definition discover ::
  "GenesisReachabilityChallengerConfig \<Rightarrow> u32 \<Rightarrow> GenesisReachabilityInstruction \<Rightarrow> challenger_state \<Rightarrow> challenger_state" where
  "discover config pc decoded s =
    (let control = m68k_control_successors (gi_operation decoded) in
     note_site config pc decoded (note_dynamic pc (cs_dynamic control) (note_returns pc (cs_dynamic control)
       (note_stacked control
         (s\<lparr>ch_instructions := insort_key fst (pc, decoded) (ch_instructions s),
            ch_discovered := insort_key fst (pc, gi_length decoded) (ch_discovered s),
            ch_exception_raising := ch_exception_raising s + (if cs_always_raises control then 1 else 0),
            ch_queue := ch_queue s @ successor_targets (gi_operation decoded)\<rparr>)))))"

definition drain_step ::
  "FrontendProgram \<Rightarrow> GenesisReachabilityChallengerConfig \<Rightarrow> u32 \<Rightarrow> challenger_state \<Rightarrow> challenger_state" where
  "drain_step program config pc s = (case decoder_decode program pc of
       Inl Failure_odd \<Rightarrow> s\<lparr>ch_odd := insert pc (ch_odd s)\<rparr>
     | Inl Failure_unmapped \<Rightarrow> s\<lparr>ch_unmapped := insert pc (ch_unmapped s)\<rparr>
     | Inl Failure_rejected \<Rightarrow> s\<lparr>ch_rejected := insert pc (ch_rejected s)\<rparr>
     | Inr decoded \<Rightarrow> discover config pc decoded s)"

lemma note_visited [simp]:
  "ch_visited (note_stacked control s) = ch_visited s" "ch_visited (note_returns pc family s) = ch_visited s"
  "ch_visited (note_dynamic pc family s) = ch_visited s" "ch_visited (note_site config pc decoded s) = ch_visited s"
  by (simp_all add: note_stacked_def note_returns_def note_dynamic_def note_site_def Let_def
      split: M68kStackedContinuationKind.split)

lemma drain_step_visited [simp]: "ch_visited (drain_step program config pc s) = ch_visited s"
  by (simp add: drain_step_def discover_def Let_def split: sum.split DecodeFailure.split)

function drain :: "FrontendProgram \<Rightarrow> GenesisReachabilityChallengerConfig \<Rightarrow> challenger_state \<Rightarrow> challenger_state" where
  "drain program config s = (case ch_queue s of
       [] \<Rightarrow> s
     | front # rest \<Rightarrow>
         (let pc = front AND bus_mask; s = s\<lparr>ch_queue := rest\<rparr> in
          if pc \<in> ch_visited s then drain program config s
          else drain program config (drain_step program config pc (s\<lparr>ch_visited := insert pc (ch_visited s)\<rparr>))))"
  by pat_completeness auto

termination
  by (relation "measures [\<lambda>(_, _, s). card (- ch_visited s), \<lambda>(_, _, s). length (ch_queue s)]")
    (auto simp: fewer_unvisited simp del: Compl_insert)

declare drain.simps [simp del] push_walk.simps [simp del]

section \<open>Resumption\<close>

definition normal_resumption :: "GenesisReachabilityChallengerConfig \<Rightarrow> bool" where
  "normal_resumption config \<longleftrightarrow> cf_exception_model config = Model_normal_resumption"

definition enable_continuations :: "GenesisReachabilityChallengerConfig \<Rightarrow> challenger_state \<Rightarrow> challenger_state" where
  "enable_continuations config s =
    (if ch_continuations_enabled s then s
     else s\<lparr>ch_continuations_enabled := \<not> ch_rts_sites s \<subseteq> genesis_push_window_rts (ch_instructions s) \<or>
       normal_resumption config \<and> ch_rtr_sites s \<noteq> {}\<rparr>)"

definition unvisited :: "challenger_state \<Rightarrow> u32 list \<Rightarrow> u32 list" where
  "unvisited s targets = filter (\<lambda>t. t \<notin> ch_visited s) targets"

definition resumed :: "GenesisReachabilityChallengerConfig \<Rightarrow> challenger_state \<Rightarrow> u32 list" where
  "resumed config s =
    (if ch_continuations_enabled s
     then unvisited s (ch_call_continuations s) @
       (if cf_pea_continuations config then unvisited s (ch_pushed_code_addresses s) else [])
     else []) @
    (if normal_resumption config \<and> ch_rte_sites s \<noteq> {} then unvisited s (ch_exception_continuations s) else [])"

section \<open>Recovery\<close>

definition begin_recovery :: "challenger_state \<Rightarrow> challenger_state" where
  "begin_recovery s =
    (if ch_recovery_started s then s
     else s\<lparr>ch_recovery_started := True, ch_discovered_before := length (ch_discovered s),
            ch_sites_before := (\<lambda>family. card (ch_sites s family))\<rparr>)"

definition fixed_edges :: "(u32 \<times> GenesisReachabilityInstruction) list \<Rightarrow> (u32 \<times> Edge) list" where
  "fixed_edges instructions = concat (map (\<lambda>(pc, decoded).
     map (\<lambda>(kind, target). (target AND bus_mask, \<lparr>ed_from = pc, ed_kind = edge_kind kind\<rparr>))
       (cs_successors (m68k_control_successors (gi_operation decoded)))) instructions)"

definition dynamic_edges :: "(u32 \<times> GenesisPcIndexSiteRecovery) list \<Rightarrow> (u32 \<times> Edge) list" where
  "dynamic_edges sites = concat (map (\<lambda>(pc, site).
     if ps_outcome site = Outcome_resolved
     then map (\<lambda>target. (target, \<lparr>ed_from = pc, ed_kind = Edge_dynamic\<rparr>)) (ps_targets site) else []) sites)"

definition predecessor_map :: "(u32 \<times> Edge) list \<Rightarrow> u32 \<rightharpoonup> Edge list" where
  "predecessor_map edges target =
    (let es = map snd (filter (\<lambda>(t, _). t = target) edges) in if es = [] then None else Some es)"

definition recovery_graph :: "FrontendProgram \<Rightarrow> challenger_state \<Rightarrow> index_graph" where
  "recovery_graph program s =
     \<lparr>ig_instructions = map_of (ch_instructions s),
      ig_predecessors = predecessor_map (fixed_edges (ch_instructions s) @ dynamic_edges (ch_pc_index_sites s)),
      ig_opaque = set (ch_roots s) \<union> set (ch_call_continuations s) \<union> set (ch_exception_continuations s) \<union>
        set (ch_pushed_code_addresses s),
      ig_roots = set (ch_roots s),
      ig_program = program\<rparr>"

text \<open>One site; the rest of the state changes along, whether a target set changed comes back with it.\<close>

definition recover_site ::
  "index_graph \<Rightarrow> GenesisReachabilityChallengerConfig \<Rightarrow> u32 set \<Rightarrow> u32 \<Rightarrow> GenesisPcIndexSiteRecovery \<Rightarrow> challenger_state \<Rightarrow>
   (GenesisPcIndexSiteRecovery \<times> bool \<times> challenger_state) option" where
  "recover_site g config pinned pc site s =
    (if pc \<in> pinned then Some (site\<lparr>ps_outcome := Outcome_invalidated\<rparr>, False, s)
     else do {
       decoded \<leftarrow> ig_instructions g pc;
       (next, entries) \<leftarrow> resolve_pc_index_site decoded pc g (cf_pc_index_width_domains config) (ch_table_entries s);
       let next = next\<lparr>ps_first_round := ps_first_round site\<rparr>;
       let lost = (ps_outcome site = Outcome_resolved \<and>
         (ps_outcome next \<noteq> Outcome_resolved \<or> \<not> set (ps_targets site) \<subseteq> set (ps_targets next)));
       Some (next, ps_targets next \<noteq> ps_targets site,
         s\<lparr>ch_table_entries := entries,
           ch_invalidated := (if lost then insert pc (ch_invalidated s) else ch_invalidated s),
           ch_queue := ch_queue s @ unvisited s (ps_targets next)\<rparr>) })"

fun recover_sites ::
  "index_graph \<Rightarrow> GenesisReachabilityChallengerConfig \<Rightarrow> u32 set \<Rightarrow> (u32 \<times> GenesisPcIndexSiteRecovery) list \<Rightarrow> challenger_state \<Rightarrow>
   ((u32 \<times> GenesisPcIndexSiteRecovery) list \<times> bool \<times> challenger_state) option" where
  "recover_sites g config pinned [] s = Some ([], False, s)"
| "recover_sites g config pinned ((pc, site) # sites) s = do {
     (next, changed, s) \<leftarrow> recover_site g config pinned pc site s;
     (rest, more, s) \<leftarrow> recover_sites g config pinned sites s;
     Some ((pc, next) # rest, changed \<or> more, s) }"

definition recover ::
  "FrontendProgram \<Rightarrow> GenesisReachabilityChallengerConfig \<Rightarrow> u32 set \<Rightarrow> challenger_state \<Rightarrow> (bool \<times> challenger_state) option" where
  "recover program config pinned s =
    (let s = begin_recovery s in do {
       (sites, changed, s) \<leftarrow> recover_sites (recovery_graph program s) config pinned (ch_pc_index_sites s)
          (s\<lparr>ch_table_entries := {}\<rparr>);
       Some (changed, s\<lparr>ch_pc_index_sites := sites\<rparr>) })"

section \<open>The run\<close>

text \<open>
  One pass of the loop: it goes on with a state or ends with one. A pass that goes on has visited more or
  has grown a target set, so the loop ends (theory \<^verbatim>\<open>Genesis_Challenger_Sound\<close>); \<open>run_rounds\<close> runs it on fuel.
\<close>

datatype pass = Go_on challenger_state | Finished challenger_state

definition run_pass ::
  "FrontendProgram \<Rightarrow> GenesisReachabilityChallengerConfig \<Rightarrow> u32 set \<Rightarrow> challenger_state \<Rightarrow> pass option" where
  "run_pass program config pinned s =
    (let s = enable_continuations config (drain program config s) in
     if resumed config s \<noteq> [] then Some (Go_on (s\<lparr>ch_queue := ch_queue s @ resumed config s, ch_rounds := ch_rounds s + 1\<rparr>))
     else if \<not> cf_pc_index_recovery config then Some (Finished s)
     else do {
       (changed, s) \<leftarrow> recover program config pinned s;
       Some (if ch_invalidated s \<noteq> {} then Finished s
             else if \<not> changed \<and> ch_queue s = [] then Finished s
             else Go_on (s\<lparr>ch_recovery_round := ch_recovery_round s + 1, ch_recovery_rounds := ch_recovery_rounds s + 1\<rparr>)) })"

primrec run_rounds ::
  "nat \<Rightarrow> FrontendProgram \<Rightarrow> GenesisReachabilityChallengerConfig \<Rightarrow> u32 set \<Rightarrow> challenger_state \<Rightarrow> challenger_state option" where
  "run_rounds 0 program config pinned s = None"
| "run_rounds (Suc n) program config pinned s = (case run_pass program config pinned s of
       None \<Rightarrow> None
     | Some (Finished s') \<Rightarrow> Some s'
     | Some (Go_on s') \<Rightarrow> run_rounds n program config pinned s')"

text \<open>The classification at the end, left out when a proof was invalidated.\<close>

definition classify_push_windows :: "challenger_state \<Rightarrow> challenger_state" where
  "classify_push_windows s =
    (let computed = genesis_push_window_rts (ch_instructions s) in
     s\<lparr>ch_sites := (ch_sites s)(Fam_return_from_subroutine := ch_sites s Fam_return_from_subroutine - computed),
       ch_push_window_sites := ch_push_window_sites s \<union> computed\<rparr>)"

definition resolved_sites :: "challenger_state \<Rightarrow> (u32 \<times> GenesisPcIndexSiteRecovery) list" where
  "resolved_sites s = filter (\<lambda>(pc, site). ps_outcome site = Outcome_resolved) (ch_pc_index_sites s)"

definition classify_resolved :: "challenger_state \<Rightarrow> challenger_state" where
  "classify_resolved s =
    foldl (\<lambda>s (pc, site).
        let family = (if ps_call site then Fam_call_pc_index else Fam_jump_pc_index) in
        s\<lparr>ch_sites := (ch_sites s)(family := ch_sites s family - {pc}),
          ch_recovered_targets := ch_recovered_targets s \<union> set (ps_targets site)\<rparr>)
      s (resolved_sites s)"

definition count_overlaps :: "(u32 \<times> u32) list \<Rightarrow> nat" where
  "count_overlaps discovered =
     length (filter (\<lambda>((pc, len), (next, _)). next < pc + len) (zip discovered (tl discovered)))"

definition covering_start :: "(u32 \<times> u32) list \<Rightarrow> u32 \<Rightarrow> bool" where
  "covering_start discovered entry =
    (case filter (\<lambda>(pc, _). pc \<le> entry) discovered of
       [] \<Rightarrow> False
     | starts \<Rightarrow> (case last starts of (pc, len) \<Rightarrow> entry < pc + len))"

definition finish_run :: "challenger_state \<Rightarrow> challenger_state" where
  "finish_run s =
    (let s = classify_resolved (classify_push_windows s) in
     s\<lparr>ch_overlapping_starts := count_overlaps (ch_discovered s),
       ch_table_entries_overlapping := card {entry \<in> ch_table_entries s. covering_start (ch_discovered s) entry}\<rparr>)"

definition run_once ::
  "nat \<Rightarrow> FrontendProgram \<Rightarrow> GenesisReachabilityChallengerConfig \<Rightarrow> u32 set \<Rightarrow> challenger_state option" where
  "run_once n program config pinned = do {
     s \<leftarrow> run_rounds n program config pinned (challenger_init program);
     Some (if ch_invalidated s \<noteq> {} then s else finish_run s) }"

text \<open>The restarts, each with the invalidated sites pinned; the count of restarts is the second component.\<close>

fun run_restarts ::
  "nat \<Rightarrow> nat \<Rightarrow> FrontendProgram \<Rightarrow> GenesisReachabilityChallengerConfig \<Rightarrow> u32 set \<Rightarrow> nat \<Rightarrow> (challenger_state \<times> nat) option" where
  "run_restarts n 0 program config pinned restarts = None"
| "run_restarts n (Suc m) program config pinned restarts = do {
     s \<leftarrow> run_once n program config pinned;
     if ch_invalidated s = {} then Some (s, restarts)
     else run_restarts n m program config (pinned \<union> ch_invalidated s) (restarts + 1) }"

text \<open>Fuel for the passes of a run and for the restarts.\<close>

definition pass_fuel :: nat where "pass_fuel = 2 ^ 32 + 2 ^ 64 + 1"
definition restart_fuel :: nat where "restart_fuel = 2 ^ 32 + 1"

definition run_genesis_reachability_challenger ::
  "FrontendProgram \<Rightarrow> GenesisReachabilityChallengerConfig \<Rightarrow> (challenger_state \<times> nat) option" where
  "run_genesis_reachability_challenger program config = run_restarts pass_fuel restart_fuel program config {} 0"

end
