(* ===== verification/Genesis_Discovery.thy ===== *)
theory Genesis_Discovery
  imports Genesis_Challenger
begin

text \<open>
  The work list of the challenger. What a state has explored is an invariant of every step: each visited
  program counter is an instruction or one of the three failures, each discovered instruction has its
  successors reached and its continuation, its return and its PC-indexed site recorded.
\<close>

section \<open>What a state has explored\<close>

definition reached :: "challenger_state \<Rightarrow> u32 set" where
  "reached s = ch_visited s \<union> (\<lambda>t. t AND bus_mask) ` set (ch_queue s)"

text \<open>All that discovering an instruction leaves behind.\<close>

definition noted :: "GenesisReachabilityChallengerConfig \<Rightarrow> challenger_state \<Rightarrow> u32 \<Rightarrow> GenesisReachabilityInstruction \<Rightarrow> bool" where
  "noted config s pc i \<longleftrightarrow>
    (let control = m68k_control_successors (gi_operation i) in
     set (successor_targets (gi_operation i)) \<subseteq> reached s \<and>
     (cs_stacked control = Cont_call_continuation \<longrightarrow> cs_stacked_address control AND bus_mask \<in> set (ch_call_continuations s)) \<and>
     (cs_stacked control = Cont_exception_continuation \<longrightarrow>
        cs_stacked_address control AND bus_mask \<in> set (ch_exception_continuations s)) \<and>
     (cs_dynamic control = Fam_return_from_subroutine \<longrightarrow> pc \<in> ch_rts_sites s) \<and>
     (cs_dynamic control = Fam_return_restore_condition_codes \<longrightarrow> pc \<in> ch_rtr_sites s) \<and>
     (cs_dynamic control = Fam_return_from_exception \<longrightarrow> pc \<in> ch_rte_sites s) \<and>
     (cf_pc_index_recovery config \<and> is_pc_index_site i \<longrightarrow> pc \<in> fst ` set (ch_pc_index_sites s)))"

definition visit_noted :: "FrontendProgram \<Rightarrow> challenger_state \<Rightarrow> u32 \<Rightarrow> bool" where
  "visit_noted program s pc \<longleftrightarrow> (case decoder_decode program pc of
       Inl Failure_odd \<Rightarrow> map_of (ch_instructions s) pc = None \<and> pc \<in> ch_odd s
     | Inl Failure_unmapped \<Rightarrow> map_of (ch_instructions s) pc = None \<and> pc \<in> ch_unmapped s
     | Inl Failure_rejected \<Rightarrow> map_of (ch_instructions s) pc = None \<and> pc \<in> ch_rejected s
     | Inr i \<Rightarrow> map_of (ch_instructions s) pc = Some i \<and> pc \<in> fst ` set (ch_discovered s))"

definition explored :: "FrontendProgram \<Rightarrow> GenesisReachabilityChallengerConfig \<Rightarrow> challenger_state \<Rightarrow> bool" where
  "explored program config s \<longleftrightarrow>
     (\<forall>pc \<in> ch_visited s. visit_noted program s pc) \<and>
     (\<forall>pc i. map_of (ch_instructions s) pc = Some i \<longrightarrow> pc \<in> ch_visited s \<and> noted config s pc i)"

definition continuations_on_bus :: "challenger_state \<Rightarrow> bool" where
  "continuations_on_bus s \<longleftrightarrow> (\<forall>t \<in> set (ch_call_continuations s) \<union> set (ch_exception_continuations s) \<union>
     set (ch_pushed_code_addresses s). t AND bus_mask = t)"

definition sites_kept :: "challenger_state \<Rightarrow> bool" where
  "sites_kept s \<longleftrightarrow> distinct (map fst (ch_pc_index_sites s)) \<and>
     (\<forall>pc site. (pc, site) \<in> set (ch_pc_index_sites s) \<longrightarrow> map_of (ch_instructions s) pc \<noteq> None \<and>
        (ps_outcome site = Outcome_resolved \<longleftrightarrow> ps_targets site \<noteq> []) \<and> sorted (ps_targets site) \<and>
        distinct (ps_targets site) \<and> set (ps_targets site) \<subseteq> reached s)"

definition kept :: "FrontendProgram \<Rightarrow> GenesisReachabilityChallengerConfig \<Rightarrow> challenger_state \<Rightarrow> bool" where
  "kept program config s \<longleftrightarrow> explored program config s \<and> continuations_on_bus s \<and> sites_kept s \<and>
     ch_roots s = gr_roots (genesis_reachability_roots program) \<and> set (ch_roots s) \<subseteq> reached s"

text \<open>How a state may change while the notes stay true.\<close>

definition grows :: "challenger_state \<Rightarrow> challenger_state \<Rightarrow> bool" where
  "grows s s' \<longleftrightarrow> reached s \<subseteq> reached s' \<and> set (ch_call_continuations s) \<subseteq> set (ch_call_continuations s') \<and>
     set (ch_exception_continuations s) \<subseteq> set (ch_exception_continuations s') \<and> ch_rts_sites s \<subseteq> ch_rts_sites s' \<and>
     ch_rtr_sites s \<subseteq> ch_rtr_sites s' \<and> ch_rte_sites s \<subseteq> ch_rte_sites s' \<and>
     fst ` set (ch_pc_index_sites s) \<subseteq> fst ` set (ch_pc_index_sites s')"

lemma noted_grows: "grows s s' \<Longrightarrow> noted config s pc i \<Longrightarrow> noted config s' pc i"
  unfolding grows_def noted_def Let_def by blast

lemma insort_key_set [simp]: "set (insort_key f x xs) = insert x (set xs)"
  by (rule set_insort_key)

lemma map_of_insort: "pc \<notin> fst ` set xs \<Longrightarrow> map_of (insort_key fst (pc, i) xs) = (map_of xs)(pc \<mapsto> i)"
  by (induction xs) (auto simp: fun_upd_twist)

lemma distinct_insort_fst: "distinct (map fst xs) \<Longrightarrow> pc \<notin> fst ` set xs \<Longrightarrow> distinct (map fst (insort_key fst (pc, i) xs))"
  by (induction xs) auto

lemma set_insort_insert: "set (insort_insert x xs) = insert x (set xs)"
  by (rule set_insort_insert)

lemma on_bus: "(t AND bus_mask) AND bus_mask = t AND bus_mask"
  by (simp add: and.assoc)

section \<open>Discovery\<close>

text \<open>The state after an instruction is discovered, field by field.\<close>

lemmas note_defs = note_stacked_def note_returns_def note_dynamic_def note_site_def

lemma discover_fields:
  fixes config pc i s
  defines "t \<equiv> discover config pc i s" and "control \<equiv> m68k_control_successors (gi_operation i)"
  shows "ch_queue t = ch_queue s @ successor_targets (gi_operation i)"
    and "ch_instructions t = insort_key fst (pc, i) (ch_instructions s)"
    and "ch_discovered t = insort_key fst (pc, gi_length i) (ch_discovered s)"
    and "ch_visited t = ch_visited s" "ch_roots t = ch_roots s" "ch_odd t = ch_odd s" "ch_unmapped t = ch_unmapped s"
      "ch_rejected t = ch_rejected s" "ch_invalidated t = ch_invalidated s"
      "ch_continuations_enabled t = ch_continuations_enabled s"
    and "set (ch_call_continuations t) = set (ch_call_continuations s) \<union>
      (if cs_stacked control = Cont_call_continuation then {cs_stacked_address control AND bus_mask} else {})"
    and "set (ch_exception_continuations t) = set (ch_exception_continuations s) \<union>
      (if cs_stacked control = Cont_exception_continuation then {cs_stacked_address control AND bus_mask} else {})"
    and "set (ch_pushed_code_addresses t) = set (ch_pushed_code_addresses s) \<union>
      (if cs_stacked control = Cont_pushed_code_address then {cs_stacked_address control AND bus_mask} else {})"
    and "ch_rts_sites t = ch_rts_sites s \<union> (if cs_dynamic control = Fam_return_from_subroutine then {pc} else {})"
    and "ch_rtr_sites t = ch_rtr_sites s \<union> (if cs_dynamic control = Fam_return_restore_condition_codes then {pc} else {})"
    and "ch_rte_sites t = ch_rte_sites s \<union> (if cs_dynamic control = Fam_return_from_exception then {pc} else {})"
    and "ch_pc_index_sites t = (if cf_pc_index_recovery config \<and> is_pc_index_site i
      then insort_key fst (pc, (site_init (ir_kind (gi_operation i) = Ir_call_general))\<lparr>ps_first_round := ch_recovery_round s\<rparr>)
        (ch_pc_index_sites s) else ch_pc_index_sites s)"
  unfolding t_def control_def discover_def Let_def note_defs
  by (simp_all add: set_insort_insert split: M68kStackedContinuationKind.split)

definition targets_of :: "challenger_state \<Rightarrow> u32 \<Rightarrow> u32 set" where
  "targets_of s pc = (case map_of (ch_pc_index_sites s) pc of None \<Rightarrow> {} | Some site \<Rightarrow> set (ps_targets site))"

text \<open>What one step of the work list, and so the whole of it, leaves as it was.\<close>

definition later :: "challenger_state \<Rightarrow> challenger_state \<Rightarrow> bool" where
  "later s t \<longleftrightarrow> ch_visited s \<subseteq> ch_visited t \<and> reached s \<subseteq> reached t \<and> ch_invalidated t = ch_invalidated s \<and>
     ch_continuations_enabled t = ch_continuations_enabled s \<and> targets_of t = targets_of s"

lemma later_refl: "later s s"
  by (simp add: later_def)

lemma later_trans: "later s t \<Longrightarrow> later t u \<Longrightarrow> later s u"
  unfolding later_def by auto

lemma insert_reached:
  "ch_queue s = front # rest \<Longrightarrow> ch_queue t = rest @ news \<Longrightarrow> ch_visited t = insert (front AND bus_mask) (ch_visited s) \<Longrightarrow>
   reached t = reached s \<union> (\<lambda>x. x AND bus_mask) ` set news"
  by (auto simp: reached_def)

lemma visit_noted_mono:
  "visit_noted program s x \<Longrightarrow> map_of (ch_instructions t) x = map_of (ch_instructions s) x \<Longrightarrow>
   fst ` set (ch_discovered s) \<subseteq> fst ` set (ch_discovered t) \<Longrightarrow> ch_odd s \<subseteq> ch_odd t \<Longrightarrow> ch_unmapped s \<subseteq> ch_unmapped t \<Longrightarrow>
   ch_rejected s \<subseteq> ch_rejected t \<Longrightarrow> visit_noted program t x"
  unfolding visit_noted_def by (auto split: sum.splits DecodeFailure.splits)

lemma unvisited_unknown:
  "kept program config s \<Longrightarrow> pc \<notin> ch_visited s \<Longrightarrow> map_of (ch_instructions s) pc = None \<and> pc \<notin> fst ` set (ch_pc_index_sites s)"
proof
  assume k: "kept program config s" and n: "pc \<notin> ch_visited s"
  show none: "map_of (ch_instructions s) pc = None"
    using k n unfolding kept_def explored_def by (cases "map_of (ch_instructions s) pc") auto
  show "pc \<notin> fst ` set (ch_pc_index_sites s)"
    using k none unfolding kept_def sites_kept_def by fastforce
qed

lemma successor_on_bus: "t \<in> set (successor_targets op) \<Longrightarrow> t AND bus_mask = t"
  by (auto simp: successor_targets_def on_bus)

lemma discover_grows:
  assumes "ch_queue s = front # rest" "pc = front AND bus_mask"
  shows "grows s (discover config pc i (s\<lparr>ch_queue := rest, ch_visited := insert pc (ch_visited s)\<rparr>))"
proof -
  let ?t = "discover config pc i (s\<lparr>ch_queue := rest, ch_visited := insert pc (ch_visited s)\<rparr>)"
  have "reached s \<subseteq> reached ?t" using insert_reached [OF assms(1), of ?t] assms(2) by (simp add: discover_fields)
  then show ?thesis unfolding grows_def by (auto simp: discover_fields)
qed

lemma discover_noted:
  assumes "ch_queue s = front # rest" "pc = front AND bus_mask"
  shows "noted config (discover config pc i (s\<lparr>ch_queue := rest, ch_visited := insert pc (ch_visited s)\<rparr>)) pc i"
  unfolding noted_def Let_def
proof (intro conjI)
  let ?t = "discover config pc i (s\<lparr>ch_queue := rest, ch_visited := insert pc (ch_visited s)\<rparr>)"
  have "(\<lambda>x. x AND bus_mask) ` set (successor_targets (gi_operation i)) = set (successor_targets (gi_operation i))"
    using successor_on_bus by force
  then show "set (successor_targets (gi_operation i)) \<subseteq> reached ?t"
    using insert_reached [OF assms(1), of ?t] assms(2) by (simp add: discover_fields)
qed (simp_all add: discover_fields)

lemma discover_sites:
  fixes i :: GenesisReachabilityInstruction
  assumes k: "kept program config s" and q: "ch_queue s = front # rest" "pc = front AND bus_mask" "pc \<notin> ch_visited s"
  defines "t \<equiv> discover config pc i (s\<lparr>ch_queue := rest, ch_visited := insert pc (ch_visited s)\<rparr>)"
  shows "sites_kept t \<and> targets_of t = targets_of s"
proof -
  let ?new = "(site_init (ir_kind (gi_operation i) = Ir_call_general))\<lparr>ps_first_round := ch_recovery_round s\<rparr>"
  have n: "map_of (ch_instructions s) pc = None" "pc \<notin> fst ` set (ch_pc_index_sites s)" using unvisited_unknown [OF k q(3)] by auto
  have r: "reached s \<subseteq> reached t" using discover_grows [OF q(1,2)] by (simp add: grows_def t_def)
  have i: "map_of (ch_instructions t) = (map_of (ch_instructions s))(pc \<mapsto> i)"
    using n(1) map_of_insort [of pc] by (simp add: t_def discover_fields map_of_eq_None_iff)
  have old: "\<forall>x site. (x, site) \<in> set (ch_pc_index_sites s) \<longrightarrow> map_of (ch_instructions t) x \<noteq> None \<and>
        (ps_outcome site = Outcome_resolved \<longleftrightarrow> ps_targets site \<noteq> []) \<and> sorted (ps_targets site) \<and>
        distinct (ps_targets site) \<and> set (ps_targets site) \<subseteq> reached t"
    "distinct (map fst (ch_pc_index_sites s))"
    using k r i unfolding kept_def sites_kept_def by auto
  show ?thesis
  proof (cases "cf_pc_index_recovery config \<and> is_pc_index_site i")
    case True
    then have st: "ch_pc_index_sites t = insort_key fst (pc, ?new) (ch_pc_index_sites s)" by (simp add: t_def discover_fields)
    have "targets_of t = targets_of s"
      using n(2) map_of_eq_None_iff [of "ch_pc_index_sites s" pc]
      by (auto simp: targets_of_def st map_of_insort site_init_def fun_eq_iff split: option.split)
    moreover have "sites_kept t"
      using old i n(2) unfolding sites_kept_def st by (auto simp: distinct_insort_fst site_init_def)
    ultimately show ?thesis by simp
  next
    case False
    then have st: "ch_pc_index_sites t = ch_pc_index_sites s" by (auto simp: t_def discover_fields)
    then show ?thesis using old unfolding sites_kept_def targets_of_def st by (auto simp: targets_of_def)
  qed
qed

lemma discover_kept:
  assumes k: "kept program config s" and q: "ch_queue s = front # rest" "pc = front AND bus_mask" "pc \<notin> ch_visited s"
    and d: "decoder_decode program pc = Inr i"
  defines "t \<equiv> discover config pc i (s\<lparr>ch_queue := rest, ch_visited := insert pc (ch_visited s)\<rparr>)"
  shows "kept program config t \<and> later s t"
proof -
  have n: "map_of (ch_instructions s) pc = None" using unvisited_unknown [OF k q(3)] by auto
  have g: "grows s t" using discover_grows [OF q(1,2)] by (simp add: t_def)
  have i: "map_of (ch_instructions t) = (map_of (ch_instructions s))(pc \<mapsto> i)"
    using n map_of_insort [of pc] by (simp add: t_def discover_fields map_of_eq_None_iff)
  have f: "fst ` set (ch_discovered s) \<subseteq> fst ` set (ch_discovered t)" "pc \<in> fst ` set (ch_discovered t)" "ch_odd t = ch_odd s"
    "ch_unmapped t = ch_unmapped s" "ch_rejected t = ch_rejected s" "ch_visited t = insert pc (ch_visited s)" "ch_roots t = ch_roots s"
    by (auto simp: t_def discover_fields)
  have e: "explored program config s" using k by (simp add: kept_def)
  have "visit_noted program t x" if "x \<in> ch_visited t" for x
  proof (cases "x = pc")
    case True
    then show ?thesis using d i f(2) by (simp add: visit_noted_def)
  next
    case False
    then have "visit_noted program s x" using that e f(6) by (simp add: explored_def)
    then show ?thesis using False i f by (elim visit_noted_mono) simp_all
  qed
  moreover have "x \<in> ch_visited t \<and> noted config t x j" if "map_of (ch_instructions t) x = Some j" for x j
  proof (cases "x = pc")
    case True
    then show ?thesis using that i f(6) discover_noted [OF q(1,2), of config i] by (simp add: t_def)
  next
    case False
    then have "map_of (ch_instructions s) x = Some j" using that i by simp
    then show ?thesis using e f(6) noted_grows [OF g] by (auto simp: explored_def)
  qed
  ultimately have "explored program config t" by (simp add: explored_def)
  moreover have "continuations_on_bus t"
    using k by (auto simp: kept_def continuations_on_bus_def t_def discover_fields on_bus)
  moreover note discover_sites [OF k q, of i, folded t_def]
  moreover have "set (ch_roots s) \<subseteq> reached t" using k g by (auto simp: kept_def grows_def)
  ultimately show ?thesis using k g f(6,7) unfolding kept_def later_def
    by (auto simp: grows_def t_def discover_fields)
qed


lemma failure_kept:
  assumes k: "kept program config s" and q: "ch_queue s = front # rest" "pc = front AND bus_mask" "pc \<notin> ch_visited s"
    and d: "decoder_decode program pc = Inl failure"
  defines "t \<equiv> drain_step program config pc (s\<lparr>ch_queue := rest, ch_visited := insert pc (ch_visited s)\<rparr>)"
  shows "kept program config t \<and> later s t"
proof -
  have n: "map_of (ch_instructions s) pc = None" using unvisited_unknown [OF k q(3)] by auto
  have f: "ch_visited t = insert pc (ch_visited s)" "ch_queue t = rest" "ch_instructions t = ch_instructions s" "ch_discovered t = ch_discovered s"
    "ch_odd s \<subseteq> ch_odd t" "ch_unmapped s \<subseteq> ch_unmapped t" "ch_rejected s \<subseteq> ch_rejected t" "ch_roots t = ch_roots s"
    "ch_call_continuations t = ch_call_continuations s" "ch_exception_continuations t = ch_exception_continuations s"
    "ch_pushed_code_addresses t = ch_pushed_code_addresses s" "ch_rts_sites t = ch_rts_sites s" "ch_rtr_sites t = ch_rtr_sites s"
    "ch_rte_sites t = ch_rte_sites s" "ch_pc_index_sites t = ch_pc_index_sites s" "ch_invalidated t = ch_invalidated s"
    "ch_continuations_enabled t = ch_continuations_enabled s"
    using d by (cases failure; auto simp: t_def drain_step_def)+
  have r: "reached t = reached s" using insert_reached [OF q(1), of t "[]"] f(1,2) q(2) by simp
  have g: "grows s t" unfolding grows_def by (simp add: r f)
  have here: "visit_noted program t pc" using d n f(3) by (cases failure; simp add: visit_noted_def t_def drain_step_def)
  have e: "explored program config s" using k by (simp add: kept_def)
  have "visit_noted program t x" if "x \<in> ch_visited t" for x
  proof (cases "x = pc")
    case False
    then have "visit_noted program s x" using that e f(1) by (simp add: explored_def)
    then show ?thesis using f by (elim visit_noted_mono) simp_all
  qed (use here in simp)
  then have "explored program config t" using e f noted_grows [OF g] by (auto simp: explored_def)
  then show ?thesis using k r unfolding kept_def later_def continuations_on_bus_def sites_kept_def targets_of_def f by auto
qed

lemma skip_kept:
  assumes k: "kept program config s" and q: "ch_queue s = front # rest" "front AND bus_mask \<in> ch_visited s"
  defines "t \<equiv> s\<lparr>ch_queue := rest\<rparr>"
  shows "kept program config t \<and> later s t"
proof -
  have r: "reached t = reached s" using q by (auto simp: t_def reached_def)
  have g: "grows s t" unfolding grows_def r by (simp add: t_def)
  have "visit_noted program t x = visit_noted program s x" for x
    by (simp add: visit_noted_def t_def split: sum.split DecodeFailure.split)
  then have "explored program config t" using k noted_grows [OF g] by (auto simp: explored_def kept_def t_def)
  then show ?thesis using k r unfolding kept_def later_def continuations_on_bus_def sites_kept_def targets_of_def by (auto simp: t_def)
qed

lemma drain_step_kept:
  assumes "kept program config s" "ch_queue s = front # rest" "pc = front AND bus_mask" "pc \<notin> ch_visited s"
  shows "kept program config (drain_step program config pc (s\<lparr>ch_queue := rest, ch_visited := insert pc (ch_visited s)\<rparr>)) \<and>
    later s (drain_step program config pc (s\<lparr>ch_queue := rest, ch_visited := insert pc (ch_visited s)\<rparr>))"
proof (cases "decoder_decode program pc")
  case (Inl failure)
  then show ?thesis using failure_kept [OF assms] by blast
next
  case (Inr i)
  then show ?thesis using discover_kept [OF assms Inr] by (simp add: drain_step_def)
qed

text \<open>The whole work list, to its end.\<close>

lemma drain_kept:
  "kept program config s \<Longrightarrow> kept program config (drain program config s) \<and> later s (drain program config s) \<and>
   ch_queue (drain program config s) = []"
proof (induction program config s rule: drain.induct)
  case (1 program config s)
  show ?case
  proof (cases "ch_queue s")
    case Nil
    then show ?thesis using 1 by (simp add: drain.simps later_refl)
  next
    case (Cons front rest)
    let ?pc = "front AND bus_mask" and ?s = "s\<lparr>ch_queue := rest\<rparr>"
    show ?thesis
    proof (cases "?pc \<in> ch_visited s")
      case True
      then have "drain program config s = drain program config ?s" using Cons by (subst drain.simps) simp
      moreover note skip_kept [OF 1(3) Cons True]
      ultimately show ?thesis using 1(1) [OF Cons refl refl] True later_trans by auto
    next
      case False
      let ?t = "drain_step program config ?pc (?s\<lparr>ch_visited := insert ?pc (ch_visited ?s)\<rparr>)"
      have "drain program config s = drain program config ?t" using Cons False by (subst drain.simps) (simp add: Let_def)
      moreover have "kept program config ?t \<and> later s ?t" using drain_step_kept [OF 1(3) Cons refl False] by simp
      ultimately show ?thesis using 1(2) [OF Cons refl refl] False later_trans by auto
    qed
  qed
qed

end
