(* ===== verification/Genesis_Evaluator_Sound.thy ===== *)
theory Genesis_Evaluator_Sound
  imports Genesis_Evaluator
begin

text \<open>
  The evaluator is sound and it ends. Soundness is stated against \<open>flow\<close>: the registers and flags with
  which the instructions of the graph can be reached, started anywhere with anything. Both proofs
  are inductions over the fuel in which the evaluator, one level below, is an instance of the contract
  that the transfer of \<^verbatim>\<open>cpu/m68k\<close> relies on.
\<close>

section \<open>The paths of the graph\<close>

text \<open>
  An instruction is entered from outside when it is opaque or has no predecessor; then nothing is known of
  the registers. Along an edge the instruction at its source has its effect, on a memory that may hold
  anything but for the cartridge, and the outcome of a conditional branch is the edge's.
\<close>

definition edge_taken :: "M68kIrOperation \<Rightarrow> EdgeKind \<Rightarrow> u16 \<Rightarrow> bool" where
  "edge_taken op kind sr \<longleftrightarrow> ir_kind op = Ir_general_branch \<longrightarrow>
     (kind = Edge_taken \<longrightarrow> m68k_evaluate_condition (ir_condition op) sr) \<and>
     (kind = Edge_not_taken \<longrightarrow> \<not> m68k_evaluate_condition (ir_condition op) sr)"

definition entered :: "index_graph \<Rightarrow> u32 \<Rightarrow> bool" where
  "entered g pc \<longleftrightarrow> pc \<in> ig_opaque g \<or> index_predecessors g pc = []"

definition operation_effect ::
  "index_graph \<Rightarrow> M68kIrOperation \<Rightarrow> (nat \<Rightarrow> u32) \<Rightarrow> u16 \<Rightarrow> (nat \<Rightarrow> u32) \<Rightarrow> u16 \<Rightarrow> bool" where
  "operation_effect g op d sr d' sr' \<longleftrightarrow> (\<exists>mem. holds_cartridge (ig_program g) mem \<and>
     (\<forall>r < 8. data_after op sr mem d r (d' r)) \<and> flags_after op mem d sr sr')"

inductive flow :: "index_graph \<Rightarrow> u32 \<Rightarrow> (nat \<Rightarrow> u32) \<Rightarrow> u16 \<Rightarrow> bool" for g where
  flow_entry: "entered g pc \<Longrightarrow> flow g pc d sr"
| flow_edge: "flow g (ed_from edge) d sr \<Longrightarrow> ig_instructions g (ed_from edge) = Some i \<Longrightarrow>
    edge \<in> set (index_predecessors g pc) \<Longrightarrow> operation_effect g (gi_operation i) d sr d' sr' \<Longrightarrow>
    edge_taken (gi_operation i) (ed_kind edge) sr \<Longrightarrow> flow g pc d' sr'"

text \<open>The registers that come over one edge.\<close>

definition over_edge :: "index_graph \<Rightarrow> Edge \<Rightarrow> (nat \<Rightarrow> u32) \<Rightarrow> bool" where
  "over_edge g edge d' \<longleftrightarrow> (\<exists>d sr sr' i. flow g (ed_from edge) d sr \<and> ig_instructions g (ed_from edge) = Some i \<and>
     operation_effect g (gi_operation i) d sr d' sr' \<and> edge_taken (gi_operation i) (ed_kind edge) sr)"

definition after_pc :: "index_graph \<Rightarrow> u32 \<Rightarrow> (nat \<Rightarrow> u32) \<Rightarrow> bool" where
  "after_pc g pc d' \<longleftrightarrow> (\<exists>d sr sr' i. flow g pc d sr \<and> ig_instructions g pc = Some i \<and>
     operation_effect g (gi_operation i) d sr d' sr')"

lemma over_edge_after: "over_edge g edge d' \<Longrightarrow> after_pc g (ed_from edge) d'"
  unfolding over_edge_def after_pc_def by blast

lemma flow_over_edge:
  assumes "flow g pc d sr" "\<not> entered g pc"
  obtains edge where "edge \<in> set (index_predecessors g pc)" "over_edge g edge d"
  using assms(1)
proof cases
  case (flow_edge edge d0 sr0 i)
  then show ?thesis using that [of edge] unfolding over_edge_def by blast
qed (use assms(2) in simp)

section \<open>Contracts\<close>

definition sound_values :: "index_graph \<Rightarrow> nat \<Rightarrow> nat \<Rightarrow> u32 \<Rightarrow> M68kFiniteValues \<Rightarrow> bool" where
  "sound_values g r w pc vs \<longleftrightarrow> (r < 8 \<longrightarrow> (\<forall>d sr. flow g pc d sr \<longrightarrow> covers w vs (d r)))"

definition sound_memo :: "index_graph \<Rightarrow> index_state \<Rightarrow> bool" where
  "sound_memo g s \<longleftrightarrow> (\<forall>r w pc vs. w = 16 \<or> w = 32 \<longrightarrow> ie_memo s (r, w, pc) = Some vs \<longrightarrow> sound_values g r w pc vs)"

definition sound_at :: "index_graph \<Rightarrow> u32 \<Rightarrow> index_state \<Rightarrow> bool" where
  "sound_at g pc s \<longleftrightarrow> sound_memo g s \<and> ie_current s = pc"

definition possible :: "index_graph \<Rightarrow> u32 \<Rightarrow> (nat \<Rightarrow> u32) \<Rightarrow> (u32 \<Rightarrow> u8) \<Rightarrow> bool" where
  "possible g pc d mem \<longleftrightarrow> (\<exists>sr. flow g pc d sr) \<and> holds_cartridge (ig_program g) mem"

text \<open>What one level of the evaluator promises to the level above.\<close>

definition sound_query :: "index_graph \<Rightarrow> register_query \<Rightarrow> bool" where
  "sound_query g before \<longleftrightarrow> (\<forall>r w pc s vs s'. sound_memo g s \<longrightarrow> w = 16 \<or> w = 32 \<longrightarrow> before r w pc s = Some (vs, s') \<longrightarrow>
     sound_memo g s' \<and> ie_current s' = ie_current s \<and> sound_values g r w pc vs)"

lemma sound_queryD:
  "sound_query g before \<Longrightarrow> sound_memo g s \<Longrightarrow> w = 16 \<or> w = 32 \<Longrightarrow> before r w pc s = Some (vs, s') \<Longrightarrow>
   sound_memo g s' \<and> ie_current s' = ie_current s \<and> sound_values g r w pc vs"
  unfolding sound_query_def by blast

lemma sound_memo_frame [simp]:
  "sound_memo g (s\<lparr>ie_active := A\<rparr>) = sound_memo g s" "sound_memo g (s\<lparr>ie_current := c\<rparr>) = sound_memo g s"
  "sound_memo g (s\<lparr>ie_steps := n\<rparr>) = sound_memo g s" "sound_memo g (s\<lparr>ie_exhausted := b\<rparr>) = sound_memo g s"
  "sound_memo g (s\<lparr>ie_read_failed := b\<rparr>) = sound_memo g s" "sound_memo g (s\<lparr>ie_proof := p\<rparr>) = sound_memo g s"
  "sound_memo g (s\<lparr>ie_entries := E\<rparr>) = sound_memo g s" "sound_memo g (note_origin q s) = sound_memo g s"
  "sound_memo g (index_account c t s) = sound_memo g s"
  by (simp_all add: sound_memo_def note_origin_def index_account_def)

lemma current_frame [simp]:
  "ie_current (note_origin q s) = ie_current s" "ie_current (index_account c t s) = c"
  by (simp_all add: note_origin_def index_account_def)

lemma sound_unknown [simp]: "sound_values g r w pc fv_unknown"
  by (simp add: sound_values_def)

lemma sound_memo_update:
  "sound_memo g s \<Longrightarrow> sound_values g r w pc vs \<Longrightarrow> sound_memo g (s\<lparr>ie_memo := (ie_memo s)((r, w, pc) \<mapsto> vs)\<rparr>)"
  by (auto simp: sound_memo_def)

text \<open>A sound level meets the contract of the transfer, at the instruction that is evaluated.\<close>

lemma query_contract:
  assumes "sound_query g before"
  shows "finite_inputs (\<lambda>r w s. before r w (ie_current s) s) (index_read g) (sound_at g pc) (possible g pc)"
proof
  show "sound_at g pc s' \<and> (r < 8 \<and> possible g pc d mem \<longrightarrow> covers w vs (d r))"
    if "sound_at g pc s" "w = 16 \<or> w = 32" "before r w (ie_current s) s = Some (vs, s')" for s w r vs s' d mem
    using sound_queryD [OF assms _ that(2,3)] that(1) by (auto simp: sound_at_def possible_def sound_values_def)
  show "sound_at g pc s' \<and> (\<forall>x. v = Some x \<longrightarrow> possible g pc d mem \<longrightarrow> mem_read mem a n = x)"
    if "sound_at g pc s" "index_read g a n s = (v, s')" for s a n v s' d mem
    using that immutable_read_agrees [of "ig_program g" mem a n]
    by (auto simp: sound_at_def possible_def index_read_def Let_def split: if_splits)
qed

section \<open>Soundness\<close>

lemma index_after_sound:
  assumes q: "sound_query g before" and s: "sound_memo g s" and w: "w = 16 \<or> w = 32"
    and run: "index_after g before r w pc s = Some (vs, s')"
  shows "sound_memo g s' \<and> ie_current s' = ie_current s \<and> (r < 8 \<longrightarrow> (\<forall>d'. after_pc g pc d' \<longrightarrow> covers w vs (d' r)))"
proof (cases "ig_instructions g pc")
  case None
  then show ?thesis using run s by (auto simp: index_after_def)
next
  case (Some i)
  let ?op = "gi_operation i" and ?s = "s\<lparr>ie_current := pc\<rparr>"
  obtain t s1 where t: "m68k_finite_register_after (\<lambda>reg width s. before reg width (ie_current s) s) (index_read g) ?op r w ?s = Some (t, s1)"
    using run Some by (auto simp: index_after_def split: Option.bind_splits)
  have at: "sound_at g pc ?s" using s by (simp add: sound_at_def)
  note T = finite_inputs.transfer_sound [OF query_contract [OF q] at w t]
  have s1: "sound_memo g s1" using T by (simp add: sound_at_def)
  have covered: "if ft_writes t then covers w (ft_values t) (d' r) else (\<exists>d sr. flow g pc d sr \<and> d' r = d r)"
    if r: "r < 8" and d': "after_pc g pc d'" for d'
  proof -
    obtain d sr mem where f: "flow g pc d sr" "holds_cartridge (ig_program g) mem" "data_after ?op sr mem d r (d' r)"
      using d' Some r unfolding after_pc_def operation_effect_def by auto
    then have "possible g pc d mem" by (auto simp: possible_def)
    then show ?thesis using T f r by (auto split: if_splits)
  qed
  let ?s2 = "index_account (ie_current s) t s1"
  note out = run [unfolded index_after_def Some option.case t bind.bind_lunit Let_def prod.case]
  consider (failed) "ft_read_failed t" | (same) "\<not> ft_read_failed t" "\<not> ft_writes t" | (writes) "\<not> ft_read_failed t" "ft_writes t"
    by blast
  then show ?thesis
  proof cases
    case failed
    then show ?thesis using out s1 by auto
  next
    case same
    then have "before r w pc ?s2 = Some (vs, s')" using out by simp
    from sound_queryD [OF q _ w this] show ?thesis using s1 same covered by (fastforce simp: sound_values_def)
  next
    case writes
    then show ?thesis using out s1 covered by auto
  qed
qed


text \<open>The narrowing by a branch keeps the registers that come over its edge.\<close>

lemma filter_kinds:
  assumes "m68k_finite_branch_filter setter branch taken r w vs = Some vs'"
  shows "ir_kind branch = Ir_general_branch" "ir_kind setter \<in> {Ir_compare, Ir_compare_immediate, Ir_test_operand}"
  using assms unfolding m68k_finite_branch_filter_def Let_def by (auto split: if_splits)

lemma keeps_data:
  assumes "ir_kind op \<in> {Ir_compare, Ir_compare_immediate, Ir_test_operand, Ir_general_branch}" "data_after op sr mem d r v"
  shows "v = d r"
proof -
  have "ir_kind op \<in> set writes_no_data_register" "ir_kind op \<notin> {Ir_write_moveq, Ir_subtract_quick_long_d0, Ir_movem_transfer,
      Ir_exchange_registers}"
    using assms(1) by (auto simp: writes_no_data_register_def)
  then show ?thesis using assms(2) by (simp add: data_after_def Let_def)
qed

lemma edge_filter_some:
  assumes "edge_filter g edge r w vs = Some vs'"
  obtains pred setter branch where "ed_kind edge = Edge_taken \<or> ed_kind edge = Edge_not_taken" "ed_from edge \<notin> ig_opaque g"
    "index_predecessors g (ed_from edge) = [pred]" "ig_instructions g (ed_from pred) = Some setter"
    "ig_instructions g (ed_from edge) = Some branch"
    "m68k_finite_branch_filter (gi_operation setter) (gi_operation branch) (ed_kind edge = Edge_taken) r w vs = Some vs'"
  using assms unfolding edge_filter_def index_predecessors_def
  by (auto split: if_splits option.splits list.splits)

lemma edge_filter_sound:
  assumes "edge_filter g edge r w vs = Some vs'" "w = 16 \<or> w = 32" "r < 8" "over_edge g edge d'" "covers w vs (d' r)"
  shows "covers w vs' (d' r)"
  using assms(1)
proof (rule edge_filter_some)
  fix pred setter branch
  assume kind: "ed_kind edge = Edge_taken \<or> ed_kind edge = Edge_not_taken"
    and graph: "ed_from edge \<notin> ig_opaque g" "index_predecessors g (ed_from edge) = [pred]"
      "ig_instructions g (ed_from pred) = Some setter" "ig_instructions g (ed_from edge) = Some branch"
    and filter: "m68k_finite_branch_filter (gi_operation setter) (gi_operation branch) (ed_kind edge = Edge_taken) r w vs = Some vs'"
  note kinds = filter_kinds [OF filter]
  obtain d sr sr' where b: "flow g (ed_from edge) d sr" "operation_effect g (gi_operation branch) d sr d' sr'"
    "edge_taken (gi_operation branch) (ed_kind edge) sr"
    using assms(4) graph(4) unfolding over_edge_def by auto
  have d': "d' r = d r" using b(2) assms(3) keeps_data [of "gi_operation branch"] kinds(1) by (auto simp: operation_effect_def)
  have cond: "m68k_evaluate_condition (ir_condition (gi_operation branch)) sr = (ed_kind edge = Edge_taken)"
    using b(3) kind kinds(1) by (auto simp: edge_taken_def)
  from b(1) show ?thesis
  proof cases
    case flow_entry
    then show ?thesis using graph(1,2) by (simp add: entered_def)
  next
    case (flow_edge edge0 d0 sr0 i)
    then have i: "i = setter" using graph(2,3) by simp
    obtain mem where m: "data_after (gi_operation setter) sr0 mem d0 r (d r)" "flags_after (gi_operation setter) mem d0 sr0 sr"
      using flow_edge(4) assms(3) unfolding i operation_effect_def by auto
    have "d r = d0 r" using keeps_data [OF _ m(1)] kinds(2) by auto
    then show ?thesis using branch_filter_sound [OF assms(2) filter _ m(2) cond] assms(5) d' by simp
  qed
qed

lemma union_sound:
  "w \<le> 32 \<Longrightarrow> covers w a x \<or> covers w b x \<Longrightarrow> covers w (m68k_finite_union a b w) x"
proof (cases "fv_known a \<and> fv_known b")
  case True
  assume "w \<le> 32" "covers w a x \<or> covers w b x"
  then show ?thesis using True by (intro covers_union) (auto simp: covers_def)
qed (auto simp: m68k_finite_union_def)

lemma index_edges_sound:
  assumes q: "sound_query g before" and w: "w = 16 \<or> w = 32"
  shows "sound_memo g s \<Longrightarrow> index_edges g before r w edges acc s = Some (vs, s') \<Longrightarrow>
    sound_memo g s' \<and> ie_current s' = ie_current s \<and>
    (r < 8 \<longrightarrow> (\<forall>d'. covers w acc (d' r) \<or> (\<exists>edge \<in> set edges. over_edge g edge d') \<longrightarrow> covers w vs (d' r)))"
proof (induction edges arbitrary: acc s)
  case Nil
  then show ?case by auto
next
  case (Cons edge edges)
  have w32: "w \<le> 32" using w by auto
  obtain v0 s1 where a: "index_after g before r w (ed_from edge) s = Some (v0, s1)"
    using Cons.prems(2) by (auto split: Option.bind_splits)
  note A = index_after_sound [OF q Cons.prems(1) w a]
  let ?f = "edge_filter g edge r w v0"
  let ?v = "case ?f of None \<Rightarrow> v0 | Some v \<Rightarrow> v"
  let ?s = "s1\<lparr>ie_proof := ie_proof s1 OR edge_proof edge (?f \<noteq> None)\<rparr>"
  let ?acc = "m68k_finite_union acc ?v w"
  have v: "covers w ?v (d' r)" if "r < 8" "over_edge g edge d'" for d'
    using that A over_edge_after [OF that(2)] edge_filter_sound [OF _ w that] by (auto split: option.split)
  have acc: "covers w ?acc (d' r)" if "r < 8" "covers w acc (d' r) \<or> over_edge g edge d'" for d'
    using that v union_sound [OF w32] by blast
  have s: "sound_memo g ?s" "ie_current ?s = ie_current s" using A by simp_all
  note run = Cons.prems(2) [unfolded index_edges.simps a bind.bind_lunit prod.case Let_def]
  show ?case
  proof (cases "fv_known ?acc")
    case False
    then show ?thesis using run s by (auto simp: covers_def)
  next
    case True
    then have "index_edges g before r w edges ?acc ?s = Some (vs, s')" using run by simp
    from Cons.IH [OF s(1) this] show ?thesis using s(2) acc by auto
  qed
qed

lemma index_step_sound:
  assumes q: "sound_query g before"
  shows "sound_query g (index_step g before)"
  unfolding sound_query_def
proof (intro allI impI)
  fix r w pc s vs s'
  assume s: "sound_memo g s" and w: "w = 16 \<or> w = (32 :: nat)" and run: "index_step g before r w pc s = Some (vs, s')"
  let ?key = "(r, w, pc)" and ?s = "s\<lparr>ie_steps := ie_steps s + 1\<rparr>"
  note run = run [unfolded index_step_def Let_def]
  consider (memo) v where "ie_memo s ?key = Some v" | (cycle) "ie_memo s ?key = None" "?key \<in> ie_active s"
    | (budget) "ie_memo s ?key = None" "?key \<notin> ie_active s" "evaluation_budget \<le> ie_steps s"
    | (enter) "ie_memo s ?key = None" "?key \<notin> ie_active s" "\<not> evaluation_budget \<le> ie_steps s" "entered g pc"
    | (edges) "ie_memo s ?key = None" "?key \<notin> ie_active s" "\<not> evaluation_budget \<le> ie_steps s" "\<not> entered g pc" by fastforce
  then show "sound_memo g s' \<and> ie_current s' = ie_current s \<and> sound_values g r w pc vs"
  proof cases
    case memo
    then show ?thesis using run s w by (auto simp: sound_memo_def)
  next
    case cycle
    then show ?thesis using run s by auto
  next
    case budget
    then show ?thesis using run s by auto
  next
    case enter
    then show ?thesis using run s sound_memo_update [of g "note_origin (entry_origin g pc) ?s" r w pc fv_unknown]
      by (auto simp: entered_def)
  next
    case edges
    let ?s1 = "?s\<lparr>ie_active := insert ?key (ie_active ?s)\<rparr>"
    obtain acc s2 where e: "index_edges g before r w (index_predecessors g pc) (fv_of [] w) ?s1 = Some (acc, s2)"
      using run edges by (auto simp: entered_def split: Option.bind_splits)
    have out: "vs = acc" "s' = s2\<lparr>ie_active := ie_active s2 - {?key}, ie_memo := (ie_memo s2)(?key \<mapsto> acc)\<rparr>"
      using run edges e by (auto simp: entered_def)
    note E = index_edges_sound [OF q w _ e]
    have "sound_values g r w pc acc"
      unfolding sound_values_def
    proof (intro impI allI)
      fix d sr assume "r < 8" "flow g pc d sr"
      then show "covers w acc (d r)" using E s edges(4) by (elim flow_over_edge) auto
    qed
    then show ?thesis using E s sound_memo_update [of g "s2\<lparr>ie_active := ie_active s2 - {?key}\<rparr>" r w pc acc]
      unfolding out by simp
  qed
qed

lemma index_before_sound: "sound_query g (index_before n g)"
proof (induction n)
  case 0
  then show ?case by (simp add: sound_query_def)
next
  case (Suc n)
  then show ?case using index_step_sound by simp
qed

text \<open>So the evaluator meets the contract of the transfer, whatever its fuel and at every instruction.\<close>

interpretation index_inputs: finite_inputs "\<lambda>r w s. index_before n g r w (ie_current s) s" "index_read g" "sound_at g pc" "possible g pc"
  for n g pc
  by (rule query_contract [OF index_before_sound])


section \<open>The budget\<close>

text \<open>From \<open>k\<close> steps on, a level answers every question and never takes steps back.\<close>

definition total_from :: "nat \<Rightarrow> register_query \<Rightarrow> bool" where
  "total_from k before \<longleftrightarrow> (\<forall>r w pc s. k \<le> ie_steps s \<longrightarrow> (\<exists>v s'. before r w pc s = Some (v, s') \<and> k \<le> ie_steps s'))"

lemma total_fromD: "total_from k before \<Longrightarrow> k \<le> ie_steps s \<Longrightarrow> \<exists>v s'. before r w pc s = Some (v, s') \<and> k \<le> ie_steps s'"
  unfolding total_from_def by blast

lemma steps_frame [simp]:
  "ie_steps (note_origin q s) = ie_steps s" "ie_steps (index_account c t s) = ie_steps s"
  by (simp_all add: note_origin_def index_account_def)

lemma total_contract:
  assumes "total_from k before"
  shows "total_inputs (\<lambda>r w s. before r w (ie_current s) s) (index_read g) (\<lambda>s. k \<le> ie_steps s)"
proof
  show "\<exists>v s'. before r w (ie_current s) s = Some (v, s') \<and> k \<le> ie_steps s'" if "k \<le> ie_steps s" for s r w
    using total_fromD [OF assms that] .
  show "k \<le> ie_steps (snd (index_read g a n s))" if "k \<le> ie_steps s" for s a n
    using that by (simp add: index_read_def Let_def)
qed

lemma index_after_total:
  assumes q: "total_from k before" and s: "k \<le> ie_steps s"
  shows "\<exists>v s'. index_after g before r w pc s = Some (v, s') \<and> k \<le> ie_steps s'"
proof (cases "ig_instructions g pc")
  case None
  then show ?thesis using s by (simp add: index_after_def)
next
  case (Some i)
  obtain t s1 where t: "m68k_finite_register_after (\<lambda>reg width s. before reg width (ie_current s) s) (index_read g)
      (gi_operation i) r w (s\<lparr>ie_current := pc\<rparr>) = Some (t, s1)" "k \<le> ie_steps s1"
    using total_inputs.register_after_total [OF total_contract [OF q], of "s\<lparr>ie_current := pc\<rparr>"] s by fastforce
  obtain v s2 where b: "before r w pc (index_account (ie_current s) t s1) = Some (v, s2)" "k \<le> ie_steps s2"
    using total_fromD [OF q, of "index_account (ie_current s) t s1" r w pc] t(2) by auto
  show ?thesis using t(2) b(2) by (simp add: index_after_def Some t(1) b(1) Let_def)
qed

lemma index_edges_total:
  assumes q: "total_from k before"
  shows "k \<le> ie_steps s \<Longrightarrow> \<exists>v s'. index_edges g before r w edges acc s = Some (v, s') \<and> k \<le> ie_steps s'"
proof (induction edges arbitrary: acc s)
  case (Cons edge edges)
  obtain v s1 where "index_after g before r w (ed_from edge) s = Some (v, s1)" "k \<le> ie_steps s1"
    using index_after_total [OF q Cons.prems] by blast
  then show ?case using Cons.IH by (simp add: Let_def)
qed simp

lemma index_step_total:
  assumes "k < evaluation_budget \<Longrightarrow> total_from (Suc k) before"
  shows "total_from k (index_step g before)"
  unfolding total_from_def
proof (intro allI impI)
  fix r w pc and s :: index_state
  assume s: "k \<le> ie_steps s"
  let ?s = "s\<lparr>ie_steps := ie_steps s + 1\<rparr>"
  show "\<exists>v s'. index_step g before r w pc s = Some (v, s') \<and> k \<le> ie_steps s'"
  proof (cases "ie_steps s \<ge> evaluation_budget")
    case True
    then show ?thesis using s unfolding index_step_def by (simp add: Let_def split: option.split)
  next
    case False
    then have "total_from (Suc k) before" using assms s by simp
    from index_edges_total [OF this, of "?s\<lparr>ie_active := insert (r, w, pc) (ie_active ?s)\<rparr>" g r w "index_predecessors g pc" "fv_of [] w"]
    obtain v s' where "index_edges g before r w (index_predecessors g pc) (fv_of [] w)
        (?s\<lparr>ie_active := insert (r, w, pc) (ie_active ?s)\<rparr>) = Some (v, s')" "Suc k \<le> ie_steps s'" using s by auto
    then show ?thesis using s False unfolding index_step_def by (simp add: Let_def split: option.split)
  qed
qed

lemma index_before_total: "0 < n \<Longrightarrow> evaluation_budget < n + k \<Longrightarrow> total_from k (index_before n g)"
proof (induction n arbitrary: k)
  case (Suc n)
  have "total_from (Suc k) (index_before n g)" if "k < evaluation_budget" using Suc that by simp
  from index_step_total [OF this] show ?case by simp
qed simp

interpretation index_budget: total_inputs "\<lambda>r w s. index_before (Suc (evaluation_budget - k)) g r w (ie_current s) s" "index_read g"
    "\<lambda>s. k \<le> ie_steps s" for k g
  by (rule total_contract [OF index_before_total]) simp_all

section \<open>The targets of a site\<close>

lemma site_targets_some:
  "site_targets program ea vs excluded targets = (n, Some ts) \<Longrightarrow>
   set ts = set targets \<union> {t \<in> m68k_pc_index_address ea ` set vs. even t} \<and>
   (\<forall>t \<in> set ts. t \<in> set targets \<or> even t \<and> decoder_mapped program t)"
proof (induction vs arbitrary: excluded targets)
  case (Cons v vs)
  have odd: "x AND 1 \<noteq> 0 \<longleftrightarrow> odd x" for x :: u32 by (simp only: one_bit_0 bit_0)
  show ?case
  proof (cases "odd (m68k_pc_index_address ea v)")
    case True
    then show ?thesis using Cons unfolding site_targets.simps Let_def odd by auto
  next
    case False
    then have m: "decoder_mapped program (m68k_pc_index_address ea v)"
      using Cons.prems unfolding site_targets.simps Let_def odd by (auto split: if_splits)
    then have "site_targets program ea vs excluded (m68k_pc_index_address ea v # targets) = (n, Some ts)"
      using Cons.prems False unfolding site_targets.simps Let_def odd by simp
    note IH = Cons.IH [OF this]
    have "set ts = set targets \<union> {t \<in> m68k_pc_index_address ea ` set (v # vs). even t}" using IH False by auto
    moreover have "t \<in> set targets \<or> even t \<and> decoder_mapped program t" if "t \<in> set ts" for t
      using conjunct2 [OF IH] that False m by auto
    ultimately show ?thesis by blast
  qed
qed simp

lemma verdict_resolved:
  assumes "ps_outcome (site_verdict program ea accept index s (site_init call)) = Outcome_resolved"
  obtains n ts where "\<not> ie_read_failed s" "\<not> ie_exhausted s" "fv_known index" "fv_width_derived index \<Longrightarrow> accept"
    "site_targets program ea (fv_values index) 0 [] = (n, Some ts)"
    "ps_targets (site_verdict program ea accept index s (site_init call)) = sort (remdups ts)"
proof -
  obtain n ts where t: "site_targets program ea (fv_values index) 0 [] = (n, ts)" by fastforce
  have r: "\<not> ie_read_failed s" "\<not> ie_exhausted s" "fv_known index" "fv_width_derived index \<longrightarrow> accept"
    using assms unfolding site_verdict_def site_init_def Let_def by (simp_all split: if_splits)
  let ?out = "site_init call\<lparr>ps_proof := ie_proof s, ps_table_reads := ie_table_reads s, ps_misaligned := ie_misaligned s\<rparr>"
  have sv: "site_verdict program ea accept index s (site_init call) = site_values program ea (fv_values index) ?out"
    using r unfolding site_verdict_def Let_def by auto
  then have v: "ps_outcome (site_values program ea (fv_values index) ?out) = Outcome_resolved" using assms by simp
  then obtain ts' where ts: "ts = Some ts'" unfolding site_values_def t by (cases ts) simp_all
  with v have "ts' \<noteq> []" unfolding site_values_def t by (auto simp: Let_def)
  then have "ps_targets (site_values program ea (fv_values index) ?out) = sort (remdups ts')"
    unfolding site_values_def t ts by (simp add: Let_def)
  then show ?thesis using that [OF r(1-3) _ t [unfolded ts]] r(4) unfolding sv by blast
qed

lemma resolved_site:
  assumes "resolve_pc_index_site site pc g accept entries = Some (out, entries')" "ps_outcome out = Outcome_resolved"
  defines "ea \<equiv> ir_source_ea (gi_operation site)"
  obtains index s where "ea_mode ea = Ea_pc_index8" "\<not> ea_index_is_address ea"
    "index_before (Suc evaluation_budget) g (unat (ea_index_reg ea)) (index_width ea) pc index_init = Some (index, s)"
    "fv_known index" "fv_width_derived index \<Longrightarrow> accept" "\<not> ie_read_failed s" "\<not> ie_exhausted s"
    "set (ps_targets out) = {t \<in> m68k_pc_index_address ea ` set (fv_values index). even t}"
    "\<forall>t \<in> set (ps_targets out). decoder_mapped (ig_program g) t" "sorted (ps_targets out)" "distinct (ps_targets out)"
    "entries' = entries \<union> ie_entries s"
proof -
  have m: "ea_mode ea = Ea_pc_index8" "\<not> ea_index_is_address ea"
    using assms(1,2) by (auto simp: resolve_pc_index_site_def ea_def Let_def site_init_def split: if_splits)
  obtain index s where b: "index_before (Suc evaluation_budget) g (unat (ea_index_reg ea)) (index_width ea) pc index_init = Some (index, s)"
    and v: "out = site_verdict (ig_program g) ea accept index s (site_init (ir_kind (gi_operation site) = Ir_call_general))"
      "entries' = entries \<union> ie_entries s"
    using assms(1,2) m by (auto simp: resolve_pc_index_site_def ea_def Let_def split: Option.bind_splits simp del: index_before.simps)
  from assms(2) [unfolded v(1)] show ?thesis
  proof (rule verdict_resolved)
    fix n ts
    assume r: "\<not> ie_read_failed s" "\<not> ie_exhausted s" "fv_known index" "fv_width_derived index \<Longrightarrow> accept"
      and t: "site_targets (ig_program g) ea (fv_values index) 0 [] = (n, Some ts)"
      and out: "ps_targets (site_verdict (ig_program g) ea accept index s (site_init (ir_kind (gi_operation site) = Ir_call_general)))
        = sort (remdups ts)"
    have ts: "ps_targets out = sort (remdups ts)" using out v(1) by simp
    show ?thesis
    proof (rule that [OF m b r(3,4,1,2) _ _ _ _ v(2)])
      show "set (ps_targets out) = {t \<in> m68k_pc_index_address ea ` set (fv_values index). even t}"
        "\<forall>t \<in> set (ps_targets out). decoder_mapped (ig_program g) t"
        using site_targets_some [OF t] unfolding ts set_sort set_remdups list.set Un_empty_left by blast+
      show "sorted (ps_targets out)" "distinct (ps_targets out)" by (simp_all add: ts)
    qed
  qed
qed


section \<open>An example\<close>

text \<open>\<^verbatim>\<open>MOVEQ #6,D0\<close> at the entry 0, then \<^verbatim>\<open>JMP (0,PC,D0.W)\<close> at 2, in a cartridge of 16 bytes: the target is 10.\<close>

definition example_jump :: GenesisReachabilityInstruction where
  "example_jump = \<lparr>gi_operation = operation_init\<lparr>ir_kind := Ir_jump_general,
     ir_source_ea := ea_init\<lparr>ea_mode := Ea_pc_index8, ea_pc_base_address := 4\<rparr>\<rparr>, gi_length = 4\<rparr>"

definition example_graph :: index_graph where
  "example_graph = \<lparr>
     ig_instructions = [0 \<mapsto> \<lparr>gi_operation = operation_init\<lparr>ir_operand := 6\<rparr>, gi_length = 2\<rparr>, 2 \<mapsto> example_jump],
     ig_predecessors = [2 \<mapsto> [\<lparr>ed_from = 0, ed_kind = Edge_fallthrough\<rparr>]],
     ig_opaque = {0}, ig_roots = {0},
     ig_program = \<lparr>fp_bytes = replicate 16 0,
       fp_claims = [\<lparr>mc_name = ''raw_cartridge_rom'', mc_target_begin = \<lparr>pa_space = m68k_program, pa_value = 0\<rparr>,
         mc_target_end = \<lparr>pa_space = m68k_program, pa_value = 16\<rparr>, mc_image_begin = 0, mc_image_end = 16\<rparr>],
       fp_startup = Some 0, fp_aliases = []\<rparr>\<rparr>"

lemma example_flow: "flow example_graph 2 ((\<lambda>_. 0)(0 := 6)) 0"
proof (rule flow_edge)
  show "flow example_graph (ed_from \<lparr>ed_from = 0, ed_kind = Edge_fallthrough\<rparr>) (\<lambda>_. 0) 0"
    by (rule flow_entry) (simp add: entered_def example_graph_def)
  show "ig_instructions example_graph (ed_from \<lparr>ed_from = 0, ed_kind = Edge_fallthrough\<rparr>) =
      Some \<lparr>gi_operation = operation_init\<lparr>ir_operand := 6\<rparr>, gi_length = 2\<rparr>" by (simp add: example_graph_def)
  have "holds_cartridge (ig_program example_graph) (\<lambda>_. 0)"
    by (auto simp: holds_cartridge_def cartridge_byte_def example_graph_def split: option.splits if_splits)
  then show "operation_effect example_graph (gi_operation \<lparr>gi_operation = operation_init\<lparr>ir_operand := 6\<rparr>, gi_length = 2\<rparr>)
      (\<lambda>_. 0) 0 ((\<lambda>_. 0)(0 := 6)) 0"
    by (auto simp: operation_effect_def data_after_def flags_after_def operation_init_def Let_def intro!: exI [of _ "\<lambda>_. 0"])
qed (simp_all add: index_predecessors_def example_graph_def edge_taken_def operation_init_def)

lemma example_evaluation:
  "\<exists>s. index_before (Suc n) example_graph 0 16 2 index_init = Some (\<lparr>fv_known = True, fv_values = [6], fv_width_derived = False\<rparr>, s) \<and>
     \<not> ie_read_failed s \<and> \<not> ie_exhausted s"
  by (simp add: index_step_def index_init_def evaluation_budget_def index_predecessors_def example_graph_def index_after_def
      m68k_finite_register_after_def operation_init_def fv_of_def low_mask_def m68k_finite_values_limit_def transfer_init_def
      index_account_def edge_filter_def m68k_finite_union_def edge_proof_def sign_extend_def)

lemma example_resolves:
  "\<exists>out entries'. resolve_pc_index_site example_jump 2 example_graph False {} = Some (out, entries') \<and> ps_outcome out = Outcome_resolved"
proof -
  obtain s where s: "index_before (Suc evaluation_budget) example_graph 0 16 2 index_init =
      Some (\<lparr>fv_known = True, fv_values = [6], fv_width_derived = False\<rparr>, s)" "\<not> ie_read_failed s" "\<not> ie_exhausted s"
    using example_evaluation by blast
  have op: "gi_operation example_jump = operation_init\<lparr>ir_kind := Ir_jump_general,
      ir_source_ea := ea_init\<lparr>ea_mode := Ea_pc_index8, ea_pc_base_address := 4\<rparr>\<rparr>" by (simp add: example_jump_def)
  have ea: "ea_index_reg ea_init = 0" "\<not> ea_index_is_long ea_init" "\<not> ea_index_is_address ea_init" "ea_displacement ea_init = 0"
    by (simp_all add: ea_init_def mk_ea_def)
  have a: "m68k_pc_index_address (ea_init\<lparr>ea_mode := Ea_pc_index8, ea_pc_base_address := 4\<rparr>) 6 = 10"
    by (simp add: m68k_pc_index_address_def sign_extend_def Let_def ea)
  have m: "decoder_mapped (ig_program example_graph) 10"
    by (simp add: decoder_mapped_def example_graph_def unique_rom_claim_def claim_owns_def Let_def)
  show ?thesis
    by (simp add: resolve_pc_index_site_def op ea index_width_def s site_verdict_def site_values_def a m Let_def
        del: index_before.simps)
qed

section \<open>Properties\<close>

lemma sound_memo_init: "sound_memo g index_init"
  by (simp add: sound_memo_def index_init_def)

lemma resolve_total:
  "\<exists>out entries'. resolve_pc_index_site site pc g accept entries = Some (out, entries')"
proof -
  have "total_from 0 (index_before (Suc evaluation_budget) g)" by (rule index_before_total) simp_all
  from total_fromD [OF this, of index_init "unat (ea_index_reg (ir_source_ea (gi_operation site)))"
    "index_width (ir_source_ea (gi_operation site))" pc]
  show ?thesis unfolding resolve_pc_index_site_def Let_def by (auto simp del: index_before.simps)
qed

lemma resolved_target:
  assumes "resolve_pc_index_site site pc g accept entries = Some (out, entries')" "ps_outcome out = Outcome_resolved"
  defines "ea \<equiv> ir_source_ea (gi_operation site)"
  assumes "flow g pc d sr" "ea_index_reg ea < 8" "even (pc_index_target ea (d (unat (ea_index_reg ea))))"
  shows "pc_index_target ea (d (unat (ea_index_reg ea))) \<in> set (ps_targets out)"
  using assms(1,2)
proof (rule resolved_site)
  let ?r = "unat (ea_index_reg ea)"
  fix index s
  assume b: "index_before (Suc evaluation_budget) g (unat (ea_index_reg (ir_source_ea (gi_operation site))))
      (index_width (ir_source_ea (gi_operation site))) pc index_init = Some (index, s)"
    and k: "fv_known index"
    and t: "set (ps_targets out) = {t \<in> m68k_pc_index_address (ir_source_ea (gi_operation site)) ` set (fv_values index). even t}"
  note b = b [folded ea_def] and t = t [folded ea_def]
  have w: "index_width ea = 16 \<or> index_width ea = 32" by (simp add: index_width_def)
  have "?r < 8" using assms(5) by (simp add: word_less_nat_alt)
  then have "take_bit (index_width ea) (d ?r) \<in> set (fv_values index)"
    using sound_queryD [OF index_before_sound sound_memo_init w b] k assms(4) by (auto simp: sound_values_def covers_def)
  then have "pc_index_target ea (d ?r) \<in> m68k_pc_index_address ea ` set (fv_values index)"
    using index_address [of ea "d ?r"] unfolding index_width_def by (metis image_eqI)
  then show ?thesis using assms(6) unfolding t by blast
qed

lemma resolved_targets_ok:
  assumes "resolve_pc_index_site site pc g accept entries = Some (out, entries')" "ps_outcome out = Outcome_resolved"
  shows "(\<forall>t \<in> set (ps_targets out). even t \<and> decoder_mapped (ig_program g) t) \<and> sorted (ps_targets out) \<and> distinct (ps_targets out)"
  using assms by (rule resolved_site) auto

lemma example_register_after:
  "m68k_finite_register_after before read (operation_init\<lparr>ir_operand := 6\<rparr>) 0 16 s =
     Some (transfer_init\<lparr>ft_writes := True, ft_values := \<lparr>fv_known = True, fv_values = [6], fv_width_derived = False\<rparr>,
       ft_proof := proof_constant\<rparr>, s)"
  by (simp add: m68k_finite_register_after_def operation_init_def fv_of_def low_mask_def m68k_finite_values_limit_def sign_extend_def)

text \<open>
  C5. The transfer of one operation is sound with the evaluator as its inputs: on any registers that can be there
  before the operation, where it says the register is written its values cover the register after the
  operation, and where it says it is not written the register keeps its value.
\<close>

theorem finite_register_after_sound:
  assumes "sound_at g pc s" "w = 16 \<or> w = 32" "r < 8"
    "m68k_finite_register_after (\<lambda>r w s. index_before n g r w (ie_current s) s) (index_read g) op r w s = Some (t, s')"
    "possible g pc d mem" "data_after op sr mem d r v'"
  shows "if ft_writes t then covers w (ft_values t) v' else v' = d r"
  using index_inputs.transfer_sound [OF assms(1,2,4), of d mem sr v'] assms(3,5,6) by blast

theorem finite_register_after_sound_witness:
  "\<exists>t s'. m68k_finite_register_after (\<lambda>r w s. index_before 0 example_graph r w (ie_current s) s) (index_read example_graph)
       (operation_init\<lparr>ir_operand := 6\<rparr>) 0 16 index_init = Some (t, s') \<and> ft_writes t \<and> covers 16 (ft_values t) 6"
proof -
  let ?t = "transfer_init\<lparr>ft_writes := True, ft_values := \<lparr>fv_known = True, fv_values = [6], fv_width_derived = False\<rparr>,
       ft_proof := proof_constant\<rparr>"
  have "flow example_graph 0 (\<lambda>_. 0) 0" by (rule flow_entry) (simp add: entered_def example_graph_def)
  moreover have "holds_cartridge (ig_program example_graph) (\<lambda>_. 0)"
    by (auto simp: holds_cartridge_def cartridge_byte_def example_graph_def split: option.splits if_splits)
  ultimately have p: "possible example_graph 0 (\<lambda>_. 0) (\<lambda>_. 0)" by (auto simp: possible_def)
  have s: "sound_at example_graph 0 index_init" by (simp add: sound_at_def sound_memo_init) (simp add: index_init_def)
  have d: "data_after (operation_init\<lparr>ir_operand := 6\<rparr>) 0 (\<lambda>_. 0) (\<lambda>_. 0) 0 6" by (simp add: data_after_def operation_init_def Let_def)
  have "if ft_writes ?t then covers 16 (ft_values ?t) 6 else 6 = (\<lambda>_. 0 :: u32) (0 :: nat)"
    by (rule finite_register_after_sound [OF s _ _ example_register_after p d]) simp_all
  then show ?thesis using example_register_after by (intro exI [of _ ?t] exI [of _ index_init]) simp
qed

text \<open>
  C3. The backward evaluation is sound, whatever its fuel: where it reports known values of a data register
  before an instruction, the low bits of the register are one of them on every path of the graph to that
  instruction, from any registers at its entries and with any memory that holds the cartridge.
\<close>

theorem index_evaluation_sound:
  assumes "index_before n g r w pc index_init = Some (vs, s)" "w = 16 \<or> w = 32" "r < 8" "fv_known vs"
    and "flow g pc d sr"
  shows "take_bit w (d r) \<in> set (fv_values vs)"
  using sound_queryD [OF index_before_sound sound_memo_init assms(2,1)] assms(3-5) by (auto simp: sound_values_def covers_def)

theorem index_evaluation_sound_witness:
  "\<exists>vs s. index_before 1 example_graph 0 16 2 index_init = Some (vs, s) \<and> take_bit 16 (((\<lambda>_. 0 :: u32)(0 := 6)) (0 :: nat)) \<in> set (fv_values vs)"
proof -
  obtain s where s: "index_before (Suc 0) example_graph 0 16 2 index_init = Some (\<lparr>fv_known = True, fv_values = [6], fv_width_derived = False\<rparr>, s)"
    using example_evaluation by blast
  have "take_bit 16 (((\<lambda>_. 0 :: u32)(0 := 6)) (0 :: nat)) \<in> set (fv_values \<lparr>fv_known = True, fv_values = [6], fv_width_derived = False\<rparr>)"
    by (rule index_evaluation_sound [OF s _ _ _ example_flow]) simp_all
  then show ?thesis using s unfolding One_nat_def by blast
qed

text \<open>
  C4. The evaluation of a site always ends with an answer within its budget of steps, on any graph, cycles included.
\<close>

theorem resolve_site_answers:
  "\<exists>out entries'. resolve_pc_index_site site pc g accept entries = Some (out, entries')"
  by (rule resolve_total)

text \<open>
  C2. A resolved PC-indexed jump or call covers every even target that any path of the graph can give it, and
  lists only even, mapped addresses, in ascending order without repetition.
\<close>

theorem resolved_site_covers:
  assumes "resolve_pc_index_site site pc g accept entries = Some (out, entries')" "ps_outcome out = Outcome_resolved"
  shows "(\<forall>d sr. flow g pc d sr \<longrightarrow> ea_index_reg (ir_source_ea (gi_operation site)) < 8 \<longrightarrow>
      even (pc_index_target (ir_source_ea (gi_operation site)) (d (unat (ea_index_reg (ir_source_ea (gi_operation site)))))) \<longrightarrow>
      pc_index_target (ir_source_ea (gi_operation site)) (d (unat (ea_index_reg (ir_source_ea (gi_operation site)))))
        \<in> set (ps_targets out)) \<and>
    (\<forall>t \<in> set (ps_targets out). even t \<and> decoder_mapped (ig_program g) t) \<and> sorted (ps_targets out) \<and> distinct (ps_targets out)"
  using resolved_target [OF assms] resolved_targets_ok [OF assms] by blast

theorem resolved_site_covers_witness:
  "\<exists>out entries'. resolve_pc_index_site example_jump 2 example_graph False {} = Some (out, entries') \<and>
     pc_index_target (ir_source_ea (gi_operation example_jump)) 6 \<in> set (ps_targets out)"
proof -
  obtain out entries' where o: "resolve_pc_index_site example_jump 2 example_graph False {} = Some (out, entries')"
    "ps_outcome out = Outcome_resolved" using example_resolves by blast
  have r: "ea_index_reg (ir_source_ea (gi_operation example_jump)) = 0" "even (pc_index_target (ir_source_ea (gi_operation example_jump)) 6)"
    by (simp_all add: example_jump_def ea_init_def mk_ea_def pc_index_target_def)
  have "pc_index_target (ir_source_ea (gi_operation example_jump)) (((\<lambda>_. 0)(0 := 6)) (unat (ea_index_reg (ir_source_ea (gi_operation example_jump)))))
      \<in> set (ps_targets out)"
    using resolved_site_covers [OF o] example_flow r by fastforce
  then show ?thesis using o(1) r(1) by auto
qed

end
