(* ===== verification/Genesis_Challenger_Sound.thy ===== *)
theory Genesis_Challenger_Sound
  imports Genesis_Discovery Genesis_Evaluator_Sound
begin

text \<open>
  The run of the challenger ends, and what it has discovered holds every program counter that an execution
  can reach over what the run claims to have resolved: fixed control flow, returns to recorded continuations
  and resolved PC-indexed sites, the last by the soundness of the evaluator on the graph of the run itself.
\<close>

section \<open>One recovery\<close>

definition site_step ::
  "index_graph \<Rightarrow> GenesisReachabilityChallengerConfig \<Rightarrow> u32 set \<Rightarrow> u32 \<Rightarrow> GenesisPcIndexSiteRecovery \<Rightarrow>
   GenesisPcIndexSiteRecovery \<Rightarrow> bool" where
  "site_step g config pinned pc site nx \<longleftrightarrow>
    (if pc \<in> pinned then nx = site\<lparr>ps_outcome := Outcome_invalidated\<rparr>
     else \<exists>decoded out entries entries'. ig_instructions g pc = Some decoded \<and>
       resolve_pc_index_site decoded pc g (cf_pc_index_width_domains config) entries = Some (out, entries') \<and>
       nx = out\<lparr>ps_first_round := ps_first_round site\<rparr>)"

definition lost :: "GenesisPcIndexSiteRecovery \<Rightarrow> GenesisPcIndexSiteRecovery \<Rightarrow> bool" where
  "lost site nx \<longleftrightarrow> ps_outcome site = Outcome_resolved \<and>
     (ps_outcome nx \<noteq> Outcome_resolved \<or> \<not> set (ps_targets site) \<subseteq> set (ps_targets nx))"

text \<open>The old and the new sites, pair by pair, and what the walk over them leaves in the state.\<close>

definition recovered ::
  "index_graph \<Rightarrow> GenesisReachabilityChallengerConfig \<Rightarrow> u32 set \<Rightarrow> (u32 \<times> GenesisPcIndexSiteRecovery) list \<Rightarrow>
   (u32 \<times> GenesisPcIndexSiteRecovery) list \<Rightarrow> bool" where
  "recovered g config pinned sites sites' \<longleftrightarrow>
     list_all2 (\<lambda>(pc, site) (pc', nx). pc' = pc \<and> site_step g config pinned pc site nx) sites sites'"

definition new_targets :: "u32 set \<Rightarrow> challenger_state \<Rightarrow> (u32 \<times> GenesisPcIndexSiteRecovery) list \<Rightarrow> u32 list" where
  "new_targets pinned s sites' = concat (map (\<lambda>(pc, nx). if pc \<in> pinned then [] else unvisited s (ps_targets nx)) sites')"

definition losses :: "u32 set \<Rightarrow> (u32 \<times> GenesisPcIndexSiteRecovery) list \<Rightarrow> (u32 \<times> GenesisPcIndexSiteRecovery) list \<Rightarrow> u32 set" where
  "losses pinned sites sites' = {pc. \<exists>site nx. ((pc, site), (pc, nx)) \<in> set (zip sites sites') \<and> pc \<notin> pinned \<and> lost site nx}"

definition target_change :: "u32 set \<Rightarrow> (u32 \<times> GenesisPcIndexSiteRecovery) list \<Rightarrow> (u32 \<times> GenesisPcIndexSiteRecovery) list \<Rightarrow> bool" where
  "target_change pinned sites sites' \<longleftrightarrow>
     (\<exists>pc site nx. ((pc, site), (pc, nx)) \<in> set (zip sites sites') \<and> pc \<notin> pinned \<and> ps_targets nx \<noteq> ps_targets site)"

lemma recover_sites_spec:
  "recover_sites g config pinned sites s = Some (sites', changed, s') \<Longrightarrow>
   recovered g config pinned sites sites' \<and> changed = target_change pinned sites sites' \<and>
   (\<exists>E. s' = s\<lparr>ch_table_entries := E, ch_invalidated := ch_invalidated s \<union> losses pinned sites sites',
              ch_queue := ch_queue s @ new_targets pinned s sites'\<rparr>)"
proof (induction sites arbitrary: s sites' changed s')
  case Nil
  then show ?case by (auto simp: recovered_def target_change_def losses_def new_targets_def intro: exI [of _ "ch_table_entries s"])
next
  case (Cons a sites)
  obtain pc site where a: "a = (pc, site)" by (cases a)
  obtain nx here s1 where h1: "recover_site g config pinned pc site s = Some (nx, here, s1)"
    using Cons.prems a by (auto split: Option.bind_splits)
  obtain rest others s2 where h2: "recover_sites g config pinned sites s1 = Some (rest, others, s2)"
    using Cons.prems a h1 by (auto split: Option.bind_splits)
  have h: "recover_site g config pinned pc site s = Some (nx, here, s1)"
    "recover_sites g config pinned sites s1 = Some (rest, others, s')" "sites' = (pc, nx) # rest" "changed = (here \<or> others)"
    using Cons.prems unfolding a recover_sites.simps h1 bind.bind_lunit prod.case h2 by simp_all
  note IH = Cons.IH [OF h(2)]
  have step: "site_step g config pinned pc site nx \<and> here = (pc \<notin> pinned \<and> ps_targets nx \<noteq> ps_targets site) \<and>
      (\<exists>E. s1 = s\<lparr>ch_table_entries := E,
         ch_invalidated := ch_invalidated s \<union> (if pc \<notin> pinned \<and> lost site nx then {pc} else {}),
         ch_queue := ch_queue s @ (if pc \<in> pinned then [] else unvisited s (ps_targets nx))\<rparr>)"
  proof (cases "pc \<in> pinned")
    case True
    then show ?thesis using h(1) by (auto simp: recover_site_def site_step_def intro!: exI [of _ "ch_table_entries s"])
  next
    case False
    then obtain decoded out E where d: "ig_instructions g pc = Some decoded"
      "resolve_pc_index_site decoded pc g (cf_pc_index_width_domains config) (ch_table_entries s) = Some (out, E)"
      using h(1) by (auto simp: recover_site_def split: Option.bind_splits)
    let ?nx = "out\<lparr>ps_first_round := ps_first_round site\<rparr>"
    have "recover_site g config pinned pc site s = Some (?nx, ps_targets ?nx \<noteq> ps_targets site,
       s\<lparr>ch_table_entries := E, ch_invalidated := (if lost site ?nx then insert pc (ch_invalidated s) else ch_invalidated s),
           ch_queue := ch_queue s @ unvisited s (ps_targets ?nx)\<rparr>)"
      unfolding recover_site_def lost_def Let_def if_not_P [OF False] d bind.bind_lunit prod.case ..
    then have "nx = ?nx \<and> here = (ps_targets nx \<noteq> ps_targets site) \<and>
       s1 = s\<lparr>ch_table_entries := E, ch_invalidated := ch_invalidated s \<union> (if lost site nx then {pc} else {}),
           ch_queue := ch_queue s @ unvisited s (ps_targets nx)\<rparr>"
      using h(1) by simp
    moreover from this have "site_step g config pinned pc site nx" unfolding site_step_def using False d by auto
    ultimately show ?thesis using False by (intro conjI exI [of _ E]) simp_all
  qed
  then have v: "unvisited s1 = unvisited s" by (auto simp: unvisited_def fun_eq_iff)
  have N: "new_targets pinned s sites' = (if pc \<in> pinned then [] else unvisited s (ps_targets nx)) @ new_targets pinned s1 rest"
    unfolding h(3) new_targets_def v by simp
  have L: "losses pinned (a # sites) sites' = (if pc \<notin> pinned \<and> lost site nx then {pc} else {}) \<union> losses pinned sites rest"
    unfolding h(3) a losses_def by auto
  have C: "target_change pinned (a # sites) sites' = (here \<or> target_change pinned sites rest)"
    using step unfolding h(3) a target_change_def by auto
  have R: "recovered g config pinned (a # sites) sites'" using IH step unfolding h(3) a recovered_def by simp
  obtain E1 where s1: "s1 = s\<lparr>ch_table_entries := E1,
      ch_invalidated := ch_invalidated s \<union> (if pc \<notin> pinned \<and> lost site nx then {pc} else {}),
      ch_queue := ch_queue s @ (if pc \<in> pinned then [] else unvisited s (ps_targets nx))\<rparr>" using step by blast
  obtain E2 where s': "s' = s1\<lparr>ch_table_entries := E2, ch_invalidated := ch_invalidated s1 \<union> losses pinned sites rest,
      ch_queue := ch_queue s1 @ new_targets pinned s1 rest\<rparr>" using IH by blast
  have "s' = s\<lparr>ch_table_entries := E2, ch_invalidated := ch_invalidated s \<union> losses pinned (a # sites) sites',
      ch_queue := ch_queue s @ new_targets pinned s sites'\<rparr>"
    unfolding s' L N unfolding s1 by (simp add: Un_assoc)
  then show ?case using R C IH h(4) by blast
qed

lemma recover_site_total: "ig_instructions g pc \<noteq> None \<Longrightarrow> \<exists>r. recover_site g config pinned pc site s = Some r"
  using resolve_total [of "the (ig_instructions g pc)" pc g "cf_pc_index_width_domains config" "ch_table_entries s"]
  by (auto simp: recover_site_def Let_def)

lemma recover_sites_total:
  "\<forall>pc \<in> fst ` set sites. ig_instructions g pc \<noteq> None \<Longrightarrow> \<exists>r. recover_sites g config pinned sites s = Some r"
proof (induction sites arbitrary: s)
  case (Cons a sites)
  obtain pc site where a: "a = (pc, site)" by (cases a)
  obtain nx here s1 where 1: "recover_site g config pinned pc site s = Some (nx, here, s1)"
    using recover_site_total [of g pc config pinned site s] Cons.prems a by auto
  have "\<exists>r. recover_sites g config pinned sites s1 = Some r" by (rule Cons.IH) (use Cons.prems in simp)
  then obtain rest others s2 where 2: "recover_sites g config pinned sites s1 = Some (rest, others, s2)" by auto
  show ?case unfolding a recover_sites.simps 1 bind.bind_lunit prod.case 2 by blast
next
  case Nil
  then show ?case unfolding recover_sites.simps by blast
qed

section \<open>The invariant along a pass\<close>

lemma kept_frame:
  assumes "kept program config s" "reached s \<subseteq> reached t" "sites_kept t"
    and "ch_instructions t = ch_instructions s" "ch_visited t = ch_visited s" "ch_discovered t = ch_discovered s"
      "ch_odd t = ch_odd s" "ch_unmapped t = ch_unmapped s" "ch_rejected t = ch_rejected s" "ch_roots t = ch_roots s"
      "ch_call_continuations t = ch_call_continuations s" "ch_exception_continuations t = ch_exception_continuations s"
      "ch_pushed_code_addresses t = ch_pushed_code_addresses s" "ch_rts_sites t = ch_rts_sites s" "ch_rtr_sites t = ch_rtr_sites s"
      "ch_rte_sites t = ch_rte_sites s" "map fst (ch_pc_index_sites t) = map fst (ch_pc_index_sites s)"
  shows "kept program config t"
proof -
  have "fst ` set (ch_pc_index_sites t) = fst ` set (ch_pc_index_sites s)"
    using arg_cong [OF assms(17), of set] by simp
  then have g: "grows s t" using assms(2) unfolding grows_def assms by simp
  have "visit_noted program s x = visit_noted program t x" for x
    unfolding visit_noted_def assms ..
  then have "explored program config t"
    using assms(1) noted_grows [OF g] unfolding kept_def explored_def assms by auto
  then show ?thesis using assms(1,2,3) unfolding kept_def continuations_on_bus_def assms by auto
qed

lemma sites_kept_frame:
  "sites_kept s \<Longrightarrow> ch_pc_index_sites t = ch_pc_index_sites s \<Longrightarrow> ch_instructions t = ch_instructions s \<Longrightarrow> reached s \<subseteq> reached t \<Longrightarrow>
   sites_kept t"
  unfolding sites_kept_def by fastforce

text \<open>What a resolution gives, resolved or not.\<close>

lemma verdict_targets:
  "ps_targets out = [] \<Longrightarrow> ps_outcome (site_verdict program ea accept index s out) \<noteq> Outcome_resolved \<Longrightarrow>
   ps_targets (site_verdict program ea accept index s out) = []"
  unfolding site_verdict_def site_values_def Let_def
  by (auto split: prod.split option.split if_splits)

lemma sort_nil: "sort (remdups xs) = [] \<longleftrightarrow> xs = []"
  by (metis set_sort set_remdups set_empty)

lemma resolve_shape:
  assumes "resolve_pc_index_site site pc g accept entries = Some (out, entries')"
  shows "(ps_outcome out = Outcome_resolved \<longleftrightarrow> ps_targets out \<noteq> []) \<and> sorted (ps_targets out) \<and> distinct (ps_targets out) \<and>
    (\<forall>t \<in> set (ps_targets out). t AND bus_mask = t)"
proof (cases "ps_outcome out = Outcome_resolved")
  case True
  have "ps_targets out \<noteq> [] \<and> (\<forall>t \<in> set (ps_targets out). t AND bus_mask = t)"
    using assms True
  proof (rule resolved_site)
    fix index s
    let ?ea = "ir_source_ea (gi_operation site)"
    assume t: "set (ps_targets out) = {t \<in> m68k_pc_index_address ?ea ` set (fv_values index). even t}"
      and m: "ea_mode ?ea = Ea_pc_index8" "\<not> ea_index_is_address ?ea"
      and b: "index_before (Suc evaluation_budget) g (unat (ea_index_reg ?ea)) (index_width ?ea) pc index_init = Some (index, s)"
    have bus: "\<forall>t \<in> set (ps_targets out). t AND bus_mask = t"
      unfolding t by (auto simp: m68k_pc_index_address_def bus_mask_def Let_def and.assoc)
    have "out = site_verdict (ig_program g) ?ea accept index s (site_init (ir_kind (gi_operation site) = Ir_call_general))"
      using assms unfolding resolve_pc_index_site_def Let_def b using m by simp
    from True [unfolded this] have "ps_targets out \<noteq> []"
      unfolding site_verdict_def site_values_def Let_def \<open>out = _\<close>
      by (auto split: prod.splits option.splits if_splits simp: site_init_def sort_nil)
    then show ?thesis using bus by simp
  qed
  then show ?thesis using True resolved_targets_ok [OF assms True] by simp
next
  case False
  have "ps_targets out = []"
  proof (cases "ea_mode (ir_source_ea (gi_operation site)) = Ea_pc_index8 \<and> \<not> ea_index_is_address (ir_source_ea (gi_operation site))")
    case True
    then obtain index s where "out = site_verdict (ig_program g) (ir_source_ea (gi_operation site)) accept index s
        (site_init (ir_kind (gi_operation site) = Ir_call_general))"
      using assms unfolding resolve_pc_index_site_def Let_def by (auto split: Option.bind_splits simp del: index_before.simps)
    then show ?thesis using False verdict_targets by (metis site_init_def GenesisPcIndexSiteRecovery.select_convs(3))
  next
    case False
    then show ?thesis using assms unfolding resolve_pc_index_site_def Let_def by (auto simp: site_init_def split: if_splits)
  qed
  then show ?thesis using False by simp
qed

section \<open>The measure\<close>

definition remaining :: "challenger_state \<Rightarrow> nat" where
  "remaining s = card (- reached s) + (\<Sum>pc \<in> (UNIV :: u32 set). card (- targets_of s pc))"

lemma remaining_mono:
  assumes "reached s \<subseteq> reached t" "\<And>pc. targets_of s pc \<subseteq> targets_of t pc"
  shows "remaining t \<le> remaining s"
  unfolding remaining_def using assms by (intro add_mono sum_mono card_mono) auto

lemma remaining_reached:
  assumes "reached s \<subset> reached t" "\<And>pc. targets_of s pc \<subseteq> targets_of t pc"
  shows "remaining t < remaining s"
proof -
  have "card (- reached t) < card (- reached s)" using assms(1) by (intro psubset_card_mono) auto
  moreover have "(\<Sum>pc \<in> UNIV. card (- targets_of t pc)) \<le> (\<Sum>pc \<in> UNIV. card (- targets_of s pc))"
    using assms(2) by (intro sum_mono card_mono) auto
  ultimately show ?thesis unfolding remaining_def by linarith
qed

lemma remaining_targets:
  assumes "reached s \<subseteq> reached t" "\<And>pc. targets_of s pc \<subseteq> targets_of t pc" "targets_of s x \<noteq> targets_of t x"
  shows "remaining t < remaining s"
proof -
  have "card (- reached t) \<le> card (- reached s)" using assms(1) by (intro card_mono) auto
  moreover have "(\<Sum>pc \<in> UNIV. card (- targets_of t pc)) < (\<Sum>pc \<in> UNIV. card (- targets_of s pc))"
  proof (rule sum_strict_mono_ex1)
    show "\<forall>pc \<in> UNIV. card (- targets_of t pc) \<le> card (- targets_of s pc)" using assms(2) by (auto intro!: card_mono)
    have "- targets_of t x \<subset> - targets_of s x" using assms(2) [of x] assms(3) by auto
    then show "\<exists>pc \<in> UNIV. card (- targets_of t pc) < card (- targets_of s pc)" by (auto intro!: bexI [of _ x] psubset_card_mono)
  qed simp
  ultimately show ?thesis unfolding remaining_def by linarith
qed

lemma remaining_bound: "remaining s < pass_fuel"
proof -
  have c: "card (A :: u32 set) \<le> 2 ^ 32" for A
    using card_mono [of UNIV A] by (simp add: card_word)
  have "(\<Sum>pc \<in> (UNIV :: u32 set). card (- targets_of s pc)) \<le> of_nat (card (UNIV :: u32 set)) * 2 ^ 32"
    using c by (intro sum_bounded_above) auto
  then have "(\<Sum>pc \<in> (UNIV :: u32 set). card (- targets_of s pc)) \<le> 2 ^ 64" by (simp add: card_word)
  then show ?thesis using c [of "- reached s"] unfolding remaining_def pass_fuel_def by linarith
qed


section \<open>A pass\<close>

definition pinned_empty :: "u32 set \<Rightarrow> challenger_state \<Rightarrow> bool" where
  "pinned_empty pinned s \<longleftrightarrow> (\<forall>pc \<in> pinned. targets_of s pc = {})"

lemma targets_of_mem:
  "sites_kept s \<Longrightarrow> (pc, site) \<in> set (ch_pc_index_sites s) \<Longrightarrow> targets_of s pc = set (ps_targets site)"
  unfolding sites_kept_def targets_of_def by (auto simp: map_of_eq_Some_iff split: option.split)

lemma site_step_shape:
  assumes "sites_kept s" "pinned_empty pinned s" "(pc, site) \<in> set (ch_pc_index_sites s)" "site_step g config pinned pc site nx"
  shows "(ps_outcome nx = Outcome_resolved \<longleftrightarrow> ps_targets nx \<noteq> []) \<and> sorted (ps_targets nx) \<and> distinct (ps_targets nx) \<and>
    (pc \<in> pinned \<longrightarrow> ps_targets nx = [] \<and> ps_targets site = []) \<and> (\<forall>t \<in> set (ps_targets nx). t AND bus_mask = t)"
proof (cases "pc \<in> pinned")
  case True
  then have "ps_targets site = []" using assms(2) targets_of_mem [OF assms(1,3)] by (simp add: pinned_empty_def)
  then show ?thesis using True assms(4) by (simp add: site_step_def)
next
  case False
  then obtain decoded out entries entries' where
    "resolve_pc_index_site decoded pc g (cf_pc_index_width_domains config) entries = Some (out, entries')"
    "nx = out\<lparr>ps_first_round := ps_first_round site\<rparr>" using assms(4) by (auto simp: site_step_def)
  then show ?thesis using resolve_shape False by simp
qed

lemma recovered_keys: "recovered g config pinned sites sites' \<Longrightarrow> map fst sites' = map fst sites"
  unfolding recovered_def by (induction rule: list_all2_induct) auto

lemma recovered_mem:
  assumes "recovered g config pinned sites sites'" "(pc, nx) \<in> set sites'"
  obtains site where "((pc, site), (pc, nx)) \<in> set (zip sites sites')" "(pc, site) \<in> set sites" "site_step g config pinned pc site nx"
proof -
  obtain i where i: "i < length sites'" "sites' ! i = (pc, nx)" using assms(2) by (meson in_set_conv_nth)
  have l: "length sites = length sites'" using assms(1) by (simp add: recovered_def list_all2_lengthD)
  have "case (sites ! i, sites' ! i) of ((pc, site), (pc', nx)) \<Rightarrow> pc' = pc \<and> site_step g config pinned pc site nx"
    using assms(1) i l unfolding recovered_def list_all2_conv_all_nth by auto
  then obtain site where "sites ! i = (pc, site)" "site_step g config pinned pc site nx" using i(2) by (cases "sites ! i") auto
  moreover from this have "((pc, site), (pc, nx)) \<in> set (zip sites sites')" using i l by (auto simp: set_zip intro!: exI [of _ i])
  ultimately show ?thesis using that by (auto dest: set_zip_leftD)
qed

lemma recovered_mem_old:
  assumes "recovered g config pinned sites sites'" "(pc, site) \<in> set sites"
  obtains nx where "((pc, site), (pc, nx)) \<in> set (zip sites sites')" "(pc, nx) \<in> set sites'" "site_step g config pinned pc site nx"
proof -
  obtain i where i: "i < length sites" "sites ! i = (pc, site)" using assms(2) by (meson in_set_conv_nth)
  have l: "length sites = length sites'" using assms(1) by (simp add: recovered_def list_all2_lengthD)
  have "case (sites ! i, sites' ! i) of ((pc, site), (pc', nx)) \<Rightarrow> pc' = pc \<and> site_step g config pinned pc site nx"
    using assms(1) i l unfolding recovered_def list_all2_conv_all_nth by auto
  then obtain nx where "sites' ! i = (pc, nx)" "site_step g config pinned pc site nx" using i(2) by (cases "sites' ! i") auto
  moreover from this have "((pc, site), (pc, nx)) \<in> set (zip sites sites')" using i l by (auto simp: set_zip intro!: exI [of _ i])
  ultimately show ?thesis using that by (auto dest: set_zip_rightD)
qed

text \<open>One recovery on a state whose work list is empty.\<close>

lemma recover_total: "kept program config s \<Longrightarrow> \<exists>changed t. recover program config pinned s = Some (changed, t)"
proof -
  assume k: "kept program config s"
  let ?s = "begin_recovery s"
  have f: "ch_pc_index_sites ?s = ch_pc_index_sites s" "ch_instructions ?s = ch_instructions s" by (simp_all add: begin_recovery_def)
  have "\<forall>pc \<in> fst ` set (ch_pc_index_sites ?s). ig_instructions (recovery_graph program ?s) pc \<noteq> None"
    using k unfolding f by (auto simp: kept_def sites_kept_def recovery_graph_def f)
  then obtain sites' changed t where "recover_sites (recovery_graph program ?s) config pinned (ch_pc_index_sites ?s) (?s\<lparr>ch_table_entries := {}\<rparr>)
      = Some (sites', changed, t)" using recover_sites_total [of "ch_pc_index_sites ?s"] by fastforce
  then show ?thesis unfolding recover_def Let_def by simp
qed

lemma recover_frame:
  assumes "recover program config pinned s = Some (changed, t)" "ch_invalidated s = {}" "ch_queue s = []"
  obtains sites' where "recovered (recovery_graph program s) config pinned (ch_pc_index_sites s) sites'"
    "changed = target_change pinned (ch_pc_index_sites s) sites'" "ch_pc_index_sites t = sites'"
    "ch_invalidated t = losses pinned (ch_pc_index_sites s) sites'" "ch_queue t = new_targets pinned s sites'"
    "ch_instructions t = ch_instructions s" "ch_visited t = ch_visited s" "ch_discovered t = ch_discovered s"
    "ch_odd t = ch_odd s" "ch_unmapped t = ch_unmapped s" "ch_rejected t = ch_rejected s" "ch_roots t = ch_roots s"
    "ch_call_continuations t = ch_call_continuations s" "ch_exception_continuations t = ch_exception_continuations s"
    "ch_pushed_code_addresses t = ch_pushed_code_addresses s" "ch_rts_sites t = ch_rts_sites s" "ch_rtr_sites t = ch_rtr_sites s"
    "ch_rte_sites t = ch_rte_sites s" "ch_continuations_enabled t = ch_continuations_enabled s"
proof -
  let ?s = "begin_recovery s"
  have f: "ch_pc_index_sites ?s = ch_pc_index_sites s" "recovery_graph program ?s = recovery_graph program s"
    by (simp_all add: begin_recovery_def recovery_graph_def)
  obtain sites' u where u: "recover_sites (recovery_graph program s) config pinned (ch_pc_index_sites s) (?s\<lparr>ch_table_entries := {}\<rparr>)
      = Some (sites', changed, u)" "t = u\<lparr>ch_pc_index_sites := sites'\<rparr>"
    using assms(1) unfolding recover_def Let_def f by (auto split: Option.bind_splits)
  obtain E where "u = ?s\<lparr>ch_table_entries := {}\<rparr>\<lparr>ch_table_entries := E,
      ch_invalidated := ch_invalidated (?s\<lparr>ch_table_entries := {}\<rparr>) \<union> losses pinned (ch_pc_index_sites s) sites',
      ch_queue := ch_queue (?s\<lparr>ch_table_entries := {}\<rparr>) @ new_targets pinned (?s\<lparr>ch_table_entries := {}\<rparr>) sites'\<rparr>"
    using recover_sites_spec [OF u(1)] by blast
  moreover have uv: "unvisited (?s\<lparr>ch_table_entries := {}\<rparr>) = unvisited s"
    by (simp add: unvisited_def begin_recovery_def fun_eq_iff)
  have "new_targets pinned (?s\<lparr>ch_table_entries := {}\<rparr>) sites' = new_targets pinned s sites'"
    unfolding new_targets_def uv ..
  ultimately show ?thesis using that [of sites'] recover_sites_spec [OF u(1)] u(2) assms(2,3)
    by (simp add: begin_recovery_def)
qed


lemma recover_kept:
  assumes k: "kept program config s" and p: "pinned_empty pinned s" and q: "ch_queue s = []" and inv: "ch_invalidated s = {}"
    and run: "recover program config pinned s = Some (changed, t)"
  shows "kept program config t \<and> reached s \<subseteq> reached t \<and> (ch_queue t \<noteq> [] \<longrightarrow> reached s \<noteq> reached t) \<and>
    (ch_invalidated t = {} \<longrightarrow> (\<forall>pc. targets_of s pc \<subseteq> targets_of t pc) \<and> (changed \<longrightarrow> targets_of s \<noteq> targets_of t) \<and>
       pinned_empty pinned t)"
proof (rule recover_frame [OF run inv q])
  fix sites'
  assume r: "recovered (recovery_graph program s) config pinned (ch_pc_index_sites s) sites'"
    and f: "changed = target_change pinned (ch_pc_index_sites s) sites'" "ch_pc_index_sites t = sites'"
      "ch_invalidated t = losses pinned (ch_pc_index_sites s) sites'" "ch_queue t = new_targets pinned s sites'"
      "ch_instructions t = ch_instructions s" "ch_visited t = ch_visited s"
    and frame: "ch_discovered t = ch_discovered s"
      "ch_odd t = ch_odd s" "ch_unmapped t = ch_unmapped s" "ch_rejected t = ch_rejected s" "ch_roots t = ch_roots s"
      "ch_call_continuations t = ch_call_continuations s" "ch_exception_continuations t = ch_exception_continuations s"
      "ch_pushed_code_addresses t = ch_pushed_code_addresses s" "ch_rts_sites t = ch_rts_sites s" "ch_rtr_sites t = ch_rtr_sites s"
      "ch_rte_sites t = ch_rte_sites s"
  note sk = k [unfolded kept_def, THEN conjunct2, THEN conjunct2, THEN conjunct1]
  have vs: "reached s = ch_visited s" using q by (simp add: reached_def)
  then have reach: "reached s \<subseteq> reached t" using f(6) by (auto simp: reached_def)
  have shape: "(ps_outcome nx = Outcome_resolved \<longleftrightarrow> ps_targets nx \<noteq> []) \<and> sorted (ps_targets nx) \<and> distinct (ps_targets nx) \<and>
      (pc \<in> pinned \<longrightarrow> ps_targets nx = []) \<and> (\<forall>x \<in> set (ps_targets nx). x AND bus_mask = x)"
    if "(pc, nx) \<in> set sites'" for pc nx
    using recovered_mem [OF r that] site_step_shape [OF sk p] by metis
  have keys: "map fst sites' = map fst (ch_pc_index_sites s)" by (rule recovered_keys [OF r])
  have sub: "set (ps_targets nx) \<subseteq> reached t" if m: "(pc, nx) \<in> set sites'" for pc nx
  proof
    fix x assume x: "x \<in> set (ps_targets nx)"
    then have "pc \<notin> pinned" using shape [OF m] by auto
    then have "x \<in> ch_visited s \<or> x \<in> set (ch_queue t)" unfolding f(4) new_targets_def using m x by (auto simp: unvisited_def)
    moreover have "x AND bus_mask = x" using shape [OF m] x by blast
    ultimately show "x \<in> reached t" unfolding reached_def f(6) by force
  qed
  have old_key: "map_of (ch_instructions s) pc \<noteq> None" if "(pc, nx) \<in> set sites'" for pc nx
    using recovered_mem [OF r that] sk unfolding sites_kept_def by metis
  have "sites_kept t" unfolding sites_kept_def f(2,5) keys
    using sk shape sub old_key unfolding sites_kept_def by blast
  then have kt: "kept program config t" using kept_frame [OF k reach] f(2,5,6) frame keys by simp
  have strict: "reached s \<noteq> reached t" if nonempty: "ch_queue t \<noteq> []"
  proof -
    obtain x where x: "x \<in> set (ch_queue t)" using nonempty by (cases "ch_queue t") auto
    then obtain pc nx where m: "(pc, nx) \<in> set sites'" "x \<in> set (ps_targets nx)" "x \<notin> ch_visited s"
      unfolding f(4) new_targets_def by (auto simp: unvisited_def split: if_splits)
    then have "x \<in> reached t" using sub by blast
    then show ?thesis using vs m(3) by auto
  qed
  have tt: "targets_of t pc = set (ps_targets nx)" if "(pc, nx) \<in> set sites'" for pc nx
    using targets_of_mem [OF \<open>sites_kept t\<close>, of pc nx] that f(2) by simp
  have ts: "targets_of s pc = set (ps_targets site)" if "(pc, site) \<in> set (ch_pc_index_sites s)" for pc site
    using targets_of_mem [OF sk that] .
  have mono: "targets_of s pc \<subseteq> targets_of t pc" if "ch_invalidated t = {}" for pc
  proof (cases "map_of (ch_pc_index_sites s) pc")
    case None
    then show ?thesis by (simp add: targets_of_def)
  next
    case (Some site)
    then have m: "(pc, site) \<in> set (ch_pc_index_sites s)" by (rule map_of_SomeD)
    show ?thesis
    proof (rule recovered_mem_old [OF r m])
      fix nx assume z: "((pc, site), pc, nx) \<in> set (zip (ch_pc_index_sites s) sites')" "(pc, nx) \<in> set sites'"
        "site_step (recovery_graph program s) config pinned pc site nx"
      have "pc \<notin> pinned \<Longrightarrow> \<not> lost site nx" using that z(1) f(3) by (auto simp: losses_def)
      moreover have "pc \<in> pinned \<Longrightarrow> ps_targets site = []" using site_step_shape [OF sk p m z(3)] by blast
      moreover have "ps_outcome site \<noteq> Outcome_resolved \<Longrightarrow> ps_targets site = []" using sk m unfolding sites_kept_def by blast
      ultimately show ?thesis unfolding ts [OF m] tt [OF z(2)] by (cases "pc \<in> pinned") (auto simp: lost_def)
    qed
  qed
  have grow: "targets_of s \<noteq> targets_of t" if "changed"
  proof -
    obtain pc site nx where z: "((pc, site), pc, nx) \<in> set (zip (ch_pc_index_sites s) sites')" "ps_targets nx \<noteq> ps_targets site"
      using \<open>changed\<close> f(1) by (auto simp: target_change_def)
    have m: "(pc, site) \<in> set (ch_pc_index_sites s)" "(pc, nx) \<in> set sites'" using z(1) by (auto dest: set_zip_leftD set_zip_rightD)
    have "sorted (ps_targets site)" "distinct (ps_targets site)" using sk m(1) unfolding sites_kept_def by blast+
    then have "set (ps_targets nx) \<noteq> set (ps_targets site)" using z(2) shape [OF m(2)] sorted_distinct_set_unique by blast
    then show ?thesis using ts [OF m(1)] tt [OF m(2)] by metis
  qed
  have "pinned_empty pinned t" unfolding pinned_empty_def
  proof
    fix pc assume pc: "pc \<in> pinned"
    show "targets_of t pc = {}"
    proof (cases "map_of sites' pc")
      case None
      then show ?thesis by (simp add: targets_of_def f(2))
    next
      case (Some nx)
      then have "(pc, nx) \<in> set sites'" by (rule map_of_SomeD)
      then show ?thesis using tt shape pc by simp
    qed
  qed
  then show ?thesis using kt reach strict mono grow by blast
qed

section \<open>The fixed point\<close>

text \<open>Every resolved site has its targets from a proof on the graph of the state itself.\<close>

definition proved :: "FrontendProgram \<Rightarrow> GenesisReachabilityChallengerConfig \<Rightarrow> challenger_state \<Rightarrow> bool" where
  "proved program config s \<longleftrightarrow> (\<forall>pc site. (pc, site) \<in> set (ch_pc_index_sites s) \<longrightarrow> ps_outcome site = Outcome_resolved \<longrightarrow>
     (\<exists>decoded out entries entries'. map_of (ch_instructions s) pc = Some decoded \<and>
        resolve_pc_index_site decoded pc (recovery_graph program s) (cf_pc_index_width_domains config) entries = Some (out, entries') \<and>
        ps_outcome out = Outcome_resolved \<and> ps_targets site = ps_targets out))"

definition settled :: "FrontendProgram \<Rightarrow> GenesisReachabilityChallengerConfig \<Rightarrow> challenger_state \<Rightarrow> bool" where
  "settled program config s \<longleftrightarrow> kept program config s \<and> ch_queue s = [] \<and>
     (ch_continuations_enabled s \<longrightarrow> set (ch_call_continuations s) \<subseteq> ch_visited s) \<and>
     (\<not> ch_continuations_enabled s \<longrightarrow> ch_rts_sites s \<subseteq> genesis_push_window_rts (ch_instructions s) \<and>
        (normal_resumption config \<longrightarrow> ch_rtr_sites s = {})) \<and>
     (normal_resumption config \<and> ch_rte_sites s \<noteq> {} \<longrightarrow> set (ch_exception_continuations s) \<subseteq> ch_visited s) \<and>
     proved program config s"

lemma dynamic_edges_same:
  "list_all2 (\<lambda>(pc, site) (pc', nx). pc' = pc \<and> ps_targets nx = ps_targets site \<and>
     (ps_outcome nx = Outcome_resolved \<longleftrightarrow> ps_outcome site = Outcome_resolved)) sites sites' \<Longrightarrow>
   dynamic_edges sites' = dynamic_edges sites"
  unfolding dynamic_edges_def by (induction rule: list_all2_induct) (auto split: if_splits)

lemma list_all2_mp_zip:
  "list_all2 P xs ys \<Longrightarrow> (\<And>x y. (x, y) \<in> set (zip xs ys) \<Longrightarrow> P x y \<Longrightarrow> Q x y) \<Longrightarrow> list_all2 Q xs ys"
  by (auto simp: list_all2_iff)

lemma recover_proved:
  assumes k: "kept program config s" and p: "pinned_empty pinned s" and q: "ch_queue s = []" and inv: "ch_invalidated s = {}"
    and run: "recover program config pinned s = Some (False, t)"
  shows "proved program config t"
proof (rule recover_frame [OF run inv q])
  fix sites'
  assume r: "recovered (recovery_graph program s) config pinned (ch_pc_index_sites s) sites'"
    and f: "False = target_change pinned (ch_pc_index_sites s) sites'" "ch_pc_index_sites t = sites'"
      "ch_instructions t = ch_instructions s" "ch_roots t = ch_roots s"
      "ch_call_continuations t = ch_call_continuations s" "ch_exception_continuations t = ch_exception_continuations s"
      "ch_pushed_code_addresses t = ch_pushed_code_addresses s"
  note sk = k [unfolded kept_def, THEN conjunct2, THEN conjunct2, THEN conjunct1]
  have same: "ps_targets nx = ps_targets site \<and> (ps_outcome nx = Outcome_resolved \<longleftrightarrow> ps_outcome site = Outcome_resolved)"
    if z: "((pc, site), (pc, nx)) \<in> set (zip (ch_pc_index_sites s) sites')" "site_step (recovery_graph program s) config pinned pc site nx"
    for pc site nx
  proof -
    have m: "(pc, site) \<in> set (ch_pc_index_sites s)" using z(1) by (rule set_zip_leftD)
    have "ps_outcome site = Outcome_resolved \<longleftrightarrow> ps_targets site \<noteq> []" using sk m unfolding sites_kept_def by blast
    moreover note site_step_shape [OF sk p m z(2)]
    moreover have "pc \<notin> pinned \<Longrightarrow> ps_targets nx = ps_targets site" using f(1) z(1) by (auto simp: target_change_def)
    ultimately show ?thesis by metis
  qed
  have "list_all2 (\<lambda>(pc, site) (pc', nx). pc' = pc \<and> ps_targets nx = ps_targets site \<and>
     (ps_outcome nx = Outcome_resolved \<longleftrightarrow> ps_outcome site = Outcome_resolved)) (ch_pc_index_sites s) sites'"
    using r unfolding recovered_def by (rule list_all2_mp_zip) (use same in auto)
  then have "recovery_graph program t = recovery_graph program s"
    using dynamic_edges_same unfolding recovery_graph_def f(2-7) by simp
  then show ?thesis unfolding proved_def f(2,3)
  proof (intro allI impI)
    fix pc nx assume g: "recovery_graph program t = recovery_graph program s"
      and m: "(pc, nx) \<in> set sites'" "ps_outcome nx = Outcome_resolved"
    obtain site where z: "((pc, site), (pc, nx)) \<in> set (zip (ch_pc_index_sites s) sites')" "(pc, site) \<in> set (ch_pc_index_sites s)"
      "site_step (recovery_graph program s) config pinned pc site nx" using recovered_mem [OF r m(1)] .
    have "pc \<notin> pinned" using site_step_shape [OF sk p z(2,3)] m(2) by auto
    then show "\<exists>decoded out entries entries'. map_of (ch_instructions s) pc = Some decoded \<and>
        resolve_pc_index_site decoded pc (recovery_graph program t) (cf_pc_index_width_domains config) entries = Some (out, entries') \<and>
        ps_outcome out = Outcome_resolved \<and> ps_targets nx = ps_targets out"
    proof -
      assume "pc \<notin> pinned"
      then obtain decoded out entries entries' where o: "ig_instructions (recovery_graph program s) pc = Some decoded"
        "resolve_pc_index_site decoded pc (recovery_graph program s) (cf_pc_index_width_domains config) entries = Some (out, entries')"
        "nx = out\<lparr>ps_first_round := ps_first_round site\<rparr>" using z(3) unfolding site_step_def by auto
      have "map_of (ch_instructions s) pc = Some decoded" using o(1) by (simp add: recovery_graph_def)
      moreover have "ps_outcome out = Outcome_resolved" "ps_targets nx = ps_targets out" using o(3) m(2) by simp_all
      ultimately show ?thesis using o(2) unfolding g by blast
    qed
  qed
qed

lemma enable_fields:
  "ch_queue (enable_continuations config s) = ch_queue s" "reached (enable_continuations config s) = reached s"
  "targets_of (enable_continuations config s) = targets_of s" "ch_invalidated (enable_continuations config s) = ch_invalidated s"
  "ch_visited (enable_continuations config s) = ch_visited s"
  "\<not> ch_continuations_enabled (enable_continuations config s) \<Longrightarrow>
     ch_rts_sites (enable_continuations config s) \<subseteq> genesis_push_window_rts (ch_instructions (enable_continuations config s)) \<and>
     (normal_resumption config \<longrightarrow> ch_rtr_sites (enable_continuations config s) = {})"
  by (cases "ch_continuations_enabled s"; auto simp: enable_continuations_def reached_def targets_of_def fun_eq_iff)+

lemma enable_kept: "kept program config s \<Longrightarrow> kept program config (enable_continuations config s)"
proof (rule kept_frame [of program config s])
  assume k: "kept program config s"
  show "sites_kept (enable_continuations config s)"
    by (rule sites_kept_frame [of s], use k in \<open>simp add: kept_def\<close>, simp_all add: enable_fields)
      (simp_all add: enable_continuations_def)
qed (simp_all add: enable_fields, simp_all add: enable_continuations_def)

lemma resumed_empty:
  assumes "resumed config s = []"
  shows "ch_continuations_enabled s \<Longrightarrow> set (ch_call_continuations s) \<subseteq> ch_visited s"
    and "normal_resumption config \<and> ch_rte_sites s \<noteq> {} \<Longrightarrow> set (ch_exception_continuations s) \<subseteq> ch_visited s"
  using assms unfolding resumed_def unvisited_def by (auto simp: filter_empty_conv split: if_splits)

lemma resumed_new: "kept program config s \<Longrightarrow> t \<in> set (resumed config s) \<Longrightarrow> t \<notin> ch_visited s \<and> t AND bus_mask = t"
  unfolding resumed_def unvisited_def kept_def continuations_on_bus_def by (auto split: if_splits)

definition ready :: "FrontendProgram \<Rightarrow> GenesisReachabilityChallengerConfig \<Rightarrow> u32 set \<Rightarrow> challenger_state \<Rightarrow> bool" where
  "ready program config pinned s \<longleftrightarrow> kept program config s \<and> pinned_empty pinned s \<and> ch_invalidated s = {} \<and>
     (cf_pc_index_recovery config \<or> (\<forall>pc. targets_of s pc = {}))"

text \<open>A pass goes on with less left to do, or it ends at a fixed point or with an invalidated proof.\<close>

lemma run_pass_result:
  assumes "ready program config pinned s"
  shows "case run_pass program config pinned s of
      None \<Rightarrow> False
    | Some (Go_on t) \<Rightarrow> ready program config pinned t \<and> remaining t < remaining s
    | Some (Finished t) \<Rightarrow> ch_invalidated t \<inter> pinned = {} \<and> (ch_invalidated t = {} \<longrightarrow> settled program config t)"
proof -
  let ?d = "drain program config s"
  let ?s = "enable_continuations config ?d"
  have r: "kept program config s" "pinned_empty pinned s" "ch_invalidated s = {}"
    "cf_pc_index_recovery config \<or> (\<forall>pc. targets_of s pc = {})" using assms by (auto simp: ready_def)
  have d: "kept program config ?d" "later s ?d" "ch_queue ?d = []" using drain_kept [OF r(1)] by auto
  have k: "kept program config ?s" using enable_kept [OF d(1)] .
  have q: "ch_queue ?s = []" "ch_invalidated ?s = {}" "targets_of ?s = targets_of s" "reached s \<subseteq> reached ?s"
    using d(2,3) r(3) by (auto simp: enable_fields later_def)
  have p: "pinned_empty pinned ?s" using r(2) q(3) by (simp add: pinned_empty_def)
  have vs: "reached ?s = ch_visited ?s" using q(1) by (simp add: reached_def)
  have le: "remaining ?s \<le> remaining s" using remaining_mono [OF q(4)] q(3) by simp
  show ?thesis
  proof (cases "resumed config ?s = []")
    case False
    let ?t = "?s\<lparr>ch_queue := ch_queue ?s @ resumed config ?s, ch_rounds := ch_rounds ?s + 1\<rparr>"
    obtain x where x: "x \<in> set (resumed config ?s)" using False by (cases "resumed config ?s") auto
    have t: "reached ?s \<subseteq> reached ?t" "targets_of ?t = targets_of ?s" by (auto simp: reached_def targets_of_def fun_eq_iff)
    have "x \<in> reached ?t" "x \<notin> reached ?s" using resumed_new [OF k x] x unfolding vs by (auto simp: reached_def image_iff intro!: bexI [of _ x])
    then have "reached ?s \<subset> reached ?t" using t(1) by blast
    then have "remaining ?t < remaining ?s" using remaining_reached t(2) by simp
    moreover have "kept program config ?t"
      using kept_frame [OF k t(1)] sites_kept_frame [of ?s ?t] t(1) k by (simp add: kept_def)
    ultimately have "ready program config pinned ?t \<and> remaining ?t < remaining s"
      using le p q(2,3) r(4) t(2) by (simp add: ready_def pinned_empty_def)
    moreover have "run_pass program config pinned s = Some (Go_on ?t)" using False by (simp add: run_pass_def Let_def)
    ultimately show ?thesis by simp
  next
    case True
    have base: "(ch_continuations_enabled ?s \<longrightarrow> set (ch_call_continuations ?s) \<subseteq> ch_visited ?s) \<and>
       (\<not> ch_continuations_enabled ?s \<longrightarrow> ch_rts_sites ?s \<subseteq> genesis_push_window_rts (ch_instructions ?s) \<and>
          (normal_resumption config \<longrightarrow> ch_rtr_sites ?s = {})) \<and>
       (normal_resumption config \<and> ch_rte_sites ?s \<noteq> {} \<longrightarrow> set (ch_exception_continuations ?s) \<subseteq> ch_visited ?s)"
      using resumed_empty [OF True] enable_fields(6) [of config ?d] by blast
    show ?thesis
    proof (cases "cf_pc_index_recovery config")
      case False
      have "proved program config ?s" unfolding proved_def
      proof (intro allI impI)
        fix pc site assume m: "(pc, site) \<in> set (ch_pc_index_sites ?s)" "ps_outcome site = Outcome_resolved"
        have "targets_of ?s pc = {}" using False r(4) q(3) by simp
        then have "ps_targets site = []" using targets_of_mem [OF _ m(1)] k by (simp add: kept_def)
        then show "\<exists>decoded out entries entries'. map_of (ch_instructions ?s) pc = Some decoded \<and>
          resolve_pc_index_site decoded pc (recovery_graph program ?s) (cf_pc_index_width_domains config) entries = Some (out, entries') \<and>
          ps_outcome out = Outcome_resolved \<and> ps_targets site = ps_targets out"
          using k m unfolding kept_def sites_kept_def by metis
      qed
      then have "settled program config ?s" using k q(1) base unfolding settled_def by blast
      then show ?thesis using True False q(2) by (simp add: run_pass_def Let_def)
    next
      case rec: True
      obtain changed t where u: "recover program config pinned ?s = Some (changed, t)" using recover_total [OF k] by blast
      note R = recover_kept [OF k p q(1,2) u]
      show ?thesis
      proof (cases "ch_invalidated t = {}")
        case False
        have "ch_invalidated t \<inter> pinned = {}" by (rule recover_frame [OF u q(2,1)]) (auto simp: losses_def)
        then show ?thesis using True rec u False by (simp add: run_pass_def Let_def)
      next
        case inv: True
        show ?thesis
        proof (cases "\<not> changed \<and> ch_queue t = []")
          case stop: True
          have "proved program config t" using recover_proved [OF k p q(1,2)] u stop by simp
          moreover have "(ch_continuations_enabled t \<longrightarrow> set (ch_call_continuations t) \<subseteq> ch_visited t) \<and>
             (\<not> ch_continuations_enabled t \<longrightarrow> ch_rts_sites t \<subseteq> genesis_push_window_rts (ch_instructions t) \<and>
                (normal_resumption config \<longrightarrow> ch_rtr_sites t = {})) \<and>
             (normal_resumption config \<and> ch_rte_sites t \<noteq> {} \<longrightarrow> set (ch_exception_continuations t) \<subseteq> ch_visited t)"
            by (rule recover_frame [OF u q(2,1)]) (use base in simp)
          ultimately have "settled program config t" using R stop unfolding settled_def by blast
          then show ?thesis using True rec u stop inv by (simp add: run_pass_def Let_def)
        next
          case go: False
          let ?t = "t\<lparr>ch_recovery_round := ch_recovery_round t + 1, ch_recovery_rounds := ch_recovery_rounds t + 1\<rparr>"
          have f: "reached ?t = reached t" "targets_of ?t = targets_of t" by (auto simp: reached_def targets_of_def fun_eq_iff)
          have mono: "reached ?s \<subseteq> reached t" "\<And>pc. targets_of ?s pc \<subseteq> targets_of t pc" using R inv by auto
          have "remaining t < remaining ?s"
          proof (cases changed)
            case True
            then have "targets_of ?s \<noteq> targets_of t" using R inv by blast
            then obtain x where "targets_of ?s x \<noteq> targets_of t x" by (auto simp: fun_eq_iff)
            then show ?thesis by (rule remaining_targets [OF mono])
          next
            case False
            then have "reached ?s \<subset> reached t" using R go mono(1) by blast
            then show ?thesis by (rule remaining_reached [OF _ mono(2)])
          qed
          moreover have "remaining ?t = remaining t" unfolding remaining_def f ..
          moreover have "kept program config ?t"
          proof (rule kept_frame [of program config t])
            show kt: "kept program config t" using R by blast
            show "sites_kept ?t" by (rule sites_kept_frame [of t]) (use kt in \<open>simp_all add: kept_def reached_def\<close>)
          qed (simp_all add: reached_def)
          ultimately have "ready program config pinned ?t \<and> remaining ?t < remaining s"
            using le R inv rec f(2) by (simp add: ready_def pinned_empty_def)
          then show ?thesis using True rec u go inv by (auto simp: run_pass_def Let_def)
        qed
      qed
    qed
  qed
qed


lemma ready_init: "ready program config pinned (challenger_init program)"
proof -
  let ?s = "challenger_init program"
  have "set (ch_roots ?s) \<subseteq> reached ?s"
  proof
    fix x assume "x \<in> set (ch_roots ?s)"
    then have x: "x \<in> set (gr_roots (genesis_reachability_roots program))" by (simp add: challenger_init_def Let_def)
    then have "x = x AND bus_mask" using roots_on_bus [OF x] by simp
    then show "x \<in> reached ?s" using x by (auto simp: reached_def challenger_init_def Let_def)
  qed
  then show ?thesis
    by (auto simp: ready_def kept_def explored_def continuations_on_bus_def sites_kept_def pinned_empty_def targets_of_def
        challenger_init_def Let_def)
qed

lemma run_rounds_result:
  "ready program config pinned s \<Longrightarrow> remaining s < n \<Longrightarrow>
   \<exists>t. run_rounds n program config pinned s = Some t \<and> ch_invalidated t \<inter> pinned = {} \<and>
     (ch_invalidated t = {} \<longrightarrow> settled program config t)"
proof (induction n arbitrary: s)
  case (Suc n)
  note R = run_pass_result [OF Suc.prems(1)]
  show ?case
  proof (cases "run_pass program config pinned s")
    case None
    then show ?thesis using R by simp
  next
    case (Some p)
    then show ?thesis using R Suc.IH Suc.prems(2) by (cases p) auto
  qed
qed simp

text \<open>The classification at the end keeps what was discovered.\<close>

definition same_discovery :: "challenger_state \<Rightarrow> challenger_state \<Rightarrow> bool" where
  "same_discovery s t \<longleftrightarrow> ch_instructions t = ch_instructions s \<and> ch_visited t = ch_visited s \<and> ch_discovered t = ch_discovered s \<and>
     ch_odd t = ch_odd s \<and> ch_unmapped t = ch_unmapped s \<and> ch_rejected t = ch_rejected s \<and> ch_roots t = ch_roots s \<and>
     ch_call_continuations t = ch_call_continuations s \<and> ch_exception_continuations t = ch_exception_continuations s \<and>
     ch_pushed_code_addresses t = ch_pushed_code_addresses s \<and> ch_pc_index_sites t = ch_pc_index_sites s \<and>
     ch_invalidated t = ch_invalidated s"

lemma classify_resolved_same: "same_discovery s (foldl (\<lambda>s (pc, site).
        let family = (if ps_call site then Fam_call_pc_index else Fam_jump_pc_index) in
        s\<lparr>ch_sites := (ch_sites s)(family := ch_sites s family - {pc}),
          ch_recovered_targets := ch_recovered_targets s \<union> set (ps_targets site)\<rparr>) s xs)"
  by (induction xs arbitrary: s) (auto simp: same_discovery_def Let_def)

lemma finish_same: "same_discovery s (finish_run s)"
  using classify_resolved_same [of "classify_push_windows s" "resolved_sites (classify_push_windows s)"]
  by (simp add: finish_run_def classify_resolved_def classify_push_windows_def same_discovery_def Let_def)

lemma run_once_result:
  "\<exists>t. run_once pass_fuel program config pinned = Some t \<and> ch_invalidated t \<inter> pinned = {} \<and>
     (ch_invalidated t = {} \<longrightarrow> (\<exists>s. settled program config s \<and> same_discovery s t))"
proof -
  obtain s where s: "run_rounds pass_fuel program config pinned (challenger_init program) = Some s"
    "ch_invalidated s \<inter> pinned = {}" "ch_invalidated s = {} \<longrightarrow> settled program config s"
    using run_rounds_result [OF ready_init remaining_bound] by blast
  have "ch_invalidated (finish_run s) = ch_invalidated s" using finish_same [of s] by (simp add: same_discovery_def)
  then show ?thesis using s finish_same [of s] unfolding run_once_def by auto
qed


text \<open>Every restart pins sites that were not pinned.\<close>

lemma run_restarts_result:
  "card (- pinned) < m \<Longrightarrow>
   \<exists>t k. run_restarts pass_fuel m program config pinned restarts = Some (t, k) \<and> ch_invalidated t = {} \<and>
     (\<exists>s. settled program config s \<and> same_discovery s t)"
proof (induction m arbitrary: pinned restarts)
  case (Suc m)
  obtain t where t: "run_once pass_fuel program config pinned = Some t" "ch_invalidated t \<inter> pinned = {}"
    "ch_invalidated t = {} \<longrightarrow> (\<exists>s. settled program config s \<and> same_discovery s t)" using run_once_result [of program config pinned] by (elim exE conjE)
  show ?case
  proof (cases "ch_invalidated t = {}")
    case True
    then show ?thesis using t by simp
  next
    case False
    have "card (- (pinned \<union> ch_invalidated t)) < card (- pinned)" using False t(2) by (intro psubset_card_mono) auto
    then have "card (- (pinned \<union> ch_invalidated t)) < m" using Suc.prems by simp
    from Suc.IH [OF this, of "restarts + 1"] show ?thesis using t(1) False by simp
  qed
qed simp

lemma challenger_result:
  "\<exists>t k. run_genesis_reachability_challenger program config = Some (t, k) \<and> ch_invalidated t = {} \<and>
     (\<exists>s. settled program config s \<and> same_discovery s t)"
proof -
  have "card (UNIV :: u32 set) = 2 ^ 32" by (simp add: card_word)
  then have "card (- {} :: u32 set) < restart_fuel" unfolding restart_fuel_def Compl_empty_eq by linarith
  from run_restarts_result [OF this] show ?thesis unfolding run_genesis_reachability_challenger_def .
qed

section \<open>Executions\<close>

text \<open>
  What a run of the program may do, as far as the state \<open>s\<close> claims to know it. It starts at a root with any
  registers. An operation with a fixed successor has its effect and goes on at the next program counter, which the
  bus cuts to 24 bits. A jump or call at a resolved site goes to its even target. A return that is not a computed
  jump goes on at the continuation of any call that was executed, with any registers; under the model of
  normal resumption a return from an exception goes on after any trap that was executed.
\<close>

definition resolved_at :: "challenger_state \<Rightarrow> u32 \<Rightarrow> bool" where
  "resolved_at s pc \<longleftrightarrow> (\<exists>site. (pc, site) \<in> set (ch_pc_index_sites s) \<and> ps_outcome site = Outcome_resolved)"

definition control_at :: "GenesisReachabilityInstruction \<Rightarrow> M68kControlSuccessors" where
  "control_at i = m68k_control_successors (gi_operation i)"

definition continuation_at :: "GenesisReachabilityInstruction \<Rightarrow> u32" where
  "continuation_at i = cs_stacked_address (control_at i) AND bus_mask"

definition site_target :: "GenesisReachabilityInstruction \<Rightarrow> (nat \<Rightarrow> u32) \<Rightarrow> u32" where
  "site_target i d = pc_index_target (ir_source_ea (gi_operation i)) (d (unat (ea_index_reg (ir_source_ea (gi_operation i)))))"

inductive executes ::
  "FrontendProgram \<Rightarrow> GenesisReachabilityChallengerConfig \<Rightarrow> challenger_state \<Rightarrow> u32 \<Rightarrow> (nat \<Rightarrow> u32) \<Rightarrow> u16 \<Rightarrow> bool"
  for program config s where
  start: "pc \<in> set (gr_roots (genesis_reachability_roots program)) \<Longrightarrow> executes program config s pc d sr"
| fixed: "executes program config s pc d sr \<Longrightarrow> decoder_decode program pc = Inr i \<Longrightarrow>
    operation_effect (recovery_graph program s) (gi_operation i) d sr d' sr' \<Longrightarrow> cs_dynamic (control_at i) = Fam_none \<Longrightarrow>
    next_pc (gi_operation i) sr n = Some target \<Longrightarrow> executes program config s (target AND bus_mask) d' sr'"
| indexed: "executes program config s pc d sr \<Longrightarrow> decoder_decode program pc = Inr i \<Longrightarrow>
    operation_effect (recovery_graph program s) (gi_operation i) d sr d' sr' \<Longrightarrow> is_pc_index_site i \<Longrightarrow> resolved_at s pc \<Longrightarrow>
    ea_index_reg (ir_source_ea (gi_operation i)) < 8 \<Longrightarrow> even (site_target i d) \<Longrightarrow>
    executes program config s (site_target i d) d' sr'"
| returned: "executes program config s pc d sr \<Longrightarrow> decoder_decode program pc = Inr i \<Longrightarrow>
    cs_dynamic (control_at i) = Fam_return_from_subroutine \<Longrightarrow> pc \<notin> genesis_push_window_rts (ch_instructions s) \<Longrightarrow>
    executes program config s caller d0 sr0 \<Longrightarrow> decoder_decode program caller = Inr c \<Longrightarrow>
    cs_stacked (control_at c) = Cont_call_continuation \<Longrightarrow> executes program config s (continuation_at c) d' sr'"
| restored: "executes program config s pc d sr \<Longrightarrow> decoder_decode program pc = Inr i \<Longrightarrow> normal_resumption config \<Longrightarrow>
    cs_dynamic (control_at i) = Fam_return_restore_condition_codes \<Longrightarrow>
    executes program config s caller d0 sr0 \<Longrightarrow> decoder_decode program caller = Inr c \<Longrightarrow>
    cs_stacked (control_at c) = Cont_call_continuation \<Longrightarrow> executes program config s (continuation_at c) d' sr'"
| resumed: "executes program config s pc d sr \<Longrightarrow> decoder_decode program pc = Inr i \<Longrightarrow> normal_resumption config \<Longrightarrow>
    cs_dynamic (control_at i) = Fam_return_from_exception \<Longrightarrow>
    executes program config s trap d0 sr0 \<Longrightarrow> decoder_decode program trap = Inr c \<Longrightarrow>
    cs_stacked (control_at c) = Cont_exception_continuation \<Longrightarrow> executes program config s (continuation_at c) d' sr'"

text \<open>The edge of the graph that a fixed step takes.\<close>

lemma fixed_edge:
  assumes "next_pc op sr n = Some target" "cs_dynamic (m68k_control_successors op) = Fam_none"
  obtains kind where "(kind, target) \<in> set (cs_successors (m68k_control_successors op))" "edge_taken op (edge_kind kind) sr"
proof -
  have early: "ir_kind op \<notin> set early_kinds"
  proof
    assume e: "ir_kind op \<in> set early_kinds"
    then have "cs_dynamic (m68k_control_successors op) = Fam_unclassified"
      using transfer_kind(9) [OF e] by (auto simp: control_defs early_kinds_def)
    then show False using assms(2) by simp
  qed
  show ?thesis
  proof (cases "ir_kind op = Ir_general_branch")
    case True
    show ?thesis
    proof (cases "ir_condition op = Cond_always")
      case always: True
      then show ?thesis using that [of Succ_branch_target] assms(1) True control_transfer(1) [OF True] condition_always
        by (auto simp: next_pc_def edge_taken_def edge_kind_def)
    next
      case False
      then show ?thesis
        using that [of Succ_conditional_target] that [of Succ_conditional_fallthrough] assms(1) True control_transfer(1) [OF True]
        by (auto simp: next_pc_def edge_taken_def edge_kind_def split: if_splits)
    qed
  next
    case False
    have "target \<in> snd ` set (cs_successors (m68k_control_successors op))" by (rule successors_complete [OF early assms(1)])
    then show ?thesis using that False by (auto simp: edge_taken_def)
  qed
qed

lemma predecessor_edge:
  "(t, edge) \<in> set edges \<Longrightarrow> edge \<in> set (case predecessor_map edges t of None \<Rightarrow> [] | Some es \<Rightarrow> es)"
proof -
  assume e: "(t, edge) \<in> set edges"
  let ?es = "map snd (filter (\<lambda>(x, _). x = t) edges)"
  have m: "edge \<in> set ?es" using e by force
  then have "?es \<noteq> []" by (cases ?es) simp_all
  then have "predecessor_map edges t = Some ?es" unfolding predecessor_map_def Let_def by (rule if_not_P)
  then show ?thesis using m by simp
qed

text \<open>An execution stays inside what a settled state has visited, and inside the paths of its graph.\<close>

lemma visited_instruction:
  "settled program config s \<Longrightarrow> pc \<in> ch_visited s \<Longrightarrow> decoder_decode program pc = Inr i \<Longrightarrow>
   map_of (ch_instructions s) pc = Some i \<and> noted config s pc i"
  unfolding settled_def kept_def explored_def visit_noted_def by fastforce

lemma settled_reached: "settled program config s \<Longrightarrow> reached s = ch_visited s"
  by (simp add: settled_def reached_def)

lemma opaque_flow: "pc \<in> ig_opaque g \<Longrightarrow> flow g pc d sr"
  by (rule flow_entry) (simp add: entered_def)

lemma graph_edge:
  assumes "(t, edge) \<in> set (fixed_edges (ch_instructions s)) \<union> set (dynamic_edges (ch_pc_index_sites s))"
  shows "edge \<in> set (index_predecessors (recovery_graph program s) t)"
  using predecessor_edge [of t edge "fixed_edges (ch_instructions s) @ dynamic_edges (ch_pc_index_sites s)"] assms
  by (simp add: index_predecessors_def recovery_graph_def)

lemma call_continuation:
  assumes "settled program config s" "caller \<in> ch_visited s" "decoder_decode program caller = Inr c"
    "cs_stacked (control_at c) = Cont_call_continuation"
  shows "continuation_at c \<in> set (ch_call_continuations s)"
  using visited_instruction [OF assms(1-3)] assms(4) by (simp add: noted_def Let_def control_at_def continuation_at_def)

lemma executes_covered:
  assumes "settled program config s"
  shows "executes program config s pc d sr \<Longrightarrow> pc \<in> ch_visited s \<and> flow (recovery_graph program s) pc d sr"
proof (induction rule: executes.induct)
  case (start pc d sr)
  have "pc \<in> set (ch_roots s)" "set (ch_roots s) \<subseteq> reached s" using assms start by (auto simp: settled_def kept_def)
  then show ?case using settled_reached [OF assms] by (auto intro!: opaque_flow simp: recovery_graph_def)
next
  case (fixed pc d sr i d' sr' n target)
  have m: "map_of (ch_instructions s) pc = Some i" "noted config s pc i" using visited_instruction [OF assms] fixed by auto
  obtain kind where e: "(kind, target) \<in> set (cs_successors (m68k_control_successors (gi_operation i)))"
    "edge_taken (gi_operation i) (edge_kind kind) sr" using fixed_edge fixed(4,5) unfolding control_at_def by metis
  let ?edge = "\<lparr>ed_from = pc, ed_kind = edge_kind kind\<rparr>"
  have "target AND bus_mask \<in> set (successor_targets (gi_operation i))" using e(1) by (force simp: successor_targets_def)
  then have v: "target AND bus_mask \<in> ch_visited s" using m(2) settled_reached [OF assms] by (auto simp: noted_def Let_def)
  have "(target AND bus_mask, ?edge) \<in> set (fixed_edges (ch_instructions s))"
    unfolding fixed_edges_def using map_of_SomeD [OF m(1)] e(1) by force
  then have "?edge \<in> set (index_predecessors (recovery_graph program s) (target AND bus_mask))" by (intro graph_edge) blast
  moreover have "ig_instructions (recovery_graph program s) pc = Some i" using m(1) by (simp add: recovery_graph_def)
  moreover have "flow (recovery_graph program s) pc d sr" using fixed.IH by blast
  ultimately have "flow (recovery_graph program s) (target AND bus_mask) d' sr'"
    using flow_edge [of "recovery_graph program s" ?edge d sr i "target AND bus_mask" d' sr'] fixed(3,4) e(2) by simp
  then show ?case using v by blast
next
  case (indexed pc d sr i d' sr')
  obtain site where site: "(pc, site) \<in> set (ch_pc_index_sites s)" "ps_outcome site = Outcome_resolved"
    using indexed(5) by (auto simp: resolved_at_def)
  have m: "map_of (ch_instructions s) pc = Some i" using visited_instruction [OF assms] indexed by auto
  obtain out entries entries' where r: "resolve_pc_index_site i pc (recovery_graph program s) (cf_pc_index_width_domains config) entries
      = Some (out, entries')" "ps_outcome out = Outcome_resolved" "ps_targets site = ps_targets out"
    using assms site m unfolding settled_def proved_def by (metis option.inject)
  have t: "site_target i d \<in> set (ps_targets site)"
    using resolved_target [OF r(1,2)] indexed unfolding site_target_def r(3) by blast
  have v: "site_target i d \<in> ch_visited s"
    using t site assms settled_reached [OF assms] unfolding settled_def kept_def sites_kept_def by blast
  let ?edge = "\<lparr>ed_from = pc, ed_kind = Edge_dynamic\<rparr>"
  have "(site_target i d, ?edge) \<in> set (dynamic_edges (ch_pc_index_sites s))"
    unfolding dynamic_edges_def using site t by force
  then have "?edge \<in> set (index_predecessors (recovery_graph program s) (site_target i d))" by (intro graph_edge) blast
  moreover have "ig_instructions (recovery_graph program s) pc = Some i" using m by (simp add: recovery_graph_def)
  moreover have "flow (recovery_graph program s) pc d sr" using indexed.IH by blast
  ultimately have "flow (recovery_graph program s) (site_target i d) d' sr'"
    using flow_edge [of "recovery_graph program s" ?edge d sr i "site_target i d" d' sr'] indexed(3,4) by (simp add: edge_taken_def)
  then show ?case using v by blast
next
  case (returned pc d sr i caller d0 sr0 c d' sr')
  have "pc \<in> ch_rts_sites s" using visited_instruction [OF assms] returned by (auto simp: noted_def Let_def control_at_def)
  then have "ch_continuations_enabled s" using assms returned(4) unfolding settled_def by blast
  moreover have c: "continuation_at c \<in> set (ch_call_continuations s)" using call_continuation [OF assms] returned by blast
  ultimately show ?case using assms by (auto simp: settled_def recovery_graph_def intro!: opaque_flow)
next
  case (restored pc d sr i caller d0 sr0 c d' sr')
  have "pc \<in> ch_rtr_sites s" using visited_instruction [OF assms] restored by (auto simp: noted_def Let_def control_at_def)
  then have "ch_continuations_enabled s" using assms restored(3) unfolding settled_def by blast
  moreover have c: "continuation_at c \<in> set (ch_call_continuations s)" using call_continuation [OF assms] restored by blast
  ultimately show ?case using assms by (auto simp: settled_def recovery_graph_def intro!: opaque_flow)
next
  case (resumed pc d sr i trap d0 sr0 c d' sr')
  have "pc \<in> ch_rte_sites s" using visited_instruction [OF assms] resumed by (auto simp: noted_def Let_def control_at_def)
  then have "set (ch_exception_continuations s) \<subseteq> ch_visited s" using assms resumed(3) unfolding settled_def by blast
  moreover have "continuation_at c \<in> set (ch_exception_continuations s)"
    using visited_instruction [OF assms] resumed by (auto simp: noted_def Let_def control_at_def continuation_at_def)
  ultimately show ?case by (auto simp: recovery_graph_def intro!: opaque_flow)
qed

lemma executes_same:
  assumes "same_discovery s t"
  shows "executes program config t = executes program config s"
proof -
  have g: "recovery_graph program t = recovery_graph program s" "ch_instructions t = ch_instructions s" "resolved_at t = resolved_at s"
    using assms by (auto simp: same_discovery_def recovery_graph_def resolved_at_def fun_eq_iff)
  have "executes program config u pc d sr \<Longrightarrow> recovery_graph program v = recovery_graph program u \<Longrightarrow>
      ch_instructions v = ch_instructions u \<Longrightarrow> resolved_at v = resolved_at u \<Longrightarrow> executes program config v pc d sr" for u v pc d sr
    by (induction rule: executes.induct) (auto intro: executes.intros)
  then show ?thesis using g by (intro ext iffI) metis+
qed

lemma visited_reported:
  "settled program config s \<Longrightarrow> pc \<in> ch_visited s \<Longrightarrow> pc \<in> fst ` set (ch_discovered s) \<union> ch_odd s \<union> ch_unmapped s \<union> ch_rejected s"
proof -
  assume "settled program config s" "pc \<in> ch_visited s"
  then have "visit_noted program s pc" unfolding settled_def kept_def explored_def by blast
  then show ?thesis unfolding visit_noted_def by (auto split: sum.splits DecodeFailure.splits)
qed

text \<open>
  C1. The challenger ends, for any program and any configuration, and its last result covers every execution:
  each program counter that can be reached over fixed control flow, returns to the continuations of
  executed calls and traps, and PC-indexed transfers at the sites the result reports as resolved is discovered, or
  it is reported as odd, unmapped or rejected by the decoder.
\<close>

theorem challenger_covers_execution:
  "\<exists>result restarts. run_genesis_reachability_challenger program config = Some (result, restarts) \<and>
     {pc. \<exists>d sr. executes program config result pc d sr} \<subseteq>
       fst ` set (ch_discovered result) \<union> ch_odd result \<union> ch_unmapped result \<union> ch_rejected result"
proof -
  obtain t k s where r: "run_genesis_reachability_challenger program config = Some (t, k)"
    "settled program config s" "same_discovery s t" using challenger_result by blast
  have "pc \<in> fst ` set (ch_discovered t) \<union> ch_odd t \<union> ch_unmapped t \<union> ch_rejected t" if "executes program config t pc d sr" for pc d sr
  proof -
    have "executes program config s pc d sr" using that executes_same [OF r(3)] by metis
    then have "pc \<in> ch_visited s" using executes_covered [OF r(2)] by blast
    then show ?thesis using visited_reported [OF r(2)] r(3) unfolding same_discovery_def by metis
  qed
  then show ?thesis using r(1) by blast
qed

end
