(* ===== verification/Spec2Isabelle.thy ===== *)
theory Spec2Isabelle
  imports Kosinski Sha256 Bps_Format Z80_Bounds M68k_Complete M68k_Arith M68k_Counters M68k_Shift Genesis_Challenger_Sound
begin

text \<open>
  A verification library for segarecomp, a static recompiler that turns the programs of Sega consoles into C.

  \<^bold>\<open>The program.\<close> A cartridge image comes in as bytes, perhaps as a patch of another image, and is identified by its
  digest. The analyses then decide which bytes are code: a decoder for each processor reads instructions, each
  instruction is reduced to an operation with an effect, and fixed-point computations over the effects say where
  control can go and which bytes the program may overwrite. The generated C is as right as these answers are
  complete. The library holds the analyses and the code they rest on, each component with its definitions in the
  order of the source.

  \<^bold>\<open>The theories.\<close> Sources are named relative to \<^verbatim>\<open>src/\<close>.
  \<^item> \<^verbatim>\<open>Prelude\<close>: the types \<open>u8\<close> to \<open>u64\<close>, byte strings, the lemmas that the components share.
  \<^item> \<^verbatim>\<open>Kosinski\<close>: \<^verbatim>\<open>libs/core/include/segarecomp/core/kosinski.hpp\<close>, the decoder of a Lempel-Ziv format whose
    descriptor bits are read ahead.
  \<^item> \<^verbatim>\<open>Sha256\<close>, \<^verbatim>\<open>Bps\<close>, \<^verbatim>\<open>Bps_Format\<close>: \<^verbatim>\<open>libs/media\<close>, the digest in one shot and as a stream, the checksum and the
    application of a patch; the second patch theory holds an encoder, to state the round trip against.
  \<^item> \<^verbatim>\<open>Z80_Types\<close>, \<^verbatim>\<open>Z80_Forms\<close>, \<^verbatim>\<open>Z80_Names\<close>: \<^verbatim>\<open>libs/cpu/z80/src/forms.cpp\<close>, the classification of the seven opcode
    spaces and the interned table of forms.
  \<^item> \<^verbatim>\<open>Z80_Decode\<close>, \<^verbatim>\<open>Z80_Effects\<close>, \<^verbatim>\<open>Z80_Encode\<close>: \<^verbatim>\<open>decode.cpp\<close> and \<^verbatim>\<open>effects.cpp\<close> beside it, and an assembler to state the
    round trip against.
  \<^item> \<^verbatim>\<open>Z80_Mutation\<close>, \<^verbatim>\<open>Z80_Analysis\<close>, \<^verbatim>\<open>Z80_Soundness\<close>, \<^verbatim>\<open>Z80_Report\<close>, \<^verbatim>\<open>Z80_Bounds\<close>: \<^verbatim>\<open>mutation.cpp\<close>, the abstract
    interpretation that finds the stores into code.
  \<^item> \<^verbatim>\<open>M68k_Types\<close>, \<^verbatim>\<open>M68k_Ea\<close>, \<^verbatim>\<open>M68k_Legality\<close>, \<^verbatim>\<open>M68k_Decode\<close>: \<^verbatim>\<open>libs/cpu/m68k\<close>, the instruction representation, the
    effective addresses, the partition of the operation words and the decoder, a sequence of family decoders
    that a profile selects. \<^verbatim>\<open>M68k_Decode_Safety\<close>, \<^verbatim>\<open>M68k_Opcode_Map\<close>, \<^verbatim>\<open>M68k_Fields\<close> and \<^verbatim>\<open>M68k_Complete\<close> compare it with the
    opcode map of the processor, stated on its own.
  \<^item> \<^verbatim>\<open>M68k_Alu\<close>, \<^verbatim>\<open>M68k_Arith\<close>, \<^verbatim>\<open>M68k_Shift\<close>, \<^verbatim>\<open>M68k_Counters\<close>: the evaluation functions and condition codes of
    \<^verbatim>\<open>effects.hpp\<close> and \<^verbatim>\<open>effects.cpp\<close>.
  \<^item> \<^verbatim>\<open>M68k_Ir\<close>, \<^verbatim>\<open>M68k_Control\<close>: the lifting of \<^verbatim>\<open>ir.cpp\<close>, the address rules of \<^verbatim>\<open>effective_address.cpp\<close>, the effect of every
    operation of \<^verbatim>\<open>effects.cpp\<close>, and the successors of \<^verbatim>\<open>control_successors.cpp\<close>.
  \<^item> \<^verbatim>\<open>M68k_Finite\<close>, \<^verbatim>\<open>M68k_Finite_Sound\<close>, \<^verbatim>\<open>M68k_Finite_Total\<close>: \<^verbatim>\<open>finite_register_values.cpp\<close>, what an operation does to the
    known values of a register.
  \<^item> \<^verbatim>\<open>Genesis_Program\<close>, \<^verbatim>\<open>Genesis_Evaluator\<close>, \<^verbatim>\<open>Genesis_Challenger\<close>: \<^verbatim>\<open>platforms/genesis/machine/src/reachability_challenger.cpp\<close>;
    the claims that map the image, the backward evaluation of an index register, and the run that brings
    decoder, successors and evaluation together. \<^verbatim>\<open>Genesis_Evaluator_Sound\<close>, \<^verbatim>\<open>Genesis_Discovery\<close> and
    \<^verbatim>\<open>Genesis_Challenger_Sound\<close> hold their proofs.

  \<^bold>\<open>State and errors.\<close> A class or a group of captured variables is a record, a member function a function from
  record to record. A failure is a value: a sum with the error, an option, or the outcome that the source
  stores. Machine integers are words; counters that no result compares are natural numbers. A \<^verbatim>\<open>std::map\<close> that is
  walked is a list in ascending order of the keys, one that is only looked up is a map.

  \<^bold>\<open>What the lemmas show.\<close>
  \<^item> The decompressor and the patch code keep their limits and invert their encoders; the digest is the one of
    FIPS 180-4 and the checksum the serial one.
  \<^item> The Z80 decoder agrees with the bytes it reads, at one address as over all of memory, and the report of
    the mutation analysis, where it calls itself complete, covers every store of the machine.
  \<^item> The MC68000 decoder accepts the opcode map and nothing else, its arithmetic is that of integers, and its
    shifts and counters are the step-by-step ones.
  \<^item> The successors of an operation are those of the processor. The finite values of a register cover the
    register along every path of the predecessor graph, so a resolved PC-indexed jump lists every target; and
    the result of the challenger covers every execution, with its own claims as the only premises. This is
    the composition: decoder, lifting, effects, successors, values and work list each enter through the
    theorem of its own theory.

  \<^bold>\<open>Interfaces.\<close> \<open>code_mapping\<close> is the memory that the Z80 decoder reads, met by the table of bytes; \<open>join_domain\<close> and
  \<open>widening_domain\<close> are the value domain of the mutation analysis, met by values and by states of registers;
  \<open>finite_inputs\<close> and \<open>total_inputs\<close> are what \<^verbatim>\<open>M68kFiniteValueInputs\<close>, a virtual class, owes to the transfer of an
  operation: true answers, and an answer at all. The evaluator of the challenger meets both, by induction on
  its depth, since it asks itself.

  \<^bold>\<open>Bounds and fuel.\<close> Loops that the source does not bound are functions with a measure where there is one: the work
  list of the challenger visits each of \<open>2 ^ 32\<close> program counters at most once. Elsewhere fuel counts the turns
  and a theorem shows that it is enough. The evaluator has one level more than its budget of steps, since
  each level below the first takes a step. A run has \<open>pass_fuel\<close> passes: a pass that goes on visits a new
  program counter or grows the targets of a site, of which there are \<open>2 ^ 64\<close> pairs. The restarts have
  \<open>restart_fuel\<close>: each pins a new site. The propagation of the mutation analysis runs to the limits of its
  own configuration.

  \<^bold>\<open>Premises.\<close> The executions that the challenger is held against (\<open>executes\<close>) take fixed control flow, the returns it
  models and the sites it resolves, with any memory that holds the cartridge. A trap of a kind that the
  successors do not record (CHK, the divisions) and an interrupt are taken to come back with the
  registers kept, as the edges of the source have it.

  \<^bold>\<open>Not modelled.\<close> The emitters of C text and the C runtime that the text runs on, since their meaning is that of
  another language; the whole-program discovery of \<^verbatim>\<open>static_discovery.cpp\<close> and of the Genesis front end, which the
  challenger was written to check and which is several times its size; the text of reports; the disc
  scanners, the devices, the viewers and the applications, which are input, output and user interface.
\<close>

end
